(* ===== verification/Manna_Prelude.thy ===== *)
theory Manna_Prelude
  imports Main "HOL-Library.Word" "HOL-Library.Signed_Division"
begin

text \<open>
  Shared vocabulary of the development: bytes, little-endian integers, the signed
  64-bit and 32-bit arithmetic of the C++ code written out on \<open>int\<close>, and the generic list
  lemmas that several components use.

  Conventions used everywhere:
  \<^item> \<open>unsigned char\<close> is an \<open>8 word\<close>, \<open>unsigned int\<close> and \<open>uint32_t\<close> are \<open>32 word\<close>,
    \<open>uint64_t\<close> is \<open>64 word\<close>, \<open>uint160\<close> and \<open>uint256\<close> are \<open>160 word\<close> and \<open>256 word\<close>;
  \<^item> \<open>int\<close> and \<open>int64_t\<close> are HOL \<open>int\<close>; where a sum can leave the range the two's
    complement wrap-around is written out (\<open>wrap64\<close>, \<open>wrap32\<close>);
  \<^item> a \<open>std::vector\<close> is a list.
\<close>

unbundle bit_operations_syntax

type_synonym byte = "8 word"
type_synonym bytes = "byte list"
type_synonym uint32 = "32 word"
type_synonym uint64 = "64 word"
type_synonym uint160 = "160 word"
type_synonym uint256 = "256 word"

text \<open>Facts that unfold the little-endian encodings.\<close>
named_theorems le_simps

section \<open>Fixed width signed integers\<close>

definition wrap64 :: "int \<Rightarrow> int" where
  "wrap64 x = (x + 2 ^ 63) mod 2 ^ 64 - 2 ^ 63"

definition wrap32 :: "int \<Rightarrow> int" where
  "wrap32 x = (x + 2 ^ 31) mod 2 ^ 32 - 2 ^ 31"

definition in_int64 :: "int \<Rightarrow> bool" where
  "in_int64 x \<longleftrightarrow> - (2 ^ 63) \<le> x \<and> x < 2 ^ 63"

definition in_int32 :: "int \<Rightarrow> bool" where
  "in_int32 x \<longleftrightarrow> - (2 ^ 31) \<le> x \<and> x < 2 ^ 31"

lemma wrap64_id [simp]: "in_int64 x \<Longrightarrow> wrap64 x = x"
  by (simp add: wrap64_def in_int64_def)

lemma wrap32_id [simp]: "in_int32 x \<Longrightarrow> wrap32 x = x"
  by (simp add: wrap32_def in_int32_def)

lemma in_int64_wrap64: "in_int64 (wrap64 x)"
proof -
  have "0 \<le> (x + 2 ^ 63) mod 2 ^ 64" "(x + 2 ^ 63) mod 2 ^ 64 < (2 ^ 64 :: int)"
    by simp_all
  then show ?thesis unfolding wrap64_def in_int64_def by auto
qed

section \<open>Little-endian encodings\<close>

fun le_bytes :: "nat \<Rightarrow> nat \<Rightarrow> bytes" where
  "le_bytes 0 n = []"
| "le_bytes (Suc k) n = of_nat (n mod 256) # le_bytes k (n div 256)"

fun le_val :: "bytes \<Rightarrow> nat" where
  "le_val [] = 0"
| "le_val (b # bs) = unat b + 256 * le_val bs"

lemma unat_byte_of_nat [simp]: "unat (of_nat n :: byte) = n mod 256"
  by (simp add: unat_of_nat)

lemma unat_byte_less [simp]: "unat (b :: byte) < 256"
  using unsigned_less [of b] by simp

lemma length_le_bytes [simp, le_simps]: "length (le_bytes k n) = k"
  by (induction k arbitrary: n) auto

lemma le_val_le_bytes [le_simps]: "le_val (le_bytes k n) = n mod 256 ^ k"
proof (induction k arbitrary: n)
  case 0
  then show ?case by simp
next
  case (Suc k)
  then show ?case by (simp add: mod_mult2_eq)
qed

lemma le_val_le_bytes_id [simp]: "n < 256 ^ k \<Longrightarrow> le_val (le_bytes k n) = n"
  by (simp add: le_val_le_bytes)

lemma le_val_less: "le_val bs < 256 ^ length bs"
proof (induction bs)
  case Nil
  then show ?case by simp
next
  case (Cons b bs)
  have "unat b + 256 * le_val bs < 256 + 256 * le_val bs" by simp
  also have "\<dots> = 256 * Suc (le_val bs)" by simp
  also have "\<dots> \<le> 256 * 256 ^ length bs" using Cons by (intro mult_le_mono2) simp
  finally show ?case by simp
qed

lemma le_bytes_le_val [simp, le_simps]: "le_bytes (length bs) (le_val bs) = bs"
proof (induction bs)
  case Nil
  then show ?case by simp
next
  case (Cons b bs)
  have "unat b < 256" by simp
  then have "(unat b + 256 * le_val bs) mod 256 = unat b"
    "(unat b + 256 * le_val bs) div 256 = le_val bs" by auto
  with Cons show ?case by simp
qed

lemma le_bytes_inj: "n < 256 ^ k \<Longrightarrow> m < 256 ^ k \<Longrightarrow> le_bytes k n = le_bytes k m \<Longrightarrow> n = m"
  by (metis le_val_le_bytes_id)

lemma le_val_append: "le_val (xs @ ys) = le_val xs + 256 ^ length xs * le_val ys"
  by (induction xs) (auto simp: algebra_simps)

text \<open>Numbers that fit a word are kept by the conversion.\<close>

lemma unat_of_nat_small: "n < 2 ^ LENGTH('w::len) \<Longrightarrow> unat (of_nat n :: 'w word) = n"
  by (simp add: unat_of_nat take_bit_eq_mod)

section \<open>Lists\<close>

text \<open>Prefixes, suffixes and the parts between fixed positions.\<close>

lemma take_map_nth: "k \<le> length s \<Longrightarrow> take k s = map ((!) s) [0..<k]"
  by (rule nth_equalityI) auto

lemma drop_map_nth: "drop k s = map ((!) s) [k..<length s]"
  by (rule nth_equalityI) auto

lemma split3: "s = take i s @ take k (drop i s) @ drop (i + k) s"
  by (metis append_take_drop_id drop_drop add.commute)

lemma upt_short: "[0..<Suc 0] = [0]" "[0..<2] = [0, 1]" "[0..<3] = [0, 1, 2]"
  by (simp_all add: eval_nat_numeral)

lemma take_length_append [simp]: "take (length xs) (xs @ ys) = xs"
  by simp

lemma nth_last_update: "i < length xs \<Longrightarrow> xs[i := y] ! i = y"
  by simp

text \<open>
  \<open>std::vector::resize\<close>: shortens the vector, or pads it with a default element.
\<close>

definition resize :: "nat \<Rightarrow> 'a \<Rightarrow> 'a list \<Rightarrow> 'a list" where
  "resize k d xs = (if k \<le> length xs then take k xs else xs @ replicate (k - length xs) d)"

lemma length_resize [simp]: "length (resize k d xs) = k"
  by (simp add: resize_def)

lemma nth_resize: "i < k \<Longrightarrow> resize k d xs ! i = (if i < length xs then xs ! i else d)"
  by (auto simp: resize_def nth_append)

text \<open>Removing from the back while a predicate holds (\<open>while (back bad) pop_back\<close>).\<close>

definition pop_while :: "('a \<Rightarrow> bool) \<Rightarrow> 'a list \<Rightarrow> 'a list" where
  "pop_while p xs = rev (dropWhile p (rev xs))"

lemma pop_while_Nil [simp]: "pop_while p [] = []"
  by (simp add: pop_while_def)

lemma pop_while_snoc [simp]:
  "pop_while p (xs @ [x]) = (if p x then pop_while p xs else xs @ [x])"
  by (simp add: pop_while_def)

lemma pop_while_idem [simp]: "pop_while p (pop_while p xs) = pop_while p xs"
  by (induction xs rule: rev_induct) auto

lemma pop_while_id: "(xs \<noteq> [] \<Longrightarrow> \<not> p (last xs)) \<Longrightarrow> pop_while p xs = xs"
  by (induction xs rule: rev_induct) auto

lemma last_pop_while: "pop_while p xs \<noteq> [] \<Longrightarrow> \<not> p (last (pop_while p xs))"
  by (induction xs rule: rev_induct) (auto split: if_splits)

lemma pop_while_empty_iff: "pop_while p xs = [] \<longleftrightarrow> (\<forall>x \<in> set xs. p x)"
  by (induction xs rule: rev_induct) auto

lemma length_pop_while_le: "length (pop_while p xs) \<le> length xs"
  by (induction xs rule: rev_induct) auto

lemma nth_pop_while: "i < length (pop_while p xs) \<Longrightarrow> pop_while p xs ! i = xs ! i"
proof (induction xs rule: rev_induct)
  case Nil
  then show ?case by simp
next
  case (snoc x xs)
  then show ?case
    using length_pop_while_le [of p xs] by (auto simp: nth_append split: if_splits)
qed

lemma pop_while_tail: "length (pop_while p xs) \<le> i \<Longrightarrow> i < length xs \<Longrightarrow> p (xs ! i)"
  by (induction xs rule: rev_induct) (auto simp: nth_append less_Suc_eq split: if_splits)

end
