(* ===== verification/Serialization.thy ===== *)
theory Serialization
  imports Manna_Prelude
begin

text \<open>
  \<open>src/src/serialize.h\<close>: streams, compact sizes, variable length integers and vectors.

  A stream that is read is the list of the bytes that are left; a read either throws
  \<open>std::ios_base::failure\<close> (\<open>Inl\<close>) or returns a value and the remaining bytes. What is
  written is the list of bytes appended to the stream. The locale \<open>codec\<close> is the contract every
  (un)serializer of the code is used under: what was written is read back, and nothing more
  is consumed. It is interpreted on each pair of routines below and in the later theories.
\<close>

datatype stream_error = EndOfData | SizeTooLarge

type_synonym 'a reader = "bytes \<Rightarrow> stream_error + 'a \<times> bytes"

definition rbind :: "'a reader \<Rightarrow> ('a \<Rightarrow> 'b reader) \<Rightarrow> 'b reader" where
  "rbind r f = (\<lambda>s. case r s of Inl e \<Rightarrow> Inl e | Inr (x, s') \<Rightarrow> f x s')"

definition rreturn :: "'a \<Rightarrow> 'a reader" where
  "rreturn x = (\<lambda>s. Inr (x, s))"

text \<open>\<open>READDATA\<close> of \<open>k\<close> bytes: \<open>CDataStream::read\<close> throws at the end of the data.\<close>

definition read_bytes :: "nat \<Rightarrow> bytes reader" where
  "read_bytes k s = (if length s < k then Inl EndOfData else Inr (take k s, drop k s))"

definition read_le :: "nat \<Rightarrow> nat reader" where
  "read_le k = rbind (read_bytes k) (\<lambda>bs. rreturn (le_val bs))"

lemma rbind_Inr [simp]: "r s = Inr (x, s') \<Longrightarrow> rbind r f s = f x s'"
  by (simp add: rbind_def)

lemma rbind_Inl [simp]: "r s = Inl e \<Longrightarrow> rbind r f s = Inl e"
  by (simp add: rbind_def)

lemma rreturn_app [simp]: "rreturn x s = Inr (x, s)"
  by (simp add: rreturn_def)

lemma read_bytes_append [simp]: "length bs = k \<Longrightarrow> read_bytes k (bs @ r) = Inr (bs, r)"
  by (simp add: read_bytes_def)

lemma read_le_append [simp]: "n < 256 ^ k \<Longrightarrow> read_le k (le_bytes k n @ r) = Inr (n, r)"
  by (simp add: read_le_def)

lemma read_byte_Cons [simp]: "read_le (Suc 0) (b # r) = Inr (unat b, r)"
  by (simp add: read_le_def rbind_def read_bytes_def)

section \<open>The contract of a serializer\<close>

locale codec =
  fixes enc :: "'a \<Rightarrow> bytes"
    and dec :: "'a reader"
    and ok :: "'a \<Rightarrow> bool"
  assumes dec_enc: "ok x \<Longrightarrow> dec (enc x @ r) = Inr (x, r)"
begin

lemma dec_enc_Nil: "ok x \<Longrightarrow> dec (enc x) = Inr (x, [])"
  using dec_enc [of x "[]"] by simp

lemma prefix_free:
  assumes "ok x" "ok y" "enc x @ r = enc y @ s"
  shows "x = y \<and> r = s"
proof -
  have "dec (enc x @ r) = dec (enc y @ s)" by (simp only: assms(3))
  then have "(Inr (x, r) :: stream_error + 'a \<times> bytes) = Inr (y, s)"
    by (simp only: dec_enc [OF assms(1)] dec_enc [OF assms(2)])
  then show ?thesis by simp
qed

lemma enc_inj: "ok x \<Longrightarrow> ok y \<Longrightarrow> enc x = enc y \<Longrightarrow> x = y"
  using prefix_free [of x y "[]" "[]"] by simp

end

section \<open>Compact sizes\<close>

text \<open>\<open>MAX_SIZE\<close> of serialize.h.\<close>

definition MAX_SIZE :: nat where
  "MAX_SIZE = 0x02000000"

definition GetSizeOfCompactSize :: "nat \<Rightarrow> nat" where
  "GetSizeOfCompactSize nSize =
     (if nSize < 253 then 1
      else if nSize \<le> 0xffff then 1 + 2
      else if nSize \<le> 0xffffffff then 1 + 4
      else 1 + 8)"

definition WriteCompactSize :: "nat \<Rightarrow> bytes" where
  "WriteCompactSize nSize =
     (if nSize < 253 then le_bytes 1 nSize
      else if nSize \<le> 0xffff then 253 # le_bytes 2 nSize
      else if nSize \<le> 0xffffffff then 254 # le_bytes 4 nSize
      else 255 # le_bytes 8 nSize)"

definition ReadCompactSize :: "nat reader" where
  "ReadCompactSize =
     rbind (read_le 1) (\<lambda>chSize.
     rbind (if chSize < 253 then rreturn chSize
            else if chSize = 253 then read_le 2
            else if chSize = 254 then read_le 4
            else read_le 8) (\<lambda>nSizeRet.
     if MAX_SIZE < nSizeRet then (\<lambda>s. Inl SizeTooLarge) else rreturn nSizeRet))"

lemma length_WriteCompactSize: "length (WriteCompactSize n) = GetSizeOfCompactSize n"
  by (simp add: WriteCompactSize_def GetSizeOfCompactSize_def)

lemma ReadCompactSize_tag:
  assumes "253 \<le> unat t"
    and "(if unat t = 253 then read_le 2 else if unat t = 254 then read_le 4 else read_le 8) s
         = Inr (n, r)"
  shows "ReadCompactSize (t # s) = (if MAX_SIZE < n then Inl SizeTooLarge else Inr (n, r))"
  using assms by (auto simp: ReadCompactSize_def split: if_splits)

lemma ReadCompactSize_small:
  "unat t < 253 \<Longrightarrow> ReadCompactSize (t # s) = Inr (unat t, s)"
  by (simp add: ReadCompactSize_def MAX_SIZE_def)

lemma Read_WriteCompactSize:
  assumes "n < 2 ^ 64"
  shows "ReadCompactSize (WriteCompactSize n @ r)
         = (if MAX_SIZE < n then Inl SizeTooLarge else Inr (n, r))"
proof -
  consider "n < 253" | "253 \<le> n" "n \<le> 0xffff" | "0xffff < n" "n \<le> 0xffffffff" | "0xffffffff < n"
    by linarith
  then show ?thesis
  proof cases
    case 1
    then show ?thesis
      using ReadCompactSize_small [of "of_nat n" r] by (simp add: WriteCompactSize_def MAX_SIZE_def)
  next
    case 2
    then show ?thesis
      using ReadCompactSize_tag [of 253 "le_bytes 2 n @ r" n r] by (simp add: WriteCompactSize_def)
  next
    case 3
    then show ?thesis
      using ReadCompactSize_tag [of 254 "le_bytes 4 n @ r" n r] by (simp add: WriteCompactSize_def)
  next
    case 4
    then show ?thesis
      using ReadCompactSize_tag [of 255 "le_bytes 8 n @ r" n r] assms
      by (simp add: WriteCompactSize_def)
  qed
qed

interpretation compact_size: codec WriteCompactSize ReadCompactSize "\<lambda>n. n \<le> MAX_SIZE"
  by unfold_locales (simp add: Read_WriteCompactSize MAX_SIZE_def)

section \<open>Variable length integers\<close>

text \<open>
  \<open>WriteVarInt\<close> fills a temporary buffer from its low end (\<open>varint_tmp\<close>, \<open>len\<close> is the
  index of the byte being produced) and writes the buffer backwards. \<open>n & 0x7F\<close> is
  \<open>n mod 128\<close> and \<open>(n >> 7) - 1\<close> is \<open>n div 128 - 1\<close>, for the unsigned and for the
  non-negative signed types the template is used at; a negative number passes \<open>n <= 0x7F\<close>
  at once. The reader works in the width of its result type and wraps there.
\<close>

function varint_tmp :: "int \<Rightarrow> nat \<Rightarrow> bytes" where
  "varint_tmp n len =
     (let t = of_int (n mod 128 + (if len \<noteq> 0 then 128 else 0)) in
      if n \<le> 0x7F then [t] else t # varint_tmp (n div 128 - 1) (Suc len))"
  by pat_completeness auto
termination
  by (relation "measure (\<lambda>(n, len). nat n)") auto

declare varint_tmp.simps [simp del]

definition WriteVarInt :: "int \<Rightarrow> bytes" where
  "WriteVarInt n = rev (varint_tmp n 0)"

function GetSizeOfVarInt :: "int \<Rightarrow> nat" where
  "GetSizeOfVarInt n = (if n \<le> 0x7F then 1 else Suc (GetSizeOfVarInt (n div 128 - 1)))"
  by pat_completeness auto
termination
  by (relation "measure nat") auto

declare GetSizeOfVarInt.simps [simp del]

fun read_varint :: "'w::len word \<Rightarrow> 'w word reader" where
  "read_varint n [] = Inl EndOfData"
| "read_varint n (chData # s) =
     (let n' = push_bit 7 n OR ucast (chData AND 0x7F) in
      if chData AND 0x80 \<noteq> 0 then read_varint (n' + 1) s else Inr (n', s))"

definition ReadVarInt :: "'w::len word reader" where
  "ReadVarInt = read_varint 0"

lemma byte_and_7F: "(c :: byte) AND 0x7F = of_nat (unat c mod 128)"
proof -
  have "c AND 0x7F = take_bit 7 c"
    by (simp add: take_bit_eq_mask mask_eq_exp_minus_1)
  moreover have "unat (take_bit 7 c) = unat c mod 128"
    unfolding unsigned_take_bit_eq by (simp add: take_bit_eq_mod)
  ultimately have "unat (c AND 0x7F) = unat (of_nat (unat c mod 128) :: byte)"
    by (simp add: unat_of_nat take_bit_eq_mod)
  then show ?thesis by (rule unsigned_word_eqI)
qed

lemma odd_div_128:
  assumes "x < 256"
  shows "odd (x div 128) \<longleftrightarrow> 128 \<le> (x :: nat)"
proof (cases "x < 128")
  case False
  then have "x = 128 + (x - 128)" by simp
  then obtain y where y: "x = 128 + y" by blast
  with assms have "y div 128 = 0" by simp
  moreover have "(128 + y) div 128 = 1 + y div 128" by simp
  ultimately show ?thesis using y by simp
qed simp

lemma byte_and_80: "(c :: byte) AND 0x80 \<noteq> 0 \<longleftrightarrow> 128 \<le> unat c"
proof -
  have eq: "c AND 0x80 = (if bit c 7 then 0x80 else 0)"
  proof (rule bit_word_eqI)
    fix n assume "n < LENGTH(8)"
    have "bit (2 ^ 7 :: byte) n \<longleftrightarrow> n = 7 \<and> n < 8"
      by (subst bit_exp_iff) auto
    then show "bit (c AND 0x80) n \<longleftrightarrow> bit (if bit c 7 then 0x80 else (0 :: byte)) n"
      by (auto simp: bit_and_iff)
  qed
  have "bit c 7 \<longleftrightarrow> bit (unat c) 7"
    by (simp add: bit_unsigned_iff)
  also have "\<dots> \<longleftrightarrow> odd (unat c div 2 ^ 7)"
    by (rule bit_iff_odd)
  also have "\<dots> \<longleftrightarrow> 128 \<le> unat c"
    by (simp add: odd_div_128)
  finally show ?thesis using eq by simp
qed

lemma push_bit_7_or:
  assumes "d < 128"
  shows "push_bit 7 n OR of_nat d = n * 128 + (of_nat d :: 'w::len word)"
proof -
  have "push_bit 7 n AND of_nat d = (0 :: 'w word)"
  proof (rule bit_word_eqI)
    fix m assume "m < LENGTH('w)"
    have "bit (of_nat d :: 'w word) m \<Longrightarrow> m < 7"
    proof (rule ccontr)
      assume b: "bit (of_nat d :: 'w word) m" and "\<not> m < 7"
      then have "d < 2 ^ m"
        using assms power_increasing [of 7 m "2 :: nat"] by auto
      then have "\<not> bit d m" by (simp add: bit_iff_odd)
      with b show False by (simp add: bit_of_nat_iff)
    qed
    then show "bit (push_bit 7 n AND of_nat d) m \<longleftrightarrow> bit (0 :: 'w word) m"
      by (auto simp: bit_and_iff bit_push_bit_iff)
  qed
  then show ?thesis
    by (simp add: disjunctive_add_eq_or [symmetric] push_bit_eq_mult)
qed

text \<open>One step of the reader, in arithmetic.\<close>

lemma read_varint_step:
  "read_varint (n :: 'w::len word) (c # s) =
     (let n' = n * 128 + of_nat (unat c mod 128) in
      if 128 \<le> unat c then read_varint (n' + 1) s else Inr (n', s))"
proof -
  have u: "unat (of_nat (unat c mod 128) :: byte) = unat c mod 128"
    by (simp add: unat_of_nat take_bit_eq_mod)
  have "ucast (c AND 0x7F) = (of_nat (unat (c AND 0x7F)) :: 'w word)"
    by simp
  also have "\<dots> = of_nat (unat c mod 128)"
    by (simp only: byte_and_7F u)
  finally have "push_bit 7 n OR ucast (c AND 0x7F) = n * 128 + of_nat (unat c mod 128)"
    by (simp add: push_bit_7_or)
  then show ?thesis
    by (simp only: read_varint.simps byte_and_80)
qed

text \<open>The bytes of the temporary buffer, as numbers.\<close>

lemma unat_varint_byte:
  "unat (of_int (n mod 128 + (if len \<noteq> (0 :: nat) then 128 else 0)) :: byte)
   = nat (n mod 128) + (if len \<noteq> 0 then 128 else 0)"
proof -
  have "of_int (n mod 128 + (if len \<noteq> 0 then 128 else 0))
        = (of_nat (nat (n mod 128) + (if len \<noteq> 0 then 128 else 0)) :: byte)"
    by simp
  moreover have "nat (n mod 128) + (if len \<noteq> 0 then 128 else 0) < 256"
    using pos_mod_bound [of 128 n] by auto
  ultimately show ?thesis by (simp only: unat_byte_of_nat mod_less)
qed

lemma read_varint_tmp_Suc:
  assumes "0 \<le> n"
  shows "read_varint (0 :: 'w::len word) (rev (varint_tmp n (Suc k)) @ s)
         = read_varint (of_int n + 1) s"
  using assms
proof (induction n "Suc k" arbitrary: k s rule: varint_tmp.induct)
  case (1 n)
  let ?t = "of_int (n mod 128 + 128) :: byte"
  have t: "unat ?t = nat (n mod 128) + 128"
    using unat_varint_byte [of n 1] by simp
  have step: "read_varint m (?t # s) = read_varint (m * 128 + of_int (n mod 128) + 1) s"
    for m :: "'w word"
    unfolding read_varint_step t by (simp add: Let_def)
  show ?case
  proof (cases "n \<le> 0x7F")
    case True
    with 1 have "varint_tmp n (Suc k) = [?t]" "n mod 128 = n"
      by (simp_all add: varint_tmp.simps [of n])
    then show ?thesis using step [of 0] by simp
  next
    case False
    then have "varint_tmp n (Suc k) = ?t # varint_tmp (n div 128 - 1) (Suc (Suc k))"
      by (simp add: varint_tmp.simps [of n])
    moreover have "0 \<le> n div 128 - 1" using False by simp
    note IH = 1(1) [OF refl False this]
    ultimately have "read_varint 0 (rev (varint_tmp n (Suc k)) @ s)
                     = read_varint (of_int (n div 128 - 1) + 1 :: 'w word) (?t # s)"
      by (simp only: IH rev.simps append_assoc append_Cons append_Nil)
    also have "\<dots> = read_varint (of_int (n div 128 * 128 + n mod 128) + 1) s"
      unfolding step unfolding of_int_add of_int_mult by simp
    also have "n div 128 * 128 + n mod 128 = n" by simp
    finally show ?thesis .
  qed
qed

lemma Read_WriteVarInt:
  assumes "0 \<le> n"
  shows "ReadVarInt (WriteVarInt n @ r) = Inr (of_int n :: 'w::len word, r)"
proof -
  let ?t = "of_int (n mod 128) :: byte"
  have t: "unat ?t = nat (n mod 128)"
    using unat_varint_byte [of n 0] by simp
  have lt: "nat (n mod 128) < 128"
    by (simp add: nat_less_iff)
  have step: "read_varint m (?t # r) = Inr (m * 128 + of_int (n mod 128), r)"
    for m :: "'w word"
    unfolding read_varint_step t using lt by (simp add: Let_def)
  show ?thesis
  proof (cases "n \<le> 0x7F")
    case True
    with assms have "WriteVarInt n = [?t]" "n mod 128 = n"
      by (simp_all add: WriteVarInt_def varint_tmp.simps [of n])
    then show ?thesis using step [of 0] by (simp add: ReadVarInt_def)
  next
    case False
    then have "WriteVarInt n = rev (varint_tmp (n div 128 - 1) (Suc 0)) @ [?t]"
      by (simp add: WriteVarInt_def varint_tmp.simps [of n])
    moreover have "0 \<le> n div 128 - 1" using False by simp
    ultimately have "ReadVarInt (WriteVarInt n @ r)
                     = read_varint (of_int (n div 128 - 1) + 1 :: 'w word) (?t # r)"
      by (simp add: ReadVarInt_def read_varint_tmp_Suc)
    also have "\<dots> = Inr (of_int (n div 128 * 128 + n mod 128), r)"
      unfolding step unfolding of_int_add of_int_mult by simp
    also have "n div 128 * 128 + n mod 128 = n" by simp
    finally show ?thesis .
  qed
qed

interpretation varint: codec "\<lambda>n :: 'w::len word. WriteVarInt (uint n)" ReadVarInt "\<lambda>_. True"
  by unfold_locales (simp add: Read_WriteVarInt)

lemma length_varint_tmp: "length (varint_tmp n len) = GetSizeOfVarInt n"
  by (induction n len rule: varint_tmp.induct)
    (simp add: varint_tmp.simps [of n for n] GetSizeOfVarInt.simps [of n for n])

lemma length_WriteVarInt: "length (WriteVarInt n) = GetSizeOfVarInt n"
  by (simp add: WriteVarInt_def length_varint_tmp)

text \<open>The length of the temporary buffer suffices.\<close>

lemma GetSizeOfVarInt_le: "n < 128 ^ k \<Longrightarrow> 0 < k \<Longrightarrow> GetSizeOfVarInt n \<le> k"
proof (induction k arbitrary: n)
  case 0
  then show ?case by simp
next
  case (Suc k)
  show ?case
  proof (cases "n \<le> 0x7F")
    case True
    then show ?thesis by (simp add: GetSizeOfVarInt.simps)
  next
    case False
    with Suc.prems have "k \<noteq> 0" by (cases k) auto
    moreover have "n div 128 < 128 ^ k"
      using Suc.prems by auto
    ultimately show ?thesis
      using Suc.IH [of "n div 128 - 1"] False by (subst GetSizeOfVarInt.simps) simp
  qed
qed

section \<open>Fundamental types\<close>

text \<open>
  \<open>WRITEDATA\<close> and \<open>READDATA\<close> copy the memory of the object: little-endian on the machines
  the program supports. \<open>uint160\<close> and \<open>uint256\<close> are arrays of 32-bit limbs, the low one first,
  so their bytes are those of one wide little-endian number.
\<close>

definition ser_word :: "'w::len word \<Rightarrow> bytes" where
  "ser_word w = le_bytes (LENGTH('w) div 8) (unat w)"

definition unser_word :: "'w::len word reader" where
  "unser_word = rbind (read_le (LENGTH('w) div 8)) (\<lambda>n. rreturn (of_nat n))"

definition ser_int :: "nat \<Rightarrow> int \<Rightarrow> bytes" where
  "ser_int k x = le_bytes k (nat (x mod 256 ^ k))"

definition unser_int :: "nat \<Rightarrow> int reader" where
  "unser_int k = rbind (read_le k) (\<lambda>n.
     rreturn (if 2 * n < 256 ^ k then int n else int n - 256 ^ k))"

definition int_fits :: "nat \<Rightarrow> int \<Rightarrow> bool" where
  "int_fits k x \<longleftrightarrow> - (256 ^ k) \<le> 2 * x \<and> 2 * x < 256 ^ k"

lemma int_fits_4 [simp]: "int_fits 4 x \<longleftrightarrow> in_int32 x"
  by (auto simp: int_fits_def in_int32_def)

lemma int_fits_8 [simp]: "int_fits 8 x \<longleftrightarrow> in_int64 x"
  by (auto simp: int_fits_def in_int64_def)

lemma length_ser_word [simp, le_simps]: "length (ser_word (w :: 'w::len word)) = LENGTH('w) div 8"
  by (simp add: ser_word_def)

lemma length_ser_int [simp, le_simps]: "length (ser_int k x) = k"
  by (simp add: ser_int_def)

lemma unser_ser_word:
  assumes "8 dvd LENGTH('w::len)"
  shows "unser_word (ser_word (w :: 'w word) @ r) = Inr (w, r)"
proof -
  obtain k where k: "LENGTH('w) = 8 * k" using assms ..
  have "unat w < 2 ^ (8 * k)"
    using unsigned_less [of w, where 'a = nat] by (simp add: k)
  then have "unat w < 256 ^ k" by (simp add: power_mult)
  then show ?thesis by (simp add: unser_word_def ser_word_def k)
qed

lemma unser_ser_int:
  assumes "int_fits k x"
  shows "unser_int k (ser_int k x @ r) = Inr (x, r)"
proof -
  let ?n = "nat (x mod 256 ^ k)"
  have x: "- (256 ^ k) \<le> 2 * x" "2 * x < 256 ^ k"
    using assms by (simp_all add: int_fits_def)
  have n: "?n < 256 ^ k"
    by (simp add: nat_less_iff)
  have "(if 2 * ?n < 256 ^ k then int ?n else int ?n - 256 ^ k) = x"
  proof (cases "0 \<le> x")
    case True
    with x have "x mod 256 ^ k = x" by simp
    moreover have "int (2 * nat x) < int (256 ^ k)" using True x(2) by simp
    then have "2 * nat x < 256 ^ k" by (simp only: of_nat_less_iff)
    ultimately show ?thesis using True by simp
  next
    case False
    with x have "(x + 256 ^ k) mod 256 ^ k = x + 256 ^ k" by (intro mod_pos_pos_trivial) simp_all
    then have m: "x mod 256 ^ k = x + 256 ^ k" by simp
    have "int (256 ^ k) \<le> int (2 * nat (x + 256 ^ k))"
      using x False by simp
    then have "256 ^ k \<le> 2 * nat (x + 256 ^ k)"
      by (simp only: of_nat_le_iff)
    then show ?thesis using m x False by simp
  qed
  then show ?thesis
    by (simp add: unser_int_def ser_int_def n)
qed

interpretation word_codec: codec "ser_word :: 'w::len word \<Rightarrow> bytes" unser_word "\<lambda>_. 8 dvd LENGTH('w)"
  by unfold_locales (rule unser_ser_word)

interpretation int_codec: codec "ser_int k" "unser_int k" "int_fits k" for k
  by unfold_locales (rule unser_ser_int)

section \<open>Vectors, strings and pairs\<close>

definition ser_vec :: "('a \<Rightarrow> bytes) \<Rightarrow> 'a list \<Rightarrow> bytes" where
  "ser_vec enc v = WriteCompactSize (length v) @ concat (map enc v)"

fun read_n :: "'a reader \<Rightarrow> nat \<Rightarrow> 'a list reader" where
  "read_n r 0 = rreturn []"
| "read_n r (Suc n) = rbind r (\<lambda>x. rbind (read_n r n) (\<lambda>xs. rreturn (x # xs)))"

text \<open>
  Elements that are not fundamental are read one by one; the batches of the source only bound
  how far the vector is resized before the reads.
\<close>

definition unser_vec :: "'a reader \<Rightarrow> 'a list reader" where
  "unser_vec dec = rbind ReadCompactSize (read_n dec)"

text \<open>
  A vector of bytes (also \<open>CScript\<close> and \<open>std::string\<close>) is read in blocks of at most 5000000 bytes.
\<close>

definition max_block :: nat where
  "max_block = 1 + 4999999"

function read_blocks :: "nat \<Rightarrow> bytes reader" where
  "read_blocks left =
     (if left = 0 then rreturn []
      else let blk = min left max_block in
        rbind (read_bytes blk) (\<lambda>b. rbind (read_blocks (left - blk)) (\<lambda>bs. rreturn (b @ bs))))"
  by pat_completeness auto
termination
  by (relation "measure id") (auto simp: max_block_def)

declare read_blocks.simps [simp del]

definition ser_bytes :: "bytes \<Rightarrow> bytes" where
  "ser_bytes v = WriteCompactSize (length v) @ v"

definition unser_bytes :: "bytes reader" where
  "unser_bytes = rbind ReadCompactSize read_blocks"

definition ser_pair :: "('a \<Rightarrow> bytes) \<Rightarrow> ('b \<Rightarrow> bytes) \<Rightarrow> 'a \<times> 'b \<Rightarrow> bytes" where
  "ser_pair enca encb = (\<lambda>(a, b). enca a @ encb b)"

definition unser_pair :: "'a reader \<Rightarrow> 'b reader \<Rightarrow> ('a \<times> 'b) reader" where
  "unser_pair ra rb = rbind ra (\<lambda>a. rbind rb (\<lambda>b. rreturn (a, b)))"

text \<open>Reading by blocks is one read, also when the data end too early.\<close>

lemma read_blocks_eq: "read_blocks n s = read_bytes n s"
proof (induction n arbitrary: s rule: read_blocks.induct)
  case (1 left)
  let ?b = "min left max_block"
  show ?case
  proof (cases "left = 0 \<or> length s < ?b")
    case True
    then show ?thesis
      by (subst read_blocks.simps) (auto simp: read_bytes_def rbind_def Let_def)
  next
    case False
    then have "read_blocks (left - ?b) (drop ?b s) = read_bytes (left - ?b) (drop ?b s)"
      using 1 by simp
    moreover have "take ?b s @ take (left - ?b) (drop ?b s) = take left s"
      using take_add [of ?b "left - ?b" s] by simp
    ultimately show ?thesis using False
      by (subst read_blocks.simps) (auto simp: read_bytes_def rbind_def Let_def)
  qed
qed

context codec
begin

lemma read_n_enc: "\<forall>x \<in> set v. ok x \<Longrightarrow> read_n dec (length v) (concat (map enc v) @ r) = Inr (v, r)"
  by (induction v) (simp_all add: dec_enc rbind_def)

lemma unser_ser_vec:
  "length v \<le> MAX_SIZE \<Longrightarrow> \<forall>x \<in> set v. ok x \<Longrightarrow> unser_vec dec (ser_vec enc v @ r) = Inr (v, r)"
  by (simp add: unser_vec_def ser_vec_def compact_size.dec_enc read_n_enc)

lemma ser_vec_inj:
  assumes "length v \<le> MAX_SIZE" "\<forall>x \<in> set v. ok x" "length w \<le> MAX_SIZE" "\<forall>x \<in> set w. ok x"
    and "ser_vec enc v @ r = ser_vec enc w @ s"
  shows "v = w \<and> r = s"
  using unser_ser_vec [OF assms(1,2), of r] unser_ser_vec [OF assms(3,4), of s]
  by (simp only: assms(5)) simp

end

lemma unser_ser_bytes:
  "length v \<le> MAX_SIZE \<Longrightarrow> unser_bytes (ser_bytes v @ r) = Inr (v, r)"
  by (simp add: unser_bytes_def ser_bytes_def compact_size.dec_enc read_blocks_eq)

interpretation bytes_codec: codec ser_bytes unser_bytes "\<lambda>v. length v \<le> MAX_SIZE"
  by unfold_locales (rule unser_ser_bytes)

text \<open>Two serializers in sequence.\<close>

locale codec_pair = a: codec enca deca oka + b: codec encb decb okb
  for enca :: "'a \<Rightarrow> bytes" and deca oka and encb :: "'b \<Rightarrow> bytes" and decb okb
begin

lemma unser_ser_pair:
  "oka x \<Longrightarrow> okb y \<Longrightarrow>
   unser_pair deca decb (ser_pair enca encb (x, y) @ r) = Inr ((x, y), r)"
  by (simp add: unser_pair_def ser_pair_def a.dec_enc b.dec_enc)

end

section \<open>Properties\<close>

text \<open>\<open>ReadVarInt\<close> reads back what \<open>WriteVarInt\<close> wrote of an unsigned integer of any width
  and leaves the rest of the stream; the length written is the one \<open>GetSizeOfVarInt\<close>
  announces, and it never exceeds the temporary buffer of \<open>(sizeof(n)*8+6)/7\<close> bytes.\<close>

theorem varint_roundtrip:
  "ReadVarInt (WriteVarInt (uint w) @ r) = Inr (w :: 'w::len word, r) \<and>
   length (WriteVarInt (uint w)) = GetSizeOfVarInt (uint w) \<and>
   GetSizeOfVarInt (uint w) \<le> (LENGTH('w) + 6) div 7"
proof -
  let ?k = "(LENGTH('w) + 6) div 7"
  have "uint w < 2 ^ LENGTH('w)" by (rule uint_lt2p)
  also have "\<dots> \<le> (2 :: int) ^ (7 * ?k)" by (rule power_increasing) simp_all
  also have "\<dots> = 128 ^ ?k" by (simp add: power_mult)
  finally have "GetSizeOfVarInt (uint w) \<le> ?k"
    by (rule GetSizeOfVarInt_le) (simp add: div_greater_zero_iff Suc_leI)
  then show ?thesis by (simp add: Read_WriteVarInt length_WriteVarInt)
qed

text \<open>The accumulator of \<open>ReadVarInt\<close> wraps at the width of the result: the encoding of a
  number that is too large for the type is accepted and read as its residue, so that a number
  has more than one encoding.\<close>

theorem varint_wraps:
  "ReadVarInt (WriteVarInt (uint w + 2 ^ LENGTH('w)) @ r) = Inr (w :: 'w::len word, r) \<and>
   WriteVarInt (uint w + 2 ^ LENGTH('w)) \<noteq> WriteVarInt (uint w)"
proof
  have w: "0 \<le> uint w" "uint w < 2 ^ LENGTH('w)" by simp_all
  then show "ReadVarInt (WriteVarInt (uint w + 2 ^ LENGTH('w)) @ r) = Inr (w, r)"
    using word_of_int_2p_len by (simp add: Read_WriteVarInt)
  show "WriteVarInt (uint w + 2 ^ LENGTH('w)) \<noteq> WriteVarInt (uint w)"
  proof
    assume eq: "WriteVarInt (uint w + 2 ^ LENGTH('w)) = WriteVarInt (uint w)"
    have big: "(ReadVarInt :: 'w bit0 word reader) (WriteVarInt n) = Inr (of_int n, [])" if "0 \<le> n" for n
      using Read_WriteVarInt [OF that, of "[]", where 'w = "'w bit0"] by simp
    have "(of_int (uint w + 2 ^ LENGTH('w)) :: 'w bit0 word) = of_int (uint w)"
      using big [of "uint w + 2 ^ LENGTH('w)"] big [of "uint w"] eq w by simp
    then have "(2 :: 'w bit0 word) ^ LENGTH('w) = 0" by simp
    then show False by (simp add: exp_eq_zero_iff)
  qed
qed

text \<open>A compact size is written in the announced number of bytes and read back, except that the
  reader throws for every size above \<open>MAX_SIZE\<close>.\<close>

theorem CompactSize_roundtrip:
  "ReadCompactSize (WriteCompactSize (unat (n :: uint64)) @ r) =
     (if MAX_SIZE < unat n then Inl SizeTooLarge else Inr (unat n, r)) \<and>
   length (WriteCompactSize (unat n)) = GetSizeOfCompactSize (unat n)"
  using unsigned_less [of n, where 'a = nat] by (simp add: Read_WriteCompactSize length_WriteCompactSize)

end
