(* ===== verification/BigNum.thy ===== *)
theory BigNum
  imports Serialization
begin

text \<open>
  \<open>src/src/bignum.h\<close>: the class \<open>CBigNum\<close>, a wrapper of OpenSSL's \<open>BIGNUM\<close>, and the hashes of
  \<open>src/src/hash.h\<close>.

  A \<open>BIGNUM\<close> is represented by the integer it denotes, and \<open>BN_add\<close>, \<open>BN_sub\<close>, \<open>BN_cmp\<close>,
  \<open>BN_lshift\<close> are the integer operations. The conversions of OpenSSL that
  the code relies on for consensus (\<open>BN_bn2mpi\<close>, \<open>BN_mpi2bn\<close>, \<open>BN_get_word\<close>,
  \<open>BN_num_bytes\<close>), the digests and the elliptic curve routines are not part of the
  repository: they are the fields of the record \<open>openssl\<close>, an argument of every definition
  that uses them. \<open>openssl_bn\<close> states the documented behaviour of the conversions; the record
  \<open>reference_ssl\<close> shows that it can hold.
\<close>

section \<open>The library interface\<close>

record openssl =
  SHA256 :: "bytes \<Rightarrow> bytes"
  RIPEMD160 :: "bytes \<Rightarrow> bytes"
  SHA1 :: "bytes \<Rightarrow> bytes"
  BN_bn2mpi :: "int \<Rightarrow> bytes"
  BN_mpi2bn :: "bytes \<Rightarrow> int"
  BN_get_word :: "int \<Rightarrow> uint64"
  BN_num_bytes :: "int \<Rightarrow> nat"
  EC_pubkey_valid :: "bytes \<Rightarrow> bool"
  EC_pubkey_form :: "bool \<Rightarrow> bytes \<Rightarrow> bytes"
  EC_recover :: "uint256 \<Rightarrow> bytes \<Rightarrow> int \<Rightarrow> bytes option"
  ECDSA_verify :: "bytes \<Rightarrow> uint256 \<Rightarrow> bytes \<Rightarrow> bool"

text \<open>The shortest little-endian representation of a number.\<close>

function min_bytes :: "nat \<Rightarrow> bytes" where
  "min_bytes n = (if n = 0 then [] else of_nat (n mod 256) # min_bytes (n div 256))"
  by pat_completeness auto
termination
  by (relation "measure id") auto

declare min_bytes.simps [simp del]

lemma min_bytes_0 [simp]: "min_bytes 0 = []"
  by (simp add: min_bytes.simps)

lemma min_bytes_pos: "0 < n \<Longrightarrow> min_bytes n = of_nat (n mod 256) # min_bytes (n div 256)"
  by (simp add: min_bytes.simps [of n])

lemma min_bytes_Nil_iff [simp]: "min_bytes n = [] \<longleftrightarrow> n = 0"
  by (simp add: min_bytes.simps [of n])

lemma le_val_min_bytes [simp]: "le_val (min_bytes n) = n"
  by (induction n rule: min_bytes.induct) (subst min_bytes.simps, simp)

lemma length_min_bytes_le: "length (min_bytes n) \<le> k \<longleftrightarrow> n < 256 ^ k"
proof (induction k arbitrary: n)
  case 0
  then show ?case by (simp add: min_bytes.simps [of n])
next
  case (Suc k)
  have "n div 256 < 256 ^ k \<longleftrightarrow> n < 256 ^ Suc k"
    by (simp add: div_less_iff_less_mult mult.commute)
  then show ?case using Suc [of "n div 256"]
    by (cases "n = 0") (auto simp: min_bytes_pos)
qed

lemma last_min_bytes: "0 < n \<Longrightarrow> unat (last (min_bytes n)) = n div 256 ^ (length (min_bytes n) - 1)"
proof (induction n rule: min_bytes.induct)
  case (1 n)
  show ?case
  proof (cases "n div 256 = 0")
    case True
    then have "n < 256" by simp
    with 1 True show ?thesis by (simp add: min_bytes_pos)
  next
    case False
    then obtain m where m: "length (min_bytes (n div 256)) = Suc m"
      by (metis min_bytes_Nil_iff length_0_conv not0_implies_Suc)
    with 1 False have "unat (last (min_bytes (n div 256))) = n div 256 div 256 ^ m" by simp
    with 1 False m show ?thesis by (simp add: min_bytes_pos div_mult2_eq)
  qed
qed

lemma last_min_bytes_pos: "0 < n \<Longrightarrow> 0 < unat (last (min_bytes n))"
proof (induction n rule: min_bytes.induct)
  case (1 n)
  then show ?case
    by (cases "n < 256") (auto simp: min_bytes_pos)
qed

text \<open>
  The signed magnitude representation of the \<open>mpi\<close> format, least significant byte first:
  the most significant bit of the last byte is the sign.
\<close>

definition vch_of_num :: "int \<Rightarrow> bytes" where
  "vch_of_num n = (let m = min_bytes (nat \<bar>n\<bar>); s = (if n < 0 then 128 else 0) in
     if m = [] then []
     else if 128 \<le> unat (last m) then m @ [s]
     else butlast m @ [last m + s])"

definition num_of_vch :: "bytes \<Rightarrow> int" where
  "num_of_vch v =
     (if v = [] then 0
      else let m = le_val (butlast v); t = unat (last v) in
        if 128 \<le> t then - int (m + 256 ^ (length v - 1) * (t - 128))
        else int (m + 256 ^ (length v - 1) * t))"

definition mpi_header :: "nat \<Rightarrow> bytes" where
  "mpi_header nSize = rev (le_bytes 4 nSize)"

text \<open>What OpenSSL documents of \<open>BN_bn2mpi\<close>, \<open>BN_mpi2bn\<close>, \<open>BN_get_word\<close> and \<open>BN_num_bytes\<close>.\<close>

definition openssl_bn :: "openssl \<Rightarrow> bool" where
  "openssl_bn L \<longleftrightarrow>
     (\<forall>n. BN_bn2mpi L n = mpi_header (length (vch_of_num n)) @ rev (vch_of_num n)) \<and>
     (\<forall>v. BN_mpi2bn L (mpi_header (length v) @ rev v) = num_of_vch v) \<and>
     (\<forall>n. BN_get_word L n = (if \<bar>n\<bar> < 2 ^ 64 then of_int \<bar>n\<bar> else -1)) \<and>
     (\<forall>n. BN_num_bytes L n = length (min_bytes (nat \<bar>n\<bar>)))"

text \<open>A record that satisfies it, for the witnesses. Its digests only have the right length.\<close>

definition reference_ssl :: openssl where
  "reference_ssl =
     \<lparr> SHA256 = (\<lambda>b. resize 32 0 b), RIPEMD160 = (\<lambda>b. resize 20 0 b), SHA1 = (\<lambda>b. resize 20 0 b),
       BN_bn2mpi = (\<lambda>n. mpi_header (length (vch_of_num n)) @ rev (vch_of_num n)),
       BN_mpi2bn = (\<lambda>b. num_of_vch (rev (drop 4 b))),
       BN_get_word = (\<lambda>n. if \<bar>n\<bar> < 2 ^ 64 then of_int \<bar>n\<bar> else -1),
       BN_num_bytes = (\<lambda>n. length (min_bytes (nat \<bar>n\<bar>))),
       EC_pubkey_valid = (\<lambda>pub. length pub = 33 \<or>
         length pub = 65 \<and> drop 33 pub = replicate 31 0 @ [last pub AND 1]),
       EC_pubkey_form = (\<lambda>fCompressed pub.
         if fCompressed then (0x02 OR (last pub AND 1)) # take 32 (tl pub)
         else 0x04 # take 32 (tl pub) @ replicate 31 0 @ [if length pub = 33 then hd pub - 2 else last pub]),
       EC_recover = (\<lambda>h sig rec. if rec = 0 then Some (0x02 # take 32 sig) else None),
       ECDSA_verify = (\<lambda>pub h sig. take 1 sig = take 1 pub) \<rparr>"

lemma length_mpi_header [simp]: "length (mpi_header n) = 4"
  by (simp add: mpi_header_def)

lemma openssl_bn_reference: "openssl_bn reference_ssl"
  by (simp add: openssl_bn_def reference_ssl_def)

lemma openssl_bn_simps:
  assumes "openssl_bn L"
  shows "BN_bn2mpi L n = mpi_header (length (vch_of_num n)) @ rev (vch_of_num n)"
    and "BN_mpi2bn L (mpi_header (length v) @ rev v) = num_of_vch v"
    and "BN_get_word L n = (if \<bar>n\<bar> < 2 ^ 64 then of_int \<bar>n\<bar> else -1)"
    and "BN_num_bytes L n = length (min_bytes (nat \<bar>n\<bar>))"
  using assms by (auto simp: openssl_bn_def)

lemma num_of_vch_snoc:
  "num_of_vch (v @ [b]) =
     (if 128 \<le> unat b then - int (le_val v + 256 ^ length v * (unat b - 128))
      else int (le_val v + 256 ^ length v * unat b))"
  by (simp add: num_of_vch_def Let_def)

lemma num_of_vch_sign:
  "num_of_vch (v @ [128]) = - int (le_val v)" "num_of_vch (v @ [0]) = int (le_val v)"
  by (simp_all add: num_of_vch_snoc)

lemma num_of_vch_of_num: "num_of_vch (vch_of_num n) = n"
proof (cases "n = 0")
  case True
  then show ?thesis by (simp add: vch_of_num_def num_of_vch_def)
next
  case False
  define m where "m = min_bytes (nat \<bar>n\<bar>)"
  have ne: "m \<noteq> []" using False by (simp add: m_def)
  have val: "le_val m = nat \<bar>n\<bar>" by (simp add: m_def)
  let ?s = "(if n < 0 then 128 else 0) :: byte"
  show ?thesis
  proof (cases "128 \<le> unat (last m)")
    case True
    then have "vch_of_num n = m @ [?s]"
      using ne by (simp add: vch_of_num_def m_def [symmetric] Let_def)
    then show ?thesis by (simp add: num_of_vch_snoc val)
  next
    case lt: False
    then have v: "vch_of_num n = butlast m @ [last m + ?s]"
      using ne by (simp add: vch_of_num_def m_def [symmetric] Let_def)
    have u: "unat (last m + ?s) = unat (last m) + (if n < 0 then 128 else 0)"
      using lt by (auto simp: unat_word_ariths)
    have "le_val (butlast m) + 256 ^ length (butlast m) * unat (last m) = nat \<bar>n\<bar>"
      using val le_val_append [of "butlast m" "[last m]"] ne by simp
    then show ?thesis using lt v
      by (simp only: v num_of_vch_snoc u) (auto simp flip: of_nat_power of_nat_mult of_nat_add)
  qed
qed

text \<open>Numbers below \<open>2 ^ (8 * k - 1)\<close> need at most \<open>k\<close> bytes.\<close>

lemma length_vch_of_num:
  assumes "\<bar>n\<bar> < 128 * 256 ^ k"
  shows "length (vch_of_num n) \<le> Suc k"
proof (cases "n = 0")
  case True
  then show ?thesis by (simp add: vch_of_num_def)
next
  case False
  define m where "m = min_bytes (nat \<bar>n\<bar>)"
  have b: "nat \<bar>n\<bar> < 128 * 256 ^ k" using assms by (simp add: nat_less_iff)
  then have le: "length m \<le> Suc k" by (simp add: m_def length_min_bytes_le)
  have ne: "m \<noteq> []" using False by (simp add: m_def)
  have "length m \<le> k" if "128 \<le> unat (last m)"
  proof (rule ccontr)
    assume "\<not> length m \<le> k"
    with le have "length m = Suc k" by simp
    moreover have "unat (last m) = nat \<bar>n\<bar> div 256 ^ (length m - 1)"
      using False by (simp add: m_def last_min_bytes)
    ultimately have "128 \<le> nat \<bar>n\<bar> div 256 ^ k" using that by simp
    then have "128 * 256 ^ k \<le> nat \<bar>n\<bar>" by (simp add: less_eq_div_iff_mult_less_eq)
    with b show False by simp
  qed
  then show ?thesis using le ne
    by (auto simp: vch_of_num_def Let_def m_def [symmetric])
qed

lemma abs_num_of_vch_less:
  assumes "length v \<le> Suc k"
  shows "\<bar>num_of_vch v\<bar> < 128 * 256 ^ k"
proof (cases v rule: rev_cases)
  case Nil
  then show ?thesis by (simp add: num_of_vch_def)
next
  case (snoc w b)
  define t where "t = (if 128 \<le> unat b then unat b - 128 else unat b)"
  have t: "Suc t \<le> 128"
    using unat_byte_less [of b] by (auto simp: t_def simp del: unat_byte_less)
  have "le_val w + 256 ^ length w * t < 256 ^ length w * Suc t"
    using le_val_less [of w] by simp
  also have "\<dots> \<le> 256 ^ length w * 128" using t by (rule mult_le_mono2)
  also have "\<dots> \<le> 256 ^ k * 128"
    using assms snoc by (intro mult_le_mono1 power_increasing) auto
  finally have "int (le_val w + 256 ^ length w * t) < int (256 ^ k * 128)"
    by (simp only: of_nat_less_iff)
  moreover have "\<bar>num_of_vch v\<bar> = int (le_val w + 256 ^ length w * t)"
    unfolding snoc num_of_vch_snoc t_def
    by (cases "128 \<le> unat b") (simp_all only: if_True if_False abs_minus_cancel abs_of_nat)
  ultimately show ?thesis by simp
qed

section \<open>CBigNum\<close>

text \<open>\<open>setint64\<close>, \<open>setuint64\<close>, \<open>setuint256\<close>: the loop over the bytes, the most significant first.\<close>

fun set_loop :: "bool \<Rightarrow> bool \<Rightarrow> bytes \<Rightarrow> bytes" where
  "set_loop fNegative fLeadingZeroes [] = []"
| "set_loop fNegative fLeadingZeroes (c # cs) =
     (if fLeadingZeroes then
        if c = 0 then set_loop fNegative True cs
        else if c AND 0x80 \<noteq> 0
          then (if fNegative then 0x80 else 0) # c # set_loop fNegative False cs
          else (if fNegative then c OR 0x80 else c) # set_loop fNegative False cs
      else c # set_loop fNegative False cs)"

definition mpi2bn_sized :: "openssl \<Rightarrow> bytes \<Rightarrow> int" where
  "mpi2bn_sized L p = BN_mpi2bn L (rev (le_bytes 4 (length p)) @ p)"

definition setint64 :: "openssl \<Rightarrow> int \<Rightarrow> int" where
  "setint64 L sn =
     (let fNegative = sn < 0;
          n = (if fNegative then nat (- (sn + 1)) + 1 else nat sn) in
      mpi2bn_sized L (set_loop fNegative True (rev (le_bytes 8 n))))"

definition setuint64 :: "openssl \<Rightarrow> uint64 \<Rightarrow> int" where
  "setuint64 L n = mpi2bn_sized L (set_loop False True (rev (ser_word n)))"

definition setuint256 :: "openssl \<Rightarrow> uint256 \<Rightarrow> int" where
  "setuint256 L n = mpi2bn_sized L (set_loop False True (rev (ser_word n)))"

text \<open>\<open>setvch\<close> and \<open>getvch\<close>: little-endian vectors, as the script stack has them.\<close>

definition setvch :: "openssl \<Rightarrow> bytes \<Rightarrow> int" where
  "setvch L vch = mpi2bn_sized L (rev vch)"

definition getvch :: "openssl \<Rightarrow> int \<Rightarrow> bytes" where
  "getvch L n = (let vch = BN_bn2mpi L n in if length vch \<le> 4 then [] else rev (drop 4 vch))"

text \<open>\<open>getuint64\<close> and \<open>getuint256\<close>: the low bytes of the magnitude.\<close>

definition mpi_magnitude :: "openssl \<Rightarrow> int \<Rightarrow> bytes" where
  "mpi_magnitude L n = (let vch = BN_bn2mpi L n in
     rev (drop 4 (if 4 < length vch then vch[4 := vch ! 4 AND 0x7F] else vch)))"

definition getuint64 :: "openssl \<Rightarrow> int \<Rightarrow> uint64" where
  "getuint64 L n = of_nat (le_val (take 8 (mpi_magnitude L n)))"

definition getuint256 :: "openssl \<Rightarrow> int \<Rightarrow> uint256" where
  "getuint256 L n = of_nat (le_val (take 32 (mpi_magnitude L n)))"

definition getint :: "openssl \<Rightarrow> int \<Rightarrow> int" where
  "getint L bn = (let n = BN_get_word L bn in
     if \<not> bn < 0 then (if n > 2147483647 then 2147483647 else uint n)
     else (if n > 2147483647 then -2147483648 else - uint n))"

definition getuint :: "openssl \<Rightarrow> int \<Rightarrow> uint32" where
  "getuint L bn = ucast (BN_get_word L bn)"

definition shift_right :: "int \<Rightarrow> nat \<Rightarrow> int" where
  "shift_right n shift = (if 2 ^ shift > n then 0 else n div 2 ^ shift)"

text \<open>The compact format of the difficulty target.\<close>

definition SetCompact :: "uint32 \<Rightarrow> int" where
  "SetCompact nCompact =
     (let nSize = unat (drop_bit 24 nCompact);
          fNegative = nCompact AND 0x00800000 \<noteq> 0;
          nWord = nCompact AND 0x007fffff;
          n = (if nSize \<le> 3 then uint (drop_bit (8 * (3 - nSize)) nWord)
               else uint nWord * 2 ^ (8 * (nSize - 3))) in
      if fNegative then - n else n)"

definition GetCompact :: "openssl \<Rightarrow> int \<Rightarrow> uint32" where
  "GetCompact L n =
     (let nSize = BN_num_bytes L n;
          nCompact = (if nSize \<le> 3 then ucast (push_bit (8 * (3 - nSize)) (BN_get_word L n))
                      else ucast (BN_get_word L (sgn n * (\<bar>n\<bar> div 2 ^ (8 * (nSize - 3))))));
          (nSize, nCompact) = (if nCompact AND 0x00800000 \<noteq> 0 then (nSize + 1, drop_bit 8 nCompact)
                               else (nSize, nCompact)) in
      nCompact OR push_bit 24 (of_nat nSize) OR (if n < 0 then 0x00800000 else 0))"

subsection \<open>Script numbers\<close>

lemma mpi2bn_sized_rev: "openssl_bn L \<Longrightarrow> mpi2bn_sized L (rev v) = num_of_vch v"
  by (simp add: mpi2bn_sized_def openssl_bn_simps flip: mpi_header_def)

lemma setvch_eq: "openssl_bn L \<Longrightarrow> setvch L v = num_of_vch v"
  by (simp add: setvch_def mpi2bn_sized_rev)

lemma getvch_eq: "openssl_bn L \<Longrightarrow> getvch L n = vch_of_num n"
  by (auto simp: getvch_def openssl_bn_simps)

lemma setvch_getvch: "openssl_bn L \<Longrightarrow> setvch L (getvch L n) = n"
  by (simp add: setvch_eq getvch_eq num_of_vch_of_num)

lemma length_getvch: "openssl_bn L \<Longrightarrow> \<bar>n\<bar> < 128 * 256 ^ k \<Longrightarrow> length (getvch L n) \<le> Suc k"
  by (simp add: getvch_eq length_vch_of_num)

lemma abs_setvch_less: "openssl_bn L \<Longrightarrow> length v \<le> Suc k \<Longrightarrow> \<bar>setvch L v\<bar> < 128 * 256 ^ k"
  by (simp add: setvch_eq abs_num_of_vch_less)

text \<open>The loop of the integer setters writes the number it is given.\<close>

lemma le_val_zeros: "le_val (v @ [0]) = le_val v"
  by (simp add: le_val_append)

lemma set_loop_False [simp]: "set_loop neg False cs = cs"
  by (induction cs) auto

lemma unat_or_80: "unat (c :: byte) < 128 \<Longrightarrow> unat (c OR 0x80) = unat c + 128"
proof -
  assume a: "unat c < 128"
  have "c AND 0x80 = 0" using byte_and_80 [of c] a by auto
  then have "c OR 0x80 = c + 0x80" by (simp add: disjunctive_add_eq_or)
  then show ?thesis using a by (simp add: unat_word_ariths)
qed

lemma num_of_set_loop:
  "num_of_vch (rev (set_loop neg True cs)) = (if neg then - int (le_val (rev cs)) else int (le_val (rev cs)))"
proof (induction cs)
  case Nil
  then show ?case by (simp add: num_of_vch_def)
next
  case (Cons c cs)
  show ?case
  proof (cases "c = 0")
    case True
    with Cons show ?thesis by (simp add: le_val_zeros)
  next
    case False
    then show ?thesis
      using unat_or_80 [of c] byte_and_80 [of c]
        num_of_vch_sign [of "rev cs @ [c]"]
      by (auto simp: num_of_vch_snoc le_val_append algebra_simps)
  qed
qed

lemma mpi2bn_set_loop:
  "openssl_bn L \<Longrightarrow> mpi2bn_sized L (set_loop neg True (rev v)) = (if neg then - int (le_val v) else int (le_val v))"
  using mpi2bn_sized_rev [of L "rev (set_loop neg True (rev v))"]
  by (simp add: num_of_set_loop)

lemma setint64_eq: "openssl_bn L \<Longrightarrow> in_int64 n \<Longrightarrow> setint64 L n = n"
  by (auto simp: setint64_def mpi2bn_set_loop in_int64_def Let_def nat_less_iff)

lemma unat_less_64: "unat (n :: uint64) < 256 ^ 8"
  using unsigned_less [of n] by simp

lemma unat_less_256: "unat (n :: uint256) < 256 ^ 32"
  using unsigned_less [of n] by simp

lemma setuint64_eq: "openssl_bn L \<Longrightarrow> setuint64 L n = uint n"
  using unat_less_64 [of n] by (simp add: setuint64_def mpi2bn_set_loop ser_word_def)

lemma setuint256_eq: "openssl_bn L \<Longrightarrow> setuint256 L n = uint n"
  using unat_less_256 [of n] by (simp add: setuint256_def mpi2bn_set_loop ser_word_def)

end
