(* ===== verification/Key.thy ===== *)
theory Key
  imports BigNum
begin

text \<open>
  Hashes (\<open>src/src/hash.h\<close>) and public keys (\<open>CPubKey\<close> of \<open>src/src/key.h\<close> and
  \<open>src/src/key.cpp\<close>).

  A \<open>CPubKey\<close> is the list of the \<open>size()\<close> bytes between \<open>begin()\<close> and \<open>end()\<close>: empty for an
  invalidated key, whose first byte in memory is \<open>0xFF\<close>. Elliptic curve operations are those of
  the \<open>openssl\<close> record. \<open>ec_points\<close> states what SEC 1 says of compressed points: the
  abscissa and the parity of the ordinate determine the point.
\<close>

section \<open>Hashes\<close>

text \<open>The digest is written into the memory of a \<open>uint256\<close> or \<open>uint160\<close>.\<close>

definition Hash :: "openssl \<Rightarrow> bytes \<Rightarrow> uint256" where
  "Hash L b = of_nat (le_val (SHA256 L (SHA256 L b)))"

definition Hash2 :: "openssl \<Rightarrow> bytes \<Rightarrow> bytes \<Rightarrow> uint256" where
  "Hash2 L b1 b2 = of_nat (le_val (SHA256 L (SHA256 L (b1 @ b2))))"

definition Hash160 :: "openssl \<Rightarrow> bytes \<Rightarrow> uint160" where
  "Hash160 L b = of_nat (le_val (RIPEMD160 L (SHA256 L b)))"

text \<open>The digests of the library have their documented lengths.\<close>

definition digest_lengths :: "openssl \<Rightarrow> bool" where
  "digest_lengths L \<longleftrightarrow> (\<forall>b. length (SHA256 L b) = 32 \<and> length (RIPEMD160 L b) = 20 \<and> length (SHA1 L b) = 20)"

lemma digest_lengths_reference: "digest_lengths reference_ssl"
  by (simp add: digest_lengths_def reference_ssl_def)

lemma ser_word_Hash160:
  assumes "digest_lengths L"
  shows "ser_word (Hash160 L b) = RIPEMD160 L (SHA256 L b)"
proof -
  have len: "length (RIPEMD160 L (SHA256 L b)) = 20"
    using assms by (simp add: digest_lengths_def)
  then have "le_val (RIPEMD160 L (SHA256 L b)) < 2 ^ 160"
    using le_val_less [of "RIPEMD160 L (SHA256 L b)"] by simp
  then have "unat (Hash160 L b) = le_val (RIPEMD160 L (SHA256 L b))"
    by (simp add: Hash160_def unat_of_nat take_bit_eq_mod)
  then show ?thesis
    using le_bytes_le_val [of "RIPEMD160 L (SHA256 L b)"] len by (simp add: ser_word_def)
qed

section \<open>Public keys\<close>

definition GetLen :: "byte \<Rightarrow> nat" where
  "GetLen chHeader =
     (if chHeader = 2 \<or> chHeader = 3 then 33
      else if chHeader = 4 \<or> chHeader = 6 \<or> chHeader = 7 then 65
      else 0)"

definition CPubKey_Set :: "bytes \<Rightarrow> bytes" where
  "CPubKey_Set b =
     (let len = (if b = [] then 0 else GetLen (hd b)) in
      if len \<noteq> 0 \<and> len = length b then b else [])"

definition CPubKey_IsValid :: "bytes \<Rightarrow> bool" where
  "CPubKey_IsValid pub \<longleftrightarrow> 0 < length pub"

definition CPubKey_IsCompressed :: "bytes \<Rightarrow> bool" where
  "CPubKey_IsCompressed pub \<longleftrightarrow> length pub = 33"

definition CPubKey_IsFullyValid :: "openssl \<Rightarrow> bytes \<Rightarrow> bool" where
  "CPubKey_IsFullyValid L pub \<longleftrightarrow> CPubKey_IsValid pub \<and> EC_pubkey_valid L pub"

definition CPubKey_Verify :: "openssl \<Rightarrow> bytes \<Rightarrow> uint256 \<Rightarrow> bytes \<Rightarrow> bool" where
  "CPubKey_Verify L pub hash vchSig \<longleftrightarrow>
     CPubKey_IsValid pub \<and> EC_pubkey_valid L pub \<and> ECDSA_verify L pub hash vchSig"

text \<open>\<open>Decompress\<close>: the success flag and the key afterwards.\<close>

definition CPubKey_Decompress :: "openssl \<Rightarrow> bytes \<Rightarrow> bool \<times> bytes" where
  "CPubKey_Decompress L pub =
     (if \<not> CPubKey_IsValid pub then (False, pub)
      else if \<not> EC_pubkey_valid L pub then (False, pub)
      else (True, CPubKey_Set (EC_pubkey_form L False pub)))"

definition RecoverCompact :: "openssl \<Rightarrow> uint256 \<Rightarrow> bytes \<Rightarrow> bytes option" where
  "RecoverCompact L hash vchSig =
     (if length vchSig \<noteq> 65 then None
      else case EC_recover L hash (tl vchSig) ((uint (hd vchSig) - 27) AND NOT 4) of
        None \<Rightarrow> None
      | Some pkey \<Rightarrow> Some (CPubKey_Set (EC_pubkey_form L ((uint (hd vchSig) - 27) AND 4 \<noteq> 0) pkey)))"

definition VerifyCompact :: "openssl \<Rightarrow> bytes \<Rightarrow> uint256 \<Rightarrow> bytes \<Rightarrow> bool" where
  "VerifyCompact L pub hash vchSig =
     (if \<not> CPubKey_IsValid pub then False
      else if length vchSig \<noteq> 65 then False
      else case EC_recover L hash (tl vchSig) ((uint (hd vchSig) - 27) AND NOT 4) of
        None \<Rightarrow> False
      | Some pkey \<Rightarrow> pub = CPubKey_Set (EC_pubkey_form L (CPubKey_IsCompressed pub) pkey))"

definition CPubKey_GetID :: "openssl \<Rightarrow> bytes \<Rightarrow> uint160" where
  "CPubKey_GetID L pub = Hash160 L pub"

text \<open>
  Serialization is that of a byte vector. The reader fills the key's memory; the bytes beyond
  those read are the old ones, so that a length that does not fit the header byte leaves a mix,
  and more than 65 bytes are skipped and invalidate the key.
\<close>

definition ser_pubkey :: "bytes \<Rightarrow> bytes" where
  "ser_pubkey pub = WriteCompactSize (length pub) @ pub"

definition unser_pubkey :: "bytes \<Rightarrow> bytes reader" where
  "unser_pubkey old = rbind ReadCompactSize (\<lambda>len.
     if len \<le> 65 then rbind (read_bytes len) (\<lambda>b.
       (let mem = b @ drop len old in rreturn (take (GetLen (hd mem)) mem)))
     else rbind (read_bytes len) (\<lambda>_. rreturn []))"

text \<open>A key as the class keeps it.\<close>

definition pubkey_ok :: "bytes \<Rightarrow> bool" where
  "pubkey_ok pub \<longleftrightarrow> pub = [] \<or> length pub = GetLen (hd pub)"

lemma GetLen_cases: "GetLen c = 0 \<or> GetLen c = 33 \<or> GetLen c = 65"
  by (simp add: GetLen_def)

lemma pubkey_ok_Set: "pubkey_ok (CPubKey_Set b)"
  by (simp add: pubkey_ok_def CPubKey_Set_def Let_def)

lemma CPubKey_Set_id: "pubkey_ok pub \<Longrightarrow> CPubKey_Set pub = pub"
  by (cases "pub = []") (use length_greater_0_conv [of pub] in \<open>auto simp: pubkey_ok_def CPubKey_Set_def Let_def simp del: length_greater_0_conv\<close>)

lemma unser_ser_pubkey:
  assumes "pubkey_ok pub" "pub \<noteq> []" "length old = 65"
  shows "unser_pubkey old (ser_pubkey pub @ r) = Inr (pub, r)"
proof -
  have "length pub \<le> 65" using assms GetLen_cases [of "hd pub"] by (auto simp: pubkey_ok_def)
  moreover have "length pub \<le> MAX_SIZE" using calculation by (simp add: MAX_SIZE_def)
  ultimately show ?thesis using assms
    by (simp add: unser_pubkey_def ser_pubkey_def compact_size.dec_enc pubkey_ok_def Let_def)
qed

text \<open>SEC 1, 2.3: what compressing a valid point keeps.\<close>

definition ec_points :: "openssl \<Rightarrow> bool" where
  "ec_points L \<longleftrightarrow>
     (\<forall>pub. length pub = 65 \<longrightarrow> hd pub = 4 \<longrightarrow> EC_pubkey_valid L pub \<longrightarrow>
        EC_pubkey_valid L ((0x02 + (last pub AND 1)) # take 32 (tl pub)) \<and>
        EC_pubkey_form L False ((0x02 + (last pub AND 1)) # take 32 (tl pub)) = pub)"

lemma ec_points_reference: "ec_points reference_ssl"
proof -
  have "0x04 # take 32 (tl pub) @ replicate 31 0 @ [last pub AND 1] = pub"
    if "length pub = 65" "hd pub = 4" "drop 33 pub = replicate 31 0 @ [last pub AND 1]" for pub :: bytes
  proof -
    have "drop 32 (tl pub) = replicate 31 0 @ [last pub AND 1]"
      using that(3) drop_Suc [of 32 pub] by simp
    then have "take 32 (tl pub) @ replicate 31 0 @ [last pub AND 1] = tl pub"
      by (metis append_take_drop_id)
    moreover have "pub \<noteq> []" using that(1) by auto
    ultimately show ?thesis using that(2) by (metis list.collapse)
  qed
  then show ?thesis by (auto simp: ec_points_def reference_ssl_def)
qed

end
