(* ===== verification/Script_Syntax.thy ===== *)
theory Script_Syntax
  imports Key
begin

text \<open>
  \<open>src/src/script.h\<close>: the opcodes, the serialized script \<open>CScript\<close> and the routines that walk it.

  A script is its byte vector. An iterator into it (\<open>pc\<close>) is the suffix of the script that
  starts there: \<open>end() - pc\<close> is its length. \<open>GetOp\<close> returns \<open>None\<close> where the code returns false,
  and otherwise the opcode, the immediate operand and the advanced iterator.
\<close>

section \<open>Opcodes\<close>

abbreviation OP_0 :: byte where "OP_0 \<equiv> 0x00"
abbreviation OP_FALSE :: byte where "OP_FALSE \<equiv> OP_0"
abbreviation OP_PUSHDATA1 :: byte where "OP_PUSHDATA1 \<equiv> 0x4c"
abbreviation OP_PUSHDATA2 :: byte where "OP_PUSHDATA2 \<equiv> 0x4d"
abbreviation OP_PUSHDATA4 :: byte where "OP_PUSHDATA4 \<equiv> 0x4e"
abbreviation OP_1NEGATE :: byte where "OP_1NEGATE \<equiv> 0x4f"
abbreviation OP_RESERVED :: byte where "OP_RESERVED \<equiv> 0x50"
abbreviation OP_1 :: byte where "OP_1 \<equiv> 0x51"
abbreviation OP_TRUE :: byte where "OP_TRUE \<equiv> OP_1"
abbreviation OP_2 :: byte where "OP_2 \<equiv> 0x52"
abbreviation OP_3 :: byte where "OP_3 \<equiv> 0x53"
abbreviation OP_4 :: byte where "OP_4 \<equiv> 0x54"
abbreviation OP_5 :: byte where "OP_5 \<equiv> 0x55"
abbreviation OP_6 :: byte where "OP_6 \<equiv> 0x56"
abbreviation OP_7 :: byte where "OP_7 \<equiv> 0x57"
abbreviation OP_8 :: byte where "OP_8 \<equiv> 0x58"
abbreviation OP_9 :: byte where "OP_9 \<equiv> 0x59"
abbreviation OP_10 :: byte where "OP_10 \<equiv> 0x5a"
abbreviation OP_11 :: byte where "OP_11 \<equiv> 0x5b"
abbreviation OP_12 :: byte where "OP_12 \<equiv> 0x5c"
abbreviation OP_13 :: byte where "OP_13 \<equiv> 0x5d"
abbreviation OP_14 :: byte where "OP_14 \<equiv> 0x5e"
abbreviation OP_15 :: byte where "OP_15 \<equiv> 0x5f"
abbreviation OP_16 :: byte where "OP_16 \<equiv> 0x60"
abbreviation OP_NOP :: byte where "OP_NOP \<equiv> 0x61"
abbreviation OP_VER :: byte where "OP_VER \<equiv> 0x62"
abbreviation OP_IF :: byte where "OP_IF \<equiv> 0x63"
abbreviation OP_NOTIF :: byte where "OP_NOTIF \<equiv> 0x64"
abbreviation OP_VERIF :: byte where "OP_VERIF \<equiv> 0x65"
abbreviation OP_VERNOTIF :: byte where "OP_VERNOTIF \<equiv> 0x66"
abbreviation OP_ELSE :: byte where "OP_ELSE \<equiv> 0x67"
abbreviation OP_ENDIF :: byte where "OP_ENDIF \<equiv> 0x68"
abbreviation OP_VERIFY :: byte where "OP_VERIFY \<equiv> 0x69"
abbreviation OP_RETURN :: byte where "OP_RETURN \<equiv> 0x6a"
abbreviation OP_TOALTSTACK :: byte where "OP_TOALTSTACK \<equiv> 0x6b"
abbreviation OP_FROMALTSTACK :: byte where "OP_FROMALTSTACK \<equiv> 0x6c"
abbreviation OP_2DROP :: byte where "OP_2DROP \<equiv> 0x6d"
abbreviation OP_2DUP :: byte where "OP_2DUP \<equiv> 0x6e"
abbreviation OP_3DUP :: byte where "OP_3DUP \<equiv> 0x6f"
abbreviation OP_2OVER :: byte where "OP_2OVER \<equiv> 0x70"
abbreviation OP_2ROT :: byte where "OP_2ROT \<equiv> 0x71"
abbreviation OP_2SWAP :: byte where "OP_2SWAP \<equiv> 0x72"
abbreviation OP_IFDUP :: byte where "OP_IFDUP \<equiv> 0x73"
abbreviation OP_DEPTH :: byte where "OP_DEPTH \<equiv> 0x74"
abbreviation OP_DROP :: byte where "OP_DROP \<equiv> 0x75"
abbreviation OP_DUP :: byte where "OP_DUP \<equiv> 0x76"
abbreviation OP_NIP :: byte where "OP_NIP \<equiv> 0x77"
abbreviation OP_OVER :: byte where "OP_OVER \<equiv> 0x78"
abbreviation OP_PICK :: byte where "OP_PICK \<equiv> 0x79"
abbreviation OP_ROLL :: byte where "OP_ROLL \<equiv> 0x7a"
abbreviation OP_ROT :: byte where "OP_ROT \<equiv> 0x7b"
abbreviation OP_SWAP :: byte where "OP_SWAP \<equiv> 0x7c"
abbreviation OP_TUCK :: byte where "OP_TUCK \<equiv> 0x7d"
abbreviation OP_CAT :: byte where "OP_CAT \<equiv> 0x7e"
abbreviation OP_SUBSTR :: byte where "OP_SUBSTR \<equiv> 0x7f"
abbreviation OP_LEFT :: byte where "OP_LEFT \<equiv> 0x80"
abbreviation OP_RIGHT :: byte where "OP_RIGHT \<equiv> 0x81"
abbreviation OP_SIZE :: byte where "OP_SIZE \<equiv> 0x82"
abbreviation OP_INVERT :: byte where "OP_INVERT \<equiv> 0x83"
abbreviation OP_AND :: byte where "OP_AND \<equiv> 0x84"
abbreviation OP_OR :: byte where "OP_OR \<equiv> 0x85"
abbreviation OP_XOR :: byte where "OP_XOR \<equiv> 0x86"
abbreviation OP_EQUAL :: byte where "OP_EQUAL \<equiv> 0x87"
abbreviation OP_EQUALVERIFY :: byte where "OP_EQUALVERIFY \<equiv> 0x88"
abbreviation OP_RESERVED1 :: byte where "OP_RESERVED1 \<equiv> 0x89"
abbreviation OP_RESERVED2 :: byte where "OP_RESERVED2 \<equiv> 0x8a"
abbreviation OP_1ADD :: byte where "OP_1ADD \<equiv> 0x8b"
abbreviation OP_1SUB :: byte where "OP_1SUB \<equiv> 0x8c"
abbreviation OP_2MUL :: byte where "OP_2MUL \<equiv> 0x8d"
abbreviation OP_2DIV :: byte where "OP_2DIV \<equiv> 0x8e"
abbreviation OP_NEGATE :: byte where "OP_NEGATE \<equiv> 0x8f"
abbreviation OP_ABS :: byte where "OP_ABS \<equiv> 0x90"
abbreviation OP_NOT :: byte where "OP_NOT \<equiv> 0x91"
abbreviation OP_0NOTEQUAL :: byte where "OP_0NOTEQUAL \<equiv> 0x92"
abbreviation OP_ADD :: byte where "OP_ADD \<equiv> 0x93"
abbreviation OP_SUB :: byte where "OP_SUB \<equiv> 0x94"
abbreviation OP_MUL :: byte where "OP_MUL \<equiv> 0x95"
abbreviation OP_DIV :: byte where "OP_DIV \<equiv> 0x96"
abbreviation OP_MOD :: byte where "OP_MOD \<equiv> 0x97"
abbreviation OP_LSHIFT :: byte where "OP_LSHIFT \<equiv> 0x98"
abbreviation OP_RSHIFT :: byte where "OP_RSHIFT \<equiv> 0x99"
abbreviation OP_BOOLAND :: byte where "OP_BOOLAND \<equiv> 0x9a"
abbreviation OP_BOOLOR :: byte where "OP_BOOLOR \<equiv> 0x9b"
abbreviation OP_NUMEQUAL :: byte where "OP_NUMEQUAL \<equiv> 0x9c"
abbreviation OP_NUMEQUALVERIFY :: byte where "OP_NUMEQUALVERIFY \<equiv> 0x9d"
abbreviation OP_NUMNOTEQUAL :: byte where "OP_NUMNOTEQUAL \<equiv> 0x9e"
abbreviation OP_LESSTHAN :: byte where "OP_LESSTHAN \<equiv> 0x9f"
abbreviation OP_GREATERTHAN :: byte where "OP_GREATERTHAN \<equiv> 0xa0"
abbreviation OP_LESSTHANOREQUAL :: byte where "OP_LESSTHANOREQUAL \<equiv> 0xa1"
abbreviation OP_GREATERTHANOREQUAL :: byte where "OP_GREATERTHANOREQUAL \<equiv> 0xa2"
abbreviation OP_MIN :: byte where "OP_MIN \<equiv> 0xa3"
abbreviation OP_MAX :: byte where "OP_MAX \<equiv> 0xa4"
abbreviation OP_WITHIN :: byte where "OP_WITHIN \<equiv> 0xa5"
abbreviation OP_RIPEMD160 :: byte where "OP_RIPEMD160 \<equiv> 0xa6"
abbreviation OP_SHA1 :: byte where "OP_SHA1 \<equiv> 0xa7"
abbreviation OP_SHA256 :: byte where "OP_SHA256 \<equiv> 0xa8"
abbreviation OP_HASH160 :: byte where "OP_HASH160 \<equiv> 0xa9"
abbreviation OP_HASH256 :: byte where "OP_HASH256 \<equiv> 0xaa"
abbreviation OP_CODESEPARATOR :: byte where "OP_CODESEPARATOR \<equiv> 0xab"
abbreviation OP_CHECKSIG :: byte where "OP_CHECKSIG \<equiv> 0xac"
abbreviation OP_CHECKSIGVERIFY :: byte where "OP_CHECKSIGVERIFY \<equiv> 0xad"
abbreviation OP_CHECKMULTISIG :: byte where "OP_CHECKMULTISIG \<equiv> 0xae"
abbreviation OP_CHECKMULTISIGVERIFY :: byte where "OP_CHECKMULTISIGVERIFY \<equiv> 0xaf"
abbreviation OP_NOP1 :: byte where "OP_NOP1 \<equiv> 0xb0"
abbreviation OP_NOP2 :: byte where "OP_NOP2 \<equiv> 0xb1"
abbreviation OP_NOP3 :: byte where "OP_NOP3 \<equiv> 0xb2"
abbreviation OP_NOP4 :: byte where "OP_NOP4 \<equiv> 0xb3"
abbreviation OP_NOP5 :: byte where "OP_NOP5 \<equiv> 0xb4"
abbreviation OP_NOP6 :: byte where "OP_NOP6 \<equiv> 0xb5"
abbreviation OP_NOP7 :: byte where "OP_NOP7 \<equiv> 0xb6"
abbreviation OP_NOP8 :: byte where "OP_NOP8 \<equiv> 0xb7"
abbreviation OP_NOP9 :: byte where "OP_NOP9 \<equiv> 0xb8"
abbreviation OP_NOP10 :: byte where "OP_NOP10 \<equiv> 0xb9"
abbreviation OP_SMALLINTEGER :: byte where "OP_SMALLINTEGER \<equiv> 0xfa"
abbreviation OP_PUBKEYS :: byte where "OP_PUBKEYS \<equiv> 0xfb"
abbreviation OP_PUBKEYHASH :: byte where "OP_PUBKEYHASH \<equiv> 0xfd"
abbreviation OP_PUBKEY :: byte where "OP_PUBKEY \<equiv> 0xfe"
abbreviation OP_INVALIDOPCODE :: byte where "OP_INVALIDOPCODE \<equiv> 0xff"

definition MAX_SCRIPT_ELEMENT_SIZE :: nat where
  "MAX_SCRIPT_ELEMENT_SIZE = 520"

section \<open>Writing scripts\<close>

definition push_opcode :: "byte \<Rightarrow> bytes" where
  "push_opcode opcode = [opcode]"

text \<open>\<open>operator<<\<close> of a byte vector.\<close>

definition push_data :: "bytes \<Rightarrow> bytes" where
  "push_data b =
     (if length b < unat OP_PUSHDATA1 then [of_nat (length b)]
      else if length b \<le> 0xff then [OP_PUSHDATA1, of_nat (length b)]
      else if length b \<le> 0xffff then OP_PUSHDATA2 # le_bytes 2 (length b)
      else OP_PUSHDATA4 # le_bytes 4 (length b)) @ b"

text \<open>\<open>operator<<\<close> of \<open>uint160\<close> and \<open>uint256\<close>: \<open>sizeof(b)\<close>, then the bytes in memory.\<close>

definition push_uint :: "'w::len word \<Rightarrow> bytes" where
  "push_uint b = of_nat (LENGTH('w) div 8) # ser_word b"

definition push_bignum :: "openssl \<Rightarrow> int \<Rightarrow> bytes" where
  "push_bignum L b = push_data (getvch L b)"

definition push_int64 :: "openssl \<Rightarrow> int \<Rightarrow> bytes" where
  "push_int64 L n =
     (if n = -1 \<or> 1 \<le> n \<and> n \<le> 16 then [of_int (n + (uint OP_1 - 1))]
      else push_data (getvch L n))"

definition push_uint64 :: "openssl \<Rightarrow> uint64 \<Rightarrow> bytes" where
  "push_uint64 L n =
     (if 1 \<le> n \<and> n \<le> 16 then [ucast n + (OP_1 - 1)]
      else push_data (getvch L (uint n)))"

section \<open>Reading scripts\<close>

text \<open>The size of the immediate operand, and the iterator behind it.\<close>

definition push_size :: "byte \<Rightarrow> bytes \<Rightarrow> (nat \<times> bytes) option" where
  "push_size opcode pc =
     (if opcode < OP_PUSHDATA1 then Some (unat opcode, pc)
      else if opcode = OP_PUSHDATA1 then
        (if length pc < 1 then None else Some (unat (hd pc), tl pc))
      else if opcode = OP_PUSHDATA2 then
        (if length pc < 2 then None else Some (le_val (take 2 pc), drop 2 pc))
      else
        (if length pc < 4 then None else Some (le_val (take 4 pc), drop 4 pc)))"

definition GetOp :: "bytes \<Rightarrow> (byte \<times> bytes \<times> bytes) option" where
  "GetOp pc = (case pc of
     [] \<Rightarrow> None
   | opcode # pc \<Rightarrow>
     if opcode \<le> OP_PUSHDATA4 then
       (case push_size opcode pc of
          None \<Rightarrow> None
        | Some (nSize, pc) \<Rightarrow>
          if length pc < nSize then None else Some (opcode, take nSize pc, drop nSize pc))
     else Some (opcode, [], pc))"

text \<open>\<open>DecodeOP_N\<close> and \<open>EncodeOP_N\<close>; outside their assertions there is no result.\<close>

definition DecodeOP_N :: "byte \<Rightarrow> nat option" where
  "DecodeOP_N opcode =
     (if opcode = OP_0 then Some 0
      else if OP_1 \<le> opcode \<and> opcode \<le> OP_16 then Some (unat opcode - (unat OP_1 - 1))
      else None)"

definition EncodeOP_N :: "nat \<Rightarrow> byte option" where
  "EncodeOP_N n =
     (if 16 < n then None else if n = 0 then Some OP_0 else Some (OP_1 + of_nat n - 1))"

lemma GetOp_Nil [simp]: "GetOp [] = None"
  by (simp add: GetOp_def)

lemma GetOp_Cons_op [simp]: "\<not> opcode \<le> OP_PUSHDATA4 \<Longrightarrow> GetOp (opcode # pc) = Some (opcode, [], pc)"
  by (simp add: GetOp_def)

lemma push_size_consumes: "push_size opcode pc = Some (n, r) \<Longrightarrow> \<exists>p. pc = p @ r"
  by (auto simp: push_size_def intro: append_take_drop_id [symmetric]
      split: if_splits) (metis append_Cons append_Nil hd_Cons_tl)

lemma push_size_append: "push_size opcode pc = Some (n, r) \<Longrightarrow> push_size opcode (pc @ s) = Some (n, r @ s)"
  by (auto simp: push_size_def not_less split: if_splits)

lemma GetOp_consumes:
  assumes "GetOp pc = Some (opcode, vch, rest)"
  shows "\<exists>p. pc = opcode # p @ rest"
proof -
  from assms obtain pc' where pc: "pc = opcode # pc'"
    by (auto simp: GetOp_def split: list.splits if_splits option.splits)
  have "\<exists>p. pc' = p @ rest"
  proof (cases "opcode \<le> OP_PUSHDATA4")
    case True
    with assms pc obtain n r where s: "push_size opcode pc' = Some (n, r)" "rest = drop n r"
      by (auto simp: GetOp_def split: option.splits if_splits)
    then obtain p where "pc' = p @ r" using push_size_consumes by blast
    then have "pc' = (p @ take n r) @ rest" by (simp add: s)
    then show ?thesis ..
  qed (use assms pc in auto)
  with pc show ?thesis by auto
qed

lemma GetOp_length: "GetOp pc = Some (opcode, vch, rest) \<Longrightarrow> length rest < length pc"
  using GetOp_consumes [of pc opcode vch rest] by auto

text \<open>An instruction is decoded alike whatever follows it.\<close>

lemma GetOp_append:
  assumes "GetOp p = Some (opcode, vch, r)"
  shows "GetOp (p @ s) = Some (opcode, vch, r @ s)"
proof (cases p)
  case (Cons c p')
  show ?thesis
  proof (cases "c \<le> OP_PUSHDATA4")
    case True
    with assms Cons obtain n q where "push_size c p' = Some (n, q)" "n \<le> length q"
      "vch = take n q" "r = drop n q" "opcode = c"
      by (auto simp: GetOp_def split: option.splits if_splits)
    then show ?thesis using Cons True push_size_append [of c p' n q s] by (simp add: GetOp_def)
  qed (use assms Cons in auto)
qed (use assms in simp)

lemma GetOp_push_data:
  assumes "length v < 2 ^ 32"
  shows "\<exists>opcode \<le> OP_PUSHDATA4. GetOp (push_data v @ r) = Some (opcode, v, r)"
proof -
  consider "length v < 76" | "76 \<le> length v" "length v \<le> 255"
    | "255 < length v" "length v \<le> 65535" | "65535 < length v"
    by linarith
  then show ?thesis
  proof cases
    case 1
    then have "of_nat (length v) < (76 :: byte)" by (simp add: word_less_nat_alt)
    moreover from this have "of_nat (length v) \<le> (78 :: byte)" by (simp add: word_less_nat_alt word_le_nat_alt)
    ultimately show ?thesis using 1
      by (intro exI [of _ "of_nat (length v)"]) (simp add: push_data_def GetOp_def push_size_def)
  next
    case 2
    then show ?thesis
      by (intro exI [of _ OP_PUSHDATA1]) (simp add: push_data_def GetOp_def push_size_def)
  next
    case 3
    then show ?thesis
      by (intro exI [of _ OP_PUSHDATA2]) (simp add: push_data_def GetOp_def push_size_def)
  next
    case 4
    then show ?thesis using assms
      by (intro exI [of _ OP_PUSHDATA4]) (simp add: push_data_def GetOp_def push_size_def)
  qed
qed

lemma DecodeOP_EncodeOP_N: "n \<le> 16 \<Longrightarrow> EncodeOP_N n = Some opcode \<Longrightarrow> DecodeOP_N opcode = Some n"
  by (auto simp: EncodeOP_N_def DecodeOP_N_def word_le_nat_alt unat_word_ariths split: if_splits)

section \<open>The routines that walk a script\<close>

function Find :: "byte \<Rightarrow> bytes \<Rightarrow> nat" where
  "Find op pc = (case GetOp pc of
     None \<Rightarrow> 0
   | Some (opcode, _, pc') \<Rightarrow> (if opcode = op then 1 else 0) + Find op pc')"
  by pat_completeness auto
termination
  by (relation "measure (\<lambda>(op, pc). length pc)") (auto dest: GetOp_length)

declare Find.simps [simp del]

function IsPushOnly :: "bytes \<Rightarrow> bool" where
  "IsPushOnly pc = (if pc = [] then True else case GetOp pc of
     None \<Rightarrow> False
   | Some (opcode, _, pc') \<Rightarrow> if opcode > OP_16 then False else IsPushOnly pc')"
  by pat_completeness auto
termination
  by (relation "measure length") (auto dest: GetOp_length)

declare IsPushOnly.simps [simp del]

text \<open>
  \<open>FindAndDelete\<close>: at every instruction boundary the occurrences of \<open>b\<close> are erased (the inner
  \<open>while\<close>, \<open>erase_here\<close>), then the iterator passes one instruction. The result is the number
  of erased occurrences and the script.
\<close>

function erase_here :: "bytes \<Rightarrow> bytes \<Rightarrow> nat \<times> bytes" where
  "erase_here b pc =
     (if b \<noteq> [] \<and> length b \<le> length pc \<and> take (length b) pc = b
      then let (n, pc') = erase_here b (drop (length b) pc) in (Suc n, pc')
      else (0, pc))"
  by pat_completeness auto
termination
  by (relation "measure (\<lambda>(b, pc). length pc)") (auto simp: neq_Nil_conv)

declare erase_here.simps [simp del]

lemma erase_here_length: "erase_here b pc = (n, pc') \<Longrightarrow> length pc' \<le> length pc"
proof (induction b pc arbitrary: n pc' rule: erase_here.induct)
  case (1 b pc)
  then show ?case
    by (subst (asm) (2) erase_here.simps) (fastforce split: if_splits prod.splits)
qed

function FindAndDelete_from :: "bytes \<Rightarrow> bytes \<Rightarrow> nat \<times> bytes" where
  "FindAndDelete_from b pc =
     (let (n, pc) = erase_here b pc in
      case GetOp pc of
        None \<Rightarrow> (n, pc)
      | Some (_, _, pc') \<Rightarrow>
        let (m, r) = FindAndDelete_from b pc' in
        (n + m, take (length pc - length pc') pc @ r))"
  by pat_completeness auto
termination
proof (relation "measure (\<lambda>(b, pc). length pc)", goal_cases)
  case (2 b pc e n pc1 op v pc')
  then show ?case
    using GetOp_length [of pc1] erase_here_length [of b pc n pc1] by fastforce
qed simp

declare FindAndDelete_from.simps [simp del]

definition FindAndDelete :: "bytes \<Rightarrow> bytes \<Rightarrow> nat \<times> bytes" where
  "FindAndDelete b script = (if b = [] then (0, script) else FindAndDelete_from b script)"

definition IsPayToScriptHash :: "bytes \<Rightarrow> bool" where
  "IsPayToScriptHash s \<longleftrightarrow>
     length s = 23 \<and> s ! 0 = OP_HASH160 \<and> s ! 1 = 0x14 \<and> s ! 22 = OP_EQUAL"

text \<open>\<open>CScript::GetSigOpCount(bool)\<close>, from an iterator and the opcode before it.\<close>

definition sigops_of :: "bool \<Rightarrow> byte \<Rightarrow> byte \<Rightarrow> nat" where
  "sigops_of fAccurate lastOpcode opcode =
     (if opcode = OP_CHECKSIG \<or> opcode = OP_CHECKSIGVERIFY then 1
      else if opcode = OP_CHECKMULTISIG \<or> opcode = OP_CHECKMULTISIGVERIFY then
        (if fAccurate \<and> OP_1 \<le> lastOpcode \<and> lastOpcode \<le> OP_16
         then the (DecodeOP_N lastOpcode) else 20)
      else 0)"

function sigops_from :: "bool \<Rightarrow> byte \<Rightarrow> bytes \<Rightarrow> nat" where
  "sigops_from fAccurate lastOpcode pc = (case GetOp pc of
     None \<Rightarrow> 0
   | Some (opcode, _, pc') \<Rightarrow>
     sigops_of fAccurate lastOpcode opcode + sigops_from fAccurate opcode pc')"
  by pat_completeness auto
termination
  by (relation "measure (\<lambda>(a, l, pc). length pc)") (auto dest: GetOp_length)

declare sigops_from.simps [simp del]

definition GetSigOpCount :: "bool \<Rightarrow> bytes \<Rightarrow> nat" where
  "GetSigOpCount fAccurate script = sigops_from fAccurate OP_INVALIDOPCODE script"

text \<open>The last item that a push only \<open>scriptSig\<close> pushes (empty at its start).\<close>

function last_push :: "bytes \<Rightarrow> bytes \<Rightarrow> bytes option" where
  "last_push data pc = (if pc = [] then Some data else case GetOp pc of
     None \<Rightarrow> None
   | Some (opcode, data', pc') \<Rightarrow> if opcode > OP_16 then None else last_push data' pc')"
  by pat_completeness auto
termination
  by (relation "measure (\<lambda>(d, pc). length pc)") (auto dest: GetOp_length)

declare last_push.simps [simp del]

definition GetSigOpCount_P2SH :: "bytes \<Rightarrow> bytes \<Rightarrow> nat" where
  "GetSigOpCount_P2SH script scriptSig =
     (if \<not> IsPayToScriptHash script then GetSigOpCount True script
      else case last_push [] scriptSig of
        None \<Rightarrow> 0
      | Some data \<Rightarrow> GetSigOpCount True data)"

section \<open>Scripts as sequences of instructions\<close>

text \<open>
  The abstract view of a script: the byte strings of its instructions, and the undecodable rest.
\<close>

function instructions :: "bytes \<Rightarrow> bytes list \<times> bytes" where
  "instructions pc = (case GetOp pc of
     None \<Rightarrow> ([], pc)
   | Some (_, _, pc') \<Rightarrow>
     let (cs, l) = instructions pc' in (take (length pc - length pc') pc # cs, l))"
  by pat_completeness auto
termination
  by (relation "measure length") (auto dest: GetOp_length)

declare instructions.simps [simp del]

definition is_instruction :: "bytes \<Rightarrow> bool" where
  "is_instruction b \<longleftrightarrow> (case GetOp b of Some (_, _, r) \<Rightarrow> r = [] | None \<Rightarrow> False)"

lemma is_instructionE:
  assumes "is_instruction b"
  obtains opcode vch where "\<forall>s. GetOp (b @ s) = Some (opcode, vch, s)" "b \<noteq> []"
proof -
  obtain opcode vch where b: "GetOp b = Some (opcode, vch, [])"
    using assms by (auto simp: is_instruction_def split: option.splits)
  show ?thesis
  proof (rule that)
    show "\<forall>s. GetOp (b @ s) = Some (opcode, vch, s)"
      using GetOp_append [OF b] by simp
    show "b \<noteq> []" using b by auto
  qed
qed

lemma instructions_append:
  assumes "is_instruction b"
  shows "instructions (b @ s) = (let (cs, l) = instructions s in (b # cs, l))"
proof -
  obtain opcode vch where "\<forall>s. GetOp (b @ s) = Some (opcode, vch, s)"
    using assms by (rule is_instructionE)
  then show ?thesis by (simp add: instructions.simps [of "b @ s"])
qed

lemma concat_instructions: "instructions s = (cs, l) \<Longrightarrow> s = concat cs @ l"
proof (induction s arbitrary: cs l rule: instructions.induct)
  case (1 pc)
  show ?case
  proof (cases "GetOp pc")
    case None
    with 1 show ?thesis by (simp add: instructions.simps [of pc])
  next
    case (Some t)
    obtain opcode vch pc' where t: "t = (opcode, vch, pc')" by (cases t)
    obtain cs' l' where r: "instructions pc' = (cs', l')" by fastforce
    have "pc' = concat cs' @ l'" using 1 Some t r by simp
    moreover obtain p where "pc = p @ pc'"
      using GetOp_consumes [of pc opcode vch pc'] Some t by (metis append_Cons)
    moreover have "instructions pc = (take (length pc - length pc') pc # cs', l')"
      by (simp add: instructions.simps [of pc] Some t r)
    ultimately show ?thesis using 1(2) by auto
  qed
qed

lemma erase_here_append: "b \<noteq> [] \<Longrightarrow> erase_here b (b @ s) = (let (n, r) = erase_here b s in (Suc n, r))"
  by (simp add: erase_here.simps [of b "b @ s"])

lemma erase_here_instructions:
  assumes "is_instruction b" "erase_here b pc = (n, pc')"
  shows "(\<nexists>q. pc' = b @ q) \<and>
         instructions pc = (let (cs, l) = instructions pc' in (replicate n b @ cs, l))"
  using assms
proof (induction b pc arbitrary: n pc' rule: erase_here.induct)
  case (1 b pc)
  have ne: "b \<noteq> []" using 1(2) by (rule is_instructionE)
  show ?case
  proof (cases "length b \<le> length pc \<and> take (length b) pc = b")
    case True
    then obtain q where q: "pc = b @ q" by (metis append_take_drop_id)
    obtain m r where e: "erase_here b q = (m, r)" by fastforce
    with 1 ne q have "n = Suc m" "pc' = r" by (auto simp: erase_here_append)
    with 1 ne q e True show ?thesis
      by (auto simp: instructions_append split: prod.splits)
  next
    case False
    then have "erase_here b pc = (0, pc)" by (subst erase_here.simps) auto
    with 1 False show ?thesis by auto
  qed
qed

lemma FindAndDelete_from_instructions:
  assumes "is_instruction b"
  shows "FindAndDelete_from b s =
         (let (cs, l) = instructions s in
          (count_list cs b, concat (filter (\<lambda>c. c \<noteq> b) cs) @ l))"
  using assms
proof (induction b s rule: FindAndDelete_from.induct)
  case (1 b pc)
  obtain n q where e: "erase_here b pc = (n, q)" by fastforce
  note i = erase_here_instructions [OF 1(2) e]
  have rep: "count_list (replicate n b) b = n" "filter (\<lambda>c. c \<noteq> b) (replicate n b) = []"
    by (induction n) auto
  show ?case
  proof (cases "GetOp q")
    case None
    then show ?thesis using e i rep
      by (simp add: FindAndDelete_from.simps [of b pc] instructions.simps [of q])
  next
    case (Some t)
    obtain opcode vch pc' where t: "t = (opcode, vch, pc')" by (cases t)
    obtain cs l where r: "instructions pc' = (cs, l)" by fastforce
    define c where "c = take (length q - length pc') q"
    obtain p where "q = p @ pc'"
      using GetOp_consumes [of q opcode vch pc'] Some t by (metis append_Cons)
    then have "q = c @ pc'" by (simp add: c_def)
    then have "c \<noteq> b" using i by auto
    moreover have "instructions q = (c # cs, l)"
      using Some t r by (simp add: instructions.simps [of q] c_def)
    moreover have "FindAndDelete_from b pc' = (count_list cs b, concat (filter (\<lambda>c. c \<noteq> b) cs) @ l)"
      using 1(1) [OF e [symmetric] refl Some t [symmetric] refl 1(2)] r by simp
    ultimately show ?thesis using e i rep Some t
      by (simp add: FindAndDelete_from.simps [of b pc] c_def [symmetric])
  qed
qed

lemma is_instruction_push_data: "length v < 2 ^ 32 \<Longrightarrow> is_instruction (push_data v)"
  using GetOp_push_data [of v "[]"] by (auto simp: is_instruction_def)

lemma FindAndDelete_instructions:
  "is_instruction b \<Longrightarrow> FindAndDelete b s =
     (let (cs, l) = instructions s in (count_list cs b, concat (filter (\<lambda>c. c \<noteq> b) cs) @ l))"
  by (auto simp: FindAndDelete_def FindAndDelete_from_instructions elim: is_instructionE)

section \<open>Push only scripts, pay-to-script-hash and signature operations\<close>

lemma push_data_ne [simp]: "push_data v \<noteq> []"
  by (simp add: push_data_def)

lemma IsPushOnly_push_data:
  assumes "length v < 2 ^ 32"
  shows "IsPushOnly (push_data v @ s) = IsPushOnly s"
proof -
  obtain opcode where "opcode \<le> OP_PUSHDATA4" "GetOp (push_data v @ s) = Some (opcode, v, s)"
    using GetOp_push_data [OF assms] by blast
  moreover from this have "\<not> opcode > OP_16" by (auto simp: word_le_nat_alt word_less_nat_alt)
  ultimately show ?thesis by (subst IsPushOnly.simps) simp
qed

lemma last_push_push_data:
  assumes "length v < 2 ^ 32"
  shows "last_push d (push_data v @ s) = last_push v s"
proof -
  obtain opcode where "opcode \<le> OP_PUSHDATA4" "GetOp (push_data v @ s) = Some (opcode, v, s)"
    using GetOp_push_data [OF assms] by blast
  moreover from this have "\<not> opcode > OP_16" by (auto simp: word_le_nat_alt word_less_nat_alt)
  ultimately show ?thesis by (subst last_push.simps) simp
qed

lemma IsPushOnly_pushes:
  "\<forall>v \<in> set vs. length v < 2 ^ 32 \<Longrightarrow> IsPushOnly (concat (map push_data vs))"
  by (induction vs) (simp_all add: IsPushOnly_push_data IsPushOnly.simps [of "[]"])

lemma last_push_pushes:
  "\<forall>v \<in> set vs. length v < 2 ^ 32 \<Longrightarrow>
   last_push d (concat (map push_data vs)) = Some (if vs = [] then d else last vs)"
  by (induction vs arbitrary: d) (auto simp: last_push_push_data last_push.simps [of _ "[]"])

lemma last_push_IsPushOnly: "IsPushOnly s \<longleftrightarrow> last_push d s \<noteq> None"
proof (induction s arbitrary: d rule: IsPushOnly.induct)
  case (1 pc)
  then show ?case
    by (subst IsPushOnly.simps, subst last_push.simps) (auto split: option.splits)
qed

definition P2SH_script :: "bytes \<Rightarrow> bytes" where
  "P2SH_script h = OP_HASH160 # 0x14 # h @ [OP_EQUAL]"

lemma IsPayToScriptHash_iff: "IsPayToScriptHash s \<longleftrightarrow> (\<exists>h. length h = 20 \<and> s = P2SH_script h)"
proof
  assume a: "IsPayToScriptHash s"
  then obtain x y t where s: "s = x # y # t" "length t = 21"
    by (auto simp: IsPayToScriptHash_def length_Suc_conv eval_nat_numeral)
  then obtain h z where t: "t = h @ [z]" by (cases t rule: rev_cases) auto
  with a s have "length h = 20" "x = OP_HASH160" "y = 0x14" "z = OP_EQUAL"
    by (auto simp: IsPayToScriptHash_def nth_append nth_Cons')
  with s t show "\<exists>h. length h = 20 \<and> s = P2SH_script h" by (auto simp: P2SH_script_def)
qed (auto simp: IsPayToScriptHash_def P2SH_script_def nth_append nth_Cons')

lemma sigops_of_le: "sigops_of f l opcode \<le> 20"
  by (auto simp: sigops_of_def DecodeOP_N_def word_le_nat_alt)

lemma sigops_from_le: "sigops_from f l pc \<le> 20 * length pc"
proof (induction f l pc rule: sigops_from.induct)
  case (1 f l pc)
  show ?case
  proof (cases "GetOp pc")
    case None
    then show ?thesis by (simp add: sigops_from.simps [of f l pc])
  next
    case (Some t)
    obtain opcode vch pc' where t: "t = (opcode, vch, pc')" by (cases t)
    have "sigops_from f opcode pc' \<le> 20 * length pc'" using 1 Some t by simp
    moreover have "length pc' < length pc" using GetOp_length Some t by blast
    ultimately show ?thesis using sigops_of_le [of f l opcode] Some t
      by (simp add: sigops_from.simps [of f l pc])
  qed
qed

text \<open>Counting accurately never counts more.\<close>

lemma sigops_of_accurate_le: "sigops_of True l opcode \<le> sigops_of False l' opcode"
  by (auto simp: sigops_of_def DecodeOP_N_def word_le_nat_alt)

lemma sigops_from_accurate_le: "sigops_from True l pc \<le> sigops_from False l pc"
proof (induction True l pc rule: sigops_from.induct)
  case (1 l pc)
  then show ?case
    by (subst (1 2) sigops_from.simps)
      (auto intro!: add_le_mono sigops_of_accurate_le split: option.splits)
qed

section \<open>Properties\<close>

text \<open>What \<open>operator<<\<close> writes of a byte vector is one instruction: \<open>GetOp\<close> reads the vector back
  and stops behind it, whatever follows.\<close>

theorem GetOp_operator_push:
  assumes "length v < 2 ^ 32"
  shows "\<exists>opcode. opcode \<le> OP_PUSHDATA4 \<and> GetOp (push_data v @ pc) = Some (opcode, v, pc)"
  using GetOp_push_data [OF assms] by blast

theorem GetOp_operator_push_witness:
  "\<exists>opcode. opcode \<le> OP_PUSHDATA4 \<and> GetOp (push_data [1, 2, 3] @ [OP_DROP]) = Some (opcode, [1, 2, 3], [OP_DROP])"
  by (rule GetOp_operator_push) simp

text \<open>\<open>FindAndDelete\<close> of one instruction removes exactly the instructions of the script that are
  equal to it, keeps the others and an undecodable tail in place, and counts what it removed. In
  particular bytes inside of a push are not touched.\<close>

theorem FindAndDelete_removes:
  assumes "is_instruction b" "instructions script = (cs, rest)"
  shows "script = concat cs @ rest \<and>
         FindAndDelete b script = (count_list cs b, concat (filter (\<lambda>c. c \<noteq> b) cs) @ rest)"
  using FindAndDelete_instructions [OF assms(1), of script] concat_instructions [OF assms(2)] assms(2) by simp

theorem FindAndDelete_removes_witness:
  "(2 :: byte) # [OP_DUP, 5, OP_DUP] = concat [[2, OP_DUP, 5], [OP_DUP]] @ [] \<and>
   FindAndDelete [OP_DUP] [2, OP_DUP, 5, OP_DUP] = (1, [2, OP_DUP, 5])"
proof -
  have b: "is_instruction [OP_DUP]" by (simp add: is_instruction_def GetOp_def)
  have i: "instructions [2, OP_DUP, 5, OP_DUP] = ([[2, OP_DUP, 5], [OP_DUP]], [])"
    by (simp add: instructions.simps [of "_ # _"] instructions.simps [of "[]"] GetOp_def push_size_def)
  show ?thesis using FindAndDelete_removes [OF b i] by simp
qed

text \<open>The signature operations of a script: an accurate count is never above the legacy count, which
  charges every multi-signature 20 operations and is at most 20 per byte.\<close>

theorem GetSigOpCount_bounds:
  "GetSigOpCount True script \<le> GetSigOpCount False script \<and>
   GetSigOpCount False script \<le> 20 * length script"
  by (simp add: GetSigOpCount_def sigops_from_le sigops_from_accurate_le)

text \<open>For a pay-to-script-hash output that is spent by a sequence of pushes the signature
  operations counted are those of the last element pushed, the redeem script.\<close>

theorem P2SH_sigops_of_redeem:
  assumes "length h = 20" "\<forall>v \<in> set vs. length v < 2 ^ 32" "vs \<noteq> []"
  shows "GetSigOpCount_P2SH (P2SH_script h) (concat (map push_data vs)) = GetSigOpCount True (last vs)"
  using assms last_push_pushes [of vs "[]"] by (auto simp: GetSigOpCount_P2SH_def IsPayToScriptHash_iff)

theorem P2SH_sigops_of_redeem_witness:
  "GetSigOpCount_P2SH (P2SH_script (replicate 20 0)) (concat (map push_data [[7], [OP_2, OP_CHECKMULTISIG]]))
   = GetSigOpCount True [OP_2, OP_CHECKMULTISIG]"
  using P2SH_sigops_of_redeem [of "replicate 20 0" "[[7], [OP_2, OP_CHECKMULTISIG]]"] by simp

end
