(* ===== verification/Tx.thy ===== *)
theory Tx
  imports Script_Syntax
begin

text \<open>
  Transactions: \<open>COutPoint\<close>, \<open>CTxIn\<close>, \<open>CTxOut\<close> and \<open>CTransaction\<close> of \<open>src/src/main.h\<close>, their
  serialization, and the context independent rules of \<open>src/src/main.cpp\<close> (\<open>CheckTransaction\<close>,
  \<open>GetMinFee\<close>, \<open>GetLegacySigOpCount\<close>), with the validation state \<open>CValidationState\<close>.

  The fields of \<open>CTransaction\<close> carry the prefix \<open>tx_\<close>. Amounts are \<open>int64_t\<close>: integers, with
  the wrap-around written out where a sum is formed before it is checked. The constants are
  those of \<open>src/src/manna.h\<close>, the brand the program is built for.
\<close>

section \<open>Constants\<close>

definition COIN :: int where "COIN = 1000000"
definition CENT :: int where "CENT = 10000"
definition MAX_MONEY :: int where "MAX_MONEY = 50000000000 * COIN"
definition DUST_SOFT_LIMIT :: int where "DUST_SOFT_LIMIT = CENT"
definition MAX_BLOCK_SIZE :: nat where "MAX_BLOCK_SIZE = 1000000"
definition MAX_BLOCK_SIZE_GEN :: uint32 where "MAX_BLOCK_SIZE_GEN = 1000000 div 4"
definition MAX_STANDARD_TX_SIZE :: nat where "MAX_STANDARD_TX_SIZE = 100000"
definition MAX_BLOCK_SIGOPS :: nat where "MAX_BLOCK_SIGOPS = MAX_BLOCK_SIZE div 50"
definition DEFAULT_BLOCK_PRIORITY_SIZE :: uint32 where "DEFAULT_BLOCK_PRIORITY_SIZE = 17000"
definition LOCKTIME_THRESHOLD :: int where "LOCKTIME_THRESHOLD = 500000000"

text \<open>\<open>nMinTxFee\<close> and \<open>nMinRelayTxFee\<close> of \<open>CTransaction\<close>.\<close>

definition nMinTxFee :: int where "nMinTxFee = CENT"
definition nMinRelayTxFee :: int where "nMinRelayTxFee = CENT"

definition MoneyRange :: "int \<Rightarrow> bool" where
  "MoneyRange nValue \<longleftrightarrow> 0 \<le> nValue \<and> nValue \<le> MAX_MONEY"

section \<open>Data\<close>

record COutPoint =
  po_hash :: uint256
  po_n :: uint32

record CTxIn =
  prevout :: COutPoint
  scriptSig :: bytes
  nSequence :: uint32

record CTxOut =
  nValue :: int
  scriptPubKey :: bytes

record CTransaction =
  tx_nVersion :: int
  tx_nTime :: uint32
  tx_vin :: "CTxIn list"
  tx_vout :: "CTxOut list"
  tx_nLockTime :: uint32

definition COutPoint_IsNull :: "COutPoint \<Rightarrow> bool" where
  "COutPoint_IsNull p \<longleftrightarrow> po_hash p = 0 \<and> po_n p = -1"

definition CTxOut_SetNull :: CTxOut where
  "CTxOut_SetNull = \<lparr> nValue = -1, scriptPubKey = [] \<rparr>"

definition CTxOut_IsNull :: "CTxOut \<Rightarrow> bool" where
  "CTxOut_IsNull txout \<longleftrightarrow> nValue txout = -1"

definition CTxOut_IsEmpty :: "CTxOut \<Rightarrow> bool" where
  "CTxOut_IsEmpty txout \<longleftrightarrow> nValue txout = 0 \<and> scriptPubKey txout = []"

definition CTxIn_IsFinal :: "CTxIn \<Rightarrow> bool" where
  "CTxIn_IsFinal txin \<longleftrightarrow> nSequence txin = -1"

definition IsCoinBase :: "CTransaction \<Rightarrow> bool" where
  "IsCoinBase tx \<longleftrightarrow>
     length (tx_vin tx) = 1 \<and> COutPoint_IsNull (prevout (tx_vin tx ! 0)) \<and> 1 \<le> length (tx_vout tx)"

section \<open>Serialization\<close>

definition ser_outpoint :: "COutPoint \<Rightarrow> bytes" where
  "ser_outpoint p = ser_word (po_hash p) @ ser_word (po_n p)"

definition unser_outpoint :: "COutPoint reader" where
  "unser_outpoint = rbind unser_word (\<lambda>h. rbind unser_word (\<lambda>n.
     rreturn \<lparr> po_hash = h, po_n = n \<rparr>))"

definition ser_txin :: "CTxIn \<Rightarrow> bytes" where
  "ser_txin t = ser_outpoint (prevout t) @ ser_bytes (scriptSig t) @ ser_word (nSequence t)"

definition unser_txin :: "CTxIn reader" where
  "unser_txin = rbind unser_outpoint (\<lambda>p. rbind unser_bytes (\<lambda>s. rbind unser_word (\<lambda>q.
     rreturn \<lparr> prevout = p, scriptSig = s, nSequence = q \<rparr>)))"

definition ser_txout :: "CTxOut \<Rightarrow> bytes" where
  "ser_txout t = ser_int 8 (nValue t) @ ser_bytes (scriptPubKey t)"

definition unser_txout :: "CTxOut reader" where
  "unser_txout = rbind (unser_int 8) (\<lambda>v. rbind unser_bytes (\<lambda>s.
     rreturn \<lparr> nValue = v, scriptPubKey = s \<rparr>))"

definition ser_tx :: "CTransaction \<Rightarrow> bytes" where
  "ser_tx tx = ser_int 4 (tx_nVersion tx) @ ser_word (tx_nTime tx) @
     ser_vec ser_txin (tx_vin tx) @ ser_vec ser_txout (tx_vout tx) @ ser_word (tx_nLockTime tx)"

definition unser_tx :: "CTransaction reader" where
  "unser_tx = rbind (unser_int 4) (\<lambda>v. rbind unser_word (\<lambda>t.
     rbind (unser_vec unser_txin) (\<lambda>i. rbind (unser_vec unser_txout) (\<lambda>out.
     rbind unser_word (\<lambda>l.
     rreturn \<lparr> tx_nVersion = v, tx_nTime = t, tx_vin = i, tx_vout = out, tx_nLockTime = l \<rparr>)))))"

text \<open>The values the C++ objects can hold, and sizes the reader accepts.\<close>

definition txin_ok :: "CTxIn \<Rightarrow> bool" where
  "txin_ok t \<longleftrightarrow> length (scriptSig t) \<le> MAX_SIZE"

definition txout_ok :: "CTxOut \<Rightarrow> bool" where
  "txout_ok t \<longleftrightarrow> in_int64 (nValue t) \<and> length (scriptPubKey t) \<le> MAX_SIZE"

definition tx_ok :: "CTransaction \<Rightarrow> bool" where
  "tx_ok tx \<longleftrightarrow> in_int32 (tx_nVersion tx) \<and>
     length (tx_vin tx) \<le> MAX_SIZE \<and> length (tx_vout tx) \<le> MAX_SIZE \<and>
     (\<forall>i \<in> set (tx_vin tx). txin_ok i) \<and> (\<forall>out \<in> set (tx_vout tx). txout_ok out)"

text \<open>\<open>GetHash\<close>: the double SHA-256 of the serialization, as a number.\<close>

definition GetHash :: "openssl \<Rightarrow> CTransaction \<Rightarrow> uint256" where
  "GetHash L tx = Hash L (ser_tx tx)"

interpretation outpoint_codec: codec ser_outpoint unser_outpoint "\<lambda>_. True"
  by unfold_locales (simp add: ser_outpoint_def unser_outpoint_def word_codec.dec_enc)

interpretation txin_codec: codec ser_txin unser_txin txin_ok
  by unfold_locales
    (simp add: ser_txin_def unser_txin_def txin_ok_def outpoint_codec.dec_enc
      bytes_codec.dec_enc word_codec.dec_enc)

interpretation txout_codec: codec ser_txout unser_txout txout_ok
  by unfold_locales
    (simp add: ser_txout_def unser_txout_def txout_ok_def int_codec.dec_enc bytes_codec.dec_enc)

lemma unser_ser_tx: "tx_ok tx \<Longrightarrow> unser_tx (ser_tx tx @ r) = Inr (tx, r)"
  by (simp add: ser_tx_def unser_tx_def tx_ok_def int_codec.dec_enc word_codec.dec_enc
      txin_codec.unser_ser_vec txout_codec.unser_ser_vec)

interpretation tx_codec: codec ser_tx unser_tx tx_ok
  by unfold_locales (rule unser_ser_tx)

section \<open>Finality and replacement\<close>

definition IsFinal :: "int \<Rightarrow> int \<Rightarrow> CTransaction \<Rightarrow> int \<Rightarrow> int \<Rightarrow> bool" where
  "IsFinal nBestHeight adjustedTime tx nBlockHeight nBlockTime =
     (if tx_nLockTime tx = 0 then True
      else
        let nBlockHeight = (if nBlockHeight = 0 then nBestHeight else nBlockHeight);
            nBlockTime = (if nBlockTime = 0 then adjustedTime else nBlockTime);
            t = uint (tx_nLockTime tx) in
        if t < (if t < LOCKTIME_THRESHOLD then nBlockHeight else nBlockTime) then True
        else list_all CTxIn_IsFinal (tx_vin tx))"

text \<open>The loop of \<open>IsNewerThan\<close>, on the pairs of sequence numbers (new, old).\<close>

fun newer_loop :: "bool \<Rightarrow> uint32 \<Rightarrow> (uint32 \<times> uint32) list \<Rightarrow> bool" where
  "newer_loop fNewer nLowest [] = fNewer"
| "newer_loop fNewer nLowest ((new, old) # ps) =
     (if new \<noteq> old then
        let (fNewer, nLowest) = (if new \<le> nLowest then (False, new) else (fNewer, nLowest));
            (fNewer, nLowest) = (if old < nLowest then (True, old) else (fNewer, nLowest)) in
        newer_loop fNewer nLowest ps
      else newer_loop fNewer nLowest ps)"

definition IsNewerThan :: "CTransaction \<Rightarrow> CTransaction \<Rightarrow> bool" where
  "IsNewerThan tx old =
     (if length (tx_vin tx) \<noteq> length (tx_vin old) then False
      else if \<not> list_all (\<lambda>(a, b). prevout a = prevout b) (zip (tx_vin tx) (tx_vin old)) then False
      else newer_loop False (-1)
        (map (\<lambda>(a, b). (nSequence a, nSequence b)) (zip (tx_vin tx) (tx_vin old))))"

text \<open>
  The replacement rule: some old number that differs lies below all new ones that differ.
  The loop is followed with the sets \<open>N\<close> and \<open>Q\<close> of the new and old numbers seen so far.
\<close>

definition lower_old :: "'a::linorder set \<Rightarrow> 'a set \<Rightarrow> bool" where
  "lower_old N Q \<longleftrightarrow> (\<exists>x \<in> Q. \<forall>n \<in> N. x < n)"

definition newer_inv :: "'a::linorder \<Rightarrow> bool \<Rightarrow> 'a \<Rightarrow> 'a set \<Rightarrow> 'a set \<Rightarrow> bool" where
  "newer_inv m f low N Q \<longleftrightarrow>
     (\<forall>n \<in> N. low \<le> n) \<and> (\<forall>x \<in> Q. low \<le> x) \<and> (low \<in> N \<or> low \<in> Q \<or> low = m) \<and>
     (f \<longleftrightarrow> lower_old N Q)"

lemma lower_old_insert: "\<forall>n \<in> N. x < n \<Longrightarrow> lower_old N (insert x Q)"
  by (auto simp: lower_old_def)

lemma not_lower_old: "n \<in> N \<Longrightarrow> \<forall>x \<in> Q. n \<le> x \<Longrightarrow> \<not> lower_old N Q"
  unfolding lower_old_def by (meson leD)

lemma newer_inv_old:
  assumes i: "newer_inv m f low N Q" and "old \<le> low" "old < new" "\<forall>n \<in> N. old < n"
  shows "newer_inv m True old (insert new N) (insert old Q)"
  using assms by (auto simp: newer_inv_def intro!: lower_old_insert dest: order.trans)

lemma newer_inv_new:
  assumes i: "newer_inv m f low N Q" and "new \<le> low" "new < old"
  shows "newer_inv m False new (insert new N) (insert old Q)"
proof -
  have "\<not> lower_old (insert new N) (insert old Q)"
    using assms by (intro not_lower_old [of new]) (auto simp: newer_inv_def dest: order.trans)
  with assms show ?thesis by (auto simp: newer_inv_def dest: order.trans)
qed

lemma newer_inv_keep:
  assumes i: "newer_inv m f low N Q" and c: "low < new" "low \<le> old" "new \<le> m"
  shows "newer_inv m f low (insert new N) (insert old Q)"
proof -
  have "lower_old N Q \<longleftrightarrow> lower_old (insert new N) (insert old Q)"
  proof (cases "low \<in> N")
    case True
    with i c have "\<not> lower_old N Q" "\<not> lower_old (insert new N) (insert old Q)"
      using not_lower_old [of low N Q] not_lower_old [of low "insert new N" "insert old Q"]
      by (simp_all add: newer_inv_def)
    then show ?thesis by simp
  next
    case False
    with i c have "low \<in> Q" by (auto simp: newer_inv_def)
    moreover have "\<forall>n \<in> N. low < n" using i False by (auto simp: newer_inv_def order_le_less)
    ultimately show ?thesis using c by (auto simp: lower_old_def)
  qed
  with i c show ?thesis by (auto simp: newer_inv_def)
qed

definition changed :: "(uint32 \<times> uint32) list \<Rightarrow> (uint32 \<times> uint32) set" where
  "changed ps = {p \<in> set ps. fst p \<noteq> snd p}"

lemma changed_simps [simp]:
  "changed [] = {}" "changed (p # ps) = (if fst p \<noteq> snd p then insert p (changed ps) else changed ps)"
  by (auto simp: changed_def)

lemma newer_loop_inv:
  "newer_inv (-1) f low N Q \<Longrightarrow>
   newer_loop f low ps \<longleftrightarrow> lower_old (N \<union> fst ` changed ps) (Q \<union> snd ` changed ps)"
proof (induction ps arbitrary: f low N Q)
  case Nil
  then show ?case by (simp add: newer_inv_def)
next
  case (Cons p ps)
  obtain new old where p: "p = (new, old)" by (cases p)
  note i = Cons(2)
  show ?case
  proof (cases "new = old")
    case True
    with Cons p show ?thesis by simp
  next
    case False
    have "\<forall>n \<in> N. low \<le> n" using i by (simp add: newer_inv_def)
    then have *: "old < low \<Longrightarrow> \<forall>n \<in> N. old < n" by (auto dest: order.strict_trans2)
    consider "old < new" "new \<le> low" | "new < old" "new \<le> low"
      | "low < new" "old < low" | "low < new" "low \<le> old"
      using False by fastforce
    then show ?thesis
    proof cases
      case 1
      then have "newer_inv (-1) True old (insert new N) (insert old Q)"
        using newer_inv_old [OF i] * by simp
      from Cons(1) [OF this] 1 p False show ?thesis by auto
    next
      case 2
      from Cons(1) [OF newer_inv_new [OF i 2(2,1)]] 2 p False show ?thesis by auto
    next
      case 3
      then have "newer_inv (-1) True old (insert new N) (insert old Q)"
        using newer_inv_old [OF i] * by simp
      from Cons(1) [OF this] 3 p False show ?thesis by auto
    next
      case 4
      then have "newer_inv (-1) f low (insert new N) (insert old Q)"
        using newer_inv_keep [OF i] by simp
      from Cons(1) [OF this] 4 p False show ?thesis by auto
    qed
  qed
qed

lemma newer_loop_iff: "newer_loop False (-1) ps \<longleftrightarrow> lower_old (fst ` changed ps) (snd ` changed ps)"
  using newer_loop_inv [of False "-1" "{}" "{}" ps] by (simp add: newer_inv_def lower_old_def)

lemma IsNewerThan_iff:
  "IsNewerThan tx old \<longleftrightarrow> map prevout (tx_vin tx) = map prevout (tx_vin old) \<and>
     lower_old (fst ` changed (zip (map nSequence (tx_vin tx)) (map nSequence (tx_vin old))))
               (snd ` changed (zip (map nSequence (tx_vin tx)) (map nSequence (tx_vin old))))"
proof -
  have "length (tx_vin tx) = length (tx_vin old) \<Longrightarrow>
    list_all (\<lambda>(a, b). prevout a = prevout b) (zip (tx_vin tx) (tx_vin old)) \<longleftrightarrow>
    map prevout (tx_vin tx) = map prevout (tx_vin old)"
    by (induction rule: list_induct2) auto
  moreover have "map (\<lambda>(a, b). (nSequence a, nSequence b)) (zip (tx_vin tx) (tx_vin old))
    = zip (map nSequence (tx_vin tx)) (map nSequence (tx_vin old))"
    by (simp add: zip_map_map case_prod_unfold)
  ultimately show ?thesis
    by (auto simp: IsNewerThan_def newer_loop_iff dest: map_eq_imp_length_eq)
qed

text \<open>Replacement is asymmetric: two transactions never replace each other.\<close>

lemma lower_old_asym: "lower_old (fst ` S) (snd ` S) \<Longrightarrow> \<not> lower_old (snd ` S) (fst ` S)"
  unfolding lower_old_def by (metis less_asym)

lemma changed_swap: "changed (zip ys xs) = prod.swap ` changed (zip xs ys)"
  by (auto simp: changed_def set_zip image_iff)

lemma IsNewerThan_asym: "IsNewerThan a b \<Longrightarrow> \<not> IsNewerThan b a"
  by (auto simp: IsNewerThan_iff image_image
      changed_swap [of "map nSequence (tx_vin b)" "map nSequence (tx_vin a)"] dest: lower_old_asym)

section \<open>The validation state\<close>

datatype mode_state = MODE_VALID | MODE_INVALID | MODE_ERROR

record CValidationState =
  vs_mode :: mode_state
  vs_nDoS :: int
  corruptionPossible :: bool

definition valid_state :: CValidationState where
  "valid_state = \<lparr> vs_mode = MODE_VALID, vs_nDoS = 0, corruptionPossible = False \<rparr>"

text \<open>\<open>DoS\<close> with the default \<open>ret = false\<close>, as every caller uses it: it returns false and the state.\<close>

definition state_DoS :: "int \<Rightarrow> bool \<Rightarrow> CValidationState \<Rightarrow> CValidationState" where
  "state_DoS level corruptionIn st =
     (if vs_mode st = MODE_ERROR then st
      else \<lparr> vs_mode = MODE_INVALID, vs_nDoS = vs_nDoS st + level, corruptionPossible = corruptionIn \<rparr>)"

definition state_Invalid :: "CValidationState \<Rightarrow> CValidationState" where
  "state_Invalid = state_DoS 0 False"

definition state_Error :: "CValidationState \<Rightarrow> CValidationState" where
  "state_Error st = st\<lparr>vs_mode := MODE_ERROR\<rparr>"

definition state_IsInvalid :: "CValidationState \<Rightarrow> int option" where
  "state_IsInvalid st = (if vs_mode st = MODE_INVALID then Some (vs_nDoS st) else None)"

section \<open>Rules that need no context\<close>

datatype tx_error =
    VinEmpty | VoutEmpty | SizeLimits
  | OutputNegative | OutputTooHigh | OutputOutOfRange | OutputBelowMinimum | TotalOutOfRange
  | DuplicateInputs | CoinbaseScriptSize | PrevoutNull

definition tx_error_level :: "tx_error \<Rightarrow> int" where
  "tx_error_level e = (if e \<in> {VinEmpty, VoutEmpty, PrevoutNull} then 10 else 100)"

fun check_outputs :: "int \<Rightarrow> CTxOut list \<Rightarrow> tx_error option" where
  "check_outputs nValueOut [] = None"
| "check_outputs nValueOut (txout # outs) =
     (if nValue txout < 0 then Some OutputNegative
      else if nValue txout > MAX_MONEY then Some OutputTooHigh
      else if \<not> MoneyRange (nValue txout) then Some OutputOutOfRange
      else if \<not> CTxOut_IsEmpty txout \<and> nValue txout < CENT then Some OutputBelowMinimum
      else let nValueOut = wrap64 (nValueOut + nValue txout) in
        if \<not> MoneyRange nValueOut then Some TotalOutOfRange else check_outputs nValueOut outs)"

fun check_duplicates :: "COutPoint set \<Rightarrow> CTxIn list \<Rightarrow> tx_error option" where
  "check_duplicates vInOutPoints [] = None"
| "check_duplicates vInOutPoints (txin # ins) =
     (if prevout txin \<in> vInOutPoints then Some DuplicateInputs
      else check_duplicates (insert (prevout txin) vInOutPoints) ins)"

definition check_prevouts :: "CTransaction \<Rightarrow> tx_error option" where
  "check_prevouts tx =
     (if IsCoinBase tx then
        (let k = length (scriptSig (tx_vin tx ! 0)) in
         if k < 2 \<or> k > 100 then Some CoinbaseScriptSize else None)
      else if list_ex (\<lambda>txin. COutPoint_IsNull (prevout txin)) (tx_vin tx) then Some PrevoutNull
      else None)"

definition CheckTransaction :: "CTransaction \<Rightarrow> tx_error option" where
  "CheckTransaction tx =
     (if tx_vin tx = [] then Some VinEmpty
      else if tx_vout tx = [] then Some VoutEmpty
      else if length (ser_tx tx) > MAX_BLOCK_SIZE then Some SizeLimits
      else case check_outputs 0 (tx_vout tx) of
        Some e \<Rightarrow> Some e
      | None \<Rightarrow>
        (case check_duplicates {} (tx_vin tx) of
           Some e \<Rightarrow> Some e
         | None \<Rightarrow> check_prevouts tx))"

text \<open>The same with the validation state, the way the callers see it.\<close>

definition CheckTransaction_state :: "CTransaction \<Rightarrow> CValidationState \<Rightarrow> bool \<times> CValidationState" where
  "CheckTransaction_state tx st = (case CheckTransaction tx of
     None \<Rightarrow> (True, st)
   | Some e \<Rightarrow> (False, state_DoS (tx_error_level e) False st))"

fun value_out_loop :: "int \<Rightarrow> CTxOut list \<Rightarrow> int option" where
  "value_out_loop nValueOut [] = Some nValueOut"
| "value_out_loop nValueOut (txout # outs) =
     (let nValueOut = wrap64 (nValueOut + nValue txout) in
      if \<not> MoneyRange (nValue txout) \<or> \<not> MoneyRange nValueOut then None
      else value_out_loop nValueOut outs)"

text \<open>\<open>GetValueOut\<close>; \<open>None\<close> where it throws.\<close>

definition GetValueOut :: "CTransaction \<Rightarrow> int option" where
  "GetValueOut tx = value_out_loop 0 (tx_vout tx)"

definition GetLegacySigOpCount :: "CTransaction \<Rightarrow> nat" where
  "GetLegacySigOpCount tx =
     (\<Sum>txin \<leftarrow> tx_vin tx. GetSigOpCount False (scriptSig txin)) +
     (\<Sum>txout \<leftarrow> tx_vout tx. GetSigOpCount False (scriptPubKey txout))"

datatype GetMinFee_mode = GMF_BLOCK | GMF_RELAY | GMF_SEND

definition GetMinFee :: "CTransaction \<Rightarrow> uint32 \<Rightarrow> bool \<Rightarrow> GetMinFee_mode \<Rightarrow> uint32 \<Rightarrow> int" where
  "GetMinFee tx nBlockSize fAllowFree mode optnBytes =
     (let nBaseFee = (if mode = GMF_RELAY then nMinRelayTxFee else nMinTxFee);
          nBytes = max optnBytes (of_nat (length (ser_tx tx)));
          nNewBlockSize = nBlockSize + nBytes;
          nMinFee = wrap64 ((1 + uint nBytes div 1000) * nBaseFee);
          nMinFee = (if fAllowFree \<and>
                        nBytes < (if mode = GMF_SEND then 5000 else DEFAULT_BLOCK_PRIORITY_SIZE - 1000)
                     then 0 else nMinFee);
          nMinFee = foldl (\<lambda>f txout. if nValue txout < DUST_SOFT_LIMIT then wrap64 (f + nBaseFee) else f)
                      nMinFee (tx_vout tx) in
      if nBlockSize \<noteq> 1 \<and> nNewBlockSize \<ge> MAX_BLOCK_SIZE_GEN div 2 then
        (if nNewBlockSize \<ge> MAX_BLOCK_SIZE_GEN then MAX_MONEY
         else let nMinFee = wrap64 (nMinFee * uint (MAX_BLOCK_SIZE_GEN div (MAX_BLOCK_SIZE_GEN - nNewBlockSize))) in
           if MoneyRange nMinFee then nMinFee else MAX_MONEY)
      else if MoneyRange nMinFee then nMinFee else MAX_MONEY)"

lemma MAX_MONEY_eq: "MAX_MONEY = 50000000000000000"
  by (simp add: MAX_MONEY_def COIN_def)

lemma MoneyRange_wrap64_add:
  "MoneyRange a \<Longrightarrow> MoneyRange b \<Longrightarrow> wrap64 (a + b) = a + b"
  by (simp add: MoneyRange_def MAX_MONEY_eq in_int64_def)

definition value_sum :: "CTxOut list \<Rightarrow> int" where
  "value_sum outs = (\<Sum>txout \<leftarrow> outs. nValue txout)"

lemma value_sum_simps [simp]:
  "value_sum [] = 0" "value_sum (x # xs) = nValue x + value_sum xs"
  "value_sum (xs @ ys) = value_sum xs + value_sum ys"
  by (simp_all add: value_sum_def)

lemma value_sum_nonneg: "\<forall>x \<in> set outs. 0 \<le> nValue x \<Longrightarrow> 0 \<le> value_sum outs"
  by (induction outs) auto

definition output_ok :: "CTxOut \<Rightarrow> bool" where
  "output_ok txout \<longleftrightarrow> MoneyRange (nValue txout) \<and> (CTxOut_IsEmpty txout \<or> CENT \<le> nValue txout)"

lemma check_outputs_None_iff:
  "MoneyRange v \<Longrightarrow> check_outputs v outs = None \<longleftrightarrow>
     (\<forall>txout \<in> set outs. output_ok txout) \<and> v + value_sum outs \<le> MAX_MONEY"
proof (induction v outs rule: check_outputs.induct)
  case (1 v)
  then show ?case by (simp add: MoneyRange_def)
next
  case (2 v txout outs)
  show ?case
  proof (cases "output_ok txout")
    case False
    then show ?thesis
      by (auto simp: output_ok_def Let_def MoneyRange_def not_less)
  next
    case ok: True
    then have r: "MoneyRange (nValue txout)" by (simp add: output_ok_def)
    then have w: "wrap64 (v + nValue txout) = v + nValue txout"
      using 2(2) by (simp add: MoneyRange_wrap64_add)
    have step: "check_outputs v (txout # outs) =
      (if MoneyRange (v + nValue txout) then check_outputs (v + nValue txout) outs else Some TotalOutOfRange)"
      using ok r by (auto simp: w output_ok_def MoneyRange_def Let_def)
    show ?thesis
    proof (cases "MoneyRange (v + nValue txout)")
      case True
      have "check_outputs (v + nValue txout) outs = None \<longleftrightarrow>
        (\<forall>txout \<in> set outs. output_ok txout) \<and> (v + nValue txout) + value_sum outs \<le> MAX_MONEY"
        using 2(1) [OF _ _ _ _ refl] ok r True by (auto simp: w output_ok_def MoneyRange_def)
      with step True ok show ?thesis by (simp add: algebra_simps)
    next
      case False
      moreover have "0 \<le> v + nValue txout" using r 2(2) by (simp add: MoneyRange_def)
      ultimately have "MAX_MONEY < v + nValue txout" by (simp add: MoneyRange_def)
      moreover have "\<forall>txout \<in> set outs. output_ok txout \<Longrightarrow> 0 \<le> value_sum outs"
        by (rule value_sum_nonneg) (auto simp: output_ok_def MoneyRange_def)
      ultimately show ?thesis using step False ok by fastforce
    qed
  qed
qed

lemma check_duplicates_None_iff:
  "check_duplicates S ins = None \<longleftrightarrow> distinct (map prevout ins) \<and> S \<inter> set (map prevout ins) = {}"
  by (induction S ins rule: check_duplicates.induct) auto

lemma value_out_loop_eq:
  "MoneyRange v \<Longrightarrow> \<forall>txout \<in> set outs. MoneyRange (nValue txout) \<Longrightarrow>
   v + value_sum outs \<le> MAX_MONEY \<Longrightarrow> value_out_loop v outs = Some (v + value_sum outs)"
proof (induction v outs rule: value_out_loop.induct)
  case (2 v txout outs)
  then have "wrap64 (v + nValue txout) = v + nValue txout"
    by (simp add: MoneyRange_wrap64_add)
  moreover have "0 \<le> value_sum outs"
    using 2(3) by (intro value_sum_nonneg) (auto simp: MoneyRange_def)
  then have "MoneyRange (v + nValue txout)" using 2(2-4) by (auto simp: MoneyRange_def)
  ultimately show ?case using 2 by (simp add: algebra_simps)
qed simp

lemma CheckTransaction_None_iff:
  "CheckTransaction tx = None \<longleftrightarrow>
     tx_vin tx \<noteq> [] \<and> tx_vout tx \<noteq> [] \<and> length (ser_tx tx) \<le> MAX_BLOCK_SIZE \<and>
     (\<forall>txout \<in> set (tx_vout tx). output_ok txout) \<and> value_sum (tx_vout tx) \<le> MAX_MONEY \<and>
     distinct (map prevout (tx_vin tx)) \<and>
     (if IsCoinBase tx
      then 2 \<le> length (scriptSig (hd (tx_vin tx))) \<and> length (scriptSig (hd (tx_vin tx))) \<le> 100
      else \<forall>txin \<in> set (tx_vin tx). \<not> COutPoint_IsNull (prevout txin))"
  using check_outputs_None_iff [of 0 "tx_vout tx"] check_duplicates_None_iff [of "{}" "tx_vin tx"]
  by (auto simp: CheckTransaction_def check_prevouts_def MoneyRange_def MAX_MONEY_eq Let_def
      list_ex_iff hd_conv_nth split: option.splits)

section \<open>Properties\<close>

text \<open>A transaction is read back from its serialization, with whatever follows left in the stream.\<close>

theorem tx_roundtrip:
  assumes "tx_ok tx"
  shows "unser_tx (ser_tx tx @ r) = Inr (tx, r)"
  by (rule tx_codec.dec_enc [OF assms])

definition example_tx :: CTransaction where
  "example_tx = \<lparr> tx_nVersion = 1, tx_nTime = 7,
     tx_vin = [\<lparr> prevout = \<lparr> po_hash = 5, po_n = 1 \<rparr>, scriptSig = [OP_1], nSequence = -1 \<rparr>],
     tx_vout = [\<lparr> nValue = 3 * CENT, scriptPubKey = [OP_DUP] \<rparr>, \<lparr> nValue = CENT, scriptPubKey = [] \<rparr>],
     tx_nLockTime = 0 \<rparr>"

theorem tx_roundtrip_witness: "unser_tx (ser_tx example_tx @ [9]) = Inr (example_tx, [9])"
  by (rule tx_roundtrip)
    (simp add: tx_ok_def txin_ok_def txout_ok_def example_tx_def in_int32_def in_int64_def CENT_def MAX_SIZE_def)

text \<open>C16. \<open>CheckTransaction\<close> accepts exactly the transactions with inputs and outputs, of at most the size
  of a block, whose outputs each are in the money range and not below the minimum (or empty) and
  together do not exceed \<open>MAX_MONEY\<close>, whose inputs are distinct, and that have a coinbase script of
  2 to 100 bytes or no null input. No 64-bit overflow of the running total can hide a total
  out of range.\<close>

theorem CheckTransaction_accepts:
  "CheckTransaction tx = None \<longleftrightarrow>
     tx_vin tx \<noteq> [] \<and> tx_vout tx \<noteq> [] \<and> length (ser_tx tx) \<le> MAX_BLOCK_SIZE \<and>
     (\<forall>txout \<in> set (tx_vout tx). MoneyRange (nValue txout) \<and> (CTxOut_IsEmpty txout \<or> CENT \<le> nValue txout)) \<and>
     (\<Sum>txout \<leftarrow> tx_vout tx. nValue txout) \<le> MAX_MONEY \<and>
     distinct (map prevout (tx_vin tx)) \<and>
     (if IsCoinBase tx
      then 2 \<le> length (scriptSig (hd (tx_vin tx))) \<and> length (scriptSig (hd (tx_vin tx))) \<le> 100
      else \<forall>txin \<in> set (tx_vin tx). \<not> COutPoint_IsNull (prevout txin))"
  unfolding CheckTransaction_None_iff output_ok_def value_sum_def ..

lemma example_tx_ok: "CheckTransaction example_tx = None"
proof -
  have "length (ser_tx example_tx) \<le> 1000000"
    by (simp add: ser_tx_def ser_txin_def ser_txout_def ser_outpoint_def ser_bytes_def ser_vec_def example_tx_def
        WriteCompactSize_def)
  then show ?thesis
    unfolding CheckTransaction_None_iff
    by (simp add: example_tx_def output_ok_def MoneyRange_def MAX_MONEY_eq CENT_def MAX_BLOCK_SIZE_def IsCoinBase_def
        COutPoint_IsNull_def)
qed

theorem CheckTransaction_accepts_witness:
  "(\<Sum>txout \<leftarrow> tx_vout example_tx. nValue txout) \<le> MAX_MONEY \<and>
   CheckTransaction (example_tx\<lparr>tx_vin := tx_vin example_tx @ tx_vin example_tx\<rparr>) \<noteq> None"
proof
  show "(\<Sum>txout \<leftarrow> tx_vout example_tx. nValue txout) \<le> MAX_MONEY"
    using CheckTransaction_accepts [THEN iffD1, OF example_tx_ok] by blast
  have "\<not> distinct (map prevout (tx_vin (example_tx\<lparr>tx_vin := tx_vin example_tx @ tx_vin example_tx\<rparr>)))"
    by (simp add: example_tx_def)
  then show "CheckTransaction (example_tx\<lparr>tx_vin := tx_vin example_tx @ tx_vin example_tx\<rparr>) \<noteq> None"
    using CheckTransaction_accepts [THEN iffD1] by blast
qed

text \<open>For a transaction that \<open>CheckTransaction\<close> accepts \<open>GetValueOut\<close> does not throw: it is the exact
  sum of the outputs and lies in the money range.\<close>

theorem CheckTransaction_GetValueOut:
  assumes "CheckTransaction tx = None"
  shows "GetValueOut tx = Some (\<Sum>txout \<leftarrow> tx_vout tx. nValue txout) \<and>
         MoneyRange (\<Sum>txout \<leftarrow> tx_vout tx. nValue txout)"
proof -
  have o: "\<forall>txout \<in> set (tx_vout tx). MoneyRange (nValue txout)" "value_sum (tx_vout tx) \<le> MAX_MONEY"
    using assms by (auto simp: CheckTransaction_None_iff output_ok_def)
  moreover have "0 \<le> value_sum (tx_vout tx)"
    using o(1) by (intro value_sum_nonneg) (simp add: MoneyRange_def)
  ultimately show ?thesis
    using value_out_loop_eq [of 0 "tx_vout tx"] MAX_MONEY_eq
    by (simp add: GetValueOut_def value_sum_def MoneyRange_def)
qed

theorem CheckTransaction_GetValueOut_witness: "GetValueOut example_tx = Some 40000"
  using CheckTransaction_GetValueOut [OF example_tx_ok] by (simp add: example_tx_def CENT_def)

text \<open>Transaction replacement: a transaction is newer than another exactly when both spend the same
  outputs in the same order and some old sequence number that was changed is below every new
  one that was changed; so no two transactions are newer than each other.\<close>

theorem IsNewerThan_replaces:
  "(IsNewerThan tx old \<longleftrightarrow>
     map prevout (tx_vin tx) = map prevout (tx_vin old) \<and>
     (let diff = {(a, b) \<in> set (zip (map nSequence (tx_vin tx)) (map nSequence (tx_vin old))). a \<noteq> b} in
      \<exists>b \<in> snd ` diff. \<forall>a \<in> fst ` diff. b < a)) \<and>
   \<not> (IsNewerThan tx old \<and> IsNewerThan old tx)"
proof
  show "IsNewerThan tx old \<longleftrightarrow>
     map prevout (tx_vin tx) = map prevout (tx_vin old) \<and>
     (let diff = {(a, b) \<in> set (zip (map nSequence (tx_vin tx)) (map nSequence (tx_vin old))). a \<noteq> b} in
      \<exists>b \<in> snd ` diff. \<forall>a \<in> fst ` diff. b < a)"
    by (simp add: IsNewerThan_iff lower_old_def changed_def case_prod_unfold Let_def)
  show "\<not> (IsNewerThan tx old \<and> IsNewerThan old tx)"
    using IsNewerThan_asym [of tx old] by blast
qed

theorem IsNewerThan_replaces_witness:
  "IsNewerThan example_tx (example_tx\<lparr>tx_vin := [hd (tx_vin example_tx)\<lparr>nSequence := 3\<rparr>]\<rparr>)"
  using IsNewerThan_replaces [THEN conjunct1, THEN iffD2,
      of example_tx "example_tx\<lparr>tx_vin := [hd (tx_vin example_tx)\<lparr>nSequence := 3\<rparr>]\<rparr>"]
  by (simp add: example_tx_def Let_def)

end
