(* ===== verification/Script_Check.thy ===== *)
theory Script_Check
  imports Tx
begin

text \<open>
  Signature checking of \<open>src/src/script.cpp\<close>: the canonical form tests, \<open>SignatureHash\<close>, the
  signature cache and \<open>CheckSig\<close>.

  The script interpreter uses \<open>CheckSig\<close> through the interface \<open>sig_checker\<close>: a checker with
  a state of its own (the cache) that, as long as the state is sound, answers what a fixed
  predicate says. \<open>CheckSig\<close> provides it: a cached signature is one that verifies.
\<close>

section \<open>Flags\<close>

definition SIGHASH_ALL :: int where "SIGHASH_ALL = 1"
definition SIGHASH_NONE :: int where "SIGHASH_NONE = 2"
definition SIGHASH_SINGLE :: int where "SIGHASH_SINGLE = 3"
definition SIGHASH_ANYONECANPAY :: int where "SIGHASH_ANYONECANPAY = 0x80"

definition SCRIPT_VERIFY_NONE :: uint32 where "SCRIPT_VERIFY_NONE = 0"
definition SCRIPT_VERIFY_P2SH :: uint32 where "SCRIPT_VERIFY_P2SH = 1"
definition SCRIPT_VERIFY_STRICTENC :: uint32 where "SCRIPT_VERIFY_STRICTENC = 2"
definition SCRIPT_VERIFY_NOCACHE :: uint32 where "SCRIPT_VERIFY_NOCACHE = 4"

section \<open>Canonical encodings\<close>

definition IsCanonicalPubKey :: "bytes \<Rightarrow> bool" where
  "IsCanonicalPubKey vchPubKey =
     (if length vchPubKey < 33 then False
      else if vchPubKey ! 0 = 0x04 then length vchPubKey = 65
      else if vchPubKey ! 0 = 0x02 \<or> vchPubKey ! 0 = 0x03 then length vchPubKey = 33
      else False)"

text \<open>The tests of one of the two integers, at index \<open>i\<close> of the signature, \<open>n\<close> bytes long.\<close>

definition canonical_int :: "bytes \<Rightarrow> nat \<Rightarrow> nat \<Rightarrow> bool" where
  "canonical_int vchSig i n =
     (if vchSig ! (i - 2) \<noteq> 0x02 then False
      else if n = 0 then False
      else if vchSig ! i AND 0x80 \<noteq> 0 then False
      else if n > 1 \<and> vchSig ! i = 0x00 \<and> vchSig ! (i + 1) AND 0x80 = 0 then False
      else True)"

definition IsCanonicalSignature :: "bytes \<Rightarrow> bool" where
  "IsCanonicalSignature vchSig =
     (if length vchSig < 9 then False
      else if length vchSig > 73 then False
      else let nHashType = vchSig ! (length vchSig - 1) AND NOT 0x80 in
      if nHashType < 1 \<or> nHashType > 3 then False
      else if vchSig ! 0 \<noteq> 0x30 then False
      else if unat (vchSig ! 1) \<noteq> length vchSig - 3 then False
      else let nLenR = unat (vchSig ! 3) in
      if 5 + nLenR \<ge> length vchSig then False
      else let nLenS = unat (vchSig ! (5 + nLenR)) in
      if nLenR + nLenS + 7 \<noteq> length vchSig then False
      else canonical_int vchSig 4 nLenR \<and> canonical_int vchSig (6 + nLenR) nLenS)"

section \<open>The hash that is signed\<close>

definition SignatureHash :: "openssl \<Rightarrow> bytes \<Rightarrow> CTransaction \<Rightarrow> nat \<Rightarrow> int \<Rightarrow> uint256" where
  "SignatureHash L scriptCode txTo nIn nHashType =
     (if nIn \<ge> length (tx_vin txTo) then 1
      else
        let scriptCode = snd (FindAndDelete [OP_CODESEPARATOR] scriptCode);
            blank = map (\<lambda>txin. txin\<lparr>scriptSig := []\<rparr>) (tx_vin txTo);
            vin1 = blank[nIn := (blank ! nIn)\<lparr>scriptSig := scriptCode\<rparr>];
            others = map (\<lambda>i. if i \<noteq> nIn then (vin1 ! i)\<lparr>nSequence := 0\<rparr> else vin1 ! i) [0..<length vin1] in
        if nHashType AND 0x1f = SIGHASH_SINGLE \<and> nIn \<ge> length (tx_vout txTo) then 1
        else
          let (vin2, vout2) =
                (if nHashType AND 0x1f = SIGHASH_NONE then (others, [])
                 else if nHashType AND 0x1f = SIGHASH_SINGLE
                 then (others, map (\<lambda>i. if i < nIn then CTxOut_SetNull else tx_vout txTo ! i) [0..<nIn + 1])
                 else (vin1, tx_vout txTo));
              vin3 = (if nHashType AND SIGHASH_ANYONECANPAY \<noteq> 0 then [vin2 ! nIn] else vin2);
              txTmp = txTo\<lparr>tx_vin := vin3, tx_vout := vout2\<rparr> in
          Hash L (ser_tx txTmp @ ser_int 4 nHashType))"

section \<open>The signature cache\<close>

type_synonym sigdata = "uint256 \<times> bytes \<times> bytes"

text \<open>
  The cache is the set in ascending order, with the configured maximum size; the random hashes
  of the evictions are a stream, read at \<open>drawn\<close>.
\<close>

record CSignatureCache =
  setValid :: "sigdata list"
  nMaxCacheSize :: int
  randomHash :: "nat \<Rightarrow> uint256"
  drawn :: nat

fun bytes_less :: "bytes \<Rightarrow> bytes \<Rightarrow> bool" where
  "bytes_less xs [] = False"
| "bytes_less [] (y # ys) = True"
| "bytes_less (x # xs) (y # ys) = (x < y \<or> x = y \<and> bytes_less xs ys)"

text \<open>\<open>operator<\<close> of \<open>CPubKey\<close>: the first byte of an invalid key is \<open>0xFF\<close>.\<close>

definition pubkey_less :: "bytes \<Rightarrow> bytes \<Rightarrow> bool" where
  "pubkey_less a b =
     (let x = (if a = [] then 0xFF else hd a); y = (if b = [] then 0xFF else hd b) in
      x < y \<or> x = y \<and> bytes_less a b)"

definition sigdata_less :: "sigdata \<Rightarrow> sigdata \<Rightarrow> bool" where
  "sigdata_less = (\<lambda>(h1, s1, p1) (h2, s2, p2).
     h1 < h2 \<or> h1 = h2 \<and> (bytes_less s1 s2 \<or> s1 = s2 \<and> pubkey_less p1 p2))"

fun sigset_insert :: "sigdata \<Rightarrow> sigdata list \<Rightarrow> sigdata list" where
  "sigset_insert k [] = [k]"
| "sigset_insert k (x # xs) =
     (if sigdata_less x k then x # sigset_insert k xs
      else if sigdata_less k x then k # x # xs
      else x # xs)"

definition SigCache_Get :: "CSignatureCache \<Rightarrow> uint256 \<Rightarrow> bytes \<Rightarrow> bytes \<Rightarrow> bool" where
  "SigCache_Get cache hash vchSig pubKey = ((hash, vchSig, pubKey) \<in> set (setValid cache))"

text \<open>The entry at \<open>lower_bound\<close> of the key, the first entry if there is none.\<close>

definition evict_entry :: "uint256 \<Rightarrow> sigdata list \<Rightarrow> sigdata list" where
  "evict_entry h xs =
     (case dropWhile (\<lambda>x. sigdata_less x (h, [], [])) xs of
        [] \<Rightarrow> tl xs
      | y # ys \<Rightarrow> takeWhile (\<lambda>x. sigdata_less x (h, [], [])) xs @ ys)"

lemma length_evict_entry:
  assumes "xs \<noteq> []"
  shows "length (evict_entry h xs) < length xs"
proof -
  let ?P = "\<lambda>x. sigdata_less x (h, [], [])"
  have "length (takeWhile ?P xs) + length (dropWhile ?P xs) = length xs"
    by (metis length_append takeWhile_dropWhile_id)
  then show ?thesis using assms
    by (cases "dropWhile ?P xs") (simp_all only: evict_entry_def list.case, auto)
qed

function evict :: "int \<Rightarrow> (nat \<Rightarrow> uint256) \<Rightarrow> nat \<Rightarrow> sigdata list \<Rightarrow> sigdata list \<times> nat" where
  "evict limit rnd i xs =
     (if int (length xs) > limit \<and> xs \<noteq> [] then evict limit rnd (Suc i) (evict_entry (rnd i) xs)
      else (xs, i))"
  by pat_completeness auto
termination
  by (relation "measure (\<lambda>(l, r, i, xs). length xs)") (auto dest: length_evict_entry)

declare evict.simps [simp del]

definition SigCache_Set :: "CSignatureCache \<Rightarrow> uint256 \<Rightarrow> bytes \<Rightarrow> bytes \<Rightarrow> CSignatureCache" where
  "SigCache_Set cache hash vchSig pubKey =
     (if nMaxCacheSize cache \<le> 0 then cache
      else let (xs, i) = evict (nMaxCacheSize cache) (randomHash cache) (drawn cache) (setValid cache) in
        cache\<lparr>setValid := sigset_insert (hash, vchSig, pubKey) xs, drawn := i\<rparr>)"

section \<open>Checking a signature\<close>

definition CheckSig :: "openssl \<Rightarrow> uint32 \<Rightarrow> CTransaction \<Rightarrow> nat \<Rightarrow> int \<Rightarrow>
    bytes \<Rightarrow> bytes \<Rightarrow> bytes \<Rightarrow> CSignatureCache \<Rightarrow> bool \<times> CSignatureCache" where
  "CheckSig L flags txTo nIn nHashType vchSig vchPubKey scriptCode cache =
     (let pubkey = CPubKey_Set vchPubKey in
      if \<not> CPubKey_IsValid pubkey then (False, cache)
      else if vchSig = [] then (False, cache)
      else if nHashType \<noteq> 0 \<and> nHashType \<noteq> uint (last vchSig) then (False, cache)
      else
        let nHashType = uint (last vchSig);
            vchSig = butlast vchSig;
            sighash = SignatureHash L scriptCode txTo nIn nHashType in
        if SigCache_Get cache sighash vchSig pubkey then (True, cache)
        else if \<not> CPubKey_Verify L pubkey sighash vchSig then (False, cache)
        else (True, if flags AND SCRIPT_VERIFY_NOCACHE = 0
                    then SigCache_Set cache sighash vchSig pubkey else cache))"

text \<open>What it decides, without the cache.\<close>

definition signature_valid :: "openssl \<Rightarrow> CTransaction \<Rightarrow> nat \<Rightarrow> int \<Rightarrow> bytes \<Rightarrow> bytes \<Rightarrow> bytes \<Rightarrow> bool" where
  "signature_valid L txTo nIn nHashType vchSig vchPubKey scriptCode \<longleftrightarrow>
     vchSig \<noteq> [] \<and> (nHashType = 0 \<or> nHashType = uint (last vchSig)) \<and>
     CPubKey_Verify L (CPubKey_Set vchPubKey)
       (SignatureHash L scriptCode txTo nIn (uint (last vchSig))) (butlast vchSig)"

definition cache_sound :: "openssl \<Rightarrow> CSignatureCache \<Rightarrow> bool" where
  "cache_sound L cache \<longleftrightarrow> (\<forall>(hash, vchSig, pubkey) \<in> set (setValid cache). CPubKey_Verify L pubkey hash vchSig)"

lemma set_evict_entry: "set (evict_entry h xs) \<subseteq> set xs"
proof -
  let ?P = "\<lambda>x. sigdata_less x (h, [], [])"
  have "set xs = set (takeWhile ?P xs) \<union> set (dropWhile ?P xs)"
    by (metis set_append takeWhile_dropWhile_id)
  moreover have "set (tl xs) \<subseteq> set xs" by (cases xs) auto
  ultimately show ?thesis
    by (cases "dropWhile ?P xs") (simp_all only: evict_entry_def list.case, auto)
qed

lemma set_evict: "evict limit rnd i xs = (ys, j) \<Longrightarrow> set ys \<subseteq> set xs"
proof (induction limit rnd i xs rule: evict.induct)
  case (1 limit rnd i xs)
  show ?case
  proof (cases "int (length xs) > limit \<and> xs \<noteq> []")
    case True
    with 1 have "set ys \<subseteq> set (evict_entry (rnd i) xs)" by (simp add: evict.simps [of limit rnd i xs])
    with set_evict_entry show ?thesis by blast
  next
    case False
    with 1(2) show ?thesis by (subst (asm) evict.simps) (simp split: if_splits)
  qed
qed

lemma length_evict: "0 \<le> limit \<Longrightarrow> evict limit rnd i xs = (ys, j) \<Longrightarrow> int (length ys) \<le> limit"
proof (induction limit rnd i xs rule: evict.induct)
  case (1 limit rnd i xs)
  show ?case
  proof (cases "int (length xs) > limit \<and> xs \<noteq> []")
    case True
    with 1 show ?thesis by (simp add: evict.simps [of limit rnd i xs])
  next
    case False
    with 1 show ?thesis by (auto simp: evict.simps [of limit rnd i xs])
  qed
qed

lemma set_sigset_insert: "set (sigset_insert k xs) \<subseteq> insert k (set xs)"
  by (induction k xs rule: sigset_insert.induct) auto

lemma length_sigset_insert: "length (sigset_insert k xs) \<le> Suc (length xs)"
  by (induction k xs rule: sigset_insert.induct) auto

lemma cache_sound_Set:
  assumes "cache_sound L cache" "CPubKey_Verify L pubkey hash vchSig"
  shows "cache_sound L (SigCache_Set cache hash vchSig pubkey)"
  using assms set_sigset_insert set_evict
  by (fastforce simp: cache_sound_def SigCache_Set_def split: prod.splits)

lemma CheckSig_sound:
  assumes "cache_sound L cache"
    and "CheckSig L flags txTo nIn nHashType vchSig vchPubKey scriptCode cache = (b, cache')"
  shows "b = signature_valid L txTo nIn nHashType vchSig vchPubKey scriptCode \<and> cache_sound L cache'"
proof -
  have hit: "SigCache_Get cache h s p \<Longrightarrow> CPubKey_Verify L p h s" for h s p
    using assms(1) by (auto simp: cache_sound_def SigCache_Get_def)
  show ?thesis
    using assms hit cache_sound_Set [OF assms(1)]
    by (auto simp: CheckSig_def signature_valid_def CPubKey_Verify_def Let_def split: if_splits)
qed

section \<open>The interface of the interpreter\<close>

type_synonym 'c checker = "bytes \<Rightarrow> bytes \<Rightarrow> bytes \<Rightarrow> 'c \<Rightarrow> bool \<times> 'c"

locale sig_checker =
  fixes chk :: "'c checker"
    and valid :: "bytes \<Rightarrow> bytes \<Rightarrow> bytes \<Rightarrow> bool"
    and sound :: "'c \<Rightarrow> bool"
  assumes chk_valid: "sound c \<Longrightarrow> chk vchSig vchPubKey scriptCode c = (b, c') \<Longrightarrow>
      b = valid vchSig vchPubKey scriptCode \<and> sound c'"

interpretation checksig: sig_checker "CheckSig L flags txTo nIn nHashType"
    "signature_valid L txTo nIn nHashType" "cache_sound L" for L flags txTo nIn nHashType
  by unfold_locales (rule CheckSig_sound)

section \<open>Properties\<close>

lemma length_SigCache_Set:
  "length (setValid (SigCache_Set cache h s p)) \<le> max (length (setValid cache)) (Suc (nat (nMaxCacheSize cache)))"
proof -
  obtain xs i where e: "evict (nMaxCacheSize cache) (randomHash cache) (drawn cache) (setValid cache) = (xs, i)"
    by fastforce
  have "0 \<le> nMaxCacheSize cache \<Longrightarrow> length xs \<le> nat (nMaxCacheSize cache)"
    using length_evict [OF _ e] by linarith
  then show ?thesis
    using length_sigset_insert [of "(h, s, p)" xs] by (auto simp: SigCache_Set_def e)
qed

text \<open>The signature cache is transparent: as long as it only holds signatures that verify, \<open>CheckSig\<close>
  answers exactly whether the signature is valid, keeps the cache sound, and the cache never
  grows beyond one entry more than its maximum or its previous size.\<close>

theorem CheckSig_cache_transparent:
  assumes "cache_sound L cache"
  shows "case CheckSig L flags txTo nIn nHashType vchSig vchPubKey scriptCode cache of
    (b, cache') \<Rightarrow> b = signature_valid L txTo nIn nHashType vchSig vchPubKey scriptCode \<and> cache_sound L cache' \<and>
      length (setValid cache') \<le> max (length (setValid cache)) (Suc (nat (nMaxCacheSize cache)))"
proof -
  obtain b c where e: "CheckSig L flags txTo nIn nHashType vchSig vchPubKey scriptCode cache = (b, c)" by fastforce
  then have "length (setValid c) \<le> max (length (setValid cache)) (Suc (nat (nMaxCacheSize cache)))"
    using length_SigCache_Set [of cache] by (auto simp: CheckSig_def Let_def split: if_splits)
  with checksig.chk_valid [OF assms e] show ?thesis by (simp add: e)
qed

definition example_cache :: CSignatureCache where
  "example_cache = \<lparr> setValid = [(4, [2], 2 # replicate 32 0)], nMaxCacheSize = 1, randomHash = (\<lambda>_. 0), drawn = 0 \<rparr>"

lemma cache_sound_example: "cache_sound reference_ssl example_cache"
  by (simp add: cache_sound_def example_cache_def CPubKey_Verify_def CPubKey_IsValid_def reference_ssl_def)

theorem CheckSig_cache_transparent_witness:
  "case CheckSig reference_ssl 0 example_tx 0 0 [2, 1] (2 # replicate 32 0) [] example_cache of
    (b, cache') \<Rightarrow> b = signature_valid reference_ssl example_tx 0 0 [2, 1] (2 # replicate 32 0) [] \<and>
      cache_sound reference_ssl cache' \<and>
      length (setValid cache') \<le> max (length (setValid example_cache)) (Suc (nat (nMaxCacheSize example_cache)))"
  by (rule CheckSig_cache_transparent [OF cache_sound_example])

end
