(* ===== verification/Script_Eval.thy ===== *)
theory Script_Eval
  imports Script_Check "HOL-Library.Sublist"
begin

text \<open>
  The script interpreter \<open>EvalScript\<close> and \<open>VerifyScript\<close> of \<open>src/src/script.cpp\<close>.

  The stacks are lists whose head is \<open>back()\<close>: \<open>stacktop(-i)\<close> is \<open>st ! (i - 1)\<close>. The instruction
  pointer and \<open>pbegincodehash\<close> are suffixes of the script. An operation that returns false, or
  throws (\<open>CastToBigNum\<close>), yields \<open>Inl\<close> of the stack at that moment, since a caller of
  \<open>EvalScript\<close> can look at the stack of a failed evaluation; otherwise \<open>Inr\<close> of the result.
  The interpreter is split by the groups of its \<open>switch\<close>. Signatures are checked through a
  checker with a state, the signature cache.

  The lemmas show the limits the interpreter keeps, what it does with the standard scripts, and
  that the cache never changes a result.
\<close>

section \<open>Values on the stack\<close>

type_synonym stack = "bytes list"

text \<open>\<open>vchTrue\<close> and \<open>vchFalse\<close>.\<close>

definition vchBool :: "bool \<Rightarrow> bytes" where
  "vchBool b = (if b then [1] else [])"

definition nMaxNumSize :: nat where
  "nMaxNumSize = 4"

definition CastToBigNum :: "openssl \<Rightarrow> bytes \<Rightarrow> int option" where
  "CastToBigNum L vch =
     (if length vch > nMaxNumSize then None else Some (setvch L (getvch L (setvch L vch))))"

fun CastToBool :: "bytes \<Rightarrow> bool" where
  "CastToBool [] = False"
| "CastToBool (b # bs) =
     (if b \<noteq> 0 then \<not> (bs = [] \<and> b = 0x80) else CastToBool bs)"

section \<open>The groups of operations\<close>

definition opcode_disabled :: "byte \<Rightarrow> bool" where
  "opcode_disabled opcode \<longleftrightarrow>
     opcode \<in> {OP_CAT, OP_SUBSTR, OP_LEFT, OP_RIGHT, OP_INVERT, OP_AND, OP_OR, OP_XOR,
       OP_2MUL, OP_2DIV, OP_MUL, OP_DIV, OP_MOD, OP_LSHIFT, OP_RSHIFT}"

definition pick_op :: "openssl \<Rightarrow> byte \<Rightarrow> stack \<Rightarrow> stack \<Rightarrow> stack + stack \<times> stack" where
  "pick_op L opcode st alt = (case st of
     x # y # r \<Rightarrow>
       (case CastToBigNum L x of
          None \<Rightarrow> Inl st
        | Some bn \<Rightarrow>
          let n = getint L bn; st' = y # r in
          if n < 0 \<or> n \<ge> int (length st') then Inl st'
          else let vch = st' ! nat n in
            Inr (vch # (if opcode = OP_ROLL then take (nat n) st' @ drop (Suc (nat n)) st' else st'), alt))
   | _ \<Rightarrow> Inl st)"

text \<open>The stack operations, on the stack and the alternative stack.\<close>

definition stack_op :: "openssl \<Rightarrow> byte \<Rightarrow> stack \<Rightarrow> stack \<Rightarrow> stack + stack \<times> stack" where
  "stack_op L opcode st alt =
    (if opcode = OP_TOALTSTACK then
       (case st of x # r \<Rightarrow> Inr (r, x # alt) | _ \<Rightarrow> Inl st)
     else if opcode = OP_FROMALTSTACK then
       (case alt of x # a \<Rightarrow> Inr (x # st, a) | _ \<Rightarrow> Inl st)
     else if opcode = OP_2DROP then
       (case st of _ # _ # r \<Rightarrow> Inr (r, alt) | _ \<Rightarrow> Inl st)
     else if opcode = OP_2DUP then
       (case st of x2 # x1 # r \<Rightarrow> Inr (x2 # x1 # x2 # x1 # r, alt) | _ \<Rightarrow> Inl st)
     else if opcode = OP_3DUP then
       (case st of x3 # x2 # x1 # r \<Rightarrow> Inr (x3 # x2 # x1 # x3 # x2 # x1 # r, alt) | _ \<Rightarrow> Inl st)
     else if opcode = OP_2OVER then
       (case st of x4 # x3 # x2 # x1 # r \<Rightarrow> Inr (x2 # x1 # x4 # x3 # x2 # x1 # r, alt) | _ \<Rightarrow> Inl st)
     else if opcode = OP_2ROT then
       (case st of x6 # x5 # x4 # x3 # x2 # x1 # r \<Rightarrow> Inr (x2 # x1 # x6 # x5 # x4 # x3 # r, alt) | _ \<Rightarrow> Inl st)
     else if opcode = OP_2SWAP then
       (case st of x4 # x3 # x2 # x1 # r \<Rightarrow> Inr (x2 # x1 # x4 # x3 # r, alt) | _ \<Rightarrow> Inl st)
     else if opcode = OP_IFDUP then
       (case st of x # r \<Rightarrow> Inr (if CastToBool x then x # x # r else x # r, alt) | _ \<Rightarrow> Inl st)
     else if opcode = OP_DEPTH then
       Inr (getvch L (int (length st)) # st, alt)
     else if opcode = OP_DROP then
       (case st of _ # r \<Rightarrow> Inr (r, alt) | _ \<Rightarrow> Inl st)
     else if opcode = OP_DUP then
       (case st of x # r \<Rightarrow> Inr (x # x # r, alt) | _ \<Rightarrow> Inl st)
     else if opcode = OP_NIP then
       (case st of x2 # x1 # r \<Rightarrow> Inr (x2 # r, alt) | _ \<Rightarrow> Inl st)
     else if opcode = OP_OVER then
       (case st of x2 # x1 # r \<Rightarrow> Inr (x1 # x2 # x1 # r, alt) | _ \<Rightarrow> Inl st)
     else if opcode = OP_PICK \<or> opcode = OP_ROLL then pick_op L opcode st alt
     else if opcode = OP_ROT then
       (case st of x3 # x2 # x1 # r \<Rightarrow> Inr (x1 # x3 # x2 # r, alt) | _ \<Rightarrow> Inl st)
     else if opcode = OP_SWAP then
       (case st of x2 # x1 # r \<Rightarrow> Inr (x1 # x2 # r, alt) | _ \<Rightarrow> Inl st)
     else if opcode = OP_TUCK then
       (case st of x2 # x1 # r \<Rightarrow> Inr (x2 # x1 # x2 # r, alt) | _ \<Rightarrow> Inl st)
     else if opcode = OP_SIZE then
       (case st of x # r \<Rightarrow> Inr (getvch L (int (length x)) # x # r, alt) | _ \<Rightarrow> Inl st)
     else Inl st)"

definition equal_op :: "byte \<Rightarrow> stack \<Rightarrow> stack + stack" where
  "equal_op opcode st = (case st of
     x2 # x1 # r \<Rightarrow>
       (let fEqual = (x1 = x2); st' = vchBool fEqual # r in
        if opcode = OP_EQUALVERIFY then (if fEqual then Inr r else Inl st') else Inr st')
   | _ \<Rightarrow> Inl st)"

definition unary_fun :: "byte \<Rightarrow> int \<Rightarrow> int" where
  "unary_fun opcode bn =
     (if opcode = OP_1ADD then bn + 1
      else if opcode = OP_1SUB then bn - 1
      else if opcode = OP_NEGATE then - bn
      else if opcode = OP_ABS then (if bn < 0 then - bn else bn)
      else if opcode = OP_NOT then (if bn = 0 then 1 else 0)
      else (if bn \<noteq> 0 then 1 else 0))"

definition unary_op :: "openssl \<Rightarrow> byte \<Rightarrow> stack \<Rightarrow> stack + stack" where
  "unary_op L opcode st = (case st of
     x # r \<Rightarrow> (case CastToBigNum L x of
       None \<Rightarrow> Inl st
     | Some bn \<Rightarrow> Inr (getvch L (unary_fun opcode bn) # r))
   | _ \<Rightarrow> Inl st)"

definition binary_fun :: "byte \<Rightarrow> int \<Rightarrow> int \<Rightarrow> int" where
  "binary_fun opcode bn1 bn2 =
     (let b = (\<lambda>c. if c then 1 else 0) in
      if opcode = OP_ADD then bn1 + bn2
      else if opcode = OP_SUB then bn1 - bn2
      else if opcode = OP_BOOLAND then b (bn1 \<noteq> 0 \<and> bn2 \<noteq> 0)
      else if opcode = OP_BOOLOR then b (bn1 \<noteq> 0 \<or> bn2 \<noteq> 0)
      else if opcode = OP_NUMEQUAL then b (bn1 = bn2)
      else if opcode = OP_NUMEQUALVERIFY then b (bn1 = bn2)
      else if opcode = OP_NUMNOTEQUAL then b (bn1 \<noteq> bn2)
      else if opcode = OP_LESSTHAN then b (bn1 < bn2)
      else if opcode = OP_GREATERTHAN then b (bn1 > bn2)
      else if opcode = OP_LESSTHANOREQUAL then b (bn1 \<le> bn2)
      else if opcode = OP_GREATERTHANOREQUAL then b (bn1 \<ge> bn2)
      else if opcode = OP_MIN then (if bn1 < bn2 then bn1 else bn2)
      else (if bn1 > bn2 then bn1 else bn2))"

definition binary_op :: "openssl \<Rightarrow> byte \<Rightarrow> stack \<Rightarrow> stack + stack" where
  "binary_op L opcode st = (case st of
     x2 # x1 # r \<Rightarrow> (case CastToBigNum L x1 of
       None \<Rightarrow> Inl st
     | Some bn1 \<Rightarrow> (case CastToBigNum L x2 of
         None \<Rightarrow> Inl st
       | Some bn2 \<Rightarrow>
         let v = getvch L (binary_fun opcode bn1 bn2) in
         if opcode = OP_NUMEQUALVERIFY then (if CastToBool v then Inr r else Inl (v # r))
         else Inr (v # r)))
   | _ \<Rightarrow> Inl st)"

definition within_op :: "openssl \<Rightarrow> stack \<Rightarrow> stack + stack" where
  "within_op L st = (case st of
     x3 # x2 # x1 # r \<Rightarrow>
       (case (CastToBigNum L x1, CastToBigNum L x2, CastToBigNum L x3) of
          (Some bn1, Some bn2, Some bn3) \<Rightarrow> Inr (vchBool (bn2 \<le> bn1 \<and> bn1 < bn3) # r)
        | _ \<Rightarrow> Inl st)
   | _ \<Rightarrow> Inl st)"

definition hash_op :: "openssl \<Rightarrow> byte \<Rightarrow> stack \<Rightarrow> stack + stack" where
  "hash_op L opcode st = (case st of
     vch # r \<Rightarrow> Inr ((if opcode = OP_RIPEMD160 then RIPEMD160 L vch
                     else if opcode = OP_SHA1 then SHA1 L vch
                     else if opcode = OP_SHA256 then SHA256 L vch
                     else if opcode = OP_HASH160 then ser_word (Hash160 L vch)
                     else ser_word (Hash L vch)) # r)
   | _ \<Rightarrow> Inl st)"

text \<open>The opcodes of the groups.\<close>

definition is_push_number :: "byte \<Rightarrow> bool" where
  "is_push_number opcode \<longleftrightarrow> opcode = OP_1NEGATE \<or> OP_1 \<le> opcode \<and> opcode \<le> OP_16"

definition is_nop :: "byte \<Rightarrow> bool" where
  "is_nop opcode \<longleftrightarrow> opcode = OP_NOP \<or> OP_NOP1 \<le> opcode \<and> opcode \<le> OP_NOP10"

definition is_stack_op :: "byte \<Rightarrow> bool" where
  "is_stack_op opcode \<longleftrightarrow> OP_TOALTSTACK \<le> opcode \<and> opcode \<le> OP_TUCK \<or> opcode = OP_SIZE"

definition is_unary_op :: "byte \<Rightarrow> bool" where
  "is_unary_op opcode \<longleftrightarrow>
     opcode \<in> {OP_1ADD, OP_1SUB, OP_NEGATE, OP_ABS, OP_NOT, OP_0NOTEQUAL}"

definition is_binary_op :: "byte \<Rightarrow> bool" where
  "is_binary_op opcode \<longleftrightarrow>
     opcode \<in> {OP_ADD, OP_SUB, OP_BOOLAND, OP_BOOLOR, OP_NUMEQUAL, OP_NUMEQUALVERIFY, OP_NUMNOTEQUAL,
       OP_LESSTHAN, OP_GREATERTHAN, OP_LESSTHANOREQUAL, OP_GREATERTHANOREQUAL, OP_MIN, OP_MAX}"

definition is_hash_op :: "byte \<Rightarrow> bool" where
  "is_hash_op opcode \<longleftrightarrow> OP_RIPEMD160 \<le> opcode \<and> opcode \<le> OP_HASH256"

section \<open>Signature operations\<close>

definition fStrictEncodings :: "uint32 \<Rightarrow> bool" where
  "fStrictEncodings flags \<longleftrightarrow> flags AND SCRIPT_VERIFY_STRICTENC \<noteq> 0"

definition check_encoded :: "'c checker \<Rightarrow> uint32 \<Rightarrow> bytes \<Rightarrow> bytes \<Rightarrow> bytes \<Rightarrow> 'c \<Rightarrow> bool \<times> 'c" where
  "check_encoded chk flags vchSig vchPubKey scriptCode c =
     (if \<not> fStrictEncodings flags \<or> IsCanonicalSignature vchSig \<and> IsCanonicalPubKey vchPubKey
      then chk vchSig vchPubKey scriptCode c else (False, c))"

definition finish_check :: "byte \<Rightarrow> byte \<Rightarrow> bool \<Rightarrow> stack \<Rightarrow> stack + stack" where
  "finish_check verify opcode fSuccess r =
     (if opcode = verify then (if fSuccess then Inr r else Inl (vchBool fSuccess # r))
      else Inr (vchBool fSuccess # r))"

definition checksig_op :: "'c checker \<Rightarrow> uint32 \<Rightarrow> byte \<Rightarrow> bytes \<Rightarrow> stack \<Rightarrow> 'c \<Rightarrow> (stack + stack) \<times> 'c" where
  "checksig_op chk flags opcode codehash st c = (case st of
     vchPubKey # vchSig # r \<Rightarrow>
       (let scriptCode = snd (FindAndDelete (push_data vchSig) codehash);
            (fSuccess, c) = check_encoded chk flags vchSig vchPubKey scriptCode c in
        (finish_check OP_CHECKSIGVERIFY opcode fSuccess r, c))
   | _ \<Rightarrow> (Inl st, c))"

text \<open>
  The loop of \<open>OP_CHECKMULTISIG\<close> over the signatures and the keys that are left.
\<close>

fun multisig_loop :: "'c checker \<Rightarrow> uint32 \<Rightarrow> bytes \<Rightarrow> bytes list \<Rightarrow> bytes list \<Rightarrow> 'c \<Rightarrow> bool \<times> 'c" where
  "multisig_loop chk flags scriptCode [] keys c = (True, c)"
| "multisig_loop chk flags scriptCode (vchSig # sigs) [] c = (False, c)"
| "multisig_loop chk flags scriptCode (vchSig # sigs) (vchPubKey # keys) c =
     (let (fOk, c) = check_encoded chk flags vchSig vchPubKey scriptCode c;
          sigs' = (if fOk then sigs else vchSig # sigs) in
      if length sigs' > length keys then (False, c)
      else multisig_loop chk flags scriptCode sigs' keys c)"

text \<open>
  The arguments of \<open>OP_CHECKMULTISIG\<close>: \<open>None\<close> where the code returns false (or throws) before a
  signature is checked; otherwise the operation count with the number of keys added, the
  signatures, the keys and the stack below the dummy element.
\<close>

definition multisig_args :: "openssl \<Rightarrow> int \<Rightarrow> stack \<Rightarrow> (int \<times> bytes list \<times> bytes list \<times> stack) option" where
  "multisig_args L nOpCount st =
     (if length st < 1 then None
      else case CastToBigNum L (st ! 0) of
        None \<Rightarrow> None
      | Some bn \<Rightarrow>
        let nKeysCount = getint L bn in
        if nKeysCount < 0 \<or> nKeysCount > 20 then None
        else let nOpCount = nOpCount + nKeysCount in
        if nOpCount > 201 then None
        else let ikey = 2; i = 2 + nat nKeysCount in
        if length st < i then None
        else case CastToBigNum L (st ! (i - 1)) of
          None \<Rightarrow> None
        | Some bn \<Rightarrow>
          let nSigsCount = getint L bn in
          if nSigsCount < 0 \<or> nSigsCount > nKeysCount then None
          else let isig = i + 1; i = isig + nat nSigsCount in
          if length st < i then None
          else Some (nOpCount, take (nat nSigsCount) (drop (isig - 1) st),
                     take (nat nKeysCount) (drop (ikey - 1) st), drop i st))"

definition multisig_op :: "openssl \<Rightarrow> 'c checker \<Rightarrow> uint32 \<Rightarrow> byte \<Rightarrow> bytes \<Rightarrow> int \<Rightarrow> stack \<Rightarrow> 'c \<Rightarrow>
    (stack + stack \<times> int) \<times> 'c" where
  "multisig_op L chk flags opcode codehash nOpCount st c =
     (case multisig_args L nOpCount st of
        None \<Rightarrow> (Inl st, c)
      | Some (nOpCount, sigs, keys, r) \<Rightarrow>
        let scriptCode = foldl (\<lambda>code vchSig. snd (FindAndDelete (push_data vchSig) code)) codehash sigs;
            (fSuccess, c) = multisig_loop chk flags scriptCode sigs keys c in
        (case finish_check OP_CHECKMULTISIGVERIFY opcode fSuccess r of
           Inl s \<Rightarrow> Inl s
         | Inr s \<Rightarrow> Inr (s, nOpCount), c))"

section \<open>The interpreter\<close>

record 'c script_state =
  ss_stack :: stack
  ss_alt :: stack
  ss_vfExec :: "bool list"
  ss_codehash :: bytes
  ss_nOpCount :: int
  ss_checker :: 'c

definition on_stack :: "'c script_state \<Rightarrow> stack + stack \<Rightarrow> 'c script_state + 'c script_state" where
  "on_stack s res = (case res of
     Inl st \<Rightarrow> Inl (s\<lparr>ss_stack := st\<rparr>)
   | Inr st \<Rightarrow> Inr (s\<lparr>ss_stack := st\<rparr>))"

text \<open>
  The \<open>switch\<close>, for an instruction that is executed (\<open>fExec\<close>) or a control instruction of a
  branch that is not; \<open>pc\<close> is the iterator behind the instruction.
\<close>

definition control_op :: "bool \<Rightarrow> byte \<Rightarrow> 'c script_state \<Rightarrow> 'c script_state + 'c script_state" where
  "control_op fExec opcode s =
     (let st = ss_stack s; vf = ss_vfExec s in
      if opcode = OP_IF \<or> opcode = OP_NOTIF then
        (if fExec then
           (case st of
              [] \<Rightarrow> Inl s
            | vch # r \<Rightarrow>
              let fValue = (if opcode = OP_NOTIF then \<not> CastToBool vch else CastToBool vch) in
              Inr (s\<lparr>ss_stack := r, ss_vfExec := fValue # vf\<rparr>))
         else Inr (s\<lparr>ss_vfExec := False # vf\<rparr>))
      else if opcode = OP_ELSE then
        (case vf of [] \<Rightarrow> Inl s | f # fs \<Rightarrow> Inr (s\<lparr>ss_vfExec := (\<not> f) # fs\<rparr>))
      else if opcode = OP_ENDIF then
        (case vf of [] \<Rightarrow> Inl s | f # fs \<Rightarrow> Inr (s\<lparr>ss_vfExec := fs\<rparr>))
      else if opcode = OP_VERIFY then
        (case st of [] \<Rightarrow> Inl s | vch # r \<Rightarrow> if CastToBool vch then Inr (s\<lparr>ss_stack := r\<rparr>) else Inl s)
      else Inl s)"

definition exec_plain :: "openssl \<Rightarrow> bool \<Rightarrow> byte \<Rightarrow> bytes \<Rightarrow> 'c script_state \<Rightarrow> 'c script_state + 'c script_state" where
  "exec_plain L fExec opcode pc s =
     (let st = ss_stack s in
      if is_push_number opcode then
        Inr (s\<lparr>ss_stack := getvch L (uint opcode - (uint OP_1 - 1)) # st\<rparr>)
      else if is_nop opcode then Inr s
      else if opcode \<in> {OP_IF, OP_NOTIF, OP_ELSE, OP_ENDIF, OP_VERIFY, OP_RETURN} then
        control_op fExec opcode s
      else if is_stack_op opcode then
        (case stack_op L opcode st (ss_alt s) of
           Inl st \<Rightarrow> Inl (s\<lparr>ss_stack := st\<rparr>)
         | Inr (st, alt) \<Rightarrow> Inr (s\<lparr>ss_stack := st, ss_alt := alt\<rparr>))
      else if opcode = OP_EQUAL \<or> opcode = OP_EQUALVERIFY then on_stack s (equal_op opcode st)
      else if is_unary_op opcode then on_stack s (unary_op L opcode st)
      else if is_binary_op opcode then on_stack s (binary_op L opcode st)
      else if opcode = OP_WITHIN then on_stack s (within_op L st)
      else if is_hash_op opcode then on_stack s (hash_op L opcode st)
      else if opcode = OP_CODESEPARATOR then Inr (s\<lparr>ss_codehash := pc\<rparr>)
      else Inl s)"

definition exec_op :: "openssl \<Rightarrow> 'c checker \<Rightarrow> uint32 \<Rightarrow> bool \<Rightarrow> byte \<Rightarrow> bytes \<Rightarrow>
    'c script_state \<Rightarrow> 'c script_state + 'c script_state" where
  "exec_op L chk flags fExec opcode pc s =
     (if opcode = OP_CHECKSIG \<or> opcode = OP_CHECKSIGVERIFY then
        (case checksig_op chk flags opcode (ss_codehash s) (ss_stack s) (ss_checker s) of
           (res, c) \<Rightarrow> on_stack (s\<lparr>ss_checker := c\<rparr>) res)
      else if opcode = OP_CHECKMULTISIG \<or> opcode = OP_CHECKMULTISIGVERIFY then
        (case multisig_op L chk flags opcode (ss_codehash s) (ss_nOpCount s) (ss_stack s) (ss_checker s) of
           (Inl st, c) \<Rightarrow> Inl (s\<lparr>ss_stack := st, ss_checker := c\<rparr>)
         | (Inr (st, n), c) \<Rightarrow> Inr (s\<lparr>ss_stack := st, ss_nOpCount := n, ss_checker := c\<rparr>))
      else exec_plain L fExec opcode pc s)"

text \<open>One round of the loop, for the instruction that was read.\<close>

definition count_op :: "byte \<Rightarrow> 'c script_state \<Rightarrow> 'c script_state" where
  "count_op opcode s = (if opcode > OP_16 then s\<lparr>ss_nOpCount := ss_nOpCount s + 1\<rparr> else s)"

definition run_instr :: "openssl \<Rightarrow> 'c checker \<Rightarrow> uint32 \<Rightarrow> byte \<Rightarrow> bytes \<Rightarrow> bytes \<Rightarrow>
    'c script_state \<Rightarrow> 'c script_state + 'c script_state" where
  "run_instr L chk flags opcode vchPushValue pc s =
     (let fExec = list_all id (ss_vfExec s) in
      if fExec \<and> opcode \<le> OP_PUSHDATA4 then Inr (s\<lparr>ss_stack := vchPushValue # ss_stack s\<rparr>)
      else if fExec \<or> OP_IF \<le> opcode \<and> opcode \<le> OP_ENDIF then exec_op L chk flags fExec opcode pc s
      else Inr s)"

definition eval_instr :: "openssl \<Rightarrow> 'c checker \<Rightarrow> uint32 \<Rightarrow> byte \<Rightarrow> bytes \<Rightarrow> bytes \<Rightarrow>
    'c script_state \<Rightarrow> 'c script_state + 'c script_state" where
  "eval_instr L chk flags opcode vchPushValue pc s =
     (if length vchPushValue > MAX_SCRIPT_ELEMENT_SIZE then Inl s
      else
        let s = count_op opcode s in
        if opcode > OP_16 \<and> ss_nOpCount s > 201 then Inl s
        else if opcode_disabled opcode then Inl s
        else case run_instr L chk flags opcode vchPushValue pc s of
          Inl s \<Rightarrow> Inl s
        | Inr s \<Rightarrow> if length (ss_stack s) + length (ss_alt s) > 1000 then Inl s else Inr s)"

function eval_loop :: "openssl \<Rightarrow> 'c checker \<Rightarrow> uint32 \<Rightarrow> bytes \<Rightarrow> 'c script_state \<Rightarrow> bool \<times> 'c script_state" where
  "eval_loop L chk flags pc s =
     (if pc = [] then (ss_vfExec s = [], s)
      else case GetOp pc of
        None \<Rightarrow> (False, s)
      | Some (opcode, vchPushValue, pc) \<Rightarrow>
        (case eval_instr L chk flags opcode vchPushValue pc s of
           Inl s \<Rightarrow> (False, s)
         | Inr s \<Rightarrow> eval_loop L chk flags pc s))"
  by pat_completeness auto
termination
  by (relation "measure (\<lambda>(L, chk, flags, pc, s). length pc)") (auto dest: GetOp_length)

declare eval_loop.simps [simp del]

definition initial_state :: "bytes \<Rightarrow> stack \<Rightarrow> 'c \<Rightarrow> 'c script_state" where
  "initial_state script st c =
     \<lparr> ss_stack = st, ss_alt = [], ss_vfExec = [], ss_codehash = script, ss_nOpCount = 0, ss_checker = c \<rparr>"

text \<open>The result, the stack afterwards and the state of the checker.\<close>

definition EvalScript :: "openssl \<Rightarrow> 'c checker \<Rightarrow> uint32 \<Rightarrow> stack \<Rightarrow> bytes \<Rightarrow> 'c \<Rightarrow> bool \<times> stack \<times> 'c" where
  "EvalScript L chk flags st script c =
     (if length script > 10000 then (False, st, c)
      else case eval_loop L chk flags script (initial_state script st c) of
        (b, s) \<Rightarrow> (b, ss_stack s, ss_checker s))"

definition VerifyScript :: "openssl \<Rightarrow> 'c checker \<Rightarrow> uint32 \<Rightarrow> bytes \<Rightarrow> bytes \<Rightarrow> 'c \<Rightarrow> bool \<times> 'c" where
  "VerifyScript L chk flags sigScript pubScript c =
     (case EvalScript L chk flags [] sigScript c of
        (False, st, c) \<Rightarrow> (False, c)
      | (True, st, c) \<Rightarrow>
        let stackCopy = st in
        (case EvalScript L chk flags st pubScript c of
           (False, st, c) \<Rightarrow> (False, c)
         | (True, st, c) \<Rightarrow>
           if st = [] then (False, c)
           else if \<not> CastToBool (hd st) then (False, c)
           else if flags AND SCRIPT_VERIFY_P2SH \<noteq> 0 \<and> IsPayToScriptHash pubScript then
             (if \<not> IsPushOnly sigScript then (False, c)
              else
                let pubKey2 = hd stackCopy in
                (case EvalScript L chk flags (tl stackCopy) pubKey2 c of
                   (False, st, c) \<Rightarrow> (False, c)
                 | (True, st, c) \<Rightarrow> (if st = [] then False else CastToBool (hd st), c)))
           else (True, c)))"

section \<open>The cache does not change results\<close>

text \<open>
  In the interface \<open>sig_checker\<close>, evaluation with the checker and its state gives what evaluation
  with the fixed predicate gives.
\<close>

definition pure_checker :: "(bytes \<Rightarrow> bytes \<Rightarrow> bytes \<Rightarrow> bool) \<Rightarrow> unit checker" where
  "pure_checker valid = (\<lambda>vchSig vchPubKey scriptCode c. (valid vchSig vchPubKey scriptCode, ()))"

definition forget :: "'c script_state \<Rightarrow> unit script_state" where
  "forget s = \<lparr> ss_stack = ss_stack s, ss_alt = ss_alt s, ss_vfExec = ss_vfExec s,
     ss_codehash = ss_codehash s, ss_nOpCount = ss_nOpCount s, ss_checker = () \<rparr>"

lemma forget_sel [simp]:
  "ss_stack (forget s) = ss_stack s" "ss_alt (forget s) = ss_alt s" "ss_vfExec (forget s) = ss_vfExec s"
  "ss_codehash (forget s) = ss_codehash s" "ss_nOpCount (forget s) = ss_nOpCount s"
  by (simp_all add: forget_def)

lemma forget_upd [simp]:
  "forget (s\<lparr>ss_stack := st\<rparr>) = (forget s)\<lparr>ss_stack := st\<rparr>"
  "forget (s\<lparr>ss_alt := st\<rparr>) = (forget s)\<lparr>ss_alt := st\<rparr>"
  "forget (s\<lparr>ss_vfExec := v\<rparr>) = (forget s)\<lparr>ss_vfExec := v\<rparr>"
  "forget (s\<lparr>ss_codehash := h\<rparr>) = (forget s)\<lparr>ss_codehash := h\<rparr>"
  "forget (s\<lparr>ss_nOpCount := n\<rparr>) = (forget s)\<lparr>ss_nOpCount := n\<rparr>"
  "forget (s\<lparr>ss_checker := c\<rparr>) = forget s"
  by (simp_all add: forget_def)

definition forget_res :: "'c script_state + 'c script_state \<Rightarrow> unit script_state + unit script_state" where
  "forget_res r = (case r of Inl s \<Rightarrow> Inl (forget s) | Inr s \<Rightarrow> Inr (forget s))"

definition res_checker :: "'c script_state + 'c script_state \<Rightarrow> 'c" where
  "res_checker r = (case r of Inl s \<Rightarrow> ss_checker s | Inr s \<Rightarrow> ss_checker s)"

lemma forget_res_simps [simp]:
  "forget_res (Inl s) = Inl (forget s)" "forget_res (Inr s) = Inr (forget s)"
  "res_checker (Inl s) = ss_checker s" "res_checker (Inr s) = ss_checker s"
  by (simp_all add: forget_res_def res_checker_def)

lemma on_stack_forget:
  "forget_res (on_stack s res) = on_stack (forget s) res" "res_checker (on_stack s res) = ss_checker s"
  by (cases res; simp add: on_stack_def)+

lemma control_op_forget:
  "forget_res (control_op fExec opcode s) = control_op fExec opcode (forget s)"
  "res_checker (control_op fExec opcode s) = ss_checker s"
  by (auto simp: control_op_def Let_def split: list.splits)

lemma exec_plain_forget:
  "forget_res (exec_plain L fExec opcode pc s) = exec_plain L fExec opcode pc (forget s)"
  unfolding exec_plain_def Let_def if_distrib [of forget_res] on_stack_forget control_op_forget
  by (simp only: forget_sel forget_upd forget_res_simps split: sum.split prod.split) simp

lemma exec_plain_checker:
  "res_checker (exec_plain L fExec opcode pc s) = ss_checker s"
  unfolding exec_plain_def Let_def if_distrib [of res_checker] on_stack_forget control_op_forget
  by (simp split: sum.split)

context sig_checker
begin

abbreviation pure :: "unit checker" where
  "pure \<equiv> pure_checker valid"

lemma check_encoded_pure:
  assumes "sound c" "check_encoded chk flags vchSig vchPubKey code c = (b, c')"
  shows "sound c' \<and> check_encoded pure flags vchSig vchPubKey code () = (b, ())"
proof (cases "\<not> fStrictEncodings flags \<or> IsCanonicalSignature vchSig \<and> IsCanonicalPubKey vchPubKey")
  case True
  then have "chk vchSig vchPubKey code c = (b, c')" using assms(2) by (simp add: check_encoded_def)
  with assms(1) chk_valid have "b = valid vchSig vchPubKey code \<and> sound c'" by blast
  with True show ?thesis by (auto simp: check_encoded_def pure_checker_def)
qed (use assms in \<open>auto simp: check_encoded_def pure_checker_def\<close>)

lemma multisig_loop_pure:
  "sound c \<Longrightarrow> multisig_loop chk flags code sigs keys c = (b, c') \<Longrightarrow>
   sound c' \<and> multisig_loop pure flags code sigs keys () = (b, ())"
proof (induction keys arbitrary: sigs c)
  case Nil
  then show ?case by (cases sigs) auto
next
  case (Cons k keys)
  show ?case
  proof (cases sigs)
    case Nil
    with Cons show ?thesis by simp
  next
    case (Cons s ss)
    obtain ok c1 where e: "check_encoded chk flags s k code c = (ok, c1)" by fastforce
    then have p: "sound c1" "check_encoded pure flags s k code () = (ok, ())"
      using check_encoded_pure [OF Cons.prems(1)] by auto
    show ?thesis
      using Cons.IH [OF p(1), of "if ok then ss else s # ss"] Cons.prems(2) p
      by (auto simp: \<open>sigs = s # ss\<close> e Let_def split: if_splits)
  qed
qed

lemma checksig_op_pure:
  assumes "sound c" "checksig_op chk flags opcode h st c = (r, c')"
  shows "sound c' \<and> checksig_op pure flags opcode h st () = (r, ())"
proof -
  consider "length st < 2" | k s q where "st = k # s # q"
    by (cases st; cases "tl st") auto
  then show ?thesis
  proof cases
    case 1
    with assms show ?thesis by (cases st; cases "tl st") (auto simp: checksig_op_def)
  next
    case 2
    let ?code = "snd (FindAndDelete (push_data s) h)"
    obtain b c1 where e: "check_encoded chk flags s k ?code c = (b, c1)" by fastforce
    from check_encoded_pure [OF assms(1) e] e assms(2) 2 show ?thesis
      by (auto simp: checksig_op_def Let_def)
  qed
qed

lemma multisig_op_pure:
  assumes "sound c" "multisig_op L chk flags opcode h n st c = (r, c')"
  shows "sound c' \<and> multisig_op L pure flags opcode h n st () = (r, ())"
proof (cases "multisig_args L n st")
  case None
  with assms show ?thesis by (simp add: multisig_op_def)
next
  case (Some a)
  obtain m sigs keys q where a: "a = (m, sigs, keys, q)" by (cases a)
  let ?code = "foldl (\<lambda>code vchSig. snd (FindAndDelete (push_data vchSig) code)) h sigs"
  obtain b c1 where e: "multisig_loop chk flags ?code sigs keys c = (b, c1)" by fastforce
  from multisig_loop_pure [OF assms(1) e] e assms(2) Some a show ?thesis
    by (auto simp: multisig_op_def Let_def)
qed

lemma exec_op_pure:
  assumes "sound (ss_checker s)"
  shows "sound (res_checker (exec_op L chk flags fExec opcode pc s)) \<and>
         exec_op L pure flags fExec opcode pc (forget s) = forget_res (exec_op L chk flags fExec opcode pc s)"
proof -
  obtain r c where e: "checksig_op chk flags opcode (ss_codehash s) (ss_stack s) (ss_checker s) = (r, c)"
    by fastforce
  obtain r' c' where e': "multisig_op L chk flags opcode (ss_codehash s) (ss_nOpCount s) (ss_stack s) (ss_checker s) = (r', c')"
    by fastforce
  have u: "ss_checker (forget s) = ()" "\<And>c. (forget s)\<lparr>ss_checker := c\<rparr> = forget s"
    "\<And>st c. (forget s)\<lparr>ss_stack := st, ss_checker := c\<rparr> = (forget s)\<lparr>ss_stack := st\<rparr>"
    "\<And>st n c. (forget s)\<lparr>ss_stack := st, ss_nOpCount := n, ss_checker := c\<rparr> = (forget s)\<lparr>ss_stack := st, ss_nOpCount := n\<rparr>"
    by simp_all
  note p = checksig_op_pure [OF assms e] multisig_op_pure [OF assms e']
  consider "opcode = OP_CHECKSIG \<or> opcode = OP_CHECKSIGVERIFY"
    | "\<not> (opcode = OP_CHECKSIG \<or> opcode = OP_CHECKSIGVERIFY)" "opcode = OP_CHECKMULTISIG \<or> opcode = OP_CHECKMULTISIGVERIFY"
    | "\<not> (opcode = OP_CHECKSIG \<or> opcode = OP_CHECKSIGVERIFY)" "\<not> (opcode = OP_CHECKMULTISIG \<or> opcode = OP_CHECKMULTISIGVERIFY)"
    by blast
  then show ?thesis
  proof cases
    case 1
    then show ?thesis using p(1) by (simp only: exec_op_def e u) (auto simp: on_stack_forget u)
  next
    case 2
    then show ?thesis using p(2) unfolding exec_op_def by (auto simp: e' u split: sum.split)
  next
    case 3
    then show ?thesis using assms unfolding exec_op_def by (simp add: exec_plain_forget exec_plain_checker)
  qed
qed

lemma run_instr_pure:
  assumes "sound (ss_checker s)"
  shows "sound (res_checker (run_instr L chk flags opcode vch pc s)) \<and>
         run_instr L pure flags opcode vch pc (forget s) = forget_res (run_instr L chk flags opcode vch pc s)"
  using assms exec_op_pure [OF assms] by (auto simp: run_instr_def Let_def)

lemma eval_instr_pure:
  assumes "sound (ss_checker s)"
  shows "sound (res_checker (eval_instr L chk flags opcode vch pc s)) \<and>
         eval_instr L pure flags opcode vch pc (forget s) = forget_res (eval_instr L chk flags opcode vch pc s)"
proof -
  have s: "sound (ss_checker (count_op opcode s))" "count_op opcode (forget s) = forget (count_op opcode s)"
    using assms by (auto simp: count_op_def)
  note r = run_instr_pure [OF s(1), of L flags opcode vch pc]
  show ?thesis
    using assms s r
    by (cases "run_instr L chk flags opcode vch pc (count_op opcode s)")
      (simp_all add: eval_instr_def Let_def)
qed

lemma eval_loop_pure:
  "sound (ss_checker s) \<Longrightarrow> eval_loop L chk flags pc s = (b, s') \<Longrightarrow>
   sound (ss_checker s') \<and> eval_loop L pure flags pc (forget s) = (b, forget s')"
proof (induction "length pc" arbitrary: pc s rule: less_induct)
  case less
  note c = eval_loop.simps [of L chk flags pc s] and p = eval_loop.simps [of L pure flags pc "forget s"]
  show ?case
  proof (cases "GetOp pc")
    case None
    with less(2,3) show ?thesis by (auto simp: c p split: if_splits)
  next
    case (Some t)
    obtain opcode vch rest where t: "t = (opcode, vch, rest)" by (cases t)
    have len: "length rest < length pc" and ne: "pc \<noteq> []"
      using Some t GetOp_length by auto
    note e = eval_instr_pure [OF less(2), of L flags opcode vch rest]
    show ?thesis
    proof (cases "eval_instr L chk flags opcode vch rest s")
      case (Inl s1)
      with e less(3) show ?thesis by (auto simp: c p ne Some t)
    next
      case (Inr s1)
      with e have "sound (ss_checker s1)" "eval_instr L pure flags opcode vch rest (forget s) = Inr (forget s1)"
        by auto
      with less(1) [OF len, of s1] less(3) Inr show ?thesis by (auto simp: c p ne Some t)
    qed
  qed
qed

lemma EvalScript_pure:
  assumes "sound c" "EvalScript L chk flags st script c = (b, st', c')"
  shows "sound c' \<and> EvalScript L pure flags st script () = (b, st', ())"
proof -
  have f: "forget (initial_state script st c) = initial_state script st ()"
    by (simp add: forget_def initial_state_def)
  have i: "sound (ss_checker (initial_state script st c))"
    using assms(1) by (simp add: initial_state_def)
  obtain b1 s1 where e: "eval_loop L chk flags script (initial_state script st c) = (b1, s1)" by fastforce
  from eval_loop_pure [OF i e] e assms show ?thesis
    by (auto simp: EvalScript_def f split: if_splits)
qed

lemma VerifyScript_pure:
  assumes "sound c" "VerifyScript L chk flags sigScript pubScript c = (b, c')"
  shows "sound c' \<and> VerifyScript L pure flags sigScript pubScript () = (b, ())"
proof -
  obtain b1 st1 c1 where e1: "EvalScript L chk flags [] sigScript c = (b1, st1, c1)" by (cases rule: prod_cases3) auto
  obtain b2 st2 c2 where e2: "EvalScript L chk flags st1 pubScript c1 = (b2, st2, c2)" by (cases rule: prod_cases3) auto
  obtain b3 st3 c3 where e3: "EvalScript L chk flags (tl st1) (hd st1) c2 = (b3, st3, c3)" by (cases rule: prod_cases3) auto
  note p1 = EvalScript_pure [OF assms(1) e1]
  note p2 = EvalScript_pure [OF conjunct1 [OF p1] e2]
  note p3 = EvalScript_pure [OF conjunct1 [OF p2] e3]
  show ?thesis
    using p1 p2 p3 assms(2) e1 e2 e3
    by (cases b1; cases b2; cases b3) (auto simp: VerifyScript_def Let_def split: if_splits)
qed

end

section \<open>Limits\<close>

definition small :: "stack \<Rightarrow> bool" where
  "small st \<longleftrightarrow> (\<forall>x \<in> set st. length x \<le> MAX_SCRIPT_ELEMENT_SIZE)"

lemma small_simps [simp]:
  "small []" "small (x # st) \<longleftrightarrow> length x \<le> MAX_SCRIPT_ELEMENT_SIZE \<and> small st"
  by (auto simp: small_def)

lemma small_take_drop: "small st \<Longrightarrow> small (take n st)" "small st \<Longrightarrow> small (drop n st)"
  "small st \<Longrightarrow> small st' \<Longrightarrow> small (st @ st')" "small st \<Longrightarrow> n < length st \<Longrightarrow> length (st ! n) \<le> MAX_SCRIPT_ELEMENT_SIZE"
  by (auto simp: small_def dest: in_set_takeD in_set_dropD nth_mem)

lemma small_vchBool [simp]: "length (vchBool b) \<le> MAX_SCRIPT_ELEMENT_SIZE"
  by (simp add: vchBool_def MAX_SCRIPT_ELEMENT_SIZE_def)

text \<open>Numbers of at most five bytes are all the arithmetic produces.\<close>

lemma getvch_small: "openssl_bn L \<Longrightarrow> \<bar>n\<bar> < 2 ^ 39 \<Longrightarrow> length (getvch L n) \<le> 5"
  using length_getvch [of L n 4] by simp

lemma getvch_small_elem:
  "openssl_bn L \<Longrightarrow> \<bar>n\<bar> < 2 ^ 39 \<Longrightarrow> length (getvch L n) \<le> MAX_SCRIPT_ELEMENT_SIZE"
  using getvch_small [of L n] by (simp add: MAX_SCRIPT_ELEMENT_SIZE_def)

lemma CastToBigNum_range:
  assumes "openssl_bn L" "CastToBigNum L v = Some n"
  shows "\<bar>n\<bar> < 2 ^ 31"
proof -
  have "length v \<le> Suc 3" "n = setvch L v"
    using assms by (auto simp: CastToBigNum_def nMaxNumSize_def setvch_getvch split: if_splits)
  then show ?thesis using abs_setvch_less [OF assms(1), of v 3] by simp
qed

lemma unary_fun_range: "\<bar>n\<bar> < 2 ^ 31 \<Longrightarrow> \<bar>unary_fun opcode n\<bar> < 2 ^ 39"
  by (auto simp: unary_fun_def)

lemma binary_fun_range: "\<bar>n\<bar> < 2 ^ 31 \<Longrightarrow> \<bar>m\<bar> < 2 ^ 31 \<Longrightarrow> \<bar>binary_fun opcode n m\<bar> < 2 ^ 39"
  by (auto simp: binary_fun_def Let_def)

definition res_small :: "stack + stack \<times> stack \<Rightarrow> bool" where
  "res_small r = (case r of Inl _ \<Rightarrow> True | Inr (st, alt) \<Rightarrow> small st \<and> small alt)"

lemma res_small_simps [simp]: "res_small (Inl st)" "res_small (Inr (st, alt)) \<longleftrightarrow> small st \<and> small alt"
  by (simp_all add: res_small_def)

lemma res_small_if: "res_small a \<Longrightarrow> res_small b \<Longrightarrow> res_small (if c then a else b)"
  by simp

lemma pick_op_small:
  assumes "small st" "small alt"
  shows "res_small (pick_op L opcode st alt)"
proof (cases "\<exists>x y r. st = x # y # r")
  case True
  then obtain x y r where st: "st = x # y # r" by blast
  show ?thesis
  proof (cases "CastToBigNum L x")
    case (Some bn)
    define n where "n = getint L bn"
    define xs where "xs = y # r"
    have xs: "small xs" using assms st by (simp add: xs_def)
    have "res_small (if n < 0 \<or> n \<ge> int (length xs) then Inl xs
      else Inr (xs ! nat n # (if opcode = OP_ROLL then take (nat n) xs @ drop (Suc (nat n)) xs else xs), alt))"
    proof (cases "n < 0 \<or> n \<ge> int (length xs)")
      case False
      then have "nat n < length xs" by linarith
      with False xs assms(2) small_take_drop(4) [OF xs] show ?thesis
        by (simp add: small_take_drop(1-3))
    qed simp
    then show ?thesis
      by (simp only: pick_op_def st list.case Some option.case Let_def n_def xs_def)
  qed (simp add: pick_op_def st)
next
  case False
  then show ?thesis by (auto simp: pick_op_def split: list.split)
qed

lemma stack_op_small:
  assumes "openssl_bn L" "small st" "small alt" "length st \<le> 1000"
  shows "res_small (stack_op L opcode st alt)"
proof -
  have d: "length (getvch L (int (length st))) \<le> MAX_SCRIPT_ELEMENT_SIZE"
    using assms(1,4) by (intro getvch_small_elem) auto
  have z: "\<forall>x \<in> set st. length (getvch L (int (length x))) \<le> MAX_SCRIPT_ELEMENT_SIZE"
    using assms(1,2) by (auto simp: small_def MAX_SCRIPT_ELEMENT_SIZE_def
        intro!: getvch_small_elem [unfolded MAX_SCRIPT_ELEMENT_SIZE_def])
  note p = pick_op_small [OF assms(2,3)]
  show ?thesis
    unfolding stack_op_def
    by (intro res_small_if p) (use assms(2,3) d z in \<open>simp_all split: list.split, auto\<close>)
qed

text \<open>What the interpreter keeps of its state at every round.\<close>

definition state_ok :: "'c script_state \<Rightarrow> bool" where
  "state_ok s \<longleftrightarrow> small (ss_stack s) \<and> small (ss_alt s) \<and>
     length (ss_stack s) + length (ss_alt s) \<le> 1000 \<and> ss_nOpCount s \<le> 201"

definition elems_ok :: "'c script_state + 'c script_state \<Rightarrow> bool" where
  "elems_ok r = (case r of Inl _ \<Rightarrow> True | Inr s \<Rightarrow> small (ss_stack s) \<and> small (ss_alt s) \<and> ss_nOpCount s \<le> 201)"

lemma elems_ok_simps [simp]:
  "elems_ok (Inl s)" "elems_ok (Inr s) \<longleftrightarrow> small (ss_stack s) \<and> small (ss_alt s) \<and> ss_nOpCount s \<le> 201"
  by (simp_all add: elems_ok_def)

lemma elems_ok_if: "elems_ok a \<Longrightarrow> elems_ok b \<Longrightarrow> elems_ok (if c then a else b)"
  by simp

lemma elems_ok_on_stack:
  "small (ss_alt s) \<Longrightarrow> ss_nOpCount s \<le> 201 \<Longrightarrow> (\<And>st. res = Inr st \<Longrightarrow> small st) \<Longrightarrow> elems_ok (on_stack s res)"
  by (cases res) (simp_all add: on_stack_def)

lemma equal_op_small: "small st \<Longrightarrow> equal_op opcode st = Inr st' \<Longrightarrow> small st'"
  by (auto simp: equal_op_def Let_def split: list.splits if_splits)

lemma unary_op_small:
  "openssl_bn L \<Longrightarrow> small st \<Longrightarrow> unary_op L opcode st = Inr st' \<Longrightarrow> small st'"
  by (auto simp: unary_op_def split: list.splits option.splits
      intro!: getvch_small_elem unary_fun_range CastToBigNum_range)

lemma binary_op_small:
  assumes "openssl_bn L" "small st" "binary_op L opcode st = Inr st'"
  shows "small st'"
proof -
  from assms(3) obtain x2 x1 r where st: "st = x2 # x1 # r"
    by (auto simp: binary_op_def split: list.splits)
  with assms(3) obtain bn1 bn2 where b: "CastToBigNum L x1 = Some bn1" "CastToBigNum L x2 = Some bn2"
    by (auto simp: binary_op_def split: option.splits)
  have "length (getvch L (binary_fun opcode bn1 bn2)) \<le> MAX_SCRIPT_ELEMENT_SIZE"
    using b assms(1) by (intro getvch_small_elem binary_fun_range CastToBigNum_range)
  with assms(2,3) st b show ?thesis
    by (auto simp: binary_op_def Let_def split: if_splits)
qed

lemma within_op_small: "small st \<Longrightarrow> within_op L st = Inr st' \<Longrightarrow> small st'"
  by (auto simp: within_op_def split: list.splits option.splits)

lemma hash_op_small:
  "digest_lengths L \<Longrightarrow> small st \<Longrightarrow> hash_op L opcode st = Inr st' \<Longrightarrow> small st'"
  by (auto simp: hash_op_def digest_lengths_def MAX_SCRIPT_ELEMENT_SIZE_def split: list.splits)

lemma finish_check_small: "small r \<Longrightarrow> finish_check v opcode b r = Inr st' \<Longrightarrow> small st'"
  by (auto simp: finish_check_def split: if_splits)

lemma checksig_op_small:
  assumes "small st" "checksig_op chk flags opcode h st c = (Inr st', c')"
  shows "small st'"
proof -
  from assms(2) obtain k g r where st: "st = k # g # r"
    by (auto simp: checksig_op_def split: list.splits)
  with assms(2) obtain v b where "finish_check v opcode b r = Inr st'"
    by (auto simp: checksig_op_def Let_def split: prod.splits)
  with assms(1) st show ?thesis by (auto intro: finish_check_small)
qed

lemma multisig_args_small:
  "small st \<Longrightarrow> multisig_args L n st = Some (m, sigs, keys, r) \<Longrightarrow> small r \<and> m \<le> 201"
  by (auto simp: multisig_args_def Let_def small_take_drop split: if_splits option.splits)

lemma multisig_op_small:
  assumes "small st" "multisig_op L chk flags opcode h n st c = (Inr (st', m), c')"
  shows "small st' \<and> m \<le> 201"
proof -
  obtain sigs keys r n' where a: "multisig_args L n st = Some (n', sigs, keys, r)"
    using assms(2) by (cases "multisig_args L n st") (auto simp: multisig_op_def)
  obtain b c1 where l: "multisig_loop chk flags (foldl (\<lambda>code vchSig. snd (FindAndDelete (push_data vchSig) code)) h sigs)
      sigs keys c = (b, c1)" by fastforce
  have f: "finish_check OP_CHECKMULTISIGVERIFY opcode b r = Inr st'" "m = n'"
    using assms(2) by (auto simp: multisig_op_def a l Let_def split: sum.splits)
  with multisig_args_small [OF assms(1) a] show ?thesis by (auto intro: finish_check_small)
qed

lemma control_op_ok:
  "small (ss_stack s) \<Longrightarrow> small (ss_alt s) \<Longrightarrow> ss_nOpCount s \<le> 201 \<Longrightarrow> elems_ok (control_op fExec opcode s)"
  by (auto simp: control_op_def Let_def split: list.split)

lemma push_number_small:
  "openssl_bn L \<Longrightarrow> length (getvch L (uint (opcode :: byte) - (uint OP_1 - 1))) \<le> MAX_SCRIPT_ELEMENT_SIZE"
proof -
  assume L: "openssl_bn L"
  define k where "k = uint opcode"
  have "0 \<le> k" "k < 256"
    using unsigned_less [of opcode, where 'a = int] by (simp_all add: k_def)
  then have "\<bar>k - (81 - 1)\<bar> < 2 ^ 39" by simp
  then have "\<bar>uint opcode - (81 - 1)\<bar> < 2 ^ 39" unfolding k_def .
  then show ?thesis using getvch_small_elem [OF L] by simp
qed

lemma exec_plain_ok:
  assumes "openssl_bn L" "digest_lengths L" "state_ok s"
  shows "elems_ok (exec_plain L fExec opcode pc s)"
proof -
  have s: "small (ss_stack s)" "small (ss_alt s)" "length (ss_stack s) \<le> 1000" "ss_nOpCount s \<le> 201"
    using assms(3) by (simp_all add: state_ok_def)
  have st: "elems_ok (case stack_op L opcode (ss_stack s) (ss_alt s) of
       Inl st \<Rightarrow> Inl (s\<lparr>ss_stack := st\<rparr>)
     | Inr (st, alt) \<Rightarrow> Inr (s\<lparr>ss_stack := st, ss_alt := alt\<rparr>))"
    using stack_op_small [OF assms(1) s(1-3), of opcode] s(4) by (auto split: sum.split prod.split)
  note on = elems_ok_on_stack [OF s(2,4)]
  note small_ops = equal_op_small [OF s(1)] unary_op_small [OF assms(1) s(1)]
    binary_op_small [OF assms(1) s(1)] within_op_small [OF s(1)] hash_op_small [OF assms(2) s(1)]
  show ?thesis
    unfolding exec_plain_def Let_def
    by (intro elems_ok_if st control_op_ok s on)
      ((erule small_ops | simp add: s push_number_small [OF assms(1), simplified])+)
qed

lemma exec_op_ok:
  assumes "openssl_bn L" "digest_lengths L" "state_ok s"
  shows "elems_ok (exec_op L chk flags fExec opcode pc s)"
proof -
  have s: "small (ss_stack s)" "small (ss_alt s)" "ss_nOpCount s \<le> 201"
    using assms(3) by (simp_all add: state_ok_def)
  have "elems_ok (case checksig_op chk flags opcode (ss_codehash s) (ss_stack s) (ss_checker s) of
      (res, c) \<Rightarrow> on_stack (s\<lparr>ss_checker := c\<rparr>) res)"
    using s checksig_op_small [OF s(1)] by (auto intro!: elems_ok_on_stack split: prod.split)
  moreover have "elems_ok (case multisig_op L chk flags opcode (ss_codehash s) (ss_nOpCount s) (ss_stack s) (ss_checker s) of
           (Inl st, c) \<Rightarrow> Inl (s\<lparr>ss_stack := st, ss_checker := c\<rparr>)
         | (Inr (st, n), c) \<Rightarrow> Inr (s\<lparr>ss_stack := st, ss_nOpCount := n, ss_checker := c\<rparr>))"
    using s(2,3) by (auto split: prod.split sum.split dest: multisig_op_small [OF s(1)])
  ultimately show ?thesis
    unfolding exec_op_def by (intro elems_ok_if exec_plain_ok assms)
qed

lemma run_instr_ok:
  assumes "openssl_bn L" "digest_lengths L" "state_ok s" "length vch \<le> MAX_SCRIPT_ELEMENT_SIZE"
  shows "elems_ok (run_instr L chk flags opcode vch pc s)"
  using exec_op_ok [OF assms(1-3)] assms(3,4)
  by (auto simp: run_instr_def Let_def state_ok_def)

lemma eval_instr_ok:
  assumes "openssl_bn L" "digest_lengths L" "state_ok s"
    and "eval_instr L chk flags opcode vch pc s = Inr s'"
  shows "state_ok s'"
proof -
  let ?s = "count_op opcode s"
  have v: "length vch \<le> MAX_SCRIPT_ELEMENT_SIZE" and n: "\<not> (opcode > OP_16 \<and> ss_nOpCount ?s > 201)"
    and r: "run_instr L chk flags opcode vch pc ?s = Inr s'"
    and l: "length (ss_stack s') + length (ss_alt s') \<le> 1000"
    using assms(4) by (auto simp: eval_instr_def Let_def split: if_splits sum.splits)
  have "state_ok ?s"
    using n assms(3) by (auto simp: state_ok_def count_op_def split: if_splits)
  from run_instr_ok [OF assms(1,2) this v, of chk flags opcode pc] r l
  show ?thesis by (simp add: state_ok_def)
qed

lemma eval_loop_ok:
  assumes "openssl_bn L" "digest_lengths L"
  shows "state_ok s \<Longrightarrow> eval_loop L chk flags pc s = (True, s') \<Longrightarrow> state_ok s' \<and> ss_vfExec s' = []"
proof (induction "length pc" arbitrary: pc s rule: less_induct)
  case less
  note c = eval_loop.simps [of L chk flags pc s]
  show ?case
  proof (cases "pc = []")
    case True
    with less(2,3) show ?thesis by (auto simp: eval_loop.simps [of L chk flags "[]" s])
  next
    case False
    with less(3) obtain opcode vch rest where g: "GetOp pc = Some (opcode, vch, rest)"
      by (auto simp: c split: option.splits)
    with less(3) False obtain s1 where s1: "eval_instr L chk flags opcode vch rest s = Inr s1"
      by (auto simp: c split: sum.splits)
    with less(3) g False have "eval_loop L chk flags rest s1 = (True, s')" by (simp add: c)
    with less(1) [OF GetOp_length [OF g]] eval_instr_ok [OF assms less(2) s1] show ?thesis by blast
  qed
qed

lemma EvalScript_limits:
  assumes "openssl_bn L" "digest_lengths L" "small st" "length st \<le> 1000"
    and "EvalScript L chk flags st script c = (True, st', c')"
  shows "small st' \<and> length st' \<le> 1000"
proof -
  obtain b s where l: "eval_loop L chk flags script (initial_state script st c) = (b, s)" by fastforce
  with assms(5) have b: "b" "st' = ss_stack s" by (auto simp: EvalScript_def split: if_splits)
  have "state_ok (initial_state script st c)"
    using assms(3,4) by (simp add: state_ok_def initial_state_def)
  moreover have "eval_loop L chk flags script (initial_state script st c) = (True, s)" using l b by simp
  ultimately have "state_ok s" using eval_loop_ok [OF assms(1,2)] by blast
  with b show ?thesis by (simp add: state_ok_def)
qed

section \<open>Disabled opcodes\<close>

lemma eval_loop_instructions:
  "eval_loop L chk flags pc s = (True, s') \<Longrightarrow>
   snd (instructions pc) = [] \<and> (\<forall>c \<in> set (fst (instructions pc)). \<not> opcode_disabled (hd c))"
proof (induction "length pc" arbitrary: pc s rule: less_induct)
  case less
  note c = eval_loop.simps [of L chk flags pc s]
  show ?case
  proof (cases "pc = []")
    case True
    then show ?thesis by (simp add: instructions.simps)
  next
    case False
    with less(2) obtain opcode vch rest where g: "GetOp pc = Some (opcode, vch, rest)"
      by (auto simp: c split: option.splits)
    with less(2) False obtain s1 where s1: "eval_instr L chk flags opcode vch rest s = Inr s1"
      by (auto simp: c split: sum.splits)
    then have d: "\<not> opcode_disabled opcode"
      by (auto simp: eval_instr_def Let_def split: if_splits)
    from less(2) g False s1 have "eval_loop L chk flags rest s1 = (True, s')" by (simp add: c)
    note ih = less(1) [OF GetOp_length [OF g] this]
    obtain p where "pc = opcode # p @ rest" using GetOp_consumes [OF g] by blast
    then have "hd (take (length pc - length rest) pc) = opcode" by simp
    with ih d show ?thesis by (auto simp: instructions.simps [of pc] g split: prod.splits)
  qed
qed

section \<open>Standard scripts\<close>

lemma eval_loop_Nil [simp]: "eval_loop L chk flags [] s = (ss_vfExec s = [], s)"
  by (simp add: eval_loop.simps)

lemma eval_loop_push:
  assumes "length v \<le> MAX_SCRIPT_ELEMENT_SIZE" "ss_vfExec s = []"
    and "length (ss_stack s) + length (ss_alt s) < 1000"
  shows "eval_loop L chk flags (push_data v @ pc) s = eval_loop L chk flags pc (s\<lparr>ss_stack := v # ss_stack s\<rparr>)"
proof -
  obtain opcode where g: "opcode \<le> OP_PUSHDATA4" "GetOp (push_data v @ pc) = Some (opcode, v, pc)"
    using GetOp_push_data [of v pc] assms(1) by (auto simp: MAX_SCRIPT_ELEMENT_SIZE_def)
  then have "\<not> opcode > OP_16" by (auto simp: word_le_nat_alt word_less_nat_alt)
  moreover have "\<not> opcode_disabled opcode"
    using g(1) by (auto simp: opcode_disabled_def word_le_nat_alt)
  ultimately have "eval_instr L chk flags opcode v pc s = Inr (s\<lparr>ss_stack := v # ss_stack s\<rparr>)"
    using assms g(1) by (simp add: eval_instr_def run_instr_def count_op_def Let_def)
  then show ?thesis using g(2) by (subst eval_loop.simps) simp
qed

text \<open>One instruction without operand, in an executed branch.\<close>

lemma eval_loop_op:
  assumes "opcode > OP_16" "\<not> opcode_disabled opcode" "ss_vfExec s = []" "ss_nOpCount s < 201"
  shows "eval_loop L chk flags (opcode # pc) s =
    (case exec_op L chk flags True opcode pc (s\<lparr>ss_nOpCount := ss_nOpCount s + 1\<rparr>) of
       Inl s' \<Rightarrow> (False, s')
     | Inr s' \<Rightarrow> if length (ss_stack s') + length (ss_alt s') > 1000 then (False, s')
                 else eval_loop L chk flags pc s')"
proof -
  have "\<not> opcode \<le> OP_PUSHDATA4" using assms(1) by (auto simp: word_le_nat_alt word_less_nat_alt)
  then have "GetOp (opcode # pc) = Some (opcode, [], pc)" by simp
  then show ?thesis using assms \<open>\<not> opcode \<le> OP_PUSHDATA4\<close>
    by (subst eval_loop.simps)
      (simp add: eval_instr_def run_instr_def count_op_def Let_def MAX_SCRIPT_ELEMENT_SIZE_def split: sum.split)
qed

text \<open>Pay to public key hash.\<close>

definition P2PKH_script :: "bytes \<Rightarrow> bytes" where
  "P2PKH_script h = [OP_DUP, OP_HASH160] @ push_data h @ [OP_EQUALVERIFY, OP_CHECKSIG]"

lemmas exec_simps = exec_op_def exec_plain_def is_push_number_def is_nop_def is_stack_op_def
  is_unary_op_def is_binary_op_def is_hash_op_def on_stack_def

lemma eval_P2PKH:
  assumes "length h = 20" "length sig \<le> 520" "length pub \<le> 520"
  shows "EvalScript L chk flags [pub, sig] (P2PKH_script h) c =
    (if ser_word (Hash160 L pub) = h then
       (case check_encoded chk flags sig pub (snd (FindAndDelete (push_data sig) (P2PKH_script h))) c of
          (b, c') \<Rightarrow> (True, [vchBool b], c'))
     else (False, [vchBool False, pub, sig], c))"
proof -
  let ?s = "initial_state (P2PKH_script h) [pub, sig] c"
  have dup: "exec_op L chk flags True OP_DUP pc s = Inr (s\<lparr>ss_stack := hd (ss_stack s) # ss_stack s\<rparr>)"
    if "ss_stack s \<noteq> []" for pc and s :: "'a script_state"
    using that by (cases "ss_stack s") (simp_all add: exec_simps stack_op_def)
  have hash: "exec_op L chk flags True OP_HASH160 pc s = Inr (s\<lparr>ss_stack := ser_word (Hash160 L (hd (ss_stack s))) # tl (ss_stack s)\<rparr>)"
    if "ss_stack s \<noteq> []" for pc and s :: "'a script_state"
    using that by (cases "ss_stack s") (simp_all add: exec_simps hash_op_def)
  have eq: "exec_op L chk flags True OP_EQUALVERIFY pc s =
      (if y = x then Inr (s\<lparr>ss_stack := r\<rparr>) else Inl (s\<lparr>ss_stack := vchBool False # r\<rparr>))"
    if "ss_stack s = x # y # r" for pc x y r and s :: "'a script_state"
    using that by (simp add: exec_simps equal_op_def Let_def)
  have sig: "exec_op L chk flags True OP_CHECKSIG pc s =
      (case check_encoded chk flags sig pub (snd (FindAndDelete (push_data sig) (ss_codehash s))) (ss_checker s) of
         (b, c') \<Rightarrow> Inr (s\<lparr>ss_checker := c', ss_stack := [vchBool b]\<rparr>))"
    if "ss_stack s = [pub, sig]" for pc and s :: "'a script_state"
    using that by (simp add: exec_op_def checksig_op_def finish_check_def on_stack_def Let_def split: prod.split)
  have d: "\<not> opcode_disabled OP_DUP" "\<not> opcode_disabled OP_HASH160" "\<not> opcode_disabled OP_EQUALVERIFY"
    "\<not> opcode_disabled OP_CHECKSIG"
    by (simp_all add: opcode_disabled_def)
  have len: "length (P2PKH_script h) \<le> 10000" using assms(1) by (simp add: P2PKH_script_def push_data_def)
  have "eval_loop L chk flags (P2PKH_script h) ?s =
    (if ser_word (Hash160 L pub) = h then
       (case check_encoded chk flags sig pub (snd (FindAndDelete (push_data sig) (P2PKH_script h))) c of
          (b, c') \<Rightarrow> (True, ?s\<lparr>ss_nOpCount := 4, ss_checker := c', ss_stack := [vchBool b]\<rparr>))
     else (False, ?s\<lparr>ss_nOpCount := 3, ss_stack := [vchBool False, pub, sig]\<rparr>))"
    unfolding P2PKH_script_def append_Cons append_Nil
    by (simp add: eval_loop_op eval_loop_push d dup hash eq sig initial_state_def assms(1)
        MAX_SCRIPT_ELEMENT_SIZE_def P2PKH_script_def [symmetric] split: prod.split)
  then show ?thesis using len
    by (simp add: EvalScript_def initial_state_def split: prod.split)
qed

lemma CastToBool_vchBool [simp]: "CastToBool (vchBool b) = b"
  by (simp add: vchBool_def)

lemma EvalScript_pushes:
  assumes "\<forall>v \<in> set vs. length v \<le> MAX_SCRIPT_ELEMENT_SIZE" "length st + length vs \<le> 1000"
    and "length (concat (map push_data vs)) \<le> 10000"
  shows "EvalScript L chk flags st (concat (map push_data vs)) c = (True, rev vs @ st, c)"
proof -
  have "ss_vfExec s = [] \<Longrightarrow> length (ss_stack s) + length (ss_alt s) + length vs \<le> 1000 \<Longrightarrow>
    eval_loop L chk flags (concat (map push_data vs)) s = (True, s\<lparr>ss_stack := rev vs @ ss_stack s\<rparr>)"
    for s :: "'a script_state"
    using assms(1) by (induction vs arbitrary: s) (simp_all add: eval_loop_push)
  with assms(2,3) show ?thesis by (simp add: EvalScript_def initial_state_def)
qed

lemma Verify_P2PKH:
  assumes "length h = 20" "length sig \<le> 520" "length pub \<le> 520"
  shows "VerifyScript L chk flags (push_data sig @ push_data pub) (P2PKH_script h) c =
    (if ser_word (Hash160 L pub) = h
     then check_encoded chk flags sig pub (snd (FindAndDelete (push_data sig) (P2PKH_script h))) c
     else (False, c))"
proof -
  have "length (push_data sig @ push_data pub) \<le> 10000"
    using assms by (simp add: push_data_def)
  then have e: "EvalScript L chk flags [] (push_data sig @ push_data pub) c = (True, [pub, sig], c)"
    using EvalScript_pushes [of "[sig, pub]" "[]" L chk flags c] assms by (simp add: MAX_SCRIPT_ELEMENT_SIZE_def)
  have "\<not> IsPayToScriptHash (P2PKH_script h)"
    using assms(1) by (simp add: IsPayToScriptHash_def P2PKH_script_def push_data_def)
  then show ?thesis
    by (simp add: VerifyScript_def e eval_P2PKH [OF assms] Let_def split: prod.split)
qed

lemma eval_P2SH:
  assumes "length h = 20" "length r \<le> 998"
  shows "EvalScript L chk flags (x # r) (P2SH_script h) c = (True, vchBool (ser_word (Hash160 L x) = h) # r, c)"
proof -
  have hash: "exec_op L chk flags True OP_HASH160 pc s = Inr (s\<lparr>ss_stack := ser_word (Hash160 L (hd (ss_stack s))) # tl (ss_stack s)\<rparr>)"
    if "ss_stack s \<noteq> []" for pc and s :: "'a script_state"
    using that by (cases "ss_stack s") (simp_all add: exec_simps hash_op_def)
  have eq: "exec_op L chk flags True OP_EQUAL pc s = Inr (s\<lparr>ss_stack := vchBool (y = x) # r\<rparr>)"
    if "ss_stack s = x # y # r" for pc x y r and s :: "'a script_state"
    using that by (simp add: exec_simps equal_op_def Let_def)
  have d: "\<not> opcode_disabled OP_HASH160" "\<not> opcode_disabled OP_EQUAL"
    by (simp_all add: opcode_disabled_def)
  have p: "P2SH_script h = OP_HASH160 # push_data h @ [OP_EQUAL]"
    using assms(1) by (simp add: P2SH_script_def push_data_def)
  have len: "length (P2SH_script h) \<le> 10000" using assms(1) by (simp add: P2SH_script_def)
  have "eval_loop L chk flags (P2SH_script h) (initial_state (P2SH_script h) (x # r) c) =
      (True, (initial_state (P2SH_script h) (x # r) c)\<lparr>ss_nOpCount := 2, ss_stack := vchBool (ser_word (Hash160 L x) = h) # r\<rparr>)"
    unfolding p using assms(2)
    by (simp add: eval_loop_op eval_loop_push d hash eq initial_state_def assms(1) MAX_SCRIPT_ELEMENT_SIZE_def)
  then show ?thesis using len by (simp add: EvalScript_def initial_state_def)
qed

lemma eval_P2SH_Nil:
  assumes "length h = 20"
  shows "fst (EvalScript L chk flags [] (P2SH_script h) c) = False"
proof -
  have "\<not> opcode_disabled OP_HASH160" by (simp add: opcode_disabled_def)
  then have "fst (eval_loop L chk flags (P2SH_script h) (initial_state (P2SH_script h) [] c)) = False"
    unfolding P2SH_script_def
    by (subst eval_loop_op) (simp_all add: initial_state_def exec_simps hash_op_def)
  then show ?thesis by (auto simp: EvalScript_def split: prod.split)
qed

lemma eval_loop_push_full:
  assumes "length v \<le> MAX_SCRIPT_ELEMENT_SIZE" "ss_vfExec s = []"
    and "length (ss_stack s) + length (ss_alt s) \<ge> 1000"
  shows "fst (eval_loop L chk flags (push_data v @ pc) s) = False"
proof -
  obtain opcode where g: "opcode \<le> OP_PUSHDATA4" "GetOp (push_data v @ pc) = Some (opcode, v, pc)"
    using GetOp_push_data [of v pc] assms(1) by (auto simp: MAX_SCRIPT_ELEMENT_SIZE_def)
  then have "\<not> opcode > OP_16" by (auto simp: word_le_nat_alt word_less_nat_alt)
  moreover have "\<not> opcode_disabled opcode"
    using g(1) by (auto simp: opcode_disabled_def word_le_nat_alt)
  ultimately have "eval_instr L chk flags opcode v pc s = Inl (s\<lparr>ss_stack := v # ss_stack s\<rparr>)"
    using assms g(1) by (simp add: eval_instr_def run_instr_def count_op_def Let_def)
  then show ?thesis using g(2) by (subst eval_loop.simps) simp
qed

lemma eval_P2SH_full:
  assumes "length h = 20" "length r = 999"
  shows "fst (EvalScript L chk flags (x # r) (P2SH_script h) c) = False"
proof -
  have hash: "exec_op L chk flags True OP_HASH160 pc s = Inr (s\<lparr>ss_stack := ser_word (Hash160 L (hd (ss_stack s))) # tl (ss_stack s)\<rparr>)"
    if "ss_stack s \<noteq> []" for pc and s :: "'a script_state"
    using that by (cases "ss_stack s") (simp_all add: exec_simps hash_op_def)
  have d: "\<not> opcode_disabled OP_HASH160" by (simp add: opcode_disabled_def)
  have p: "P2SH_script h = OP_HASH160 # push_data h @ [OP_EQUAL]"
    using assms(1) by (simp add: P2SH_script_def push_data_def)
  have "fst (eval_loop L chk flags (P2SH_script h) (initial_state (P2SH_script h) (x # r) c)) = False"
    unfolding p using assms
    by (simp add: eval_loop_op d hash initial_state_def eval_loop_push_full [simplified] MAX_SCRIPT_ELEMENT_SIZE_def)
  then show ?thesis by (auto simp: EvalScript_def split: prod.split)
qed

text \<open>What spending a pay-to-script-hash output takes.\<close>

lemma Verify_P2SH:
  assumes "openssl_bn L" "digest_lengths L" "length h = 20" "flags AND SCRIPT_VERIFY_P2SH \<noteq> 0"
  shows "fst (VerifyScript L chk flags sigScript (P2SH_script h) c) \<longleftrightarrow>
    (\<exists>redeem r c1. EvalScript L chk flags [] sigScript c = (True, redeem # r, c1) \<and> length r \<le> 998 \<and>
       ser_word (Hash160 L redeem) = h \<and> IsPushOnly sigScript \<and>
       (case EvalScript L chk flags r redeem c1 of
          (b, st, _) \<Rightarrow> b \<and> st \<noteq> [] \<and> CastToBool (hd st)))"
proof -
  obtain b st c1 where e: "EvalScript L chk flags [] sigScript c = (b, st, c1)" by (cases rule: prod_cases3) auto
  have p2sh: "IsPayToScriptHash (P2SH_script h)" using assms(3) by (auto simp: IsPayToScriptHash_iff)
  show ?thesis
  proof (cases "b \<and> st \<noteq> []")
    case False
    with e eval_P2SH_Nil [OF assms(3), of L chk flags c1] show ?thesis
      by (cases b) (auto simp: VerifyScript_def Let_def split: prod.splits bool.splits)
  next
    case True
    then obtain redeem r where st: "st = redeem # r" by (cases st) auto
    have "length st \<le> 1000"
      using True e EvalScript_limits [OF assms(1,2), of "[]" chk flags sigScript c st c1] by simp
    show ?thesis
    proof (cases "length r \<le> 998")
      case True
      then show ?thesis
        using e \<open>b \<and> st \<noteq> []\<close> p2sh assms(4)
        by (auto simp: VerifyScript_def st eval_P2SH [OF assms(3)] Let_def split: prod.splits bool.splits)
    next
      case False
      then have "length r = 999" using \<open>length st \<le> 1000\<close> st by simp
      then show ?thesis
        using e False \<open>b \<and> st \<noteq> []\<close> eval_P2SH_full [OF assms(3), of r L chk flags redeem c1]
        by (auto simp: VerifyScript_def st Let_def split: prod.splits bool.splits)
    qed
  qed
qed

section \<open>Multiple signatures\<close>

text \<open>
  The loop decides whether the signatures match keys in the order of the keys: the embedding of
  one list into the other. A signature is tried on the first key that is left, which is optimal.
\<close>

lemma multisig_loop_embeds:
  "fst (multisig_loop (pure_checker valid) flags code sigs keys c) \<longleftrightarrow>
   list_emb (\<lambda>s k. fst (check_encoded (pure_checker valid) flags s k code ())) sigs keys"
proof (induction keys arbitrary: sigs c)
  case Nil
  then show ?case by (cases sigs) auto
next
  case (Cons k keys)
  show ?case
  proof (cases sigs)
    case Nil
    then show ?thesis by simp
  next
    case (Cons s ss)
    define ok where "ok = fst (check_encoded (pure_checker valid) flags s k code ())"
    have e: "check_encoded (pure_checker valid) flags s k code c = (ok, ())" for c
      by (simp add: ok_def check_encoded_def pure_checker_def)
    let ?sigs = "if ok then ss else s # ss"
    have "list_emb (\<lambda>s k. fst (check_encoded (pure_checker valid) flags s k code ())) sigs (k # keys) \<longleftrightarrow>
          list_emb (\<lambda>s k. fst (check_encoded (pure_checker valid) flags s k code ())) ?sigs keys"
      unfolding Cons by (simp add: ok_def)
    moreover have "length ?sigs > length keys \<Longrightarrow>
          \<not> list_emb (\<lambda>s k. fst (check_encoded (pure_checker valid) flags s k code ())) ?sigs keys"
      using list_emb_length leD by blast
    ultimately show ?thesis
      using Cons.IH [of ?sigs "()"] unfolding Cons multisig_loop.simps e
      by (cases ok) (auto simp: Let_def)
  qed
qed

section \<open>Properties\<close>

text \<open>Numbers on the script stack: a number is read back from its shortest encoding exactly if it has
  at most 31 bits and a sign, the operands the arithmetic accepts; every result of the arithmetic
  on such operands still is an element of at most five bytes.\<close>

theorem script_number_roundtrip:
  assumes "openssl_bn L"
  shows "CastToBigNum L (getvch L n) = (if \<bar>n\<bar> < 2 ^ 31 then Some n else None) \<and>
         (\<bar>n\<bar> < 2 ^ 39 \<longrightarrow> length (getvch L n) \<le> 5)"
proof (cases "\<bar>n\<bar> < 2 ^ 31")
  case True
  then show ?thesis
    using length_getvch [OF assms, of n 3] getvch_small [OF assms, of n]
    by (simp add: CastToBigNum_def nMaxNumSize_def setvch_getvch [OF assms])
next
  case False
  then have "\<not> length (getvch L n) \<le> Suc 3"
    using abs_setvch_less [OF assms, of "getvch L n" 3] setvch_getvch [OF assms, of n] by fastforce
  with False show ?thesis
    using getvch_small [OF assms, of n] by (simp add: CastToBigNum_def nMaxNumSize_def)
qed

theorem script_number_roundtrip_witness:
  "CastToBigNum reference_ssl (getvch reference_ssl (-1000)) = Some (-1000)"
  using script_number_roundtrip [OF openssl_bn_reference, of "-1000"] by simp

text \<open>C1. Script verification does not depend on the signature cache: with a sound cache \<open>VerifyScript\<close>
  over \<open>CheckSig\<close> gives what it gives when every signature is verified anew, and leaves the
  cache sound.\<close>

theorem VerifyScript_cache_transparent:
  assumes "cache_sound L cache"
  shows "case VerifyScript L (CheckSig L flags txTo nIn nHashType) flags sigScript pubScript cache of
    (b, cache') \<Rightarrow> cache_sound L cache' \<and>
      VerifyScript L (pure_checker (signature_valid L txTo nIn nHashType)) flags sigScript pubScript () = (b, ())"
  using checksig.VerifyScript_pure [OF assms] by (auto split: prod.split)

theorem VerifyScript_cache_transparent_witness:
  "case VerifyScript reference_ssl (CheckSig reference_ssl 1 example_tx 0 0) 1 [OP_1] [OP_DUP, OP_CHECKSIG] example_cache of
    (b, cache') \<Rightarrow> cache_sound reference_ssl cache' \<and>
      VerifyScript reference_ssl (pure_checker (signature_valid reference_ssl example_tx 0 0)) 1 [OP_1] [OP_DUP, OP_CHECKSIG] () = (b, ())"
  by (rule VerifyScript_cache_transparent [OF cache_sound_example])

text \<open>C7. The limits of the interpreter: an evaluation that succeeds from a stack of at most 1000 elements
  of at most 520 bytes ends with such a stack, whatever the script does.\<close>

theorem EvalScript_keeps_limits:
  assumes "openssl_bn L" "digest_lengths L" "\<forall>x \<in> set st. length x \<le> MAX_SCRIPT_ELEMENT_SIZE" "length st \<le> 1000"
    and "EvalScript L chk flags st script c = (True, st', c')"
  shows "(\<forall>x \<in> set st'. length x \<le> MAX_SCRIPT_ELEMENT_SIZE) \<and> length st' \<le> 1000"
  using EvalScript_limits [OF assms(1,2) _ assms(4,5)] assms(3) by (simp add: small_def)

lemma eval_example:
  "EvalScript reference_ssl (pure_checker (\<lambda>_ _ _. True)) 0 [] (concat (map push_data [[1], [2, 3]])) () = (True, [[2, 3], [1]], ())"
  by (subst EvalScript_pushes) (simp_all add: MAX_SCRIPT_ELEMENT_SIZE_def push_data_def)

theorem EvalScript_keeps_limits_witness:
  "\<exists>st'. EvalScript reference_ssl (pure_checker (\<lambda>_ _ _. True)) 0 [] (concat (map push_data [[1], [2, 3]])) () = (True, st', ()) \<and>
     st' = [[2, 3], [1]] \<and> list_all (\<lambda>x. length x \<le> MAX_SCRIPT_ELEMENT_SIZE) st' \<and> length st' \<le> 1000"
  using EvalScript_keeps_limits [OF openssl_bn_reference digest_lengths_reference _ _ eval_example] eval_example
  by (simp only: list_all_iff) simp

text \<open>C8. A script is only accepted if it decodes completely and none of its instructions is disabled,
  also in branches that are not executed.\<close>

theorem EvalScript_disabled_opcodes:
  assumes "fst (EvalScript L chk flags st script c)"
  shows "snd (instructions script) = [] \<and> list_all (\<lambda>i. \<not> opcode_disabled (hd i)) (fst (instructions script)) \<and>
         length script \<le> 10000"
proof -
  obtain s where "eval_loop L chk flags script (initial_state script st c) = (True, s)"
    using assms by (auto simp: EvalScript_def split: if_splits prod.splits)
  from eval_loop_instructions [OF this] show ?thesis
    using assms by (auto simp: list_all_iff EvalScript_def split: if_splits)
qed

theorem EvalScript_disabled_opcodes_witness:
  "list_all (\<lambda>i. \<not> opcode_disabled (hd i)) (fst (instructions (concat (map push_data [[1], [2, 3]]))))"
  using EvalScript_disabled_opcodes [of reference_ssl "pure_checker (\<lambda>_ _ _. True)" 0 "[]" "concat (map push_data [[1], [2, 3]])" "()"]
  by (simp only: eval_example) simp

text \<open>C5. Pay to public key hash: the pushes of a signature and a key spend the output exactly if the key
  hashes to the hash of the output and the signature, in canonical form where this is demanded,
  is valid for the key and the script without the signature.\<close>

theorem P2PKH_spending:
  assumes "length h = 20" "length sig \<le> 520" "length pub \<le> 520"
  shows "fst (VerifyScript L (pure_checker valid) flags (push_data sig @ push_data pub) (P2PKH_script h) ()) \<longleftrightarrow>
    ser_word (Hash160 L pub) = h \<and>
    (fStrictEncodings flags \<longrightarrow> IsCanonicalSignature sig \<and> IsCanonicalPubKey pub) \<and>
    valid sig pub (snd (FindAndDelete (push_data sig) (P2PKH_script h)))"
  unfolding Verify_P2PKH [OF assms] by (auto simp: check_encoded_def pure_checker_def)

theorem P2PKH_spending_witness:
  "fst (VerifyScript reference_ssl (pure_checker (\<lambda>sig pub code. hd sig = 3)) 0
     (push_data [3] @ push_data [2, 5]) (P2PKH_script (2 # 5 # replicate 18 0)) ())"
proof -
  have "ser_word (Hash160 reference_ssl [2, 5]) = 2 # 5 # replicate 18 0"
    by (subst ser_word_Hash160 [OF digest_lengths_reference]) (simp add: reference_ssl_def resize_def)
  then show ?thesis
    by (subst P2PKH_spending) (simp_all add: fStrictEncodings_def)
qed

text \<open>C6. Pay to script hash: an output is spent exactly by an input that only pushes, whose last push hashes
  to the hash of the output and, evaluated as a script on the other pushes, succeeds with a true top
  element.\<close>

theorem P2SH_spending:
  assumes "openssl_bn L" "digest_lengths L" "length h = 20" "flags AND SCRIPT_VERIFY_P2SH \<noteq> 0"
  shows "fst (VerifyScript L chk flags sigScript (P2SH_script h) c) \<longleftrightarrow>
    (\<exists>redeem r c1. EvalScript L chk flags [] sigScript c = (True, redeem # r, c1) \<and> length r \<le> 998 \<and>
       ser_word (Hash160 L redeem) = h \<and> IsPushOnly sigScript \<and>
       (case EvalScript L chk flags r redeem c1 of
          (b, st, _) \<Rightarrow> b \<and> st \<noteq> [] \<and> CastToBool (hd st)))"
  by (rule Verify_P2SH [OF assms])

theorem P2SH_spending_witness:
  "fst (VerifyScript reference_ssl (pure_checker (\<lambda>_ _ _. True)) SCRIPT_VERIFY_P2SH
     (push_data [1, 1]) (P2SH_script (1 # 1 # replicate 18 0)) ())"
proof (rule P2SH_spending [THEN iffD2])
  let ?chk = "pure_checker (\<lambda>_ _ _. True)"
  show "openssl_bn reference_ssl" "digest_lengths reference_ssl"
    by (simp_all add: openssl_bn_reference digest_lengths_reference)
  have "EvalScript reference_ssl ?chk SCRIPT_VERIFY_P2SH [] (push_data [1, 1]) () = (True, [[1, 1]], ())"
    using EvalScript_pushes [of "[[1, 1]]" "[]" reference_ssl ?chk SCRIPT_VERIFY_P2SH "()"]
    by (simp add: MAX_SCRIPT_ELEMENT_SIZE_def push_data_def)
  moreover have "ser_word (Hash160 reference_ssl [1, 1]) = 1 # 1 # replicate 18 0"
    by (subst ser_word_Hash160 [OF digest_lengths_reference]) (simp add: reference_ssl_def resize_def)
  moreover have "IsPushOnly (push_data [1, 1])"
    using IsPushOnly_pushes [of "[[1, 1]]"] by simp
  moreover have "EvalScript reference_ssl ?chk SCRIPT_VERIFY_P2SH [] [1, 1] () = (True, [[1]], ())"
    using EvalScript_pushes [of "[[1]]" "[]" reference_ssl ?chk SCRIPT_VERIFY_P2SH "()"]
    by (simp add: MAX_SCRIPT_ELEMENT_SIZE_def push_data_def)
  ultimately show "\<exists>redeem r c1. EvalScript reference_ssl ?chk SCRIPT_VERIFY_P2SH [] (push_data [1, 1]) () = (True, redeem # r, c1) \<and>
      length r \<le> 998 \<and> ser_word (Hash160 reference_ssl redeem) = 1 # 1 # replicate 18 0 \<and> IsPushOnly (push_data [1, 1]) \<and>
      (case EvalScript reference_ssl ?chk SCRIPT_VERIFY_P2SH r redeem c1 of (b, st, _) \<Rightarrow> b \<and> st \<noteq> [] \<and> CastToBool (hd st))"
    by simp
qed (simp_all add: SCRIPT_VERIFY_P2SH_def)

lemma list_emb_subseq: "list_emb P xs ys \<longleftrightarrow> (\<exists>zs. subseq zs ys \<and> list_all2 P xs zs)"
proof
  show "list_emb P xs ys \<Longrightarrow> \<exists>zs. subseq zs ys \<and> list_all2 P xs zs"
  proof (induction rule: list_emb.induct)
    case (list_emb_Cons xs ys y)
    then obtain zs where "subseq zs ys" "list_all2 P xs zs" by blast
    then show ?case by (intro exI [of _ zs]) (simp add: list_emb.list_emb_Cons)
  next
    case (list_emb_Cons2 x y xs ys)
    then obtain zs where "subseq zs ys" "list_all2 P xs zs" by blast
    with \<open>P x y\<close> show ?case by (intro exI [of _ "y # zs"]) simp
  qed simp
  assume "\<exists>zs. subseq zs ys \<and> list_all2 P xs zs"
  then obtain zs where "subseq zs ys" "list_all2 P xs zs" by blast
  then show "list_emb P xs ys"
  proof (induction arbitrary: xs rule: list_emb.induct)
    case (list_emb_Cons2 x y zs ys)
    then show ?case by (auto simp: list_all2_Cons2)
  qed auto
qed

text \<open>C11. The greedy loop of \<open>OP_CHECKMULTISIG\<close>, which gives up as soon as fewer keys than signatures are
  left, decides whether the signatures can be matched to keys in the order of the keys.\<close>

theorem multisig_decides_matching:
  "fst (multisig_loop (pure_checker valid) flags code sigs keys c) \<longleftrightarrow>
   (\<exists>ks. subseq ks keys \<and>
      list_all2 (\<lambda>s k. (fStrictEncodings flags \<longrightarrow> IsCanonicalSignature s \<and> IsCanonicalPubKey k) \<and> valid s k code) sigs ks)"
proof -
  let ?P = "\<lambda>s k. (fStrictEncodings flags \<longrightarrow> IsCanonicalSignature s \<and> IsCanonicalPubKey k) \<and> valid s k code"
  have P: "(\<lambda>s k. fst (check_encoded (pure_checker valid) flags s k code ())) = ?P"
    by (auto simp: check_encoded_def pure_checker_def fun_eq_iff)
  show ?thesis
    by (simp only: multisig_loop_embeds P list_emb_subseq [of ?P])
qed

theorem multisig_decides_matching_witness:
  "fst (multisig_loop (pure_checker (\<lambda>s k code. s = k)) 0 [] [[1], [3]] [[1], [2], [3]] ())"
proof (rule multisig_decides_matching [THEN iffD2])
  have "subseq [[1], [3]] [[1], [2], [3 :: byte]]" by simp
  then show "\<exists>ks. subseq ks [[1], [2], [3]] \<and> list_all2 (\<lambda>s k.
      (fStrictEncodings 0 \<longrightarrow> IsCanonicalSignature s \<and> IsCanonicalPubKey k) \<and> s = k) [[1], [3]] ks"
    by (intro exI [of _ "[[1], [3]]"]) (simp add: fStrictEncodings_def)
qed

end
