(* ===== verification/CheckQueue.thy ===== *)
theory CheckQueue
  imports Main
begin

text \<open>
  The queue of script checks, \<open>CCheckQueue\<close> of \<open>src/src/checkqueue.h\<close>: worker threads and a master that adds checks, joins
  them, and learns whether all of them passed.

  What a thread does while it holds the mutex is one step; between two such steps it executes the checks of its batch, one
  step each. A thread that waits on a condition variable goes on when it has been notified (\<open>Wake\<close>), or for no reason
  (\<open>Spurious\<close>), as the documentation of condition variables allows. Thread 0 is the master. A check is an element of a type with a function that
  executes it; its result does not depend on when it is executed.
\<close>

section \<open>State\<close>

datatype thread_at = Not_started | Waiting_notified | Waiting | Working | Returned bool

text \<open>The local variables of \<open>Loop\<close>.\<close>

record 'a loop_thread =
  th_at :: thread_at
  vChecks :: "'a list"
  nNow :: nat
  fOk :: bool

text \<open>The members of \<open>CCheckQueue\<close>; nothing sets \<open>fQuit\<close>.\<close>

record 'a check_queue =
  cq_queue :: "'a list"
  nIdle :: nat
  nTotal :: nat
  fAllOk :: bool
  nTodo :: nat
  fQuit :: bool
  nBatchSize :: nat
  threads :: "'a loop_thread list"

definition new_thread :: "'a loop_thread" where
  "new_thread = \<lparr>th_at = Not_started, vChecks = [], nNow = 0, fOk = True\<rparr>"

definition CCheckQueue_init :: "nat \<Rightarrow> nat \<Rightarrow> 'a check_queue" where
  "CCheckQueue_init nBatchSizeIn n =
     \<lparr>cq_queue = [], nIdle = 0, nTotal = 0, fAllOk = True, nTodo = 0, fQuit = False, nBatchSize = nBatchSizeIn,
      threads = replicate (Suc n) new_thread\<rparr>"

abbreviation is_waiting :: "thread_at \<Rightarrow> bool" where
  "is_waiting a \<equiv> a = Waiting \<or> a = Waiting_notified"

section \<open>Operations\<close>

text \<open>\<open>condMaster.notify_one\<close> and the notifications of \<open>condWorker\<close>; \<open>notify_one\<close> picks a thread that waits, if there is one.\<close>

definition notified :: "'a loop_thread \<Rightarrow> 'a loop_thread" where
  "notified w = (if th_at w = Waiting then w\<lparr>th_at := Waiting_notified\<rparr> else w)"

definition notify_at :: "nat \<Rightarrow> 'a check_queue \<Rightarrow> 'a check_queue" where
  "notify_at t q = q\<lparr>threads := (threads q)[t := notified (threads q ! t)]\<rparr>"

definition notify_all_workers :: "'a check_queue \<Rightarrow> 'a check_queue" where
  "notify_all_workers q = q\<lparr>threads := (case threads q of [] \<Rightarrow> [] | m # ws \<Rightarrow> m # map notified ws)\<rparr>"

text \<open>The clean-up of the previous run; in the first iteration (\<open>nNow = 0\<close>) the thread counts itself.\<close>

definition loop_cleanup :: "nat \<Rightarrow> 'a check_queue \<Rightarrow> 'a check_queue" where
  "loop_cleanup t q =
     (let w = threads q ! t in
      if nNow w \<noteq> 0 then
        let q = q\<lparr>fAllOk := (fAllOk q \<and> fOk w), nTodo := nTodo q - nNow w\<rparr> in
        if nTodo q = 0 \<and> t \<noteq> 0 then notify_at 0 q else q
      else q\<lparr>nTotal := nTotal q + 1\<rparr>)"

definition batch_size :: "'a check_queue \<Rightarrow> nat" where
  "batch_size q = max 1 (min (nBatchSize q) (length (cq_queue q) div (nTotal q + nIdle q + 1)))"

text \<open>The inner loop up to the next wait, or to the end of the critical section: return, wait, or take a batch from the end
of the queue.\<close>

definition loop_take :: "nat \<Rightarrow> 'a check_queue \<Rightarrow> 'a check_queue" where
  "loop_take t q =
     (let w = threads q ! t; put = (\<lambda>w. (threads q)[t := w]) in
      if cq_queue q = [] then
        if (t = 0 \<or> fQuit q) \<and> nTodo q = 0 then
          q\<lparr>nTotal := nTotal q - 1, fAllOk := (if t = 0 then True else fAllOk q), threads := put (w\<lparr>th_at := Returned (fAllOk q)\<rparr>)\<rparr>
        else q\<lparr>nIdle := nIdle q + 1, threads := put (w\<lparr>th_at := Waiting\<rparr>)\<rparr>
      else
        let k = batch_size q; m = length (cq_queue q) - k in
        q\<lparr>cq_queue := take m (cq_queue q),
          threads := put (w\<lparr>th_at := Working, vChecks := rev (drop m (cq_queue q)), nNow := k, fOk := fAllOk q\<rparr>)\<rparr>)"

definition loop_section :: "nat \<Rightarrow> 'a check_queue \<Rightarrow> 'a check_queue" where
  "loop_section t q = loop_take t (loop_cleanup t q)"

definition loop_wake :: "nat \<Rightarrow> 'a check_queue \<Rightarrow> 'a check_queue" where
  "loop_wake t q = loop_take t (q\<lparr>nIdle := nIdle q - 1\<rparr>)"

definition loop_work :: "('a \<Rightarrow> bool) \<Rightarrow> nat \<Rightarrow> 'a check_queue \<Rightarrow> 'a check_queue" where
  "loop_work check t q =
     (let w = threads q ! t in
      q\<lparr>threads := (threads q)[t := w\<lparr>vChecks := tl (vChecks w), fOk := (if fOk w then check (hd (vChecks w)) else fOk w)\<rparr>]\<rparr>)"

definition queue_Add :: "'a list \<Rightarrow> 'a check_queue \<Rightarrow> 'a check_queue" where
  "queue_Add cs q = q\<lparr>cq_queue := cq_queue q @ cs, nTodo := nTodo q + length cs\<rparr>"

section \<open>Steps\<close>

text \<open>The threads start when they start; the master starts \<open>Loop\<close> by calling \<open>Wait\<close>, and adds checks before that.\<close>

datatype 'a queue_event = Start nat | Work nat | Loop nat | Wake nat | Spurious nat | Add "'a list"

inductive queue_step :: "('a \<Rightarrow> bool) \<Rightarrow> 'a queue_event \<Rightarrow> 'a check_queue \<Rightarrow> 'a check_queue \<Rightarrow> bool"
  for check :: "'a \<Rightarrow> bool" where
  start: "t < length (threads q) \<Longrightarrow> th_at (threads q ! t) = Not_started \<Longrightarrow>
    queue_step check (Start t) q (loop_section t q)"
| work: "t < length (threads q) \<Longrightarrow> th_at (threads q ! t) = Working \<Longrightarrow> vChecks (threads q ! t) \<noteq> [] \<Longrightarrow>
    queue_step check (Work t) q (loop_work check t q)"
| loop: "t < length (threads q) \<Longrightarrow> th_at (threads q ! t) = Working \<Longrightarrow> vChecks (threads q ! t) = [] \<Longrightarrow>
    queue_step check (Loop t) q (loop_section t q)"
| wake: "t < length (threads q) \<Longrightarrow> th_at (threads q ! t) = Waiting_notified \<Longrightarrow>
    queue_step check (Wake t) q (loop_wake t q)"
| spurious: "t < length (threads q) \<Longrightarrow> is_waiting (th_at (threads q ! t)) \<Longrightarrow>
    queue_step check (Spurious t) q (loop_wake t q)"
| add_none: "th_at (threads q ! 0) = Not_started \<Longrightarrow> length cs \<noteq> 1 \<Longrightarrow>
    queue_step check (Add cs) q (if cs = [] then q else notify_all_workers (queue_Add cs q))"
| add_one: "th_at (threads q ! 0) = Not_started \<Longrightarrow> 0 < t \<Longrightarrow> t < length (threads q) \<Longrightarrow> th_at (threads q ! t) = Waiting \<Longrightarrow>
    queue_step check (Add [c]) q (notify_at t (queue_Add [c] q))"
| add_unheard: "th_at (threads q ! 0) = Not_started \<Longrightarrow> Waiting \<notin> th_at ` set (tl (threads q)) \<Longrightarrow>
    queue_step check (Add [c]) q (queue_Add [c] q)"

inductive queue_run :: "('a \<Rightarrow> bool) \<Rightarrow> 'a queue_event list \<Rightarrow> 'a check_queue \<Rightarrow> 'a check_queue \<Rightarrow> bool"
  for check :: "'a \<Rightarrow> bool" where
  run_empty: "queue_run check [] q q"
| run_step: "queue_run check es q r \<Longrightarrow> queue_step check e r s \<Longrightarrow> queue_run check (es @ [e]) q s"

inductive_cases queue_runE: "queue_run check es q s"

fun added :: "'a queue_event list \<Rightarrow> 'a list" where
  "added [] = []"
| "added (Add cs # es) = cs @ added es"
| "added (_ # es) = added es"

lemma added_append [simp]: "added (es @ fs) = added es @ added fs"
  by (induction es rule: added.induct) simp_all

section \<open>The invariant\<close>

text \<open>What each thread contributes to the counters, and what it still has to say about the checks.\<close>

definition pending :: "'a loop_thread \<Rightarrow> nat" where
  "pending w = (if th_at w = Working then nNow w else 0)"

definition counted :: "'a loop_thread \<Rightarrow> nat" where
  "counted w = (case th_at w of Not_started \<Rightarrow> 0 | Returned r \<Rightarrow> 0 | _ \<Rightarrow> 1)"

definition idle :: "'a loop_thread \<Rightarrow> nat" where
  "idle w = (if is_waiting (th_at w) then 1 else 0)"

definition thread_ok :: "'a loop_thread \<Rightarrow> bool" where
  "thread_ok w \<longleftrightarrow> (th_at w = Working \<longrightarrow> 0 < nNow w) \<and> (th_at w = Not_started \<longrightarrow> nNow w = 0)"

definition no_failure :: "('a \<Rightarrow> bool) \<Rightarrow> 'a loop_thread \<Rightarrow> bool" where
  "no_failure check w \<longleftrightarrow> (th_at w = Working \<longrightarrow> fOk w \<and> list_all check (vChecks w))"

definition passing :: "('a \<Rightarrow> bool) \<Rightarrow> 'a check_queue \<Rightarrow> bool" where
  "passing check q \<longleftrightarrow> fAllOk q \<and> list_all check (cq_queue q) \<and> list_all (no_failure check) (threads q)"

text \<open>The master has returned with the verdict on all checks \<open>A\<close> and left the queue as it found it; or what is left in
the queue, in the batches and in \<open>fAllOk\<close> decides the verdict. A master that waits unnotified has something to wait for.\<close>

definition master_ok :: "('a \<Rightarrow> bool) \<Rightarrow> 'a list \<Rightarrow> thread_at \<Rightarrow> 'a check_queue \<Rightarrow> bool" where
  "master_ok check A a q = (case a of
        Returned r \<Rightarrow> r = list_all check A \<and> cq_queue q = [] \<and> nTodo q = 0 \<and> fAllOk q
      | _ \<Rightarrow> list_all check A = passing check q \<and> (is_waiting a \<longrightarrow> cq_queue q = []) \<and> (a = Waiting \<longrightarrow> 0 < nTodo q))"

definition queue_inv :: "('a \<Rightarrow> bool) \<Rightarrow> 'a list \<Rightarrow> 'a check_queue \<Rightarrow> bool" where
  "queue_inv check A q \<longleftrightarrow>
     threads q \<noteq> [] \<and> \<not> fQuit q \<and> list_all thread_ok (threads q) \<and>
     (\<forall>t < length (threads q). 0 < t \<longrightarrow> (\<forall>r. th_at (threads q ! t) \<noteq> Returned r)) \<and>
     nTodo q = length (cq_queue q) + sum_list (map pending (threads q)) \<and>
     nTotal q = sum_list (map counted (threads q)) \<and> nIdle q = sum_list (map idle (threads q)) \<and>
     master_ok check A (th_at (threads q ! 0)) q"

lemma queue_invD:
  assumes "queue_inv check A q"
  shows "nTodo q = length (cq_queue q) + sum_list (map pending (threads q))" "nTotal q = sum_list (map counted (threads q))"
    "nIdle q = sum_list (map idle (threads q))" "list_all thread_ok (threads q)" "master_ok check A (th_at (threads q ! 0)) q"
    "threads q \<noteq> []"
  using assms unfolding queue_inv_def by blast+

text \<open>A thread in its critical section counts in \<open>nTotal\<close>, and otherwise as one that has not started.\<close>

definition outside :: "nat \<Rightarrow> 'a check_queue \<Rightarrow> 'a check_queue" where
  "outside t q = q\<lparr>nTotal := nTotal q - 1, threads := (threads q)[t := new_thread]\<rparr>"

definition section_inv :: "('a \<Rightarrow> bool) \<Rightarrow> 'a list \<Rightarrow> nat \<Rightarrow> 'a check_queue \<Rightarrow> bool" where
  "section_inv check A t q \<longleftrightarrow> t < length (threads q) \<and> 0 < nTotal q \<and> queue_inv check A (outside t q)"

lemma new_thread_simps [simp]:
  "pending new_thread = 0" "counted new_thread = 0" "idle new_thread = 0" "thread_ok new_thread" "no_failure check new_thread"
  "th_at new_thread = Not_started"
  by (simp_all add: new_thread_def pending_def counted_def idle_def thread_ok_def no_failure_def)

lemma put_sum:
  assumes "t < length ws" "f new_thread = (0 :: nat)"
  shows "sum_list (map f (ws[t := w])) = f w + sum_list (map f (ws[t := new_thread]))"
  using assms by (induction ws arbitrary: t) (auto split: nat.split)

lemma put_all:
  assumes "t < length ws" "P new_thread"
  shows "list_all P (ws[t := w]) \<longleftrightarrow> P w \<and> list_all P (ws[t := new_thread])"
  using assms by (induction ws arbitrary: t) (auto split: nat.split)

lemma take_out:
  assumes "t < length ws"
  shows "f new_thread = (0 :: nat) \<Longrightarrow> sum_list (map f ws) = f (ws ! t) + sum_list (map f (ws[t := new_thread]))"
    and "P new_thread \<Longrightarrow> list_all P ws \<longleftrightarrow> P (ws ! t) \<and> list_all P (ws[t := new_thread])"
  using put_sum [OF assms, of f "ws ! t"] put_all [OF assms, of P "ws ! t"] by simp_all

lemma notified_simps [simp]:
  "pending (notified w) = pending w" "counted (notified w) = counted w" "idle (notified w) = idle w"
  "thread_ok (notified w) = thread_ok w" "no_failure check (notified w) = no_failure check w"
  "th_at (notified w) = Returned r \<longleftrightarrow> th_at w = Returned r" "th_at (notified w) = Not_started \<longleftrightarrow> th_at w = Not_started"
  "th_at (notified w) = Working \<longleftrightarrow> th_at w = Working" "th_at (notified w) \<noteq> Waiting" "is_waiting (th_at (notified w)) \<longleftrightarrow> is_waiting (th_at w)"
  "vChecks (notified w) = vChecks w" "nNow (notified w) = nNow w" "fOk (notified w) = fOk w"
  by (auto simp: notified_def pending_def counted_def idle_def thread_ok_def no_failure_def)

lemma map_notify:
  assumes "\<And>w. f (notified w) = f w"
  shows "map f (ws[t := notified (ws ! t)]) = map f ws"
proof (cases "t < length ws")
  case True
  then have "f (notified (ws ! t)) = map f ws ! t" using assms by simp
  then show ?thesis by (simp only: map_update list_update_id)
qed (simp add: list_update_beyond)

lemma list_all_notify:
  assumes "\<And>w. P (notified w) = P w"
  shows "list_all P (ws[t := notified (ws ! t)]) = list_all P ws"
proof -
  have "list_all P xs = list_all (\<lambda>b. b) (map P xs)" for xs by (simp add: list.pred_map comp_def)
  then show ?thesis using map_notify [of P, OF assms] by (simp only:)
qed

lemma notify_at_simps:
  "map pending (threads (notify_at t q)) = map pending (threads q)" "map counted (threads (notify_at t q)) = map counted (threads q)"
  "map idle (threads (notify_at t q)) = map idle (threads q)" "list_all thread_ok (threads (notify_at t q)) = list_all thread_ok (threads q)"
  "length (threads (notify_at t q)) = length (threads q)" "threads (notify_at t q) \<noteq> [] \<longleftrightarrow> threads q \<noteq> []"
  "nTodo (notify_at t q) = nTodo q" "nTotal (notify_at t q) = nTotal q" "nIdle (notify_at t q) = nIdle q"
  "cq_queue (notify_at t q) = cq_queue q" "fQuit (notify_at t q) = fQuit q" "passing check (notify_at t q) = passing check q"
  by (simp_all add: notify_at_def map_notify list_all_notify passing_def)

lemma notify_at_returned:
  "i < length (threads q) \<Longrightarrow> th_at (threads (notify_at t q) ! i) = Returned r \<longleftrightarrow> th_at (threads q ! i) = Returned r"
  by (cases "t = i") (simp_all add: notify_at_def)

lemma notify_inv:
  assumes "queue_inv check A q" "t < length (threads q)"
  shows "queue_inv check A (notify_at t q)"
proof -
  let ?vs = "(threads q)[t := notified (threads q ! t)]"
  have "passing check (notify_at t q) = passing check q"
    by (simp add: passing_def notify_at_def list_all_notify)
  then have "master_ok check A a (notify_at t q) = master_ok check A a q" for a
    by (simp add: master_ok_def notify_at_def split: thread_at.split)
  moreover have "th_at (?vs ! 0) = th_at (threads q ! 0) \<or> th_at (threads q ! 0) = Waiting \<and> th_at (?vs ! 0) = Waiting_notified"
    using assms(2) by (cases "t = 0") (auto simp: notified_def)
  moreover have "master_ok check A Waiting q \<Longrightarrow> master_ok check A Waiting_notified q" by (simp add: master_ok_def)
  moreover have "th_at (?vs ! i) = Returned r \<longleftrightarrow> th_at (threads q ! i) = Returned r" for i r
    using assms(2) by (cases "t = i") auto
  moreover have "threads (notify_at t q) = ?vs" "nTodo (notify_at t q) = nTodo q" "nTotal (notify_at t q) = nTotal q"
      "nIdle (notify_at t q) = nIdle q" "cq_queue (notify_at t q) = cq_queue q" "fQuit (notify_at t q) = fQuit q"
    by (simp_all add: notify_at_def)
  ultimately show ?thesis using assms(1)
    unfolding queue_inv_def by (auto simp: list_all_notify map_notify)
qed

text \<open>Into the critical section: from the start, from the end of a batch, and from a wait.\<close>

lemma outside_simps [simp]:
  "threads (outside t q) = (threads q)[t := new_thread]" "nTotal (outside t q) = nTotal q - 1" "nIdle (outside t q) = nIdle q"
  "cq_queue (outside t q) = cq_queue q" "nTodo (outside t q) = nTodo q" "fAllOk (outside t q) = fAllOk q" "fQuit (outside t q) = fQuit q"
  by (simp_all add: outside_def)

lemma update_head: "t < length ws \<Longrightarrow> ws[t := v] ! 0 = (if t = 0 then v else ws ! 0)"
  by (cases ws; cases t) simp_all

lemma others_return:
  "\<forall>i < length ws. 0 < i \<longrightarrow> (\<forall>r. th_at (ws ! i) \<noteq> Returned r) \<Longrightarrow>
   \<forall>i < length ws. 0 < i \<longrightarrow> (\<forall>r. th_at (ws[t := new_thread] ! i) \<noteq> Returned r)"
  by (cases "t < length ws") (simp_all add: nth_list_update list_update_beyond)

lemma section_first:
  assumes i: "queue_inv check A q" and t: "t < length (threads q)" "th_at (threads q ! t) = Not_started"
  shows "section_inv check A t (loop_cleanup t q)"
proof -
  let ?w = "threads q ! t"
  have all: "list_all thread_ok (threads q)" using i by (simp add: queue_inv_def)
  then have "thread_ok ?w" using t(1) by (simp add: list_all_length)
  then have w: "nNow ?w = 0" "pending ?w = 0" "counted ?w = 0" "idle ?w = 0" "no_failure check ?w"
    using t(2) by (simp_all add: thread_ok_def pending_def counted_def idle_def no_failure_def)
  define r where "r = outside t (loop_cleanup t q)"
  have r: "threads r = (threads q)[t := new_thread]" "nTotal r = nTotal q" "nIdle r = nIdle q" "cq_queue r = cq_queue q"
      "nTodo r = nTodo q" "fAllOk r = fAllOk q" "fQuit r = fQuit q"
    using w(1) by (simp_all add: r_def loop_cleanup_def)
  have "passing check r = passing check q"
    using take_out(2) [OF t(1), of "no_failure check"] w(5) by (simp add: passing_def r)
  then have "master_ok check A a r = master_ok check A a q" for a by (simp add: master_ok_def r split: thread_at.split)
  moreover have "th_at (threads r ! 0) = th_at (threads q ! 0)" using t by (cases "t = 0") (simp_all add: r)
  moreover have "list_all thread_ok (threads r)" using take_out(2) [OF t(1), of thread_ok] all by (simp add: r)
  moreover have "sum_list (map pending (threads r)) = sum_list (map pending (threads q))"
      "sum_list (map counted (threads r)) = sum_list (map counted (threads q))" "sum_list (map idle (threads r)) = sum_list (map idle (threads q))"
    using take_out(1) [OF t(1), of pending] take_out(1) [OF t(1), of counted] take_out(1) [OF t(1), of idle] w by (simp_all add: r)
  ultimately have "queue_inv check A r" using i others_return [of "threads q" t] by (auto simp: queue_inv_def r)
  moreover have "t < length (threads (loop_cleanup t q))" "0 < nTotal (loop_cleanup t q)" using t w(1) by (simp_all add: loop_cleanup_def)
  ultimately show ?thesis unfolding section_inv_def r_def by blast
qed

lemma section_wake:
  assumes i: "queue_inv check A q" and t: "t < length (threads q)" "is_waiting (th_at (threads q ! t))"
  shows "section_inv check A t (q\<lparr>nIdle := nIdle q - 1\<rparr>)"
proof -
  let ?w = "threads q ! t"
  have all: "list_all thread_ok (threads q)" using i by (simp add: queue_inv_def)
  have w: "pending ?w = 0" "counted ?w = 1" "idle ?w = 1" "no_failure check ?w"
    using t(2) by (auto simp: pending_def counted_def idle_def no_failure_def)
  define r where "r = outside t (q\<lparr>nIdle := nIdle q - 1\<rparr>)"
  have r: "threads r = (threads q)[t := new_thread]" "nTotal r = nTotal q - 1" "nIdle r = nIdle q - 1" "cq_queue r = cq_queue q"
      "nTodo r = nTodo q" "fAllOk r = fAllOk q" "fQuit r = fQuit q"
    by (simp_all add: r_def)
  have "passing check r = passing check q"
    using take_out(2) [OF t(1), of "no_failure check"] w(4) by (simp add: passing_def r)
  then have "master_ok check A a r = master_ok check A a q" for a by (simp add: master_ok_def r split: thread_at.split)
  moreover have "th_at (threads r ! 0) = (if t = 0 then Not_started else th_at (threads q ! 0))" using t(1) by (simp add: r update_head)
  moreover have "master_ok check A Not_started q" if "t = 0" using i t(2) that by (auto simp: queue_inv_def master_ok_def)
  moreover have "list_all thread_ok (threads r)" using take_out(2) [OF t(1), of thread_ok] all by (simp add: r)
  moreover have "sum_list (map pending (threads r)) = sum_list (map pending (threads q))"
      "Suc (sum_list (map counted (threads r))) = sum_list (map counted (threads q))" "Suc (sum_list (map idle (threads r))) = sum_list (map idle (threads q))"
    using take_out(1) [OF t(1), of pending] take_out(1) [OF t(1), of counted] take_out(1) [OF t(1), of idle] w by (simp_all add: r)
  ultimately have "queue_inv check A r" "0 < nTotal q" using i others_return [of "threads q" t] by (auto simp: queue_inv_def r)
  then show ?thesis using t(1) by (simp add: section_inv_def r_def)
qed

lemma outside_notify: "t \<noteq> s \<Longrightarrow> outside t (notify_at s q) = notify_at s (outside t q)"
  by (simp add: outside_def notify_at_def list_update_swap)

lemma section_again:
  assumes i: "queue_inv check A q" and t: "t < length (threads q)" "th_at (threads q ! t) = Working" "vChecks (threads q ! t) = []"
  shows "section_inv check A t (loop_cleanup t q)"
proof -
  let ?w = "threads q ! t"
  have all: "list_all thread_ok (threads q)" using i by (simp add: queue_inv_def)
  then have "thread_ok ?w" using t(1) by (simp add: list_all_length)
  then have w: "0 < nNow ?w" "pending ?w = nNow ?w" "counted ?w = 1" "idle ?w = 0" "no_failure check ?w = fOk ?w"
    using t(2,3) by (simp_all add: thread_ok_def pending_def counted_def idle_def no_failure_def)
  define c where "c = q\<lparr>fAllOk := (fAllOk q \<and> fOk ?w), nTodo := nTodo q - nNow ?w\<rparr>"
  have c: "loop_cleanup t q = (if nTodo c = 0 \<and> t \<noteq> 0 then notify_at 0 c else c)"
    using w(1) by (simp add: loop_cleanup_def c_def Let_def)
  define r where "r = outside t c"
  have r: "threads r = (threads q)[t := new_thread]" "nTotal r = nTotal q - 1" "nIdle r = nIdle q" "cq_queue r = cq_queue q"
      "nTodo r = nTodo q - nNow ?w" "fAllOk r = (fAllOk q \<and> fOk ?w)" "fQuit r = fQuit q"
    by (simp_all add: r_def c_def)
  have sums: "sum_list (map pending (threads q)) = nNow ?w + sum_list (map pending (threads r))"
      "sum_list (map counted (threads q)) = Suc (sum_list (map counted (threads r)))"
      "sum_list (map idle (threads q)) = sum_list (map idle (threads r))"
    using take_out(1) [OF t(1), of pending] take_out(1) [OF t(1), of counted] take_out(1) [OF t(1), of idle] w by (simp_all add: r)
  have todo: "nTodo q = length (cq_queue q) + sum_list (map pending (threads q))" using i by (simp add: queue_inv_def)
  have p: "passing check r = passing check q"
    using take_out(2) [OF t(1), of "no_failure check"] w(5) by (auto simp: passing_def r)
  have m: "master_ok check A (th_at (threads q ! 0)) q" using i by (simp add: queue_inv_def)
  have nr: "th_at (threads q ! 0) \<noteq> Returned x" for x
    using m w(1) todo sums(1) by (auto simp: master_ok_def)
  let ?a = "th_at (threads r ! 0)" and ?a' = "if nTodo c = 0 \<and> t \<noteq> 0 then th_at (notified (threads r ! 0)) else th_at (threads r ! 0)"
  have a: "?a = (if t = 0 then Not_started else th_at (threads q ! 0))" using t(1) by (simp add: r update_head)
  have inv: "queue_inv check A (if nTodo c = 0 \<and> t \<noteq> 0 then notify_at 0 r else r)"
  proof -
    have "passing check (notify_at 0 r) = passing check r" by (simp add: passing_def notify_at_def list_all_notify)
    then have "master_ok check A ?a' (if nTodo c = 0 \<and> t \<noteq> 0 then notify_at 0 r else r)"
      using m nr p a by (cases "th_at (threads q ! 0)") (auto simp: master_ok_def notify_at_def notified_def r c_def split: thread_at.splits)
    moreover have "list_all thread_ok (threads r)" using take_out(2) [OF t(1), of thread_ok] all by (simp add: r)
    moreover have "th_at (threads (notify_at 0 r) ! 0) = th_at (notified (threads r ! 0))"
    proof -
      have "0 < length (threads r)" using t(1) by (auto simp: r)
      then show ?thesis by (simp add: notify_at_def update_head del: length_greater_0_conv)
    qed
    moreover have "\<forall>j < length (threads r). 0 < j \<longrightarrow> (\<forall>x. th_at (threads r ! j) \<noteq> Returned x)"
      using i others_return [of "threads q" t] by (simp add: queue_inv_def r)
    moreover have "threads r \<noteq> []" "\<not> fQuit r" "nTodo r = length (cq_queue r) + sum_list (map pending (threads r))"
        "nTotal r = sum_list (map counted (threads r))" "nIdle r = sum_list (map idle (threads r))"
      using i todo sums by (simp_all add: queue_inv_def) (simp_all add: r)
    ultimately show ?thesis
      by (auto simp: queue_inv_def notify_at_simps notify_at_returned split: if_splits)
  qed
  moreover have "outside t (loop_cleanup t q) = (if nTodo c = 0 \<and> t \<noteq> 0 then notify_at 0 r else r)"
    by (simp add: c outside_notify r_def)
  moreover have "t < length (threads (loop_cleanup t q))" "0 < nTotal (loop_cleanup t q)"
    using t(1) i sums(2) by (simp_all add: c c_def notify_at_def queue_inv_def)
  ultimately show ?thesis by (simp add: section_inv_def)
qed

text \<open>Out of the critical section.\<close>

lemma batch_size_bounds:
  assumes "cq_queue q \<noteq> []"
  shows "0 < batch_size q" "batch_size q \<le> length (cq_queue q)"
proof -
  have "length (cq_queue q) div (nTotal q + nIdle q + 1) \<le> length (cq_queue q)" by (rule div_le_dividend)
  then show "0 < batch_size q" "batch_size q \<le> length (cq_queue q)"
    using assms by (auto simp: batch_size_def Suc_le_eq min.coboundedI2)
qed

lemma put_inv:
  assumes t: "t < length ws" and v: "thread_ok v" "t = 0 \<or> (\<forall>r. th_at v \<noteq> Returned r)"
    and ws: "list_all thread_ok (ws[t := new_thread])" "\<forall>j < length ws. 0 < j \<longrightarrow> (\<forall>r. th_at (ws[t := new_thread] ! j) \<noteq> Returned r)"
    and s: "threads s = ws[t := v]" "\<not> fQuit s" "nTodo s = length (cq_queue s) + (pending v + sum_list (map pending (ws[t := new_thread])))"
      "nTotal s = counted v + sum_list (map counted (ws[t := new_thread]))" "nIdle s = idle v + sum_list (map idle (ws[t := new_thread]))"
    and m: "master_ok check A (th_at (ws[t := v] ! 0)) s"
  shows "queue_inv check A s"
proof -
  have "th_at (ws[t := v] ! j) \<noteq> Returned r" if "j < length ws" "0 < j" for j r
  proof (cases "j = t")
    case True
    then show ?thesis using v(2) that t by simp
  next
    case False
    then show ?thesis using ws(2) that by (metis nth_list_update_neq)
  qed
  moreover have "threads s \<noteq> []" using t s(1) by auto
  ultimately show ?thesis using s m ws(1) v(1) put_sum [OF t, of pending v] put_sum [OF t, of counted v] put_sum [OF t, of idle v]
      put_all [OF t, of thread_ok v]
    unfolding queue_inv_def by simp
qed

lemma take_inv:
  assumes "section_inv check A t q"
  shows "queue_inv check A (loop_take t q)"
proof -
  let ?ws = "threads q" and ?w = "threads q ! t"
  have t: "t < length ?ws" "0 < nTotal q" and i: "queue_inv check A (outside t q)" using assms by (simp_all add: section_inv_def)
  have i': "list_all thread_ok (?ws[t := new_thread])"
      "nTodo q = length (cq_queue q) + sum_list (map pending (?ws[t := new_thread]))"
      "nTotal q - 1 = sum_list (map counted (?ws[t := new_thread]))" "nIdle q = sum_list (map idle (?ws[t := new_thread]))"
      "\<not> fQuit q" "\<forall>j < length ?ws. 0 < j \<longrightarrow> (\<forall>r. th_at (?ws[t := new_thread] ! j) \<noteq> Returned r)"
    and m: "master_ok check A (th_at (?ws[t := new_thread] ! 0)) (outside t q)"
    using i by (simp_all add: queue_inv_def)
  note put = put_inv [OF t(1) _ _ i'(1,6)]
  have at0: "th_at (?ws[t := v] ! 0) = (if t = 0 then th_at v else th_at (?ws ! 0))" for v using t(1) by (simp add: update_head)
  have hd0: "?ws[0 := v] ! 0 = v" for v using t(1) by (cases ?ws) auto
  have pass: "passing check (q\<lparr>cq_queue := qs, threads := ?ws[t := v]\<rparr>) \<longleftrightarrow>
      fAllOk q \<and> list_all check qs \<and> no_failure check v \<and> list_all (no_failure check) (?ws[t := new_thread])" for qs v
    using put_all [OF t(1), of "no_failure check" v] by (simp add: passing_def)
  show ?thesis
  proof (cases "cq_queue q = []")
    case queue: True
    show ?thesis
    proof (cases "t = 0 \<and> nTodo q = 0")
      case True
      have "sum_list (map pending (?ws[t := new_thread])) = 0" using i'(2) True by simp
      then have "pending w = 0" if "w \<in> set (?ws[t := new_thread])" for w using that by simp
      then have "th_at w \<noteq> Working" if "w \<in> set (?ws[t := new_thread])" for w
        using that i'(1) by (fastforce simp: list_all_iff thread_ok_def pending_def)
      then have "list_all (no_failure check) (?ws[t := new_thread])" by (simp add: list_all_iff no_failure_def)
      then have "fAllOk q = list_all check A"
        using m True queue t(1) by (simp add: master_ok_def passing_def)
      then have "master_ok check A (Returned (fAllOk q)) (loop_take t q)"
        using True queue by (simp add: master_ok_def loop_take_def)
      moreover have "thread_ok (?w\<lparr>th_at := Returned (fAllOk q)\<rparr>)" "pending (?w\<lparr>th_at := Returned (fAllOk q)\<rparr>) = 0"
          "counted (?w\<lparr>th_at := Returned (fAllOk q)\<rparr>) = 0" "idle (?w\<lparr>th_at := Returned (fAllOk q)\<rparr>) = 0"
        by (simp_all add: thread_ok_def pending_def counted_def idle_def)
      ultimately show ?thesis
        by (intro put [where v = "?w\<lparr>th_at := Returned (fAllOk q)\<rparr>"])
          (use True queue i'(2-5) in \<open>simp_all add: loop_take_def hd0\<close>)
    next
      case False
      have "master_ok check A (th_at (?ws[t := ?w\<lparr>th_at := Waiting\<rparr>] ! 0)) (q\<lparr>nIdle := nIdle q + 1, threads := ?ws[t := ?w\<lparr>th_at := Waiting\<rparr>]\<rparr>)"
        using m False queue put_all [OF t(1), of "no_failure check" "?w\<lparr>th_at := Waiting\<rparr>"]
        by (cases "t = 0"; cases "th_at (?ws ! 0)") (auto simp: master_ok_def passing_def at0 hd0 no_failure_def)
      moreover have "loop_take t q = q\<lparr>nIdle := nIdle q + 1, threads := ?ws[t := ?w\<lparr>th_at := Waiting\<rparr>]\<rparr>"
        using False queue i'(5) by (auto simp: loop_take_def)
      ultimately show ?thesis
        by (intro put [where v = "?w\<lparr>th_at := Waiting\<rparr>"])
          (use t(2) queue i'(2-5) in \<open>simp_all add: thread_ok_def pending_def counted_def idle_def\<close>)
    qed
  next
    case False
    let ?k = "batch_size q"
    let ?m = "length (cq_queue q) - ?k"
    let ?v = "?w\<lparr>th_at := Working, vChecks := rev (drop ?m (cq_queue q)), nNow := ?k, fOk := fAllOk q\<rparr>"
    note k = batch_size_bounds [OF False]
    have "list_all check (cq_queue q) \<longleftrightarrow> list_all check (take ?m (cq_queue q)) \<and> list_all check (drop ?m (cq_queue q))"
      by (metis append_take_drop_id list_all_append)
    then have "passing check (q\<lparr>cq_queue := take ?m (cq_queue q), threads := ?ws[t := ?v]\<rparr>) = passing check (outside t q)"
      unfolding pass by (auto simp: no_failure_def passing_def)
    then have "master_ok check A (th_at (?ws[t := ?v] ! 0)) (q\<lparr>cq_queue := take ?m (cq_queue q), threads := ?ws[t := ?v]\<rparr>)"
      using m False by (cases "t = 0"; cases "th_at (?ws ! 0)") (simp_all add: at0 hd0 master_ok_def t(1))
    moreover have "loop_take t q = q\<lparr>cq_queue := take ?m (cq_queue q), threads := ?ws[t := ?v]\<rparr>"
      using False by (simp add: loop_take_def Let_def)
    ultimately show ?thesis
      by (intro put [where v = ?v]) (use t(2) k i'(2-5) in \<open>simp_all add: thread_ok_def pending_def counted_def idle_def\<close>)
  qed
qed

lemma work_inv:
  assumes i: "queue_inv check A q" and t: "t < length (threads q)" "th_at (threads q ! t) = Working" "vChecks (threads q ! t) \<noteq> []"
  shows "queue_inv check A (loop_work check t q)"
proof -
  let ?ws = "threads q" and ?w = "threads q ! t"
  define v where "v = ?w\<lparr>vChecks := tl (vChecks ?w), fOk := (if fOk ?w then check (hd (vChecks ?w)) else fOk ?w)\<rparr>"
  have v: "pending v = pending ?w" "counted v = counted ?w" "idle v = idle ?w" "thread_ok v = thread_ok ?w" "th_at v = Working"
      "no_failure check v = no_failure check ?w"
    using t(2,3) by (cases "vChecks ?w"; auto simp: v_def pending_def counted_def idle_def thread_ok_def no_failure_def)+
  have w: "thread_ok ?w" using i t(1) by (simp add: queue_inv_def list_all_length)
  define s where "s = loop_work check t q"
  have s: "threads s = ?ws[t := v]" "nTotal s = nTotal q" "nIdle s = nIdle q" "cq_queue s = cq_queue q"
      "nTodo s = nTodo q" "fAllOk s = fAllOk q" "fQuit s = fQuit q"
    by (simp_all add: s_def loop_work_def v_def Let_def)
  have "passing check s = passing check q"
    using put_all [OF t(1), of "no_failure check" v] take_out(2) [OF t(1), of "no_failure check"] v(6) by (simp add: passing_def s)
  moreover have "th_at (?ws[t := v] ! 0) = th_at (?ws ! 0)" using v(5) t by (cases "t = 0") (simp_all add: update_head [OF t(1)])
  moreover have "master_ok check A a s = master_ok check A a q" if "passing check s = passing check q" for a
    using that by (simp add: master_ok_def s split: thread_at.split)
  ultimately have m: "master_ok check A (th_at (?ws[t := v] ! 0)) s" using i by (simp add: queue_inv_def)
  have "queue_inv check A s"
    by (rule put_inv [OF t(1) _ _ _ _ s(1)])
      (use i m w v t(2) s others_return [of ?ws t] take_out(1) [OF t(1), of pending] take_out(1) [OF t(1), of counted]
        take_out(1) [OF t(1), of idle] take_out(2) [OF t(1), of thread_ok] in \<open>simp_all add: queue_inv_def\<close>)
  then show ?thesis by (simp add: s_def)
qed

lemma add_inv:
  assumes i: "queue_inv check A q" and "th_at (threads q ! 0) = Not_started"
  shows "queue_inv check (A @ cs) (queue_Add cs q)"
  using assms by (auto simp: queue_inv_def queue_Add_def master_ok_def passing_def)

lemma notify_all_inv:
  assumes i: "queue_inv check A q"
  shows "queue_inv check A (notify_all_workers q)"
proof -
  obtain m ws where q: "threads q = m # ws" using i by (cases "threads q") (auto simp: queue_inv_def)
  have f: "map f (map notified ws) = map f ws" if "\<And>w. f (notified w) = f w" for f :: "'a loop_thread \<Rightarrow> nat" using that by simp
  have a: "list_all P (map notified ws) = list_all P ws" if "\<And>w. P (notified w) = P w" for P :: "'a loop_thread \<Rightarrow> bool"
    using that by (simp add: list.pred_map comp_def)
  let ?s = "notify_all_workers q"
  have s: "nTodo ?s = nTodo q" "cq_queue ?s = cq_queue q" "fAllOk ?s = fAllOk q" "threads ?s = m # map notified ws"
      "fQuit ?s = fQuit q" "nTotal ?s = nTotal q" "nIdle ?s = nIdle q"
    by (simp_all add: notify_all_workers_def q)
  then have "passing check ?s = passing check q" by (simp add: passing_def q a)
  then have "master_ok check A a ?s = master_ok check A a q" for a
    by (simp add: master_ok_def s split: thread_at.split)
  then have "master_ok check A (th_at m) ?s" using i by (simp add: queue_inv_def q)
  moreover have "\<forall>j < length (m # map notified ws). 0 < j \<longrightarrow> (\<forall>r. th_at ((m # map notified ws) ! j) \<noteq> Returned r)"
  proof (intro allI impI)
    fix j r assume j: "j < length (m # map notified ws)" "0 < j"
    then obtain k where "j = Suc k" "k < length ws" by (cases j) auto
    moreover have "j < length (threads q)" using j by (simp add: q)
    ultimately have "th_at (threads q ! j) \<noteq> Returned r" using i j(2) unfolding queue_inv_def by blast
    then show "th_at ((m # map notified ws) ! j) \<noteq> Returned r" using \<open>j = Suc k\<close> \<open>k < length ws\<close> by (simp add: q)
  qed
  ultimately show ?thesis using i s
    by (simp add: queue_inv_def q a comp_def)
qed

lemma step_inv:
  assumes "queue_step check e q s" "queue_inv check A q"
  shows "queue_inv check (A @ added [e]) s"
  using assms
proof (cases rule: queue_step.cases)
  case (add_none cs)
  then show ?thesis using assms(2) add_inv [of check A q cs] notify_all_inv by auto
next
  case (add_one t c)
  then show ?thesis using assms(2) add_inv [of check A q "[c]"] notify_inv [of check "A @ [c]" "queue_Add [c] q" t]
    by (simp add: queue_Add_def)
next
  case (add_unheard c)
  then show ?thesis using assms(2) add_inv [of check A q "[c]"] by simp
next
  case (start t)
  then show ?thesis using take_inv [OF section_first [OF assms(2)]] by (simp add: loop_section_def)
next
  case (work t)
  then show ?thesis using work_inv [OF assms(2)] by simp
next
  case (loop t)
  then show ?thesis using take_inv [OF section_again [OF assms(2)]] by (simp add: loop_section_def)
next
  case (wake t)
  then show ?thesis using take_inv [OF section_wake [OF assms(2)]] by (simp add: loop_wake_def)
next
  case (spurious t)
  then show ?thesis using take_inv [OF section_wake [OF assms(2)]] by (simp add: loop_wake_def)
qed

lemma init_inv: "queue_inv check [] (CCheckQueue_init b n)"
  by (simp add: queue_inv_def CCheckQueue_init_def master_ok_def passing_def list_all_length nth_Cons' sum_list_replicate)

lemma run_inv: "queue_run check es q s \<Longrightarrow> q = CCheckQueue_init b n \<Longrightarrow> queue_inv check (added es) s"
  by (induction rule: queue_run.induct) (auto simp: init_inv dest: step_inv)

section \<open>Progress\<close>

text \<open>The steps that a thread takes on its own; each of them comes closer to the end. A notification weighs 1, an element of a batch 1,
a thread that works 2, an element of the queue 4, a thread that has not started 1.\<close>

fun own_step :: "'a queue_event \<Rightarrow> bool" where
  "own_step (Add cs) = False" | "own_step (Spurious t) = False" | "own_step _ = True"

definition thread_weight :: "'a loop_thread \<Rightarrow> nat" where
  "thread_weight w = (case th_at w of Not_started \<Rightarrow> 3 | Waiting_notified \<Rightarrow> 1 | Working \<Rightarrow> 2 + length (vChecks w) | _ \<Rightarrow> 0)"

definition queue_weight :: "'a check_queue \<Rightarrow> nat" where
  "queue_weight q = 4 * length (cq_queue q) + sum_list (map thread_weight (threads q))"

lemma sum_list_put:
  "t < length ws \<Longrightarrow> sum_list (map f (ws[t := v])) + f (ws ! t) = sum_list (map f ws) + (f v :: nat)"
  by (induction ws arbitrary: t) (auto split: nat.split)

lemma take_weight:
  assumes "t < length (threads q)"
  shows "queue_weight (loop_take t q) + thread_weight (threads q ! t) \<le> queue_weight q"
proof (cases "cq_queue q = []")
  case True
  then show ?thesis
    using sum_list_put [OF assms, of thread_weight "(threads q ! t)\<lparr>th_at := Returned (fAllOk q)\<rparr>"]
      sum_list_put [OF assms, of thread_weight "(threads q ! t)\<lparr>th_at := Waiting\<rparr>"]
    by (simp add: loop_take_def queue_weight_def Let_def) (simp add: thread_weight_def)
next
  case False
  let ?m = "length (cq_queue q) - batch_size q"
  let ?v = "(threads q ! t)\<lparr>th_at := Working, vChecks := rev (drop ?m (cq_queue q)), nNow := batch_size q, fOk := fAllOk q\<rparr>"
  have "thread_weight ?v = 2 + batch_size q" using batch_size_bounds [OF False] by (simp add: thread_weight_def)
  moreover have "queue_weight (loop_take t q) = 4 * ?m + sum_list (map thread_weight ((threads q)[t := ?v]))"
    using False by (simp add: loop_take_def queue_weight_def Let_def)
  ultimately show ?thesis
    using sum_list_put [OF assms, of thread_weight ?v] batch_size_bounds [OF False] by (simp add: queue_weight_def)
qed

lemma cleanup_weight:
  assumes "threads q \<noteq> []" "t < length (threads q)"
  shows "queue_weight (loop_cleanup t q) \<le> (if nNow (threads q ! t) = 0 then 0 else 1) + queue_weight q"
    "threads (loop_cleanup t q) ! t = threads q ! t" "length (threads (loop_cleanup t q)) = length (threads q)"
proof -
  have "thread_weight (notified w) \<le> 1 + thread_weight w" for w :: "'a loop_thread" by (auto simp: notified_def thread_weight_def)
  from this [of "threads q ! 0"] have "sum_list (map thread_weight ((threads q)[0 := notified (threads q ! 0)])) \<le> 1 + sum_list (map thread_weight (threads q))"
    using sum_list_put [of 0 "threads q" thread_weight "notified (threads q ! 0)"] assms(1) by simp
  then show "queue_weight (loop_cleanup t q) \<le> (if nNow (threads q ! t) = 0 then 0 else 1) + queue_weight q"
    by (simp add: loop_cleanup_def queue_weight_def notify_at_def Let_def)
  show "threads (loop_cleanup t q) ! t = threads q ! t" "length (threads (loop_cleanup t q)) = length (threads q)"
    by (simp_all add: loop_cleanup_def notify_at_def Let_def)
qed

lemma step_weight:
  assumes "queue_step check e q s" "own_step e" "queue_inv check A q"
  shows "queue_weight s < queue_weight q"
  using assms(1)
proof (cases rule: queue_step.cases)
  case (start t)
  have "nNow (threads q ! t) = 0" using assms(3) start by (auto simp: queue_inv_def thread_ok_def list_all_length)
  moreover have "threads q \<noteq> []" using start by auto
  ultimately show ?thesis using take_weight [of t "loop_cleanup t q"] cleanup_weight [of q t] start
    by (simp add: loop_section_def thread_weight_def)
next
  case (work t)
  then show ?thesis
    using sum_list_put [OF work(3), of thread_weight "(threads q ! t)\<lparr>vChecks := tl (vChecks (threads q ! t)),
      fOk := (if fOk (threads q ! t) then check (hd (vChecks (threads q ! t))) else fOk (threads q ! t))\<rparr>"]
    by (cases "vChecks (threads q ! t)") (auto simp: loop_work_def queue_weight_def thread_weight_def Let_def)
next
  case (loop t)
  moreover have "threads q \<noteq> []" using loop by auto
  ultimately show ?thesis using take_weight [of t "loop_cleanup t q"] cleanup_weight [of q t]
    by (simp add: loop_section_def thread_weight_def split: if_splits)
next
  case (wake t)
  then show ?thesis using take_weight [of t "q\<lparr>nIdle := nIdle q - 1\<rparr>"]
    by (simp add: loop_wake_def thread_weight_def queue_weight_def)
qed (use assms(2) in auto)

lemma own_step_exists:
  assumes "queue_inv check A q" "\<And>r. th_at (threads q ! 0) \<noteq> Returned r"
  shows "\<exists>e s. own_step e \<and> queue_step check e q s"
proof -
  have working: "\<exists>e s. own_step e \<and> queue_step check e q s" if "t < length (threads q)" "th_at (threads q ! t) = Working" for t
  proof (cases "vChecks (threads q ! t) = []")
    case True
    then show ?thesis using queue_step.loop [OF that] own_step.simps(5) by blast
  next
    case False
    then show ?thesis using queue_step.work [OF that] own_step.simps(4) by blast
  qed
  have n: "0 < length (threads q)" using assms(1) by (simp add: queue_inv_def)
  show ?thesis
  proof (cases "th_at (threads q ! 0)")
    case Waiting
    then have "nTodo q = length (cq_queue q) + sum_list (map pending (threads q))" "cq_queue q = []" "0 < nTodo q"
      using queue_invD(1,5) [OF assms(1)] Waiting by (simp_all add: master_ok_def)
    then have "sum_list (map pending (threads q)) = nTodo q" by (metis add_0 list.size(3))
    then have "0 < sum_list (map pending (threads q))" using \<open>0 < nTodo q\<close> by (simp only:)
    have "\<exists>w \<in> set (threads q). pending w \<noteq> 0"
    proof (rule ccontr)
      assume "\<not> ?thesis"
      then have "map pending (threads q) = map (\<lambda>_. 0) (threads q)" by simp
      then have "sum_list (map pending (threads q)) = 0" by (simp only: sum_list_0)
      with \<open>0 < sum_list (map pending (threads q))\<close> show False by (simp only: less_irrefl)
    qed
    then obtain w where "w \<in> set (threads q)" "pending w \<noteq> 0" by blast
    then show ?thesis using working by (auto simp: pending_def in_set_conv_nth split: if_splits)
  next
    case Not_started
    then show ?thesis using queue_step.start [OF n] own_step.simps(3) by blast
  next
    case Waiting_notified
    then show ?thesis using queue_step.wake [OF n] own_step.simps(6) by blast
  qed (use assms(2) working n in auto)
qed

lemma own_run:
  "queue_run check es q s \<Longrightarrow> queue_inv check A q \<Longrightarrow> list_all own_step es \<Longrightarrow>
   queue_inv check (A @ added es) s \<and> length es + queue_weight s \<le> queue_weight q"
proof (induction rule: queue_run.induct)
  case (run_step es q r e s)
  then show ?case using step_inv [OF run_step.hyps(2), of "A @ added es"] step_weight [OF run_step.hyps(2), of "A @ added es"] by auto
qed simp

section \<open>Properties\<close>

text \<open>C9. The verdict of the queue: whatever the threads do in whatever order, with any number of workers and any sizes of batches, when the
master's call of \<open>Wait\<close> returns, it returns true exactly when every check that was added passes. Then nothing is left to do, no
thread is in the middle of a batch, and the queue is as the next user asserts to find it.\<close>

theorem check_queue_verdict:
  assumes "queue_run check es (CCheckQueue_init nBatchSizeIn n) q" "th_at (threads q ! 0) = Returned r"
  shows "(r \<longleftrightarrow> (\<forall>c \<in> set (added es). check c)) \<and> cq_queue q = [] \<and> nTotal q = nIdle q \<and> nTodo q = 0 \<and> fAllOk q"
proof -
  have i: "queue_inv check (added es) q" using run_inv [OF assms(1)] by simp
  then have r: "r = list_all check (added es)" "cq_queue q = []" "nTodo q = 0" "fAllOk q"
    using assms(2) queue_invD(5) [OF i] by (simp_all add: master_ok_def)
  have "sum_list (map pending (threads q)) = 0" using r(2,3) queue_invD(1) [OF i] by linarith
  then have p: "pending w = 0" if "w \<in> set (threads q)" for w using that by simp
  have "counted w = idle w" if w: "w \<in> set (threads q)" for w
  proof -
    have "thread_ok w" using queue_invD(4) [OF i] w by (simp add: list_all_iff)
    then show ?thesis using p [OF w] by (auto simp: counted_def idle_def pending_def thread_ok_def split: thread_at.splits)
  qed
  then have "map counted (threads q) = map idle (threads q)" by simp
  then have "nTotal q = nIdle q" using queue_invD(2,3) [OF i] by (simp only:)
  then show ?thesis using r by (simp add: list_all_iff)
qed

text \<open>C10. No deadlock: from every state that can be reached, the threads by themselves, without further checks and without wake-ups for no
reason, take only boundedly many steps, and when none of them can take a step any more, the master has returned: no notification
is ever missed.\<close>

theorem check_queue_ends:
  assumes "queue_run check es (CCheckQueue_init nBatchSizeIn n) q" "queue_run check fs q s" "list_all own_step fs"
  shows "length fs \<le> queue_weight q \<and>
    ((\<forall>e u. own_step e \<longrightarrow> \<not> queue_step check e s u) \<longrightarrow> (\<exists>r. th_at (threads s ! 0) = Returned r))"
proof -
  have i: "queue_inv check (added es) q" using run_inv [OF assms(1)] by simp
  have s: "queue_inv check (added es @ added fs) s" "length fs \<le> queue_weight q" using own_run [OF assms(2) i assms(3)] by simp_all
  then show ?thesis using own_step_exists [OF s(1)] by blast
qed

text \<open>A run of the master alone on two checks, of which the second fails.\<close>

lemma example_run:
  "\<exists>q. queue_run (\<lambda>c. c > (5 :: nat)) [Add [7, 3], Start 0, Work 0, Loop 0, Work 0, Loop 0] (CCheckQueue_init 128 0) q \<and>
     th_at (threads q ! 0) = Returned False"
proof -
  let ?c = "\<lambda>c. c > (5 :: nat)"
  note step = run_step [of ?c]
  note eqs = loop_section_def loop_cleanup_def loop_take_def loop_work_def batch_size_def queue_Add_def notify_all_workers_def
    CCheckQueue_init_def new_thread_def Let_def
  have a: "queue_run ?c [Add [7, 3]] (CCheckQueue_init 128 0) (notify_all_workers (queue_Add [7, 3] (CCheckQueue_init 128 0)))"
    using step [OF run_empty add_none [of "CCheckQueue_init 128 0" "[7, 3]"]] by (simp add: eqs)
  note b = step [OF a start [of 0]]
  note c = step [OF b work [of 0]]
  note d = step [OF c loop [of 0]]
  note e = step [OF d work [of 0]]
  note f = step [OF e loop [of 0]]
  show ?thesis by (rule exI, rule conjI, rule f [simplified append.simps]) (simp_all add: eqs)
qed

theorem check_queue_verdict_witness:
  "\<exists>q. queue_run (\<lambda>c. c > (5 :: nat)) [Add [7, 3], Start 0, Work 0, Loop 0, Work 0, Loop 0] (CCheckQueue_init 128 0) q \<and>
     th_at (threads q ! 0) = Returned False \<and> nTotal q = nIdle q"
  using example_run check_queue_verdict by blast

theorem check_queue_ends_witness:
  "\<exists>q. queue_run (\<lambda>c. c > (5 :: nat)) [Add [7, 3], Start 0, Work 0, Loop 0, Work 0, Loop 0] (CCheckQueue_init 128 0) q \<and>
     length ([] :: nat queue_event list) \<le> queue_weight q"
proof -
  obtain q where "queue_run (\<lambda>c. c > (5 :: nat)) [Add [7, 3], Start 0, Work 0, Loop 0, Work 0, Loop 0] (CCheckQueue_init 128 0) q"
    using example_run by blast
  with check_queue_ends [OF this run_empty] show ?thesis by auto
qed

end
