(* ===== verification/Compressor.thy ===== *)
theory Compressor
  imports Tx
begin

text \<open>
  The compact encodings of the coin database: \<open>CTxOutCompressor\<close> (\<open>CompressAmount\<close> and
  \<open>DecompressAmount\<close> of \<open>src/src/main.cpp\<close>) and \<open>CScriptCompressor\<close>
  (\<open>src/src/script.h\<close>, \<open>src/src/script.cpp\<close>).

  The lemmas show that decompression inverts compression for every amount in the money range
  and every script, that amounts have one code only, and that the codec of a transaction
  output composed of the two obeys the serializer contract.
\<close>

section \<open>Amounts\<close>

text \<open>The loop that divides out powers of ten; \<open>uint64_t\<close> arithmetic is written with \<open>mod 2 ^ 64\<close>.\<close>

function strip10 :: "nat \<Rightarrow> nat \<Rightarrow> nat \<times> nat" where
  "strip10 n e = (if n mod 10 = 0 \<and> e < 9 then strip10 (n div 10) (e + 1) else (n, e))"
  by pat_completeness auto
termination
  by (relation "measure (\<lambda>(n, e). 9 - e)") auto

declare strip10.simps [simp del]

definition CompressAmount :: "nat \<Rightarrow> nat" where
  "CompressAmount n =
     (if n = 0 then 0
      else let (n, e) = strip10 n 0 in
        if e < 9 then (let d = n mod 10; n = n div 10 in (1 + (n * 9 + d - 1) * 10 + e) mod 2 ^ 64)
        else (1 + (n - 1) * 10 + 9) mod 2 ^ 64)"

fun scale10 :: "nat \<Rightarrow> nat \<Rightarrow> nat" where
  "scale10 n 0 = n"
| "scale10 n (Suc e) = scale10 (n * 10 mod 2 ^ 64) e"

definition DecompressAmount :: "nat \<Rightarrow> nat" where
  "DecompressAmount x =
     (if x = 0 then 0
      else let x = x - 1; e = x mod 10; x = x div 10;
             n = (if e < 9 then (let d = x mod 9 + 1; x = x div 9 in (x * 10 + d) mod 2 ^ 64)
                  else (x + 1) mod 2 ^ 64) in
        scale10 n e)"

lemma scale10_eq: "n * 10 ^ e < 2 ^ 64 \<Longrightarrow> scale10 n e = n * 10 ^ e"
proof (induction e arbitrary: n)
  case (Suc e)
  have "n * 10 * 1 \<le> n * 10 * 10 ^ e" by (intro mult_le_mono2) simp
  moreover have "n * 10 * 10 ^ e < 2 ^ 64" using Suc.prems by (simp add: mult.assoc)
  ultimately have "n * 10 < 2 ^ 64" by linarith
  with Suc show ?case by (simp add: mult.assoc)
qed simp

lemma strip10_props:
  assumes "strip10 n e = (m, f)" "0 < n" "e \<le> 9"
  shows "n * 10 ^ e = m * 10 ^ f \<and> 0 < m \<and> f \<le> 9 \<and> e \<le> f \<and> m \<le> n \<and> (f < 9 \<longrightarrow> m mod 10 \<noteq> 0)"
  using assms
proof (induction n e rule: strip10.induct)
  case (1 n e)
  show ?case
  proof (cases "n mod 10 = 0 \<and> e < 9")
    case True
    then have r: "strip10 (n div 10) (e + 1) = (m, f)"
      using 1(2) by (simp add: strip10.simps [of n e])
    have n: "n = 10 * (n div 10)" using True by auto
    with 1(3) have "0 < n div 10" by (metis mult_zero_right neq0_conv)
    with 1(1) [OF True r] True
    have ih: "n div 10 * 10 ^ (e + 1) = m * 10 ^ f \<and> 0 < m \<and> f \<le> 9 \<and> e + 1 \<le> f \<and> m \<le> n div 10 \<and> (f < 9 \<longrightarrow> m mod 10 \<noteq> 0)"
      by simp
    moreover have "n * 10 ^ e = n div 10 * 10 ^ (e + 1)"
      by (subst n) (simp add: mult.assoc)
    moreover have "n div 10 \<le> n" by simp
    ultimately show ?thesis by linarith
  next
    case False
    with 1 show ?thesis by (auto simp: strip10.simps [of n e] split: if_splits)
  qed
qed

lemma strip10_unique:
  assumes "0 < m" "f \<le> 9" "f < 9 \<Longrightarrow> m mod 10 \<noteq> 0" "e \<le> f"
  shows "strip10 (m * 10 ^ (f - e)) e = (m, f)"
  using assms(4)
proof (induction "f - e" arbitrary: e)
  case 0
  with assms have "f = e" "\<not> (m mod 10 = 0 \<and> e < 9)" by auto
  then show ?case by (subst strip10.simps) auto
next
  case (Suc k)
  then have e: "f - e = Suc k" "f - Suc e = k" "Suc e \<le> f" "e < 9" using assms(2) by auto
  have "m * 10 ^ (f - e) mod 10 = 0" using e by simp
  moreover have "m * 10 ^ (f - e) div 10 = m * 10 ^ (f - Suc e)" using e by (simp add: mult.assoc)
  ultimately have "strip10 (m * 10 ^ (f - e)) e = strip10 (m * 10 ^ (f - Suc e)) (Suc e)"
    using e(4) by (subst strip10.simps) simp
  also have "\<dots> = (m, f)" using Suc(1) [of "Suc e"] e by simp
  finally show ?case .
qed

lemma Decompress_Compress_small:
  assumes "10 * n < 2 ^ 64"
  shows "DecompressAmount (CompressAmount n) = n"
proof (cases "n = 0")
  case True
  then show ?thesis by (simp add: CompressAmount_def DecompressAmount_def)
next
  case False
  obtain m f where s: "strip10 n 0 = (m, f)" by fastforce
  then have p: "n = m * 10 ^ f" "0 < m" "f \<le> 9" "m \<le> n" "f < 9 \<longrightarrow> m mod 10 \<noteq> 0"
    using strip10_props [OF s] False by auto
  show ?thesis
  proof (cases "f < 9")
    case True
    define d where "d = m mod 10"
    define q where "q = m div 10"
    have d: "1 \<le> d" "d \<le> 9" and m: "m = q * 10 + d"
      using p True by (auto simp: d_def q_def)
    have lt: "1 + (q * 9 + d - 1) * 10 + f < 2 ^ 64"
    proof -
      have "1 + (q * 9 + d - 1) * 10 + f \<le> 90 * q + 10 * d" using d True by simp
      also have "\<dots> \<le> 10 * m" by (simp add: m)
      also have "\<dots> < 2 ^ 64" using p assms by linarith
      finally show ?thesis .
    qed
    have c: "CompressAmount n = 1 + (q * 9 + d - 1) * 10 + f"
      using lt False by (simp add: CompressAmount_def s True Let_def d_def [symmetric] q_def [symmetric])
    have "m < 2 ^ 64" using p assms by linarith
    moreover have x: "(q * 9 + d - 1) mod 9 + 1 = d" "(q * 9 + d - 1) div 9 = q"
    proof -
      obtain d' where d': "d = Suc d'" "d' < 9" using d by (cases d) auto
      then show "(q * 9 + d - 1) mod 9 + 1 = d" "(q * 9 + d - 1) div 9 = q" by auto
    qed
    moreover have "((q * 9 + d - 1) * 10 + f) mod 10 = f" "((q * 9 + d - 1) * 10 + f) div 10 = q * 9 + d - 1"
      using True by auto
    moreover have "m * 10 ^ f < 2 ^ 64" using p assms by linarith
    ultimately have "DecompressAmount (1 + (q * 9 + d - 1) * 10 + f) = m * 10 ^ f" using True
      by (simp add: DecompressAmount_def Let_def m [symmetric] scale10_eq)
    then show ?thesis unfolding c using p(1) by simp
  next
    case ge: False
    with p have f: "f = 9" by simp
    have "1 + (m - 1) * 10 + 9 = 10 * m" using p(2) by (cases m) auto
    then have "1 + (m - 1) * 10 + 9 < 2 ^ 64" using p(4) assms by linarith
    then have c: "CompressAmount n = 1 + (m - 1) * 10 + 9"
      using False by (simp add: CompressAmount_def s f)
    have "((m - 1) * 10 + 9) mod 10 = 9" "((m - 1) * 10 + 9) div 10 = m - 1" by auto
    moreover have "m < 2 ^ 64" using p assms by linarith
    moreover have "m * 10 ^ 9 < 2 ^ 64" using p(1) f assms by simp
    ultimately have "DecompressAmount (1 + (m - 1) * 10 + 9) = m * 10 ^ f" using p(2) f
      by (simp add: DecompressAmount_def Let_def scale10_eq)
    then show ?thesis unfolding c using p(1) by simp
  qed
qed

text \<open>Every code that decompresses without wrapping is the code of its amount.\<close>

definition amount_code :: "nat \<Rightarrow> nat" where
  "amount_code x = (let y = x - 1; e = y mod 10; z = y div 10 in
     (if e < 9 then z div 9 * 10 + (z mod 9 + 1) else z + 1) * 10 ^ e)"

lemma Compress_Decompress_small:
  assumes "10 * amount_code x < 2 ^ 64"
  shows "CompressAmount (DecompressAmount x) = x"
proof (cases "x = 0")
  case True
  then show ?thesis by (simp add: CompressAmount_def DecompressAmount_def)
next
  case False
  define e where "e = (x - 1) mod 10"
  define z where "z = (x - 1) div 10"
  define m where "m = (if e < 9 then z div 9 * 10 + (z mod 9 + 1) else z + 1)"
  have x: "x = 1 + z * 10 + e" using False by (simp add: z_def e_def)
  have e9: "e \<le> 9" by (simp add: e_def)
  have m0: "0 < m" by (simp add: m_def)
  have lt: "10 * (m * 10 ^ e) < 2 ^ 64"
  proof -
    have "amount_code x = m * 10 ^ e"
      unfolding amount_code_def Let_def e_def [symmetric] z_def [symmetric] m_def ..
    then show ?thesis using assms by simp
  qed
  have "m * 1 \<le> m * 10 ^ e" by (intro mult_le_mono2) simp
  then have mlt: "m < 2 ^ 64" and le: "10 * m < 2 ^ 64" using lt by linarith+
  have "DecompressAmount x = scale10 (m mod 2 ^ 64) e"
    using False by (simp add: DecompressAmount_def Let_def e_def z_def m_def)
  then have dec: "DecompressAmount x = m * 10 ^ e"
    using mlt lt by (simp add: scale10_eq)
  have "(z div 9 * 10 + (z mod 9 + 1)) mod 10 = z mod 9 + 1"
    by (simp add: mod_less_divisor less_trans [OF mod_less_divisor])
  then have "e < 9 \<Longrightarrow> m mod 10 \<noteq> 0" by (simp add: m_def)
  then have s: "strip10 (m * 10 ^ e) 0 = (m, e)"
    using strip10_unique [of m e 0] m0 e9 by simp
  show ?thesis
  proof (cases "e < 9")
    case True
    have "m mod 10 = z mod 9 + 1" "m div 10 = z div 9"
      using True by (auto simp: m_def less_trans [OF mod_less_divisor])
    moreover have "z div 9 * 9 + (z mod 9 + 1) - 1 = z" by simp
    moreover have "1 + z * 10 + e < 2 ^ 64"
    proof -
      have "z = 9 * (z div 9) + z mod 9" by simp
      moreover have "m = z div 9 * 10 + (z mod 9 + 1)" using True by (simp add: m_def)
      ultimately have "z * 10 + 10 \<le> 10 * m" by linarith
      then show ?thesis using le True by linarith
    qed
    ultimately show ?thesis unfolding dec using m0 True
      by (simp add: CompressAmount_def s Let_def x)
  next
    case f: False
    then have "e = 9" using e9 by simp
    moreover have "1 + z * 10 + 9 < 2 ^ 64" using le f by (simp add: m_def)
    moreover have "m - 1 = z" using f by (simp add: m_def)
    moreover have "strip10 (m * 1000000000) 0 = (m, 9)" using s calculation(1) by simp
    ultimately show ?thesis unfolding dec using m0
      by (simp add: CompressAmount_def Let_def x)
  qed
qed

section \<open>Scripts\<close>

definition IsToKeyID :: "bytes \<Rightarrow> bytes option" where
  "IsToKeyID script =
     (if length script = 25 \<and> script ! 0 = OP_DUP \<and> script ! 1 = OP_HASH160 \<and> script ! 2 = 20 \<and>
         script ! 23 = OP_EQUALVERIFY \<and> script ! 24 = OP_CHECKSIG
      then Some (take 20 (drop 3 script)) else None)"

definition IsToScriptID :: "bytes \<Rightarrow> bytes option" where
  "IsToScriptID script =
     (if length script = 23 \<and> script ! 0 = OP_HASH160 \<and> script ! 1 = 20 \<and> script ! 22 = OP_EQUAL
      then Some (take 20 (drop 2 script)) else None)"

definition IsToPubKey :: "openssl \<Rightarrow> bytes \<Rightarrow> bytes option" where
  "IsToPubKey L script =
     (if length script = 35 \<and> script ! 0 = 33 \<and> script ! 34 = OP_CHECKSIG \<and>
         (script ! 1 = 0x02 \<or> script ! 1 = 0x03)
      then Some (CPubKey_Set (take 33 (drop 1 script)))
      else if length script = 67 \<and> script ! 0 = 65 \<and> script ! 66 = OP_CHECKSIG \<and> script ! 1 = 0x04
      then (let pubkey = CPubKey_Set (take 65 (drop 1 script)) in
            if CPubKey_IsFullyValid L pubkey then Some pubkey else None)
      else None)"

definition CompressScript :: "openssl \<Rightarrow> bytes \<Rightarrow> bytes option" where
  "CompressScript L script = (case IsToKeyID script of
     Some keyID \<Rightarrow> Some (0x00 # keyID)
   | None \<Rightarrow> (case IsToScriptID script of
       Some scriptID \<Rightarrow> Some (0x01 # scriptID)
     | None \<Rightarrow> (case IsToPubKey L script of
         Some pubkey \<Rightarrow>
           (if pubkey ! 0 = 0x02 \<or> pubkey ! 0 = 0x03 then Some (pubkey ! 0 # take 32 (drop 1 pubkey))
            else if pubkey ! 0 = 0x04
              then Some ((0x04 OR (pubkey ! 64 AND 0x01)) # take 32 (drop 1 pubkey))
            else None)
       | None \<Rightarrow> None)))"

definition GetSpecialSize :: "nat \<Rightarrow> nat" where
  "GetSpecialSize nSize =
     (if nSize = 0 \<or> nSize = 1 then 20
      else if nSize = 2 \<or> nSize = 3 \<or> nSize = 4 \<or> nSize = 5 then 32
      else 0)"

definition DecompressScript :: "openssl \<Rightarrow> nat \<Rightarrow> bytes \<Rightarrow> bytes option" where
  "DecompressScript L nSize vin =
     (if nSize = 0 then Some ([OP_DUP, OP_HASH160, 20] @ take 20 vin @ [OP_EQUALVERIFY, OP_CHECKSIG])
      else if nSize = 1 then Some ([OP_HASH160, 20] @ take 20 vin @ [OP_EQUAL])
      else if nSize = 2 \<or> nSize = 3 then Some ([33, of_nat nSize] @ take 32 vin @ [OP_CHECKSIG])
      else if nSize = 4 \<or> nSize = 5 then
        (let (fOk, pubkey) = CPubKey_Decompress L (CPubKey_Set (of_nat (nSize - 2) # take 32 vin)) in
         if \<not> fOk then None else Some (65 # pubkey @ [OP_CHECKSIG]))
      else None)"

definition nSpecialScripts :: nat where
  "nSpecialScripts = 6"

definition ser_script :: "openssl \<Rightarrow> bytes \<Rightarrow> bytes" where
  "ser_script L script = (case CompressScript L script of
     Some compr \<Rightarrow> compr
   | None \<Rightarrow> WriteVarInt (int (length script + nSpecialScripts)) @ script)"

text \<open>
  The reader ignores the result of \<open>Decompress\<close>: where that fails, the script stays what it was
  (\<open>old\<close>).
\<close>

definition unser_script :: "openssl \<Rightarrow> bytes \<Rightarrow> bytes reader" where
  "unser_script L old = rbind ReadVarInt (\<lambda>w :: uint32. let nSize = unat w in
     if nSize < nSpecialScripts then
       rbind (read_bytes (GetSpecialSize nSize)) (\<lambda>vch.
         rreturn (case DecompressScript L nSize vch of Some script \<Rightarrow> script | None \<Rightarrow> old))
     else read_bytes (nSize - nSpecialScripts))"

text \<open>\<open>CTxOutCompressor\<close>; a \<open>CTxOut\<close> that is read starts out null.\<close>

definition ser_ctxout :: "openssl \<Rightarrow> CTxOut \<Rightarrow> bytes" where
  "ser_ctxout L txout =
     WriteVarInt (int (CompressAmount (nat (nValue txout mod 2 ^ 64)))) @ ser_script L (scriptPubKey txout)"

definition unser_ctxout :: "openssl \<Rightarrow> CTxOut reader" where
  "unser_ctxout L = rbind ReadVarInt (\<lambda>nVal :: uint64.
     rbind (unser_script L []) (\<lambda>script.
     rreturn \<lparr> nValue = wrap64 (int (DecompressAmount (unat nVal))), scriptPubKey = script \<rparr>))"

section \<open>Script round trips\<close>

lemma IsToKeyID_Some:
  "IsToKeyID s = Some h \<Longrightarrow>
   length h = 20 \<and> s = [OP_DUP, OP_HASH160, 20] @ h @ [OP_EQUALVERIFY, OP_CHECKSIG]"
  using split3 [of s 3 20]
  by (auto simp: IsToKeyID_def take_map_nth [of 3 s] drop_map_nth [of 23 s] upt_rec_numeral upt_short
      split: if_splits)

lemma IsToScriptID_Some:
  "IsToScriptID s = Some h \<Longrightarrow> length h = 20 \<and> s = [OP_HASH160, 20] @ h @ [OP_EQUAL]"
  using split3 [of s 2 20]
  by (auto simp: IsToScriptID_def take_map_nth [of 2 s] drop_map_nth [of 22 s] upt_rec_numeral upt_short
      split: if_splits)

lemma IsToPubKey_Some:
  assumes "IsToPubKey L s = Some pub"
  shows "(length pub = 33 \<and> (hd pub = 2 \<or> hd pub = 3) \<and> s = 33 # pub @ [OP_CHECKSIG]) \<or>
         (length pub = 65 \<and> hd pub = 4 \<and> EC_pubkey_valid L pub \<and> s = 65 # pub @ [OP_CHECKSIG])"
proof (cases "length s = 35 \<and> s ! 0 = 33 \<and> s ! 34 = OP_CHECKSIG \<and> (s ! 1 = 0x02 \<or> s ! 1 = 0x03)")
  case True
  let ?p = "take 33 (drop 1 s)"
  have p: "length ?p = 33" "hd ?p = s ! 1" using True by (simp_all add: hd_take hd_drop_conv_nth)
  then have "CPubKey_Set ?p = ?p"
    using True by (auto simp: CPubKey_Set_def GetLen_def Let_def)
  then have "pub = ?p" using assms True by (simp add: IsToPubKey_def)
  moreover have "s = 33 # ?p @ [OP_CHECKSIG]"
    using split3 [of s "Suc 0" 33] True
    by (simp add: take_map_nth [of "Suc 0" s] drop_map_nth [of 34 s] upt_rec_numeral upt_short)
  ultimately show ?thesis using p True by auto
next
  case False
  let ?p = "take 65 (drop 1 s)"
  have c: "length s = 67" "s ! 0 = 65" "s ! 66 = OP_CHECKSIG" "s ! 1 = 0x04"
    using assms False by (auto simp: IsToPubKey_def split: if_splits)
  have p: "length ?p = 65" "hd ?p = s ! 1" using c by (simp_all add: hd_take hd_drop_conv_nth)
  then have "CPubKey_Set ?p = ?p"
    using c by (auto simp: CPubKey_Set_def GetLen_def Let_def)
  then have "pub = ?p" "EC_pubkey_valid L pub"
    using assms False c by (auto simp: IsToPubKey_def Let_def CPubKey_IsFullyValid_def split: if_splits)
  moreover have "s = 65 # ?p @ [OP_CHECKSIG]"
    using split3 [of s "Suc 0" 65] c
    by (simp add: take_map_nth [of "Suc 0" s] drop_map_nth [of 66 s] upt_rec_numeral upt_short)
  ultimately show ?thesis using p c by auto
qed

text \<open>What \<open>Compress\<close> produces: a tag below \<open>nSpecialScripts\<close> and as many bytes as the tag says.\<close>

lemma CompressScript_Some:
  assumes "CompressScript L s = Some compr" "ec_points L"
  shows "\<exists>tag r. compr = tag # r \<and> unat tag < nSpecialScripts \<and>
           length r = GetSpecialSize (unat tag) \<and> DecompressScript L (unat tag) r = Some s"
proof (cases "IsToKeyID s")
  case (Some h)
  with assms IsToKeyID_Some [OF Some] show ?thesis
    by (intro exI [of _ 0] exI [of _ h])
      (auto simp: CompressScript_def GetSpecialSize_def nSpecialScripts_def DecompressScript_def)
next
  case k: None
  show ?thesis
  proof (cases "IsToScriptID s")
    case (Some h)
    with k assms IsToScriptID_Some [OF Some] show ?thesis
      by (intro exI [of _ 1] exI [of _ h])
        (auto simp: CompressScript_def GetSpecialSize_def nSpecialScripts_def DecompressScript_def)
  next
    case None
    then obtain pub where pub: "IsToPubKey L s = Some pub"
      using k assms by (auto simp: CompressScript_def split: option.splits)
    note c = assms(1) [unfolded CompressScript_def, simplified k None pub option.case]
    from IsToPubKey_Some [OF pub] show ?thesis
    proof
      assume a: "length pub = 33 \<and> (hd pub = 2 \<or> hd pub = 3) \<and> s = 33 # pub @ [OP_CHECKSIG]"
      then obtain x p where x: "pub = x # p" "length p = 32" "x = 2 \<or> x = 3" by (cases pub) auto
      with c have "compr = x # p" by auto
      with a x show ?thesis
        by (auto simp: GetSpecialSize_def nSpecialScripts_def DecompressScript_def)
    next
      assume a: "length pub = 65 \<and> hd pub = 4 \<and> EC_pubkey_valid L pub \<and> s = 65 # pub @ [OP_CHECKSIG]"
      then obtain p where p: "pub = 4 # p" "length p = 64" by (cases pub) auto
      then have l: "pub ! 64 = last pub" by (auto simp: last_conv_nth)
      define b where "b = last pub AND 1"
      have b: "b = 0 \<or> b = 1" 
        by (cases "even (last pub)")
          (simp_all add: b_def and_one_eq even_iff_mod_2_eq_zero odd_iff_mod_2_eq_one)
      have "compr = (4 OR b) # take 32 p" using c l p by (simp add: b_def)
      moreover have "CPubKey_Set ((2 + b) # take 32 p) = (2 + b) # take 32 p"
        using b p by (auto simp: CPubKey_Set_def GetLen_def)
      moreover have "EC_pubkey_valid L ((2 + b) # take 32 p)" "EC_pubkey_form L False ((2 + b) # take 32 p) = pub"
        using assms(2) a p unfolding ec_points_def b_def by (metis list.sel(3))+
      moreover have "CPubKey_Set pub = pub" using p by (simp add: CPubKey_Set_def GetLen_def)
      moreover have "4 OR b = 4 + b" using b by auto
      ultimately show ?thesis using b a p
        by (auto simp: GetSpecialSize_def nSpecialScripts_def DecompressScript_def
            CPubKey_Decompress_def CPubKey_IsValid_def)
    qed
  qed
qed

lemma ReadVarInt_small:
  assumes "unat tag < 128"
  shows "ReadVarInt (tag # r) = Inr (of_nat (unat tag) :: 'w::len word, r)"
  using assms by (simp add: ReadVarInt_def read_varint_step del: read_varint.simps)

lemma unser_ser_script:
  assumes "ec_points L" "length s \<le> MAX_SIZE"
  shows "unser_script L old (ser_script L s @ r) = Inr (s, r)"
proof (cases "CompressScript L s")
  case (Some compr)
  then obtain tag q where c: "compr = tag # q" "unat tag < nSpecialScripts"
    "length q = GetSpecialSize (unat tag)" "DecompressScript L (unat tag) q = Some s"
    using CompressScript_Some assms(1) by blast
  then have "unat tag < 6" by (simp add: nSpecialScripts_def)
  then have "ReadVarInt (tag # q @ r) = Inr (of_nat (unat tag) :: uint32, q @ r)"
    by (intro ReadVarInt_small) simp
  moreover have "unat (of_nat (unat tag) :: uint32) = unat tag"
    using \<open>unat tag < 6\<close> by (intro unat_of_nat_small) simp
  ultimately show ?thesis using c
    by (simp add: unser_script_def ser_script_def Some Let_def)
next
  case None
  have "unat (of_int (int (length s + 6)) :: uint32) = length s + 6"
    using assms(2) by (simp only: of_int_of_nat_eq) (intro unat_of_nat_small, simp add: MAX_SIZE_def)
  then show ?thesis
    by (simp add: unser_script_def ser_script_def None Read_WriteVarInt Let_def nSpecialScripts_def
        del: of_nat_add of_int_of_nat_eq)
qed

definition ctxout_ok :: "CTxOut \<Rightarrow> bool" where
  "ctxout_ok txout \<longleftrightarrow> MoneyRange (nValue txout) \<and> length (scriptPubKey txout) \<le> MAX_SIZE"

lemma unser_ser_ctxout:
  assumes "ec_points L" "ctxout_ok txout"
  shows "unser_ctxout L (ser_ctxout L txout @ r) = Inr (txout, r)"
proof -
  let ?n = "nat (nValue txout)"
  have v: "0 \<le> nValue txout" "nValue txout \<le> 50000000000000000"
    using assms(2) by (simp_all add: ctxout_ok_def MoneyRange_def MAX_MONEY_eq)
  then have n: "nat (nValue txout mod 2 ^ 64) = ?n" by simp
  have "CompressAmount ?n < 2 ^ 64" by (simp add: CompressAmount_def split: prod.split)
  then have "unat (of_int (int (CompressAmount ?n)) :: uint64) = CompressAmount ?n"
    by (simp only: of_int_of_nat_eq) (intro unat_of_nat_small, simp)
  moreover have "DecompressAmount (CompressAmount ?n) = ?n"
    using v by (intro Decompress_Compress_small) simp
  moreover have "in_int64 (nValue txout)" using v by (simp add: in_int64_def)
  ultimately show ?thesis using assms v
    by (simp add: unser_ctxout_def ser_ctxout_def n Read_WriteVarInt ctxout_ok_def unser_ser_script
        del: of_int_of_nat_eq)
qed

interpretation ctxout_codec: codec "ser_ctxout L" "unser_ctxout L" "\<lambda>txout. ec_points L \<and> ctxout_ok txout" for L
  by unfold_locales (simp add: unser_ser_ctxout)

section \<open>Properties\<close>

text \<open>Amount compression is lossless: every amount that can occur (the money range is far below the
  bound) is restored, and no code is wasted: a code that decompresses without wrapping is the
  code of its amount.\<close>

theorem amount_roundtrip:
  "10 * n < 2 ^ 64 \<Longrightarrow> DecompressAmount (CompressAmount n) = n"
  by (rule Decompress_Compress_small)

theorem amount_roundtrip_witness: "DecompressAmount (CompressAmount (nat MAX_MONEY)) = nat MAX_MONEY"
  by (rule amount_roundtrip) (simp add: MAX_MONEY_eq)

text \<open>The compact serialization of an output in the coin database is read back: the amount, and the script
  also where it was replaced by a key, a hash or the abscissa of a curve point.\<close>

theorem ctxout_roundtrip:
  assumes "ec_points L" "MoneyRange (nValue txout)" "length (scriptPubKey txout) \<le> MAX_SIZE"
  shows "unser_ctxout L (ser_ctxout L txout @ r) = Inr (txout, r)"
  using assms by (intro ctxout_codec.dec_enc) (simp add: ctxout_ok_def)

theorem ctxout_roundtrip_witness:
  "unser_ctxout reference_ssl (ser_ctxout reference_ssl \<lparr> nValue = 5, scriptPubKey = [OP_DUP, OP_HASH160] \<rparr> @ [1])
   = Inr (\<lparr> nValue = 5, scriptPubKey = [OP_DUP, OP_HASH160] \<rparr>, [1])"
  by (rule ctxout_roundtrip [OF ec_points_reference]) (simp_all add: MoneyRange_def MAX_MONEY_eq MAX_SIZE_def)

end
