(* ===== verification/Coins.thy ===== *)
theory Coins
  imports Compressor
begin

text \<open>
  \<open>CCoins\<close> of \<open>src/src/main.h\<close>, the unspent outputs of one transaction, and the undo data of
  \<open>src/src/undo.h\<close>.

  A spent output is null (\<open>nValue = -1\<close>); spent outputs at the end of the vector are dropped by
  \<open>Cleanup\<close>. The program is built without \<open>PPCOINSTAKE\<close>, so there are no coinstake fields.
  The lemmas show what \<open>Spend\<close> does on every branch, that it is undone by writing the saved
  output back, and that serialization is inverted.
\<close>

section \<open>Data\<close>

record TxInUndo =
  ui_txout :: CTxOut
  ui_fCoinBase :: bool
  ui_nHeight :: uint32
  ui_nVersion :: int

type_synonym CTxUndo = "TxInUndo list"
type_synonym CBlockUndo = "CTxUndo list"

definition TxInUndo_of :: "CTxOut \<Rightarrow> TxInUndo" where
  "TxInUndo_of txout = \<lparr> ui_txout = txout, ui_fCoinBase = False, ui_nHeight = 0, ui_nVersion = 0 \<rparr>"

record CCoins =
  cc_fCoinBase :: bool
  cc_vout :: "CTxOut list"
  cc_nHeight :: int
  cc_nVersion :: int

definition CCoins_empty :: CCoins where
  "CCoins_empty = \<lparr> cc_fCoinBase = False, cc_vout = [], cc_nHeight = 0, cc_nVersion = 0 \<rparr>"

definition CCoins_of_tx :: "CTransaction \<Rightarrow> int \<Rightarrow> CCoins" where
  "CCoins_of_tx tx nHeightIn =
     \<lparr> cc_fCoinBase = IsCoinBase tx, cc_vout = tx_vout tx, cc_nHeight = nHeightIn,
       cc_nVersion = tx_nVersion tx \<rparr>"

section \<open>Operations\<close>

definition Cleanup :: "CCoins \<Rightarrow> CCoins" where
  "Cleanup coins = coins\<lparr>cc_vout := pop_while CTxOut_IsNull (cc_vout coins)\<rparr>"

definition IsAvailable :: "CCoins \<Rightarrow> nat \<Rightarrow> bool" where
  "IsAvailable coins nPos \<longleftrightarrow>
     nPos < length (cc_vout coins) \<and> \<not> CTxOut_IsNull (cc_vout coins ! nPos)"

definition IsPruned :: "CCoins \<Rightarrow> bool" where
  "IsPruned coins \<longleftrightarrow> list_all CTxOut_IsNull (cc_vout coins)"

text \<open>\<open>Spend\<close>: \<open>None\<close> where it returns false, otherwise the undo data and the coins afterwards.\<close>

definition Spend :: "CCoins \<Rightarrow> COutPoint \<Rightarrow> (TxInUndo \<times> CCoins) option" where
  "Spend coins out =
     (let n = unat (po_n out) in
      if n \<ge> length (cc_vout coins) then None
      else if CTxOut_IsNull (cc_vout coins ! n) then None
      else
        let undo = TxInUndo_of (cc_vout coins ! n);
            coins' = Cleanup (coins\<lparr>cc_vout := (cc_vout coins)[n := CTxOut_SetNull]\<rparr>) in
        Some (if cc_vout coins' = []
              then undo\<lparr>ui_nHeight := of_int (cc_nHeight coins'),
                        ui_fCoinBase := cc_fCoinBase coins', ui_nVersion := cc_nVersion coins'\<rparr>
              else undo, coins'))"

section \<open>Serialization\<close>

text \<open>\<open>VARINT\<close> of a signed \<open>int\<close>: what is read is the two's complement of 32 bits.\<close>

definition unser_varint_int :: "int reader" where
  "unser_varint_int = rbind ReadVarInt (\<lambda>w :: uint32. rreturn (sint w))"

text \<open>\<open>CalcMaskSize\<close>: the loop over the groups of eight outputs from \<open>vout[2]\<close> on.\<close>

function mask_loop :: "nat \<Rightarrow> nat \<Rightarrow> nat \<Rightarrow> CTxOut list \<Rightarrow> nat \<times> nat" where
  "mask_loop b nLastUsedByte nNonzeroBytes outs =
     (if outs = [] then (nLastUsedByte, nNonzeroBytes)
      else let fZero = list_all CTxOut_IsNull (take 8 outs) in
        if \<not> fZero then mask_loop (b + 1) (b + 1) (nNonzeroBytes + 1) (drop 8 outs)
        else mask_loop (b + 1) nLastUsedByte nNonzeroBytes (drop 8 outs))"
  by pat_completeness auto
termination
  by (relation "measure (\<lambda>(b, l, z, outs). length outs)") auto

declare mask_loop.simps [simp del]

definition CalcMaskSize :: "CCoins \<Rightarrow> nat \<times> nat" where
  "CalcMaskSize coins = mask_loop 0 0 0 (drop 2 (cc_vout coins))"

fun avail_byte :: "nat \<Rightarrow> byte \<Rightarrow> CTxOut list \<Rightarrow> byte" where
  "avail_byte i chAvail [] = chAvail"
| "avail_byte i chAvail (txout # outs) =
     avail_byte (i + 1) (if \<not> CTxOut_IsNull txout then chAvail OR push_bit i 1 else chAvail) outs"

definition mask_bytes :: "nat \<Rightarrow> CTxOut list \<Rightarrow> bytes" where
  "mask_bytes nMaskSize vout =
     map (\<lambda>b. avail_byte 0 0 (take 8 (drop (2 + b * 8) vout))) [0..<nMaskSize]"

definition header_code :: "CCoins \<Rightarrow> nat" where
  "header_code coins =
     (let nMaskCode = snd (CalcMaskSize coins);
          fFirst = IsAvailable coins 0; fSecond = IsAvailable coins 1 in
      8 * (nMaskCode - (if fFirst \<or> fSecond then 0 else 1)) + (if cc_fCoinBase coins then 1 else 0)
        + (if fFirst then 2 else 0) + (if fSecond then 4 else 0))"

text \<open>Serialization; the assertion at its start fails for pruned coins (\<open>None\<close>).\<close>

definition ser_coins :: "openssl \<Rightarrow> CCoins \<Rightarrow> bytes option" where
  "ser_coins L coins =
     (let (nMaskSize, nMaskCode) = CalcMaskSize coins in
      if \<not> (IsAvailable coins 0 \<or> IsAvailable coins 1 \<or> nMaskCode \<noteq> 0) then None
      else Some
        (WriteVarInt (cc_nVersion coins) @
         WriteVarInt (int (header_code coins)) @
         mask_bytes nMaskSize (cc_vout coins) @
         concat (map (ser_ctxout L) (filter (\<lambda>txout. \<not> CTxOut_IsNull txout) (cc_vout coins))) @
         WriteVarInt (cc_nHeight coins)))"

definition avail_bits :: "byte \<Rightarrow> bool list" where
  "avail_bits chAvail = map (\<lambda>p. chAvail AND push_bit p 1 \<noteq> 0) [0..<8]"

function read_mask :: "nat \<Rightarrow> bool list reader" where
  "read_mask nMaskCode s =
     (if nMaskCode = 0 then Inr ([], s)
      else case s of
        [] \<Rightarrow> Inl EndOfData
      | chAvail # s \<Rightarrow>
        (case read_mask (if chAvail \<noteq> 0 then nMaskCode - 1 else nMaskCode) s of
           Inl e \<Rightarrow> Inl e
         | Inr (vs, s) \<Rightarrow> Inr (avail_bits chAvail @ vs, s)))"
  by pat_completeness auto
termination
  by (relation "measure (\<lambda>(n, s). length s)") auto

declare read_mask.simps [simp del]

fun read_avail :: "openssl \<Rightarrow> bool list \<Rightarrow> CTxOut list reader" where
  "read_avail L [] = rreturn []"
| "read_avail L (f # fs) =
     rbind (if f then unser_ctxout L else rreturn CTxOut_SetNull) (\<lambda>txout.
     rbind (read_avail L fs) (\<lambda>outs. rreturn (txout # outs)))"

definition unser_coins :: "openssl \<Rightarrow> CCoins reader" where
  "unser_coins L =
     rbind unser_varint_int (\<lambda>version.
     rbind ReadVarInt (\<lambda>nCode :: uint32.
     let fCoinBase = nCode AND 1 \<noteq> 0; f0 = nCode AND 2 \<noteq> 0; f1 = nCode AND 4 \<noteq> 0;
         nMaskCode = unat (nCode div 8 + (if nCode AND 6 \<noteq> 0 then 0 else 1)) in
     rbind (read_mask nMaskCode) (\<lambda>vAvail.
     rbind (read_avail L ([f0, f1] @ vAvail)) (\<lambda>vout.
     rbind unser_varint_int (\<lambda>height.
     rreturn (Cleanup \<lparr> cc_fCoinBase = fCoinBase, cc_vout = vout, cc_nHeight = height,
                        cc_nVersion = version \<rparr>))))))"

text \<open>\<open>TxInUndo\<close>: \<open>nHeight\<close> is unsigned, so the code \<open>nHeight*2+fCoinBase\<close> wraps at 32 bits.\<close>

definition ser_undo :: "openssl \<Rightarrow> TxInUndo \<Rightarrow> bytes" where
  "ser_undo L undo =
     WriteVarInt (uint (ui_nHeight undo * 2 + (if ui_fCoinBase undo then 1 else 0))) @
     (if ui_nHeight undo > 0 then WriteVarInt (ui_nVersion undo) else []) @
     ser_ctxout L (ui_txout undo)"

definition unser_undo :: "openssl \<Rightarrow> TxInUndo reader" where
  "unser_undo L =
     rbind ReadVarInt (\<lambda>nCode :: uint32.
     let nHeight = nCode div 2; fCoinBase = nCode AND 1 \<noteq> 0 in
     rbind (if nHeight > 0 then unser_varint_int else rreturn 0) (\<lambda>version.
     rbind (unser_ctxout L) (\<lambda>txout.
     rreturn \<lparr> ui_txout = txout, ui_fCoinBase = fCoinBase, ui_nHeight = nHeight,
               ui_nVersion = version \<rparr>)))"

section \<open>Spending\<close>

text \<open>The invariant of the coin database: no spent outputs at the end.\<close>

definition cleaned :: "CCoins \<Rightarrow> bool" where
  "cleaned coins \<longleftrightarrow> cc_vout coins = [] \<or> \<not> CTxOut_IsNull (last (cc_vout coins))"

lemma IsNull_SetNull [simp]: "CTxOut_IsNull CTxOut_SetNull"
  by (simp add: CTxOut_IsNull_def CTxOut_SetNull_def)

lemma Cleanup_sel [simp]:
  "cc_fCoinBase (Cleanup c) = cc_fCoinBase c" "cc_nHeight (Cleanup c) = cc_nHeight c"
  "cc_nVersion (Cleanup c) = cc_nVersion c"
  "cc_vout (Cleanup c) = pop_while CTxOut_IsNull (cc_vout c)"
  by (simp_all add: Cleanup_def)

lemma cleaned_Cleanup: "cleaned (Cleanup c)"
  by (auto simp: cleaned_def dest: last_pop_while)

lemma Cleanup_id: "cleaned c \<Longrightarrow> Cleanup c = c"
  by (auto simp: cleaned_def Cleanup_def pop_while_id)

lemma IsAvailable_Cleanup [simp]: "IsAvailable (Cleanup c) n = IsAvailable c n"
  using nth_pop_while [of n CTxOut_IsNull "cc_vout c"] pop_while_tail [of CTxOut_IsNull "cc_vout c" n]
    length_pop_while_le [of CTxOut_IsNull "cc_vout c"]
  by (cases "n < length (pop_while CTxOut_IsNull (cc_vout c))") (auto simp: IsAvailable_def)

lemma cleaned_pruned_iff: "cleaned c \<Longrightarrow> IsPruned c \<longleftrightarrow> cc_vout c = []"
  by (cases "cc_vout c" rule: rev_cases) (auto simp: cleaned_def IsPruned_def)

lemma Spend_iff: "Spend c out \<noteq> None \<longleftrightarrow> IsAvailable c (unat (po_n out))"
  by (auto simp: Spend_def IsAvailable_def Let_def)

lemma Spend_Some:
  assumes "Spend c out = Some (undo, c')"
  shows "IsAvailable c (unat (po_n out))"
    and "ui_txout undo = cc_vout c ! unat (po_n out)"
    and "c' = Cleanup (c\<lparr>cc_vout := (cc_vout c)[unat (po_n out) := CTxOut_SetNull]\<rparr>)"
    and "cc_vout c' = [] \<Longrightarrow>
      ui_nHeight undo = of_int (cc_nHeight c) \<and> ui_fCoinBase undo = cc_fCoinBase c \<and> ui_nVersion undo = cc_nVersion c"
    and "cc_vout c' \<noteq> [] \<Longrightarrow> ui_nHeight undo = 0 \<and> \<not> ui_fCoinBase undo \<and> ui_nVersion undo = 0"
  using assms
  by (auto simp: Spend_def IsAvailable_def Let_def TxInUndo_of_def split: if_splits)

lemma Spend_cleaned: "Spend c out = Some (undo, c') \<Longrightarrow> cleaned c'"
  using Spend_Some(3) cleaned_Cleanup by metis

text \<open>\<open>Spend\<close> takes exactly the output it is given.\<close>

lemma Spend_IsAvailable:
  assumes "Spend c out = Some (undo, c')"
  shows "IsAvailable c' n \<longleftrightarrow> IsAvailable c n \<and> n \<noteq> unat (po_n out)"
  using Spend_Some(1,3) [OF assms]
  by (auto simp: IsAvailable_def [of "c\<lparr>cc_vout := v\<rparr>" for v] IsAvailable_def [of c] nth_list_update)

lemma Spend_nth:
  assumes "Spend c out = Some (undo, c')" "IsAvailable c' n"
  shows "cc_vout c' ! n = cc_vout c ! n"
proof -
  have "n < length (cc_vout c')" "n \<noteq> unat (po_n out)"
    using assms(2) Spend_IsAvailable [OF assms(1)] by (auto simp: IsAvailable_def)
  then show ?thesis
    using Spend_Some(3) [OF assms(1)] by (simp add: nth_pop_while)
qed

section \<open>Serialization round trip\<close>

subsection \<open>The bit mask\<close>

abbreviation unspent :: "CTxOut \<Rightarrow> bool" where
  "unspent txout \<equiv> \<not> CTxOut_IsNull txout"

lemma bit_avail_byte:
  "i + length outs \<le> 8 \<Longrightarrow>
   bit (avail_byte i ch outs) n \<longleftrightarrow>
     bit ch n \<or> (i \<le> n \<and> n < i + length outs \<and> unspent (outs ! (n - i)))"
proof (induction i ch outs rule: avail_byte.induct)
  case (1 i ch)
  then show ?case by auto
next
  case (2 i ch txout outs)
  have p: "bit (2 ^ i :: byte) n \<longleftrightarrow> n = i"
    using 2(2) by (subst bit_exp_iff) auto
  have "bit (if unspent txout then ch OR push_bit i 1 else ch) n \<longleftrightarrow> bit ch n \<or> n = i \<and> unspent txout"
    by (simp add: bit_or_iff p)
  moreover have "n - i = Suc (n - Suc i)" if "Suc i \<le> n" using that by simp
  ultimately show ?case using 2 by (auto simp: nth_Cons' not_less_eq_eq le_Suc_eq)
qed

lemma avail_bits_nth: "avail_bits ch = map (bit ch) [0..<8]"
  by (rule nth_equalityI) (auto simp: avail_bits_def bit_iff_and_push_bit_not_eq_0)

lemma avail_bits_avail_byte:
  assumes "length outs \<le> 8"
  shows "avail_bits (avail_byte 0 0 outs) = map unspent outs @ replicate (8 - length outs) False"
  by (rule nth_equalityI)
    (use assms in \<open>auto simp: avail_bits_nth bit_avail_byte nth_append\<close>)

lemma avail_byte_eq_0:
  assumes "length outs \<le> 8"
  shows "avail_byte 0 0 outs = 0 \<longleftrightarrow> list_all CTxOut_IsNull outs"
proof -
  have "avail_byte 0 0 outs = 0 \<longleftrightarrow> (\<forall>n. \<not> bit (avail_byte 0 0 outs) n)"
    by (metis bit_0_eq bit_eqI bot_apply bot_bool_def)
  then show ?thesis using assms by (auto simp: bit_avail_byte list_all_length)
qed

text \<open>The mask bytes, group by group.\<close>

function group_bytes :: "CTxOut list \<Rightarrow> bytes" where
  "group_bytes outs = (if outs = [] then [] else avail_byte 0 0 (take 8 outs) # group_bytes (drop 8 outs))"
  by pat_completeness auto
termination
  by (relation "measure length") auto

declare group_bytes.simps [simp del]

lemma group_bytes_Nil [simp]: "group_bytes [] = []"
  by (simp add: group_bytes.simps)

lemma mask_loop_eq:
  "outs \<noteq> [] \<Longrightarrow> unspent (last outs) \<Longrightarrow>
   mask_loop b l z outs = (b + length (group_bytes outs), z + length (filter (\<lambda>c. c \<noteq> 0) (group_bytes outs)))"
proof (induction b l z outs rule: mask_loop.induct)
  case (1 b l z outs)
  have z: "avail_byte 0 0 (take 8 outs) \<noteq> 0 \<longleftrightarrow> \<not> list_all CTxOut_IsNull (take 8 outs)"
    by (simp add: avail_byte_eq_0)
  show ?case
  proof (cases "drop 8 outs = []")
    case True
    then have "last outs \<in> set (take 8 outs)" using 1(3) by simp
    then have "\<not> list_all CTxOut_IsNull (take 8 outs)" using 1(4) by (auto simp: list_all_iff)
    moreover have "mask_loop b' l' z' [] = (l', z')" for b' l' z'
      by (simp add: mask_loop.simps)
    ultimately show ?thesis using 1(3) True z
      by (simp add: mask_loop.simps [of b l z outs] group_bytes.simps [of outs])
  next
    case False
    then have "last (drop 8 outs) = last outs" by (simp add: last_drop)
    with 1 False z show ?thesis
      by (simp add: mask_loop.simps [of b l z outs] group_bytes.simps [of outs] Let_def)
  qed
qed

lemma map_group_bytes:
  "map (\<lambda>b. avail_byte 0 0 (take 8 (drop (b * 8) outs))) [0..<length (group_bytes outs)] = group_bytes outs"
proof (induction outs rule: group_bytes.induct)
  case (1 outs)
  show ?case
  proof (cases "outs = []")
    case False
    then have g: "group_bytes outs = avail_byte 0 0 (take 8 outs) # group_bytes (drop 8 outs)"
      by (simp add: group_bytes.simps [of outs])
    have "map (\<lambda>b. avail_byte 0 0 (take 8 (drop (Suc b * 8) outs))) [0..<length (group_bytes (drop 8 outs))]
          = group_bytes (drop 8 outs)"
      using 1 [OF False] by (simp add: add.commute)
    then show ?thesis
      unfolding g by (simp add: upt_conv_Cons map_Suc_upt [symmetric] comp_def del: upt_Suc)
  qed simp
qed

lemma concat_avail_group:
  "\<exists>k. concat (map avail_bits (group_bytes outs)) = map unspent outs @ replicate k False"
proof (induction outs rule: group_bytes.induct)
  case (1 outs)
  show ?case
  proof (cases "drop 8 outs = []")
    case True
    then have "take 8 outs = outs" by simp
    then show ?thesis using True
      by (cases "outs = []")
        (auto simp: group_bytes.simps [of outs] avail_bits_avail_byte intro: exI [of _ 0])
  next
    case False
    then have "outs \<noteq> []" by auto
    from 1 [OF this] obtain k where "concat (map avail_bits (group_bytes (drop 8 outs)))
      = map unspent (drop 8 outs) @ replicate k False" ..
    moreover have "map unspent (take 8 outs) @ map unspent (drop 8 outs) = map unspent outs"
      by (metis append_take_drop_id map_append)
    ultimately have "concat (map avail_bits (group_bytes outs)) = map unspent outs @ replicate k False"
      using False by (auto simp: group_bytes.simps [of outs] avail_bits_avail_byte simp flip: append_assoc)
    then show ?thesis ..
  qed
qed

lemma last_group_bytes:
  "outs \<noteq> [] \<Longrightarrow> unspent (last outs) \<Longrightarrow> group_bytes outs \<noteq> [] \<and> last (group_bytes outs) \<noteq> 0"
proof (induction outs rule: group_bytes.induct)
  case (1 outs)
  show ?case
  proof (cases "drop 8 outs = []")
    case True
    then have "last outs \<in> set (take 8 outs)" using 1(2) by simp
    then show ?thesis using 1 True avail_byte_eq_0 [of "take 8 outs"]
      by (auto simp: group_bytes.simps [of outs] list_all_iff)
  next
    case False
    then have "last (drop 8 outs) = last outs" by (simp add: last_drop)
    with 1 False show ?thesis by (simp add: group_bytes.simps [of outs])
  qed
qed

lemma read_mask_bytes:
  "bs = [] \<or> last bs \<noteq> 0 \<Longrightarrow>
   read_mask (length (filter (\<lambda>c. c \<noteq> 0) bs)) (bs @ r) = Inr (concat (map avail_bits bs), r)"
proof (induction bs)
  case Nil
  then show ?case by (simp add: read_mask.simps)
next
  case (Cons b bs)
  then have ih: "read_mask (length (filter (\<lambda>c. c \<noteq> 0) bs)) (bs @ r) = Inr (concat (map avail_bits bs), r)"
    by (cases bs) auto
  have "b \<noteq> 0 \<or> filter (\<lambda>c. c \<noteq> 0) bs \<noteq> []"
    using Cons(2) by (cases bs rule: rev_cases) auto
  with ih show ?case
    by (subst read_mask.simps) auto
qed

subsection \<open>The header code\<close>

lemma and_exp_word: "k < LENGTH('w) \<Longrightarrow> (w :: 'w::len word) AND 2 ^ k \<noteq> 0 \<longleftrightarrow> odd (unat w div 2 ^ k)"
proof -
  assume "k < LENGTH('w)"
  have "w AND 2 ^ k \<noteq> 0 \<longleftrightarrow> bit w k"
    using bit_iff_and_push_bit_not_eq_0 [of w k] by (simp add: push_bit_eq_mult)
  also have "\<dots> \<longleftrightarrow> bit (unat w) k"
    using \<open>k < LENGTH('w)\<close> by (simp add: bit_unsigned_iff)
  also have "\<dots> \<longleftrightarrow> odd (unat w div 2 ^ k)" by (rule bit_iff_odd)
  finally show ?thesis .
qed

lemma header_bits:
  fixes m :: nat and c f g :: bool
  defines "n \<equiv> 8 * m + (if c then 1 else 0) + (if f then 2 else 0) + (if g then 4 else 0)"
  assumes "n < 2 ^ 32"
  shows "(of_nat n :: uint32) AND 1 \<noteq> 0 \<longleftrightarrow> c" "(of_nat n :: uint32) AND 2 \<noteq> 0 \<longleftrightarrow> f"
    "(of_nat n :: uint32) AND 4 \<noteq> 0 \<longleftrightarrow> g" "(of_nat n :: uint32) AND 6 \<noteq> 0 \<longleftrightarrow> f \<or> g"
    "unat ((of_nat n :: uint32) div 8) = m"
proof -
  have u: "unat (of_nat n :: uint32) = n" using assms(2) by (intro unat_of_nat_small) simp
  have a: "odd n \<longleftrightarrow> c" "odd (n div 2) \<longleftrightarrow> f" "odd (n div 4) \<longleftrightarrow> g" "n div 8 = m"
    unfolding n_def by (cases c; cases f; cases g; simp; presburger)+
  show "(of_nat n :: uint32) AND 1 \<noteq> 0 \<longleftrightarrow> c"
    using and_exp_word [of 0 "of_nat n :: uint32"] a(1) by (simp add: u)
  show 2: "(of_nat n :: uint32) AND 2 \<noteq> 0 \<longleftrightarrow> f"
    using and_exp_word [of 1 "of_nat n :: uint32"] a(2) by (simp add: u)
  show 4: "(of_nat n :: uint32) AND 4 \<noteq> 0 \<longleftrightarrow> g"
    using and_exp_word [of 2 "of_nat n :: uint32"] a(3) by (simp add: u)
  have "(of_nat n :: uint32) AND 6 = (of_nat n AND 2) OR (of_nat n AND 4)"
    by (simp add: bit.conj_disj_distrib [symmetric])
  then show "(of_nat n :: uint32) AND 6 \<noteq> 0 \<longleftrightarrow> f \<or> g"
    using 2 4 by (metis or_eq_0_iff)
  show "unat ((of_nat n :: uint32) div 8) = m"
    using a(4) by (simp add: unat_div u)
qed

subsection \<open>Coins\<close>

lemma read_varint_int:
  assumes "0 \<le> n" "n < 2 ^ 31"
  shows "unser_varint_int (WriteVarInt n @ r) = Inr (n, r)"
proof -
  have "sint (of_int n :: uint32) = n"
    using assms by (simp add: sint_sbintrunc' signed_take_bit_int_eq_self)
  then show ?thesis using assms(1) by (simp add: unser_varint_int_def Read_WriteVarInt)
qed

definition stored_out_ok :: "CTxOut \<Rightarrow> bool" where
  "stored_out_ok txout \<longleftrightarrow> (if CTxOut_IsNull txout then txout = CTxOut_SetNull else ctxout_ok txout)"

definition coins_ok :: "CCoins \<Rightarrow> bool" where
  "coins_ok c \<longleftrightarrow> cleaned c \<and> cc_vout c \<noteq> [] \<and> length (cc_vout c) \<le> MAX_SIZE \<and>
     list_all stored_out_ok (cc_vout c) \<and>
     0 \<le> cc_nHeight c \<and> cc_nHeight c < 2 ^ 31 \<and> 0 \<le> cc_nVersion c \<and> cc_nVersion c < 2 ^ 31"

lemma read_avail_false: "read_avail L (replicate k False) r = Inr (replicate k CTxOut_SetNull, r)"
  by (induction k) (simp_all add: rbind_def)

lemma read_avail_ser:
  assumes "ec_points L" "list_all stored_out_ok outs"
  shows "read_avail L (map unspent outs @ replicate k False) (concat (map (ser_ctxout L) (filter unspent outs)) @ r)
         = Inr (outs @ replicate k CTxOut_SetNull, r)"
  using assms(2)
proof (induction outs)
  case Nil
  then show ?case by (simp add: read_avail_false)
next
  case (Cons txout outs)
  then show ?case using assms(1)
    by (cases "CTxOut_IsNull txout") (simp_all add: stored_out_ok_def unser_ser_ctxout rbind_def)
qed

lemma pop_while_replicate: "p x \<Longrightarrow> pop_while p (xs @ replicate k x) = pop_while p xs"
  by (induction k) (simp_all add: replicate_append_same [symmetric] flip: append_assoc)

lemma length_group_bytes_le: "length (group_bytes outs) \<le> length outs"
proof (induction outs rule: group_bytes.induct)
  case (1 outs)
  then show ?case by (cases "outs = []") (auto simp: group_bytes.simps [of outs] neq_Nil_conv)
qed

lemma mask_of_coins:
  assumes "cleaned c" "cc_vout c \<noteq> []"
  defines "outs \<equiv> drop 2 (cc_vout c)"
  shows "CalcMaskSize c = (length (group_bytes outs), length (filter (\<lambda>b. b \<noteq> 0) (group_bytes outs)))"
    and "outs \<noteq> [] \<Longrightarrow> unspent (last outs)"
    and "outs = [] \<Longrightarrow> IsAvailable c 0 \<or> IsAvailable c 1"
proof -
  show l: "outs \<noteq> [] \<Longrightarrow> unspent (last outs)"
    using assms by (auto simp: outs_def cleaned_def last_drop)
  show "CalcMaskSize c = (length (group_bytes outs), length (filter (\<lambda>b. b \<noteq> 0) (group_bytes outs)))"
  proof (cases "outs = []")
    case True
    then show ?thesis by (simp add: CalcMaskSize_def outs_def [symmetric] mask_loop.simps)
  next
    case False
    with l mask_loop_eq [of outs 0 0 0] show ?thesis
      by (simp add: CalcMaskSize_def outs_def [symmetric])
  qed
  assume "outs = []"
  then have "length (cc_vout c) \<le> 2" by (simp add: outs_def)
  moreover have "0 < length (cc_vout c)" using assms(2) by simp
  ultimately have "length (cc_vout c) = 1 \<or> length (cc_vout c) = 2" by linarith
  then show "IsAvailable c 0 \<or> IsAvailable c 1"
    using assms(1,2) by (auto simp: IsAvailable_def cleaned_def last_conv_nth)
qed

lemma vout_split:
  assumes "cc_vout c \<noteq> []"
  shows "\<exists>k. [IsAvailable c 0, IsAvailable c 1] @ map unspent (drop 2 (cc_vout c)) @ replicate j False
             = map unspent (cc_vout c) @ replicate k False"
proof (cases "cc_vout c")
  case (Cons x xs)
  then show ?thesis
    by (cases xs) (auto simp: IsAvailable_def intro: exI [of _ j] exI [of _ "Suc j"])
qed (use assms in simp)

lemma ser_coins_Some:
  assumes "coins_ok c"
  shows "ser_coins L c = Some
    (WriteVarInt (cc_nVersion c) @ WriteVarInt (int (header_code c)) @
     group_bytes (drop 2 (cc_vout c)) @ concat (map (ser_ctxout L) (filter unspent (cc_vout c))) @
     WriteVarInt (cc_nHeight c))"
proof -
  let ?outs = "drop 2 (cc_vout c)"
  have c: "cleaned c" "cc_vout c \<noteq> []" using assms by (simp_all add: coins_ok_def)
  note m = mask_of_coins [OF c]
  have "mask_bytes (length (group_bytes ?outs)) (cc_vout c) = group_bytes ?outs"
    using map_group_bytes [of ?outs] by (simp add: mask_bytes_def add.commute)
  moreover have "IsAvailable c 0 \<or> IsAvailable c 1 \<or> filter (\<lambda>b. b \<noteq> 0) (group_bytes ?outs) \<noteq> []"
    using m(2,3) last_group_bytes [of ?outs] by (metis (mono_tags, lifting) filter_empty_conv last_in_set)
  ultimately show ?thesis by (simp add: ser_coins_def m(1))
qed

lemma unser_ser_coins:
  assumes "ec_points L" "coins_ok c" "ser_coins L c = Some b"
  shows "unser_coins L (b @ r) = Inr (c, r)"
proof -
  let ?outs = "drop 2 (cc_vout c)"
  let ?f = "IsAvailable c 0" and ?g = "IsAvailable c (Suc 0)"
  define z where "z = length (filter (\<lambda>b. b \<noteq> 0) (group_bytes ?outs))"
  define m where "m = z - (if ?f \<or> ?g then 0 else 1)"
  have c: "cleaned c" "cc_vout c \<noteq> []" using assms by (simp_all add: coins_ok_def)
  note mask = mask_of_coins [OF c]
  have zm: "m + (if ?f \<or> ?g then 0 else 1) = z"
  proof (cases "?f \<or> ?g")
    case False
    then have "filter (\<lambda>b. b \<noteq> 0) (group_bytes ?outs) \<noteq> []"
      using mask(2) mask(3) [unfolded One_nat_def] last_group_bytes [of ?outs] by (metis (mono_tags, lifting) filter_empty_conv last_in_set)
    then have "0 < z" by (simp add: z_def)
    with False show ?thesis by (simp add: m_def)
  qed (simp add: m_def)
  have "z \<le> length (cc_vout c)"
    unfolding z_def using length_filter_le length_group_bytes_le [of ?outs] by (metis diff_le_self le_trans length_drop)
  then have z: "z \<le> 0x02000000" using assms(2) by (simp add: coins_ok_def MAX_SIZE_def)
  have h: "header_code c = 8 * m + (if cc_fCoinBase c then 1 else 0) + (if ?f then 2 else 0) + (if ?g then 4 else 0)"
    by (simp add: header_code_def mask(1) m_def z_def)
  have "m \<le> z" by (simp add: m_def)
  then have "header_code c < 2 ^ 32" using z by (simp add: h)
  note hb = header_bits [of m "cc_fCoinBase c" ?f ?g, folded h, OF this]
  have n: "unat ((of_nat (header_code c) :: uint32) div 8 + (if ?f \<or> ?g then 0 else 1)) = z"
    using hb(5) zm z by (auto simp: unat_word_ariths)
  obtain j where j: "concat (map avail_bits (group_bytes ?outs)) = map unspent ?outs @ replicate j False"
    using concat_avail_group by blast
  obtain k where k: "[?f, ?g] @ map unspent ?outs @ replicate j False = map unspent (cc_vout c) @ replicate k False"
    using vout_split [OF c(2)] by (auto simp only: One_nat_def)
  have lb: "group_bytes ?outs = [] \<or> last (group_bytes ?outs) \<noteq> 0"
    using last_group_bytes [of ?outs] mask(2) by (cases "?outs = []") auto
  have mask_read: "read_mask z (group_bytes ?outs @ s) = Inr (map unspent ?outs @ replicate j False, s)" for s
    using read_mask_bytes [OF lb] unfolding z_def j .
  have outs_read: "read_avail L (?f # ?g # map unspent ?outs @ replicate j False)
      (concat (map (ser_ctxout L) (filter unspent (cc_vout c))) @ s) = Inr (cc_vout c @ replicate k CTxOut_SetNull, s)" for s
    using k read_avail_ser [OF assms(1), of "cc_vout c" k s] assms(2) by (simp add: coins_ok_def)
  have v: "0 \<le> cc_nVersion c" "cc_nVersion c < 2 ^ 31" "0 \<le> cc_nHeight c" "cc_nHeight c < 2 ^ 31"
    using assms(2) by (simp_all add: coins_ok_def)
  have "Cleanup \<lparr> cc_fCoinBase = cc_fCoinBase c, cc_vout = cc_vout c @ replicate k CTxOut_SetNull,
      cc_nHeight = cc_nHeight c, cc_nVersion = cc_nVersion c \<rparr> = c"
    using Cleanup_id [OF c(1)] by (cases c) (simp add: Cleanup_def pop_while_replicate)
  moreover have "b = WriteVarInt (cc_nVersion c) @ WriteVarInt (int (header_code c)) @
     group_bytes ?outs @ concat (map (ser_ctxout L) (filter unspent (cc_vout c))) @ WriteVarInt (cc_nHeight c)"
    using ser_coins_Some [OF assms(2)] assms(3) by simp
  ultimately show ?thesis
    by (simp add: unser_coins_def read_varint_int [OF v(1,2)] read_varint_int [OF v(3,4)]
        Read_WriteVarInt hb(1-4) n mask_read outs_read Let_def
        del: read_avail.simps split del: if_split)
qed

interpretation coins_codec: codec "\<lambda>c. the (ser_coins L c)" "unser_coins L" "\<lambda>c. ec_points L \<and> coins_ok c" for L
  by unfold_locales (metis option.sel ser_coins_Some unser_ser_coins)

section \<open>Undo data\<close>

text \<open>The undo record \<open>Spend\<close> makes: the version is kept only with a height.\<close>

definition undo_ok :: "TxInUndo \<Rightarrow> bool" where
  "undo_ok undo \<longleftrightarrow> ctxout_ok (ui_txout undo) \<and> ui_nHeight undo < 2 ^ 31 \<and>
     0 \<le> ui_nVersion undo \<and> ui_nVersion undo < 2 ^ 31 \<and> (ui_nHeight undo = 0 \<longrightarrow> ui_nVersion undo = 0)"

lemma undo_code:
  assumes "h < (2 ^ 31 :: uint32)"
  shows "(h * 2 + (if b then 1 else 0)) div 2 = h" "(h * 2 + (if b then 1 else 0)) AND 1 \<noteq> 0 \<longleftrightarrow> b"
proof -
  let ?c = "h * 2 + (if b then 1 else 0)"
  have "unat h < 2 ^ 31" using assms by (simp add: word_less_nat_alt)
  then have c: "unat ?c = 2 * unat h + (if b then 1 else 0)" by (auto simp: unat_word_ariths)
  have "unat (?c div 2) = unat h" by (simp only: unat_div c) simp
  then show "?c div 2 = h" by (simp add: word_unat_eq_iff)
  show "?c AND 1 \<noteq> 0 \<longleftrightarrow> b"
    using and_exp_word [of 0 ?c] c by auto
qed

lemma unser_ser_undo:
  assumes "ec_points L" "undo_ok undo"
  shows "unser_undo L (ser_undo L undo @ r) = Inr (undo, r)"
proof -
  have h: "ui_nHeight undo < 2 ^ 31" and o: "ctxout_ok (ui_txout undo)"
    and v: "0 \<le> ui_nVersion undo" "ui_nVersion undo < 2 ^ 31" "ui_nHeight undo = 0 \<longrightarrow> ui_nVersion undo = 0"
    using assms(2) by (simp_all add: undo_ok_def)
  have g: "ui_nHeight undo > 0 \<longleftrightarrow> ui_nHeight undo \<noteq> 0" by (simp add: word_neq_0_conv)
  show ?thesis
    using undo_code [OF h, of "ui_fCoinBase undo"] v read_varint_int [OF v(1,2)]
      ctxout_codec.dec_enc [OF conjI [OF assms(1) o]]
    by (simp add: unser_undo_def ser_undo_def Read_WriteVarInt Let_def g del: of_int_add)
qed

interpretation undo_codec: codec "ser_undo L" "unser_undo L" "\<lambda>undo. ec_points L \<and> undo_ok undo" for L
  by unfold_locales (simp add: unser_ser_undo)

section \<open>Properties\<close>

text \<open>C12. The entry of the coin database of a transaction with at least one unspent output is written, and read
  back: version, height, coinbase flag and every output, with the spent ones null.\<close>

theorem coins_roundtrip:
  assumes "ec_points L" "coins_ok c"
  shows "\<exists>b. ser_coins L c = Some b \<and> unser_coins L (b @ r) = Inr (c, r)"
  using ser_coins_Some [OF assms(2)] coins_codec.dec_enc [OF conjI [OF assms]] by auto

definition example_coins :: CCoins where
  "example_coins = \<lparr> cc_fCoinBase = True,
     cc_vout = [\<lparr> nValue = 50, scriptPubKey = [OP_1] \<rparr>, CTxOut_SetNull, CTxOut_SetNull, \<lparr> nValue = 7, scriptPubKey = [] \<rparr>],
     cc_nHeight = 120, cc_nVersion = 1 \<rparr>"

theorem coins_roundtrip_witness:
  "\<exists>b. ser_coins reference_ssl example_coins = Some b \<and> unser_coins reference_ssl (b @ [3]) = Inr (example_coins, [3])"
  by (rule coins_roundtrip [OF ec_points_reference])
    (simp add: coins_ok_def example_coins_def cleaned_def CTxOut_IsNull_def CTxOut_SetNull_def stored_out_ok_def
      ctxout_ok_def MoneyRange_def MAX_MONEY_eq MAX_SIZE_def)

text \<open>C15. \<open>Spend\<close> succeeds exactly for an available output, hands out that output as undo data, makes exactly
  this output unavailable and leaves the others as they are; the undo data carry height, coinbase
  flag and version exactly when nothing of the transaction is left.\<close>

theorem Spend_takes_one_output:
  "case Spend c out of
     None \<Rightarrow> \<not> IsAvailable c (unat (po_n out))
   | Some (undo, c') \<Rightarrow>
       IsAvailable c (unat (po_n out)) \<and> ui_txout undo = cc_vout c ! unat (po_n out) \<and>
       {n. IsAvailable c' n} = {n. IsAvailable c n} - {unat (po_n out)} \<and>
       map ((!) (cc_vout c')) (filter (IsAvailable c') [0..<length (cc_vout c')])
         = map ((!) (cc_vout c)) (filter (IsAvailable c') [0..<length (cc_vout c')]) \<and>
       (ui_nHeight undo, ui_fCoinBase undo, ui_nVersion undo)
         = (if IsPruned c' then (of_int (cc_nHeight c), cc_fCoinBase c, cc_nVersion c) else (0, False, 0))"
proof (cases "Spend c out")
  case None
  then show ?thesis using Spend_iff [of c out] by simp
next
  case (Some p)
  obtain undo c' where p: "p = (undo, c')" by (cases p)
  note s = Some [unfolded p]
  have "IsPruned c' \<longleftrightarrow> cc_vout c' = []" using Spend_cleaned [OF s] by (rule cleaned_pruned_iff)
  moreover have "{n. IsAvailable c' n} = {n. IsAvailable c n} - {unat (po_n out)}"
    using Spend_IsAvailable [OF s] by blast
  moreover have "\<forall>n. n < length (cc_vout c') \<and> IsAvailable c' n \<longrightarrow> cc_vout c' ! n = cc_vout c ! n"
    using Spend_nth [OF s] by blast
  ultimately show ?thesis
    using Spend_Some(1,2,4,5) [OF s] by (cases "cc_vout c' = []") (simp_all add: Some p)
qed

end
