(* ===== verification/Coins_View.thy ===== *)
theory Coins_View
  imports Coins "HOL-Library.AList"
begin

text \<open>
  The views of the unspent outputs: \<open>CCoinsViewDB\<close> of \<open>src/src/txdb.cpp\<close> over the key-value store
  of \<open>src/src/leveldb.h\<close>, \<open>CCoinsViewCache\<close> and \<open>CCoinsViewMemPool\<close> of \<open>src/src/main.cpp\<close>.

  The interfaces \<open>coins_reader\<close>, \<open>coins_store\<close> and \<open>coins_backend\<close> are what a view relies on of the view below
  it: reads change nothing that can be observed, a batch is written on top of what was there, up to
  the difference between a pruned and a missing entry. The database provides them, and a cache
  provides them over any view that does; so the stack of views of the program (the database, the
  tip cache, the cache of a block that is being connected) does. A block index entry is
  represented by the hash of its block; \<open>mapBlockIndex\<close> by the list of the hashes it has.
\<close>

section \<open>The store\<close>

text \<open>
  The contents of the LevelDB database and a batch, a list of puts and deletions in order. A store
  that fails throws and ends the program's run; it is not modelled.
\<close>

type_synonym leveldb = "bytes \<Rightarrow> bytes option"
type_synonym leveldb_batch = "(bytes \<times> bytes option) list"

definition batch_op :: "leveldb \<Rightarrow> bytes \<times> bytes option \<Rightarrow> leveldb" where
  "batch_op db p = db(fst p := snd p)"

definition WriteBatch :: "leveldb_batch \<Rightarrow> leveldb \<Rightarrow> leveldb" where
  "WriteBatch batch db = foldl batch_op db batch"

definition db_Read :: "'a reader \<Rightarrow> leveldb \<Rightarrow> bytes \<Rightarrow> 'a option" where
  "db_Read dec db key = (case db key of
     None \<Rightarrow> None
   | Some b \<Rightarrow> (case dec b of Inl e \<Rightarrow> None | Inr (x, r) \<Rightarrow> Some x))"

definition db_Exists :: "leveldb \<Rightarrow> bytes \<Rightarrow> bool" where
  "db_Exists db key \<longleftrightarrow> db key \<noteq> None"

section \<open>The database view\<close>

text \<open>The keys \<open>make_pair('c', txid)\<close> and \<open>'B'\<close>.\<close>

definition coins_key :: "uint256 \<Rightarrow> bytes" where
  "coins_key txid = ser_pair ser_word ser_word (0x63 :: byte, txid)"

definition best_key :: bytes where
  "best_key = ser_word (0x42 :: byte)"

text \<open>The assertion of the serializer holds for coins that are not pruned.\<close>

definition BatchWriteCoins :: "openssl \<Rightarrow> leveldb_batch \<Rightarrow> uint256 \<times> CCoins \<Rightarrow> leveldb_batch" where
  "BatchWriteCoins L batch p =
     (if IsPruned (snd p) then batch @ [(coins_key (fst p), None)]
      else batch @ [(coins_key (fst p), Some (the (ser_coins L (snd p))))])"

definition BatchWriteHashBestChain :: "leveldb_batch \<Rightarrow> uint256 \<Rightarrow> leveldb_batch" where
  "BatchWriteHashBestChain batch hash = batch @ [(best_key, Some (ser_word hash))]"

definition DB_GetCoins :: "openssl \<Rightarrow> leveldb \<Rightarrow> uint256 \<Rightarrow> CCoins option \<times> leveldb" where
  "DB_GetCoins L db txid = (db_Read (unser_coins L) db (coins_key txid), db)"

definition DB_HaveCoins :: "leveldb \<Rightarrow> uint256 \<Rightarrow> bool \<times> leveldb" where
  "DB_HaveCoins db txid = (db_Exists db (coins_key txid), db)"

definition DB_SetCoins :: "openssl \<Rightarrow> uint256 \<Rightarrow> CCoins \<Rightarrow> leveldb \<Rightarrow> bool \<times> leveldb" where
  "DB_SetCoins L txid coins db = (True, WriteBatch (BatchWriteCoins L [] (txid, coins)) db)"

definition DB_GetBestBlock :: "uint256 list \<Rightarrow> leveldb \<Rightarrow> uint256 option \<times> leveldb" where
  "DB_GetBestBlock mapBlockIndex db = (case db_Read unser_word db best_key of
     None \<Rightarrow> (None, db)
   | Some hash \<Rightarrow> (if hash \<in> set mapBlockIndex then Some hash else None, db))"

definition DB_SetBestBlock :: "uint256 \<Rightarrow> leveldb \<Rightarrow> bool \<times> leveldb" where
  "DB_SetBestBlock hash db = (True, WriteBatch (BatchWriteHashBestChain [] hash) db)"

definition DB_BatchWrite :: "openssl \<Rightarrow> (uint256 \<times> CCoins) list \<Rightarrow> uint256 option \<Rightarrow> leveldb \<Rightarrow> bool \<times> leveldb" where
  "DB_BatchWrite L mapCoins pindex db =
     (let batch = foldl (BatchWriteCoins L) [] mapCoins;
          batch = (case pindex of None \<Rightarrow> batch | Some hash \<Rightarrow> BatchWriteHashBestChain batch hash) in
      (True, WriteBatch batch db))"

section \<open>The cache\<close>

text \<open>
  \<open>'s\<close> is the state of the view below. The map is the association list of its entries; the
  operations of the view below are arguments.
\<close>

record 's CCoinsViewCache =
  vc_base :: 's
  pindexTip :: "uint256 option"
  cacheCoins :: "(uint256 \<times> CCoins) list"

definition CCoinsViewCache_init :: "'s \<Rightarrow> 's CCoinsViewCache" where
  "CCoinsViewCache_init b = \<lparr> vc_base = b, pindexTip = None, cacheCoins = [] \<rparr>"

definition FetchCoins :: "('s \<Rightarrow> uint256 \<Rightarrow> CCoins option \<times> 's) \<Rightarrow>
    's CCoinsViewCache \<Rightarrow> uint256 \<Rightarrow> CCoins option \<times> 's CCoinsViewCache" where
  "FetchCoins get v txid = (case map_of (cacheCoins v) txid of
     Some c \<Rightarrow> (Some c, v)
   | None \<Rightarrow> (case get (vc_base v) txid of
       (None, b) \<Rightarrow> (None, v\<lparr>vc_base := b\<rparr>)
     | (Some tmp, b) \<Rightarrow> (Some tmp, v\<lparr>vc_base := b, cacheCoins := AList.update txid tmp (cacheCoins v)\<rparr>)))"

definition Cache_GetCoins :: "('s \<Rightarrow> uint256 \<Rightarrow> CCoins option \<times> 's) \<Rightarrow>
    's CCoinsViewCache \<Rightarrow> uint256 \<Rightarrow> CCoins option \<times> 's CCoinsViewCache" where
  "Cache_GetCoins get v txid =
     (if txid \<in> fst ` set (cacheCoins v) then (map_of (cacheCoins v) txid, v)
      else case get (vc_base v) txid of
        (Some coins, b) \<Rightarrow> (Some coins, v\<lparr>vc_base := b, cacheCoins := AList.update txid coins (cacheCoins v)\<rparr>)
      | (None, b) \<Rightarrow> (None, v\<lparr>vc_base := b\<rparr>))"

definition Cache_SetCoins :: "uint256 \<Rightarrow> CCoins \<Rightarrow> 's CCoinsViewCache \<Rightarrow> bool \<times> 's CCoinsViewCache" where
  "Cache_SetCoins txid coins v = (True, v\<lparr>cacheCoins := AList.update txid coins (cacheCoins v)\<rparr>)"

definition Cache_HaveCoins :: "('s \<Rightarrow> uint256 \<Rightarrow> CCoins option \<times> 's) \<Rightarrow>
    's CCoinsViewCache \<Rightarrow> uint256 \<Rightarrow> bool \<times> 's CCoinsViewCache" where
  "Cache_HaveCoins get v txid = (case FetchCoins get v txid of (r, v) \<Rightarrow> (r \<noteq> None, v))"

definition Cache_GetBestBlock :: "('s \<Rightarrow> uint256 option \<times> 's) \<Rightarrow>
    's CCoinsViewCache \<Rightarrow> uint256 option \<times> 's CCoinsViewCache" where
  "Cache_GetBestBlock getbest v =
     (let v = (if pindexTip v = None
               then (case getbest (vc_base v) of (h, b) \<Rightarrow> v\<lparr>vc_base := b, pindexTip := h\<rparr>) else v) in
      (pindexTip v, v))"

definition Cache_SetBestBlock :: "uint256 option \<Rightarrow> 's CCoinsViewCache \<Rightarrow> bool \<times> 's CCoinsViewCache" where
  "Cache_SetBestBlock pindex v = (True, v\<lparr>pindexTip := pindex\<rparr>)"

definition Cache_BatchWrite :: "(uint256 \<times> CCoins) list \<Rightarrow> uint256 option \<Rightarrow> 's CCoinsViewCache \<Rightarrow> bool \<times> 's CCoinsViewCache" where
  "Cache_BatchWrite mapCoins pindex v =
     (True, v\<lparr>cacheCoins := foldl (\<lambda>cc (txid, c). AList.update txid c cc) (cacheCoins v) mapCoins,
              pindexTip := pindex\<rparr>)"

definition Cache_Flush :: "((uint256 \<times> CCoins) list \<Rightarrow> uint256 option \<Rightarrow> 's \<Rightarrow> bool \<times> 's) \<Rightarrow>
    's CCoinsViewCache \<Rightarrow> bool \<times> 's CCoinsViewCache" where
  "Cache_Flush batchwrite v = (case batchwrite (cacheCoins v) (pindexTip v) (vc_base v) of
     (fOk, b) \<Rightarrow> (fOk, if fOk then v\<lparr>vc_base := b, cacheCoins := []\<rparr> else v\<lparr>vc_base := b\<rparr>))"

definition GetCacheSize :: "'s CCoinsViewCache \<Rightarrow> nat" where
  "GetCacheSize v = length (cacheCoins v)"

section \<open>The view with the memory pool\<close>

definition MEMPOOL_HEIGHT :: int where
  "MEMPOOL_HEIGHT = 0x7FFFFFFF"

definition Pool_GetCoins :: "('s \<Rightarrow> uint256 \<Rightarrow> CCoins option \<times> 's) \<Rightarrow> (uint256 \<Rightarrow> CTransaction option) \<Rightarrow>
    's \<Rightarrow> uint256 \<Rightarrow> CCoins option \<times> 's" where
  "Pool_GetCoins get mapTx s txid = (case get s txid of
     (Some c, s) \<Rightarrow> (Some c, s)
   | (None, s) \<Rightarrow> (case mapTx txid of
       Some tx \<Rightarrow> (Some (CCoins_of_tx tx MEMPOOL_HEIGHT), s)
     | None \<Rightarrow> (None, s)))"

definition Pool_HaveCoins :: "('s \<Rightarrow> uint256 \<Rightarrow> bool \<times> 's) \<Rightarrow> (uint256 \<Rightarrow> CTransaction option) \<Rightarrow>
    's \<Rightarrow> uint256 \<Rightarrow> bool \<times> 's" where
  "Pool_HaveCoins have mapTx s txid = (if mapTx txid \<noteq> None then (True, s) else have s txid)"

section \<open>The interfaces\<close>

text \<open>
  \<open>lookup\<close> and \<open>best\<close> are what a view shows. A fully spent entry may be kept or be dropped by
  the view below: \<open>unspent_coins\<close> identifies the two.
\<close>

definition unspent_coins :: "(uint256 \<Rightarrow> CCoins option) \<Rightarrow> uint256 \<Rightarrow> CCoins option" where
  "unspent_coins f txid = (case f txid of
     None \<Rightarrow> None
   | Some c \<Rightarrow> if IsPruned c then None else Some c)"

locale coins_reader =
  fixes get :: "'s \<Rightarrow> uint256 \<Rightarrow> CCoins option \<times> 's"
    and have_coins :: "'s \<Rightarrow> uint256 \<Rightarrow> bool \<times> 's"
    and getbest :: "'s \<Rightarrow> uint256 option \<times> 's"
    and lookup :: "'s \<Rightarrow> uint256 \<Rightarrow> CCoins option"
    and best :: "'s \<Rightarrow> uint256 option"
    and view_ok :: "'s \<Rightarrow> bool"
  assumes get_law: "view_ok s \<Longrightarrow>
      \<exists>s'. get s txid = (lookup s txid, s') \<and> view_ok s' \<and> lookup s' = lookup s \<and> best s' = best s"
    and have_law: "view_ok s \<Longrightarrow>
      \<exists>s'. have_coins s txid = (lookup s txid \<noteq> None, s') \<and> view_ok s' \<and> lookup s' = lookup s \<and> best s' = best s"
    and best_law: "view_ok s \<Longrightarrow>
      \<exists>s'. getbest s = (best s, s') \<and> view_ok s' \<and> lookup s' = lookup s \<and> best s' = best s"

text \<open>Every entry is one that may be stored.\<close>

locale coins_store = coins_reader get have_coins getbest lookup best view_ok
  for get :: "'s \<Rightarrow> uint256 \<Rightarrow> CCoins option \<times> 's" and have_coins getbest lookup best view_ok +
  fixes storable :: "CCoins \<Rightarrow> bool"
  assumes lookup_storable: "view_ok s \<Longrightarrow> lookup s txid = Some c \<Longrightarrow> IsPruned c \<or> storable c"

text \<open>A view that can be written.\<close>

locale coins_backend = coins_store get have_coins getbest lookup best view_ok storable
  for get :: "'s \<Rightarrow> uint256 \<Rightarrow> CCoins option \<times> 's" and have_coins getbest lookup best view_ok
    and batchwrite :: "(uint256 \<times> CCoins) list \<Rightarrow> uint256 option \<Rightarrow> 's \<Rightarrow> bool \<times> 's"
    and known :: "uint256 \<Rightarrow> bool"
    and storable +
  assumes batch_law: "view_ok s \<Longrightarrow> distinct (map fst m) \<Longrightarrow> \<forall>c \<in> snd ` set m. IsPruned c \<or> storable c \<Longrightarrow> known h \<Longrightarrow>
      \<exists>s'. batchwrite m (Some h) s = (True, s') \<and> view_ok s' \<and>
        unspent_coins (lookup s') = unspent_coins (lookup s ++ map_of m) \<and> best s' = Some h"

section \<open>The cache over a view\<close>

definition cache_lookup :: "('s \<Rightarrow> uint256 \<Rightarrow> CCoins option) \<Rightarrow> 's CCoinsViewCache \<Rightarrow> uint256 \<Rightarrow> CCoins option" where
  "cache_lookup lookup v = lookup (vc_base v) ++ map_of (cacheCoins v)"

definition cache_best :: "('s \<Rightarrow> uint256 option) \<Rightarrow> 's CCoinsViewCache \<Rightarrow> uint256 option" where
  "cache_best best v = (case pindexTip v of None \<Rightarrow> best (vc_base v) | Some h \<Rightarrow> Some h)"

definition cache_inv :: "('s \<Rightarrow> bool) \<Rightarrow> (CCoins \<Rightarrow> bool) \<Rightarrow> 's CCoinsViewCache \<Rightarrow> bool" where
  "cache_inv view_ok storable v \<longleftrightarrow> view_ok (vc_base v) \<and> distinct (map fst (cacheCoins v)) \<and>
     (\<forall>c \<in> snd ` set (cacheCoins v). IsPruned c \<or> storable c)"

lemma unspent_coins_add:
  "unspent_coins (f ++ m) = (\<lambda>t. case m t of
     None \<Rightarrow> unspent_coins f t | Some c \<Rightarrow> if IsPruned c then None else Some c)"
  by (simp add: fun_eq_iff unspent_coins_def map_add_def split: option.split)

lemma unspent_coins_override:
  "unspent_coins f = unspent_coins g \<Longrightarrow> unspent_coins (f ++ m) = unspent_coins (g ++ m)"
  by (simp add: unspent_coins_add fun_eq_iff split: option.split)

lemma entries_update:
  "c' \<in> snd ` set (AList.update t c m) \<Longrightarrow> c' = c \<or> c' \<in> snd ` set m"
  by (induction m) (auto split: if_splits)

lemma Cache_GetCoins_eq: "Cache_GetCoins get v txid = FetchCoins get v txid"
proof -
  have "txid \<in> fst ` set (cacheCoins v) \<longleftrightarrow> map_of (cacheCoins v) txid \<noteq> None"
    by (simp add: map_of_eq_None_iff)
  then show ?thesis by (auto simp: Cache_GetCoins_def FetchCoins_def split: option.split prod.split)
qed

lemma cache_base_upd:
  "lookup b = lookup (vc_base v) \<Longrightarrow> cache_lookup lookup (v\<lparr>vc_base := b\<rparr>) = cache_lookup lookup v"
  "best b = best (vc_base v) \<Longrightarrow> cache_best best (v\<lparr>vc_base := b\<rparr>) = cache_best best v"
  by (simp_all add: cache_lookup_def cache_best_def split: option.split)

lemma foldl_update:
  "map_of (foldl (\<lambda>cc (t, c). AList.update t c cc) cc m) = map_of cc ++ map_of (rev m)"
  by (induction m arbitrary: cc) (auto simp: AList.update_conv' split: prod.split)

lemma foldl_update_distinct:
  "distinct (map fst cc) \<Longrightarrow> distinct (map fst (foldl (\<lambda>cc (t, c). AList.update t c cc) cc m))"
  by (induction m arbitrary: cc) (auto simp: AList.distinct_update split: prod.split)

lemma foldl_update_entries:
  "c' \<in> snd ` set (foldl (\<lambda>cc (t, c). AList.update t c cc) cc m) \<Longrightarrow> c' \<in> snd ` set cc \<or> c' \<in> snd ` set m"
proof (induction m arbitrary: cc)
  case (Cons p m)
  obtain t c where p: "p = (t, c)" by (cases p)
  from Cons(1) [of "AList.update t c cc"] Cons(2) entries_update [of c' t c cc] show ?case
    by (auto simp: p)
qed simp

lemma map_of_rev_distinct: "distinct (map fst m) \<Longrightarrow> map_of (rev m) = map_of m"
  by (subst map_of_inject_set) (simp_all add: rev_map [symmetric])

context coins_store
begin

abbreviation "clookup \<equiv> cache_lookup lookup"
abbreviation "cbest \<equiv> cache_best best"
abbreviation "cinv \<equiv> cache_inv view_ok storable"

lemma FetchCoins_law:
  assumes "cinv v"
  shows "\<exists>v'. FetchCoins get v txid = (clookup v txid, v') \<and> cinv v' \<and> clookup v' = clookup v \<and> cbest v' = cbest v"
proof (cases "map_of (cacheCoins v) txid")
  case (Some c)
  then show ?thesis using assms by (simp add: FetchCoins_def cache_lookup_def)
next
  case None
  have i: "view_ok (vc_base v)" "distinct (map fst (cacheCoins v))"
    and st: "\<forall>c \<in> snd ` set (cacheCoins v). IsPruned c \<or> storable c"
    using assms by (simp_all add: cache_inv_def)
  obtain b where b: "get (vc_base v) txid = (lookup (vc_base v) txid, b)" "view_ok b"
      "lookup b = lookup (vc_base v)" "best b = best (vc_base v)"
    using get_law [OF i(1)] by blast
  show ?thesis
  proof (cases "lookup (vc_base v) txid")
    case n: None
    then show ?thesis using assms None b
      by (simp add: FetchCoins_def cache_inv_def cache_base_upd) (simp add: cache_lookup_def map_add_def)
  next
    case (Some c)
    let ?v = "v\<lparr>vc_base := b, cacheCoins := AList.update txid c (cacheCoins v)\<rparr>"
    have "clookup ?v = clookup v"
      using Some None b(3) by (auto simp: cache_lookup_def AList.update_conv' fun_eq_iff map_add_def split: option.split)
    moreover have "cinv ?v"
    proof -
      have "IsPruned c' \<or> storable c'" if "c' \<in> snd ` set (AList.update txid c (cacheCoins v))" for c'
        using entries_update [OF that] st lookup_storable [OF i(1) Some] by blast
      then show ?thesis using i b(2) by (simp add: cache_inv_def AList.distinct_update)
    qed
    moreover have "clookup v txid = Some c" using Some None by (simp add: cache_lookup_def map_add_def)
    moreover have "cbest ?v = cbest v" using b(4) by (simp add: cache_best_def split: option.split)
    ultimately show ?thesis using Some None b
      by (simp add: FetchCoins_def)
  qed
qed

lemma Cache_HaveCoins_law:
  assumes "cinv v"
  shows "\<exists>v'. Cache_HaveCoins get v txid = (clookup v txid \<noteq> None, v') \<and> cinv v' \<and> clookup v' = clookup v \<and> cbest v' = cbest v"
  using FetchCoins_law [OF assms, of txid] by (auto simp: Cache_HaveCoins_def)

lemma Cache_GetBestBlock_law:
  assumes "cinv v"
  shows "\<exists>v'. Cache_GetBestBlock getbest v = (cbest v, v') \<and> cinv v' \<and> clookup v' = clookup v \<and> cbest v' = cbest v"
proof -
  have "view_ok (vc_base v)" using assms by (simp add: cache_inv_def)
  then obtain b where b: "getbest (vc_base v) = (best (vc_base v), b)" "view_ok b"
      "lookup b = lookup (vc_base v)" "best b = best (vc_base v)"
    using best_law by blast
  show ?thesis
  proof (cases "pindexTip v")
    case None
    let ?v = "v\<lparr>vc_base := b, pindexTip := best (vc_base v)\<rparr>"
    have "Cache_GetBestBlock getbest v = (cbest v, ?v)"
      by (simp add: Cache_GetBestBlock_def None b(1) cache_best_def)
    moreover have "cinv ?v" using assms b(2) by (simp add: cache_inv_def)
    moreover have "clookup ?v = clookup v" by (simp add: cache_lookup_def b(3))
    moreover have "cbest ?v = cbest v" by (simp add: cache_best_def b(4) None split: option.split)
    ultimately show ?thesis by blast
  next
    case (Some h)
    then show ?thesis using assms by (simp add: Cache_GetBestBlock_def cache_best_def)
  qed
qed

lemma Cache_SetCoins_law:
  assumes i: "cinv v" and c: "IsPruned c \<or> storable c"
  shows "\<exists>v'. Cache_SetCoins txid c v = (True, v') \<and> cinv v' \<and> clookup v' = (clookup v)(txid \<mapsto> c) \<and> cbest v' = cbest v"
proof -
  let ?v = "v\<lparr>cacheCoins := AList.update txid c (cacheCoins v)\<rparr>"
  have "IsPruned c' \<or> storable c'" if "c' \<in> snd ` set (AList.update txid c (cacheCoins v))" for c'
    using entries_update [OF that] i c unfolding cache_inv_def by blast
  moreover have "view_ok (vc_base v)" "distinct (map fst (cacheCoins v))" using i by (simp_all add: cache_inv_def)
  ultimately have "cinv ?v" by (simp add: cache_inv_def AList.distinct_update)
  moreover have "clookup ?v = (clookup v)(txid \<mapsto> c)" by (simp add: cache_lookup_def AList.update_conv')
  moreover have "cbest ?v = cbest v" by (simp add: cache_best_def split: option.split)
  moreover have "Cache_SetCoins txid c v = (True, ?v)" by (simp add: Cache_SetCoins_def)
  ultimately show ?thesis by blast
qed

lemma Cache_SetBestBlock_law:
  "cinv v \<Longrightarrow> \<exists>v'. Cache_SetBestBlock (Some h) v = (True, v') \<and> cinv v' \<and> clookup v' = clookup v \<and> cbest v' = Some h"
  by (simp add: Cache_SetBestBlock_def cache_lookup_def cache_best_def cache_inv_def)

lemma Cache_BatchWrite_law:
  assumes "cinv v" "distinct (map fst m)" "\<forall>c \<in> snd ` set m. IsPruned c \<or> storable c"
  shows "\<exists>v'. Cache_BatchWrite m (Some h) v = (True, v') \<and> cinv v' \<and>
    unspent_coins (clookup v') = unspent_coins (clookup v ++ map_of m) \<and> cbest v' = Some h"
proof -
  have "IsPruned c \<or> storable c"
    if "c \<in> snd ` set (foldl (\<lambda>cc (t, c). AList.update t c cc) (cacheCoins v) m)" for c
    using foldl_update_entries [OF that] assms by (auto simp: cache_inv_def)
  then show ?thesis using assms
    by (simp add: Cache_BatchWrite_def cache_lookup_def cache_best_def cache_inv_def foldl_update
        foldl_update_distinct map_of_rev_distinct)
qed

lemma cache_storable:
  assumes i: "cinv s" and l: "clookup s txid = Some c"
  shows "IsPruned c \<or> storable c"
proof (cases "map_of (cacheCoins s) txid")
  case None
  with l have "lookup (vc_base s) txid = Some c" by (simp add: cache_lookup_def map_add_def)
  moreover have "view_ok (vc_base s)" using i by (simp add: cache_inv_def)
  ultimately show ?thesis using lookup_storable by blast
next
  case (Some c')
  with l have "map_of (cacheCoins s) txid = Some c" by (simp add: cache_lookup_def map_add_def)
  then have "c \<in> snd ` set (cacheCoins s)" using map_of_SomeD by force
  then show ?thesis using i unfolding cache_inv_def by blast
qed

text \<open>A cache over a view is one that can be written.\<close>

lemma cache_backend:
  "coins_backend (Cache_GetCoins get) (Cache_HaveCoins get) (Cache_GetBestBlock getbest) clookup cbest cinv
     Cache_BatchWrite known storable"
proof
  show "cinv s \<Longrightarrow> \<exists>s'. Cache_GetCoins get s txid = (clookup s txid, s') \<and> cinv s' \<and> clookup s' = clookup s \<and> cbest s' = cbest s"
    for s txid unfolding Cache_GetCoins_eq by (rule FetchCoins_law)
  show "cinv s \<Longrightarrow> \<exists>s'. Cache_HaveCoins get s txid = (clookup s txid \<noteq> None, s') \<and> cinv s' \<and> clookup s' = clookup s \<and> cbest s' = cbest s"
    for s txid by (rule Cache_HaveCoins_law)
  show "cinv s \<Longrightarrow> \<exists>s'. Cache_GetBestBlock getbest s = (cbest s, s') \<and> cinv s' \<and> clookup s' = clookup s \<and> cbest s' = cbest s"
    for s by (rule Cache_GetBestBlock_law)
  show "cinv s \<Longrightarrow> distinct (map fst m) \<Longrightarrow> \<forall>c \<in> snd ` set m. IsPruned c \<or> storable c \<Longrightarrow> known h \<Longrightarrow>
      \<exists>s'. Cache_BatchWrite m (Some h) s = (True, s') \<and> cinv s' \<and>
        unspent_coins (clookup s') = unspent_coins (clookup s ++ map_of m) \<and> cbest s' = Some h" for s m h
    by (rule Cache_BatchWrite_law)
qed (rule cache_storable)

end

context coins_backend
begin

text \<open>\<open>Flush\<close> of a cache whose tip is set: what is shown stays, and is what the view below shows.\<close>

lemma Cache_Flush_law:
  assumes "cinv v" "pindexTip v = Some h" "known h"
  shows "\<exists>v'. Cache_Flush batchwrite v = (True, v') \<and> cinv v' \<and> cacheCoins v' = [] \<and>
    unspent_coins (clookup v') = unspent_coins (clookup v) \<and> cbest v' = cbest v \<and>
    unspent_coins (lookup (vc_base v')) = unspent_coins (clookup v) \<and> best (vc_base v') = cbest v"
proof -
  have "view_ok (vc_base v)" "distinct (map fst (cacheCoins v))" "\<forall>c \<in> snd ` set (cacheCoins v). IsPruned c \<or> storable c"
    using assms(1) by (simp_all add: cache_inv_def)
  from batch_law [OF this assms(3)] assms(2) show ?thesis
    by (auto simp: Cache_Flush_def cache_lookup_def cache_best_def cache_inv_def)
qed

end

section \<open>The database\<close>

text \<open>The key of an entry determines its transaction.\<close>

interpretation coins_key_codec: codec_pair "ser_word :: byte \<Rightarrow> bytes" unser_word "\<lambda>_. True"
    "ser_word :: uint256 \<Rightarrow> bytes" unser_word "\<lambda>_. True"
  by unfold_locales (simp_all add: word_codec.dec_enc)

lemma unser_coins_key: "unser_pair unser_word unser_word (coins_key t) = Inr ((0x63 :: byte, t), [])"
  using coins_key_codec.unser_ser_pair [of "0x63" t "[]"] unfolding coins_key_def append_Nil2 by blast

lemma coins_key_inj [simp]: "coins_key t = coins_key u \<longleftrightarrow> t = u"
proof
  assume "coins_key t = coins_key u"
  with unser_coins_key [of t] unser_coins_key [of u] have "Inr ((0x63 :: byte, t), [] :: bytes) = (Inr ((0x63, u), []) :: stream_error + _)"
    by metis
  then show "t = u" by blast
qed blast

lemma coins_key_best [simp]: "coins_key t \<noteq> best_key" "best_key \<noteq> coins_key t"
proof -
  have "length (coins_key t) \<noteq> length best_key"
    by (simp add: coins_key_def ser_pair_def best_key_def)
  then show "coins_key t \<noteq> best_key" "best_key \<noteq> coins_key t" by auto
qed

definition coins_entry :: "openssl \<Rightarrow> CCoins \<Rightarrow> bytes option" where
  "coins_entry L c = (if IsPruned c then None else Some (the (ser_coins L c)))"

lemma foldl_BatchWriteCoins:
  "foldl (BatchWriteCoins L) b m = b @ map (\<lambda>(t, c). (coins_key t, coins_entry L c)) m"
  by (induction m arbitrary: b) (auto simp: BatchWriteCoins_def coins_entry_def)

lemma WriteBatch_append: "WriteBatch (a @ b) db = WriteBatch b (WriteBatch a db)"
  by (simp add: WriteBatch_def)

lemma WriteBatch_other: "k \<notin> fst ` set b \<Longrightarrow> WriteBatch b db k = db k"
  by (induction b arbitrary: db) (auto simp: WriteBatch_def batch_op_def)

lemma WriteBatch_coins:
  "distinct (map fst m) \<Longrightarrow>
   WriteBatch (map (\<lambda>(t, c). (coins_key t, coins_entry L c)) m) db (coins_key t) =
     (case map_of m t of None \<Rightarrow> db (coins_key t) | Some c \<Rightarrow> coins_entry L c)"
proof (induction m arbitrary: db)
  case Nil
  then show ?case by (simp add: WriteBatch_def)
next
  case (Cons p m)
  obtain u c where p: "p = (u, c)" by (cases p)
  let ?db = "db(coins_key u := coins_entry L c)"
  have "map_of m u = None" using Cons(2) by (simp add: p map_of_eq_None_iff)
  moreover have "WriteBatch (map (\<lambda>(t, c). (coins_key t, coins_entry L c)) (p # m)) db
      = WriteBatch (map (\<lambda>(t, c). (coins_key t, coins_entry L c)) m) ?db"
    by (simp add: p WriteBatch_def batch_op_def)
  ultimately show ?case using Cons by (cases "map_of m t") (auto simp: p)
qed

text \<open>What the program keeps of the database: entries are written by the serializers.\<close>

definition db_ok :: "openssl \<Rightarrow> leveldb \<Rightarrow> bool" where
  "db_ok L db \<longleftrightarrow> ec_points L \<and>
     (\<forall>t b. db (coins_key t) = Some b \<longrightarrow> (\<exists>c. coins_ok c \<and> \<not> IsPruned c \<and> ser_coins L c = Some b)) \<and>
     (\<forall>b. db best_key = Some b \<longrightarrow> (\<exists>h :: uint256. b = ser_word h))"

definition db_lookup :: "openssl \<Rightarrow> leveldb \<Rightarrow> uint256 \<Rightarrow> CCoins option" where
  "db_lookup L db txid = fst (DB_GetCoins L db txid)"

definition db_best :: "uint256 list \<Rightarrow> leveldb \<Rightarrow> uint256 option" where
  "db_best mapBlockIndex db = fst (DB_GetBestBlock mapBlockIndex db)"

lemma coins_ok_not_pruned: "coins_ok c \<Longrightarrow> \<not> IsPruned c"
  using cleaned_pruned_iff by (auto simp: coins_ok_def)

lemma db_Read_coins:
  "ec_points L \<Longrightarrow> coins_ok c \<Longrightarrow> ser_coins L c = Some b \<Longrightarrow> db k = Some b \<Longrightarrow> db_Read (unser_coins L) db k = Some c"
  using unser_ser_coins [of L c b "[]"] by (simp add: db_Read_def)

lemma db_okD:
  "db_ok L db \<Longrightarrow> db (coins_key t) = Some b \<Longrightarrow> \<exists>c. coins_ok c \<and> \<not> IsPruned c \<and> ser_coins L c = Some b"
  "db_ok L db \<Longrightarrow> db best_key = Some b \<Longrightarrow> \<exists>h :: uint256. b = ser_word h"
  "db_ok L db \<Longrightarrow> ec_points L"
  unfolding db_ok_def by blast+

lemma db_lookup_entry:
  assumes "db_ok L db"
  shows "db_lookup L db t \<noteq> None \<longleftrightarrow> db (coins_key t) \<noteq> None"
    and "db_lookup L db t = Some c \<Longrightarrow> coins_ok c"
proof -
  show "db_lookup L db t \<noteq> None \<longleftrightarrow> db (coins_key t) \<noteq> None"
  proof (cases "db (coins_key t)")
    case None
    then show ?thesis by (simp add: db_lookup_def DB_GetCoins_def db_Read_def)
  next
    case (Some b)
    then obtain c where "coins_ok c" "ser_coins L c = Some b" using db_okD(1) [OF assms] by blast
    then have "db_lookup L db t = Some c"
      using db_Read_coins Some assms by (simp add: db_lookup_def DB_GetCoins_def db_ok_def)
    then show ?thesis using Some by simp
  qed
  show "coins_ok c" if l: "db_lookup L db t = Some c"
  proof -
    obtain b where b: "db (coins_key t) = Some b"
      using l by (auto simp: db_lookup_def DB_GetCoins_def db_Read_def split: option.splits)
    then obtain c' where c': "coins_ok c'" "ser_coins L c' = Some b" using db_okD(1) [OF assms] by blast
    then have "db_lookup L db t = Some c'"
      using db_Read_coins b assms by (simp add: db_lookup_def DB_GetCoins_def db_ok_def)
    with l c' show ?thesis by simp
  qed
qed

lemma DB_BatchWrite_eq:
  "DB_BatchWrite L m (Some h) db = (True,
     (WriteBatch (map (\<lambda>(t, c). (coins_key t, coins_entry L c)) m) db)(best_key := Some (ser_word h)))"
  by (simp add: DB_BatchWrite_def foldl_BatchWriteCoins BatchWriteHashBestChain_def WriteBatch_append)
    (simp add: WriteBatch_def batch_op_def)

lemma DB_BatchWrite_law:
  assumes "db_ok L db" "distinct (map fst m)" "\<forall>c \<in> snd ` set m. IsPruned c \<or> coins_ok c" "h \<in> set idx"
  shows "\<exists>db'. DB_BatchWrite L m (Some h) db = (True, db') \<and> db_ok L db' \<and>
    unspent_coins (db_lookup L db') = unspent_coins (db_lookup L db ++ map_of m) \<and> db_best idx db' = Some h"
proof -
  define db' where "db' = (WriteBatch (map (\<lambda>(t, c). (coins_key t, coins_entry L c)) m) db)(best_key := Some (ser_word h))"
  have ec: "ec_points L" using assms(1) by (simp add: db_ok_def)
  have at: "db' (coins_key t) = (case map_of m t of None \<Rightarrow> db (coins_key t) | Some c \<Rightarrow> coins_entry L c)" for t
    using WriteBatch_coins [OF assms(2)] by (simp add: db'_def)
  have mem: "map_of m t = Some c \<Longrightarrow> IsPruned c \<or> coins_ok c" for t c
    using assms(3) map_of_SomeD by fastforce
  have new: "ser_coins L c = Some (the (ser_coins L c))" if "coins_ok c" for c
    using ser_coins_Some [OF that] by simp
  have look: "db_lookup L db' t = (case map_of m t of None \<Rightarrow> db_lookup L db t | Some c \<Rightarrow> if IsPruned c then None else Some c)" for t
  proof (cases "map_of m t")
    case None
    then show ?thesis by (simp add: db_lookup_def DB_GetCoins_def db_Read_def at)
  next
    case (Some c)
    show ?thesis
    proof (cases "IsPruned c")
      case True
      then show ?thesis using Some by (simp add: db_lookup_def DB_GetCoins_def db_Read_def at coins_entry_def)
    next
      case False
      with mem [OF Some] have c: "coins_ok c" by simp
      have "db' (coins_key t) = Some (the (ser_coins L c))" using Some False by (simp add: at coins_entry_def)
      then have "db_Read (unser_coins L) db' (coins_key t) = Some c" using db_Read_coins ec c new [OF c] by blast
      then show ?thesis
        using Some False by (simp add: db_lookup_def DB_GetCoins_def)
    qed
  qed
  have "\<exists>c. coins_ok c \<and> \<not> IsPruned c \<and> ser_coins L c = Some b" if "db' (coins_key t) = Some b" for t b
  proof (cases "map_of m t")
    case None
    with that show ?thesis using db_okD(1) [OF assms(1)] by (simp add: at)
  next
    case (Some c)
    with that have "\<not> IsPruned c" "b = the (ser_coins L c)" by (simp_all add: at coins_entry_def split: if_splits)
    with mem [OF Some] new [of c] show ?thesis by (intro exI [of _ c]) simp
  qed
  then have "db_ok L db'" using ec by (auto simp: db_ok_def db'_def)
  moreover have "unspent_coins (db_lookup L db') = unspent_coins (db_lookup L db ++ map_of m)"
    unfolding unspent_coins_add by (auto simp: fun_eq_iff unspent_coins_def look split: option.split)
  moreover have "db_best idx db' = Some h"
    using assms(4) word_codec.dec_enc [of h "[]"] by (simp add: db_best_def DB_GetBestBlock_def db_Read_def db'_def)
  ultimately show ?thesis by (simp add: DB_BatchWrite_eq db'_def)
qed

interpretation db_view: coins_backend "DB_GetCoins L" DB_HaveCoins "DB_GetBestBlock idx" "db_lookup L" "db_best idx"
    "db_ok L" "DB_BatchWrite L" "\<lambda>h. h \<in> set idx" coins_ok for L idx
proof
  show "db_ok L s \<Longrightarrow> \<exists>s'. DB_GetCoins L s txid = (db_lookup L s txid, s') \<and> db_ok L s' \<and>
      db_lookup L s' = db_lookup L s \<and> db_best idx s' = db_best idx s" for s txid
    by (simp add: db_lookup_def DB_GetCoins_def)
  show "db_ok L s \<Longrightarrow> \<exists>s'. DB_HaveCoins s txid = (db_lookup L s txid \<noteq> None, s') \<and> db_ok L s' \<and>
      db_lookup L s' = db_lookup L s \<and> db_best idx s' = db_best idx s" for s txid
    using db_lookup_entry(1) by (simp add: DB_HaveCoins_def db_Exists_def)
  show "db_ok L s \<Longrightarrow> \<exists>s'. DB_GetBestBlock idx s = (db_best idx s, s') \<and> db_ok L s' \<and>
      db_lookup L s' = db_lookup L s \<and> db_best idx s' = db_best idx s" for s
    by (simp add: db_best_def DB_GetBestBlock_def split: option.split)
qed (use DB_BatchWrite_law db_lookup_entry(2) in blast)+

text \<open>The stack of views of the program: the tip cache over the database, a block's cache over it.\<close>

abbreviation tip_lookup where "tip_lookup L \<equiv> cache_lookup (db_lookup L)"
abbreviation tip_best where "tip_best idx \<equiv> cache_best (db_best idx)"
abbreviation tip_ok where "tip_ok L \<equiv> cache_inv (db_ok L) coins_ok"

interpretation tip_view: coins_backend "Cache_GetCoins (DB_GetCoins L)" "Cache_HaveCoins (DB_GetCoins L)"
    "Cache_GetBestBlock (DB_GetBestBlock idx)" "tip_lookup L" "tip_best idx" "tip_ok L" Cache_BatchWrite
    "\<lambda>h. h \<in> set idx" coins_ok for L idx
  by (rule db_view.cache_backend)

interpretation block_view: coins_backend "Cache_GetCoins (Cache_GetCoins (DB_GetCoins L))"
    "Cache_HaveCoins (Cache_GetCoins (DB_GetCoins L))" "Cache_GetBestBlock (Cache_GetBestBlock (DB_GetBestBlock idx))"
    "cache_lookup (tip_lookup L)" "cache_best (tip_best idx)" "cache_inv (tip_ok L) coins_ok" Cache_BatchWrite
    "\<lambda>h. h \<in> set idx" coins_ok for L idx
  by (rule tip_view.cache_backend)

section \<open>The memory pool view\<close>

definition pool_lookup :: "('s \<Rightarrow> uint256 \<Rightarrow> CCoins option) \<Rightarrow> (uint256 \<Rightarrow> CTransaction option) \<Rightarrow> 's \<Rightarrow> uint256 \<Rightarrow> CCoins option" where
  "pool_lookup lookup mapTx s =
     (\<lambda>t. map_option (\<lambda>tx. CCoins_of_tx tx MEMPOOL_HEIGHT) (mapTx t)) ++ lookup s"

context coins_reader
begin

lemma pool_reader:
  "coins_store (Pool_GetCoins get mapTx) (Pool_HaveCoins have_coins mapTx) getbest (pool_lookup lookup mapTx) best view_ok (\<lambda>_. True)"
proof
  fix s txid assume i: "view_ok s"
  obtain s1 where s1: "get s txid = (lookup s txid, s1)" "view_ok s1" "lookup s1 = lookup s" "best s1 = best s"
    using get_law [OF i] by blast
  then show "\<exists>s'. Pool_GetCoins get mapTx s txid = (pool_lookup lookup mapTx s txid, s') \<and> view_ok s' \<and>
      pool_lookup lookup mapTx s' = pool_lookup lookup mapTx s \<and> best s' = best s"
    by (cases "lookup s txid"; cases "mapTx txid") (auto simp: Pool_GetCoins_def pool_lookup_def map_add_def)
  obtain s2 where s2: "have_coins s txid = (lookup s txid \<noteq> None, s2)" "view_ok s2" "lookup s2 = lookup s" "best s2 = best s"
    using have_law [OF i] by blast
  then show "\<exists>s'. Pool_HaveCoins have_coins mapTx s txid = (pool_lookup lookup mapTx s txid \<noteq> None, s') \<and> view_ok s' \<and>
      pool_lookup lookup mapTx s' = pool_lookup lookup mapTx s \<and> best s' = best s"
    using i by (cases "mapTx txid") (auto simp: Pool_HaveCoins_def pool_lookup_def map_add_def split: option.split)
  obtain s3 where "getbest s = (best s, s3)" "view_ok s3" "lookup s3 = lookup s" "best s3 = best s"
    using best_law [OF i] by blast
  then show "\<exists>s'. getbest s = (best s, s') \<and> view_ok s' \<and>
      pool_lookup lookup mapTx s' = pool_lookup lookup mapTx s \<and> best s' = best s"
    by (auto simp: pool_lookup_def)
qed simp

end

interpretation mempool_view: coins_store "Pool_GetCoins (Cache_GetCoins (DB_GetCoins L)) mapTx"
    "Pool_HaveCoins (Cache_HaveCoins (DB_GetCoins L)) mapTx" "Cache_GetBestBlock (DB_GetBestBlock idx)"
    "pool_lookup (tip_lookup L) mapTx" "tip_best idx" "tip_ok L" "\<lambda>_. True" for L mapTx idx
  by (rule tip_view.pool_reader)

section \<open>Properties\<close>

text \<open>C29. The stack of the views: the cache of a block that is flushed into the tip cache, which is flushed into the database, leaves in the database the unspent outputs that the block's cache showed, and its block as the best one.\<close>

theorem views_flush_to_db:
  assumes "cache_inv (tip_ok L) coins_ok v" "pindexTip v = Some h" "h \<in> set idx"
  shows "\<exists>v1 v2. Cache_Flush Cache_BatchWrite v = (True, v1) \<and> Cache_Flush (DB_BatchWrite L) (vc_base v1) = (True, v2) \<and>
     unspent_coins (db_lookup L (vc_base v2)) = unspent_coins (cache_lookup (tip_lookup L) v) \<and> db_best idx (vc_base v2) = Some h"
proof -
  obtain v1 where v1: "Cache_Flush Cache_BatchWrite v = (True, v1)" "cache_inv (tip_ok L) coins_ok v1"
      "unspent_coins (tip_lookup L (vc_base v1)) = unspent_coins (cache_lookup (tip_lookup L) v)"
    using tip_view.Cache_Flush_law [OF assms] by blast
  have tip: "pindexTip (vc_base v1) = Some h"
    using v1(1) assms(2) by (cases v; cases "vc_base v") (auto simp: Cache_Flush_def Cache_BatchWrite_def)
  have ok: "tip_ok L (vc_base v1)" using v1(2) by (simp add: cache_inv_def)
  obtain v2 where v2: "Cache_Flush (DB_BatchWrite L) (vc_base v1) = (True, v2)"
      "unspent_coins (db_lookup L (vc_base v2)) = unspent_coins (tip_lookup L (vc_base v1))"
      "db_best idx (vc_base v2) = cache_best (db_best idx) (vc_base v1)"
    using db_view.Cache_Flush_law [OF ok tip assms(3)] by blast
  have "cache_best (db_best idx) (vc_base v1) = Some h" using tip by (simp add: cache_best_def)
  then show ?thesis using v1 v2 by auto
qed

lemma db_ok_empty: "db_ok reference_ssl Map.empty"
  by (simp add: db_ok_def ec_points_reference)

lemma example_coins_ok: "coins_ok example_coins"
  by (simp add: coins_ok_def example_coins_def cleaned_def CTxOut_IsNull_def CTxOut_SetNull_def stored_out_ok_def
      ctxout_ok_def MoneyRange_def MAX_MONEY_eq MAX_SIZE_def)

theorem views_flush_to_db_witness:
  "\<exists>v1 v2. Cache_Flush Cache_BatchWrite \<lparr>vc_base = CCoinsViewCache_init Map.empty, pindexTip = Some 5, cacheCoins = [(7, example_coins)]\<rparr> = (True, v1) \<and>
     Cache_Flush (DB_BatchWrite reference_ssl) (vc_base v1) = (True, v2) \<and> db_best [4, 5] (vc_base v2) = Some 5 \<and>
     unspent_coins (db_lookup reference_ssl (vc_base v2)) 7 = Some example_coins"
proof -
  let ?v = "\<lparr>vc_base = CCoinsViewCache_init Map.empty, pindexTip = Some 5, cacheCoins = [(7, example_coins)]\<rparr>"
  have "cache_inv (tip_ok reference_ssl) coins_ok ?v"
    by (simp add: cache_inv_def CCoinsViewCache_init_def db_ok_empty example_coins_ok)
  moreover have "unspent_coins (cache_lookup (tip_lookup reference_ssl) ?v) 7 = Some example_coins"
    using coins_ok_not_pruned [OF example_coins_ok] by (simp add: unspent_coins_def cache_lookup_def)
  ultimately show ?thesis using views_flush_to_db [of reference_ssl ?v 5 "[4, 5]"] by (auto simp del: Cache_Flush_def)
qed

text \<open>A batch without a best block: a cache that is written with no tip forgets the best block it had, and shows that of the view below.\<close>

theorem Cache_BatchWrite_forgets_best:
  "cache_best best (snd (Cache_BatchWrite m None v)) = best (vc_base v)"
  by (simp add: Cache_BatchWrite_def cache_best_def)

text \<open>The view with the memory pool shows a transaction of the pool exactly when the view below does not show it, as an output of no height yet, and what the view below shows otherwise.\<close>

theorem Pool_GetCoins_shows:
  assumes "tip_ok L s"
  shows "\<exists>s'. Pool_GetCoins (Cache_GetCoins (DB_GetCoins L)) mapTx s txid =
       ((case tip_lookup L s txid of Some c \<Rightarrow> Some c
         | None \<Rightarrow> map_option (\<lambda>tx. CCoins_of_tx tx MEMPOOL_HEIGHT) (mapTx txid)), s') \<and>
     tip_ok L s' \<and> tip_lookup L s' = tip_lookup L s"
proof -
  obtain s' where s': "Cache_GetCoins (DB_GetCoins L) s txid = (tip_lookup L s txid, s')" "tip_ok L s'" "tip_lookup L s' = tip_lookup L s"
    using tip_view.get_law [OF assms] by blast
  then show ?thesis by (auto simp: Pool_GetCoins_def split: option.split)
qed

theorem Pool_GetCoins_shows_witness:
  "\<exists>s'. Pool_GetCoins (Cache_GetCoins (DB_GetCoins reference_ssl)) [7 \<mapsto> example_tx] (CCoinsViewCache_init Map.empty) 7 =
     (Some (CCoins_of_tx example_tx MEMPOOL_HEIGHT), s')"
proof -
  have "tip_ok reference_ssl (CCoinsViewCache_init Map.empty)"
    by (simp add: cache_inv_def CCoinsViewCache_init_def db_ok_empty)
  moreover have "tip_lookup reference_ssl (CCoinsViewCache_init Map.empty) 7 = None"
    by (simp add: cache_lookup_def CCoinsViewCache_init_def db_lookup_def DB_GetCoins_def db_Read_def)
  ultimately show ?thesis using Pool_GetCoins_shows [of reference_ssl "CCoinsViewCache_init Map.empty" "[7 \<mapsto> example_tx]" 7] by auto
qed

end
