(* ===== verification/Inputs.thy ===== *)
theory Inputs
  imports Coins_View Script_Eval CheckQueue
begin

text \<open>
  A transaction against a view of the unspent outputs (\<open>CTransaction\<close> and \<open>CScriptCheck\<close> of \<open>src/src/main.cpp\<close>): the
  outputs it spends, whether it may spend them (\<open>CheckInputs\<close>), and what it does to the view (\<open>UpdateCoins\<close>).

  The view is a \<open>CCoinsViewCache\<close> whose view below is read by the argument \<open>get\<close>. Reading fills the cache, so every
  operation returns the view. \<open>None\<close> is an assertion that fails, or a null pointer that is read.

  The abstract view is the function \<open>utxo\<close> from outpoints to unspent outputs.
\<close>

section \<open>The outputs spent\<close>

text \<open>The reference \<open>GetCoins(txid)\<close>; what is written through it is the entry of the cache, \<open>Cache_SetCoins\<close>.\<close>

definition Cache_coins :: "('s \<Rightarrow> uint256 \<Rightarrow> CCoins option \<times> 's) \<Rightarrow> 's CCoinsViewCache \<Rightarrow> uint256 \<Rightarrow>
    (CCoins \<times> 's CCoinsViewCache) option" where
  "Cache_coins get v txid = (case FetchCoins get v txid of (None, v) \<Rightarrow> None | (Some c, v) \<Rightarrow> Some (c, v))"

definition GetOutputFor :: "('s \<Rightarrow> uint256 \<Rightarrow> CCoins option \<times> 's) \<Rightarrow> CTxIn \<Rightarrow> 's CCoinsViewCache \<Rightarrow>
    (CTxOut \<times> 's CCoinsViewCache) option" where
  "GetOutputFor get input v = (case Cache_coins get v (po_hash (prevout input)) of
     None \<Rightarrow> None
   | Some (coins, v) \<Rightarrow> (let n = unat (po_n (prevout input)) in
       if IsAvailable coins n then Some (cc_vout coins ! n, v) else None))"

fun value_in_loop :: "('s \<Rightarrow> uint256 \<Rightarrow> CCoins option \<times> 's) \<Rightarrow> int \<Rightarrow> CTxIn list \<Rightarrow> 's CCoinsViewCache \<Rightarrow>
    (int \<times> 's CCoinsViewCache) option" where
  "value_in_loop get nResult [] v = Some (nResult, v)"
| "value_in_loop get nResult (txin # ins) v = (case GetOutputFor get txin v of
     None \<Rightarrow> None
   | Some (out, v) \<Rightarrow> value_in_loop get (wrap64 (nResult + nValue out)) ins v)"

definition GetValueIn :: "('s \<Rightarrow> uint256 \<Rightarrow> CCoins option \<times> 's) \<Rightarrow> CTransaction \<Rightarrow> 's CCoinsViewCache \<Rightarrow>
    (int \<times> 's CCoinsViewCache) option" where
  "GetValueIn get tx v = (if IsCoinBase tx then Some (0, v) else value_in_loop get 0 (tx_vin tx) v)"

fun p2sh_sigops_loop :: "('s \<Rightarrow> uint256 \<Rightarrow> CCoins option \<times> 's) \<Rightarrow> nat \<Rightarrow> CTxIn list \<Rightarrow> 's CCoinsViewCache \<Rightarrow>
    (nat \<times> 's CCoinsViewCache) option" where
  "p2sh_sigops_loop get nSigOps [] v = Some (nSigOps, v)"
| "p2sh_sigops_loop get nSigOps (txin # ins) v = (case GetOutputFor get txin v of
     None \<Rightarrow> None
   | Some (out, v) \<Rightarrow> p2sh_sigops_loop get
       (if IsPayToScriptHash (scriptPubKey out) then nSigOps + GetSigOpCount_P2SH (scriptPubKey out) (scriptSig txin) else nSigOps)
       ins v)"

definition GetP2SHSigOpCount :: "('s \<Rightarrow> uint256 \<Rightarrow> CCoins option \<times> 's) \<Rightarrow> CTransaction \<Rightarrow> 's CCoinsViewCache \<Rightarrow>
    (nat \<times> 's CCoinsViewCache) option" where
  "GetP2SHSigOpCount get tx v = (if IsCoinBase tx then Some (0, v) else p2sh_sigops_loop get 0 (tx_vin tx) v)"

text \<open>\<open>HaveInputs\<close>: the loop over the transactions, and the loop over the outputs.\<close>

fun have_prevouts :: "('s \<Rightarrow> uint256 \<Rightarrow> CCoins option \<times> 's) \<Rightarrow> CTxIn list \<Rightarrow> 's CCoinsViewCache \<Rightarrow> bool \<times> 's CCoinsViewCache" where
  "have_prevouts get [] v = (True, v)"
| "have_prevouts get (txin # ins) v = (case Cache_HaveCoins get v (po_hash (prevout txin)) of
     (False, v) \<Rightarrow> (False, v)
   | (True, v) \<Rightarrow> have_prevouts get ins v)"

fun prevouts_available :: "('s \<Rightarrow> uint256 \<Rightarrow> CCoins option \<times> 's) \<Rightarrow> CTxIn list \<Rightarrow> 's CCoinsViewCache \<Rightarrow>
    (bool \<times> 's CCoinsViewCache) option" where
  "prevouts_available get [] v = Some (True, v)"
| "prevouts_available get (txin # ins) v = (case Cache_coins get v (po_hash (prevout txin)) of
     None \<Rightarrow> None
   | Some (coins, v) \<Rightarrow>
       if \<not> IsAvailable coins (unat (po_n (prevout txin))) then Some (False, v) else prevouts_available get ins v)"

definition HaveInputs :: "('s \<Rightarrow> uint256 \<Rightarrow> CCoins option \<times> 's) \<Rightarrow> CTransaction \<Rightarrow> 's CCoinsViewCache \<Rightarrow>
    (bool \<times> 's CCoinsViewCache) option" where
  "HaveInputs get tx v =
     (if IsCoinBase tx then Some (True, v)
      else case have_prevouts get (tx_vin tx) v of
        (False, v) \<Rightarrow> Some (False, v)
      | (True, v) \<Rightarrow> prevouts_available get (tx_vin tx) v)"

section \<open>Script checks\<close>

record CScriptCheck =
  sc_scriptPubKey :: bytes
  sc_txTo :: CTransaction
  sc_nIn :: nat
  sc_nFlags :: uint32
  sc_nHashType :: int

definition CScriptCheck_of :: "CCoins \<Rightarrow> CTransaction \<Rightarrow> nat \<Rightarrow> uint32 \<Rightarrow> int \<Rightarrow> CScriptCheck" where
  "CScriptCheck_of txFrom txTo nIn flags nHashType =
     \<lparr>sc_scriptPubKey = scriptPubKey (cc_vout txFrom ! unat (po_n (prevout (tx_vin txTo ! nIn)))),
      sc_txTo = txTo, sc_nIn = nIn, sc_nFlags = flags, sc_nHashType = nHashType\<rparr>"

definition run_script_check :: "openssl \<Rightarrow> CScriptCheck \<Rightarrow> CSignatureCache \<Rightarrow> bool \<times> CSignatureCache" where
  "run_script_check L check =
     VerifyScript L (CheckSig L (sc_nFlags check) (sc_txTo check) (sc_nIn check) (sc_nHashType check)) (sc_nFlags check)
       (scriptSig (tx_vin (sc_txTo check) ! sc_nIn check)) (sc_scriptPubKey check)"

definition VerifySignature :: "openssl \<Rightarrow> CCoins \<Rightarrow> CTransaction \<Rightarrow> nat \<Rightarrow> uint32 \<Rightarrow> int \<Rightarrow> CSignatureCache \<Rightarrow> bool \<times> CSignatureCache" where
  "VerifySignature L txFrom txTo nIn flags nHashType = run_script_check L (CScriptCheck_of txFrom txTo nIn flags nHashType)"

section \<open>Checking\<close>

datatype inputs_error = Inputs_unavailable | Immature_coinbase int | Txin_out_of_range | In_below_out | Negative_fee
  | Low_fee | Fees_out_of_range | Value_out_throws | Script_failed | Script_not_canonical

text \<open>Invalid without blame, or misbehaviour of 100; an exception is the caller's.\<close>

definition inputs_error_state :: "inputs_error \<Rightarrow> CValidationState \<Rightarrow> CValidationState" where
  "inputs_error_state e st = (case e of
     Inputs_unavailable \<Rightarrow> state_Invalid st | Immature_coinbase d \<Rightarrow> state_Invalid st | Script_not_canonical \<Rightarrow> state_Invalid st
   | Value_out_throws \<Rightarrow> st
   | _ \<Rightarrow> state_DoS 100 False st)"

definition COINBASE_MATURITY :: int where
  "COINBASE_MATURITY = 500"

text \<open>The first loop: maturity and values. Heights are far below the range of \<open>int\<close>.\<close>

fun input_values :: "('s \<Rightarrow> uint256 \<Rightarrow> CCoins option \<times> 's) \<Rightarrow> int \<Rightarrow> int \<Rightarrow> CTxIn list \<Rightarrow> 's CCoinsViewCache \<Rightarrow>
    ((inputs_error + int) \<times> 's CCoinsViewCache) option" where
  "input_values get nSpendHeight nValueIn [] v = Some (Inr nValueIn, v)"
| "input_values get nSpendHeight nValueIn (txin # ins) v = (case Cache_coins get v (po_hash (prevout txin)) of
     None \<Rightarrow> None
   | Some (coins, v) \<Rightarrow>
       if cc_fCoinBase coins \<and> nSpendHeight - cc_nHeight coins < COINBASE_MATURITY
       then Some (Inl (Immature_coinbase (nSpendHeight - cc_nHeight coins)), v)
       else
         let value = nValue (cc_vout coins ! unat (po_n (prevout txin))); nValueIn = wrap64 (nValueIn + value) in
         if \<not> MoneyRange value \<or> \<not> MoneyRange nValueIn then Some (Inl Txin_out_of_range, v)
         else input_values get nSpendHeight nValueIn ins v)"

definition check_fee :: "int \<Rightarrow> CTransaction \<Rightarrow> inputs_error option" where
  "check_fee nValueIn tx = (case GetValueOut tx of
     None \<Rightarrow> Some Value_out_throws
   | Some nValueOut \<Rightarrow>
       if nValueIn < nValueOut then Some In_below_out
       else let nTxFee = nValueIn - nValueOut in
         if nTxFee < 0 then Some Negative_fee
         else if nTxFee < GetMinFee tx 1 False GMF_BLOCK 0 then Some Low_fee
         else if \<not> MoneyRange nTxFee then Some Fees_out_of_range else None)"

text \<open>The second loop: the checks are collected (\<open>pvChecks\<close>), or executed at once.\<close>

fun collect_checks :: "('s \<Rightarrow> uint256 \<Rightarrow> CCoins option \<times> 's) \<Rightarrow> CTransaction \<Rightarrow> uint32 \<Rightarrow> nat \<Rightarrow> CTxIn list \<Rightarrow> CScriptCheck list \<Rightarrow>
    's CCoinsViewCache \<Rightarrow> (CScriptCheck list \<times> 's CCoinsViewCache) option" where
  "collect_checks get tx flags i [] pvChecks v = Some (pvChecks, v)"
| "collect_checks get tx flags i (txin # ins) pvChecks v = (case Cache_coins get v (po_hash (prevout txin)) of
     None \<Rightarrow> None
   | Some (coins, v) \<Rightarrow> collect_checks get tx flags (Suc i) ins (pvChecks @ [CScriptCheck_of coins tx i flags 0]) v)"

fun execute_checks :: "openssl \<Rightarrow> ('s \<Rightarrow> uint256 \<Rightarrow> CCoins option \<times> 's) \<Rightarrow> CTransaction \<Rightarrow> uint32 \<Rightarrow> nat \<Rightarrow> CTxIn list \<Rightarrow>
    CSignatureCache \<Rightarrow> 's CCoinsViewCache \<Rightarrow> (inputs_error option \<times> CSignatureCache \<times> 's CCoinsViewCache) option" where
  "execute_checks L get tx flags i [] cache v = Some (None, cache, v)"
| "execute_checks L get tx flags i (txin # ins) cache v = (case Cache_coins get v (po_hash (prevout txin)) of
     None \<Rightarrow> None
   | Some (coins, v) \<Rightarrow> (case run_script_check L (CScriptCheck_of coins tx i flags 0) cache of
       (True, cache) \<Rightarrow> execute_checks L get tx flags (Suc i) ins cache v
     | (False, cache) \<Rightarrow>
         if flags AND SCRIPT_VERIFY_STRICTENC \<noteq> 0 then
           (case run_script_check L (CScriptCheck_of coins tx i (flags AND NOT SCRIPT_VERIFY_STRICTENC) 0) cache of
              (True, cache) \<Rightarrow> Some (Some Script_not_canonical, cache, v)
            | (False, cache) \<Rightarrow> Some (Some Script_failed, cache, v))
         else Some (Some Script_failed, cache, v)))"

text \<open>\<open>heights\<close> is \<open>nHeight\<close> of the block index; \<open>collect\<close> is \<open>pvChecks != NULL\<close>. The result: the error, the checks collected, the cache
and the view.\<close>

definition CheckInputs :: "openssl \<Rightarrow> ('s \<Rightarrow> uint256 \<Rightarrow> CCoins option \<times> 's) \<Rightarrow> ('s \<Rightarrow> uint256 option \<times> 's) \<Rightarrow> (uint256 \<Rightarrow> int) \<Rightarrow>
    bool \<Rightarrow> uint32 \<Rightarrow> bool \<Rightarrow> CTransaction \<Rightarrow> CSignatureCache \<Rightarrow> 's CCoinsViewCache \<Rightarrow>
    ((inputs_error + CScriptCheck list) \<times> CSignatureCache \<times> 's CCoinsViewCache) option" where
  "CheckInputs L get getbest heights fScriptChecks flags collect tx cache v =
     (if IsCoinBase tx then Some (Inr [], cache, v)
      else case HaveInputs get tx v of
        None \<Rightarrow> None
      | Some (False, v) \<Rightarrow> Some (Inl Inputs_unavailable, cache, v)
      | Some (True, v) \<Rightarrow>
        (case Cache_GetBestBlock getbest v of
           (None, v) \<Rightarrow> None
         | (Some pindexprev, v) \<Rightarrow>
           (case input_values get (heights pindexprev + 1) 0 (tx_vin tx) v of
              None \<Rightarrow> None
            | Some (Inl e, v) \<Rightarrow> Some (Inl e, cache, v)
            | Some (Inr nValueIn, v) \<Rightarrow>
              (case check_fee nValueIn tx of
                 Some e \<Rightarrow> Some (Inl e, cache, v)
               | None \<Rightarrow>
                 if \<not> fScriptChecks then Some (Inr [], cache, v)
                 else if collect then
                   (case collect_checks get tx flags 0 (tx_vin tx) [] v of
                      None \<Rightarrow> None | Some (checks, v) \<Rightarrow> Some (Inr checks, cache, v))
                 else
                   (case execute_checks L get tx flags 0 (tx_vin tx) cache v of
                      None \<Rightarrow> None
                    | Some (Some e, cache, v) \<Rightarrow> Some (Inl e, cache, v)
                    | Some (None, cache, v) \<Rightarrow> Some (Inr [], cache, v))))))"

section \<open>Spending\<close>

fun spend_inputs :: "('s \<Rightarrow> uint256 \<Rightarrow> CCoins option \<times> 's) \<Rightarrow> CTxIn list \<Rightarrow> CTxUndo \<Rightarrow> 's CCoinsViewCache \<Rightarrow>
    (CTxUndo \<times> 's CCoinsViewCache) option" where
  "spend_inputs get [] txundo v = Some (txundo, v)"
| "spend_inputs get (txin # ins) txundo v = (case Cache_coins get v (po_hash (prevout txin)) of
     None \<Rightarrow> None
   | Some (coins, v) \<Rightarrow> (case Spend coins (prevout txin) of
       None \<Rightarrow> None
     | Some (undo, coins) \<Rightarrow> spend_inputs get ins (txundo @ [undo]) (snd (Cache_SetCoins (po_hash (prevout txin)) coins v))))"

definition UpdateCoins :: "('s \<Rightarrow> uint256 \<Rightarrow> CCoins option \<times> 's) \<Rightarrow> CTransaction \<Rightarrow> CTxUndo \<Rightarrow> int \<Rightarrow> uint256 \<Rightarrow> 's CCoinsViewCache \<Rightarrow>
    (CTxUndo \<times> 's CCoinsViewCache) option" where
  "UpdateCoins get tx txundo nHeight txhash v =
     (case (if IsCoinBase tx then Some (txundo, v) else spend_inputs get (tx_vin tx) txundo v) of
        None \<Rightarrow> None
      | Some (txundo, v) \<Rightarrow> (case Cache_SetCoins txhash (CCoins_of_tx tx nHeight) v of
          (ok, v) \<Rightarrow> if ok then Some (txundo, v) else None))"

section \<open>The abstract view\<close>

definition utxo :: "(uint256 \<Rightarrow> CCoins option) \<Rightarrow> COutPoint \<Rightarrow> CTxOut option" where
  "utxo lk p = (case lk (po_hash p) of
     None \<Rightarrow> None
   | Some c \<Rightarrow> (let n = unat (po_n p) in if IsAvailable c n then Some (cc_vout c ! n) else None))"

definition created :: "uint256 \<Rightarrow> CTransaction \<Rightarrow> COutPoint \<Rightarrow> CTxOut option" where
  "created txid tx p =
     (let n = unat (po_n p) in
      if po_hash p = txid \<and> n < length (tx_vout tx) \<and> \<not> CTxOut_IsNull (tx_vout tx ! n) then Some (tx_vout tx ! n) else None)"

text \<open>What a transaction does to the unspent outputs.\<close>

definition utxo_update :: "uint256 \<Rightarrow> CTransaction \<Rightarrow> (COutPoint \<Rightarrow> CTxOut option) \<Rightarrow> COutPoint \<Rightarrow> CTxOut option" where
  "utxo_update txid tx u p =
     (if po_hash p = txid then created txid tx p
      else if \<not> IsCoinBase tx \<and> p \<in> prevout ` set (tx_vin tx) then None else u p)"

lemma utxo_some: "utxo lk p = Some out \<Longrightarrow>
  \<exists>c. lk (po_hash p) = Some c \<and> IsAvailable c (unat (po_n p)) \<and> cc_vout c ! unat (po_n p) = out"
  by (auto simp: utxo_def Let_def split: option.splits if_splits)

lemma utxo_new: "utxo (lk(txid \<mapsto> CCoins_of_tx tx h)) p = (if po_hash p = txid then created txid tx p else utxo lk p)"
  by (auto simp: utxo_def created_def CCoins_of_tx_def IsAvailable_def Let_def)

lemma outpoint_eqI: "po_hash p = po_hash q \<Longrightarrow> unat (po_n p) = unat (po_n q) \<Longrightarrow> p = (q :: COutPoint)"
  by (metis COutPoint.equality unit.exhaust unsigned_word_eqI)

lemma utxo_spend:
  assumes "lk (po_hash q) = Some c" "Spend c q = Some (undo, c')"
  shows "utxo (lk(po_hash q \<mapsto> c')) p = (if p = q then None else utxo lk p)"
proof (cases "po_hash p = po_hash q")
  case True
  have "p = q \<longleftrightarrow> unat (po_n p) = unat (po_n q)" using True outpoint_eqI by blast
  then show ?thesis using True assms Spend_IsAvailable [OF assms(2)] Spend_nth [OF assms(2)] by (simp add: utxo_def Let_def)
next
  case False
  then show ?thesis by (auto simp: utxo_def)
qed

section \<open>The operations on the abstract view\<close>

context coins_store
begin

abbreviation "same_view v v' \<equiv> cinv v' \<and> clookup v' = clookup v \<and> cbest v' = cbest v"
abbreviation "cutxo v \<equiv> utxo (clookup v)"

lemma Cache_coins_law:
  assumes "cinv v"
  shows "\<exists>v'. Cache_coins get v txid = map_option (\<lambda>c. (c, v')) (clookup v txid) \<and> same_view v v'"
  using FetchCoins_law [OF assms, of txid] by (auto simp: Cache_coins_def split: option.split)

lemma GetOutputFor_law:
  assumes "cinv v"
  shows "\<exists>v'. GetOutputFor get txin v = map_option (\<lambda>out. (out, v')) (cutxo v (prevout txin)) \<and> same_view v v'"
  using Cache_coins_law [OF assms, of "po_hash (prevout txin)"]
  by (auto simp: GetOutputFor_def utxo_def Let_def split: option.split)

text \<open>\<open>GetValueIn\<close> of available inputs in the money range is their sum.\<close>

lemma value_in_loop_law:
  assumes "cinv v" "\<forall>txin \<in> set ins. cutxo v (prevout txin) \<noteq> None"
  shows "\<exists>v'. value_in_loop get n ins v = Some (foldl (\<lambda>n txin. wrap64 (n + nValue (the (cutxo v (prevout txin))))) n ins, v') \<and> same_view v v'"
  using assms
proof (induction ins arbitrary: n v)
  case (Cons txin ins)
  obtain out where out: "cutxo v (prevout txin) = Some out" using Cons.prems(2) by auto
  obtain v1 where v1: "GetOutputFor get txin v = Some (out, v1)" "same_view v v1"
    using GetOutputFor_law [OF Cons.prems(1), of txin] out by auto
  have "\<forall>txin \<in> set ins. cutxo v1 (prevout txin) \<noteq> None" using Cons.prems(2) v1(2) by simp
  with Cons.IH [of v1 "wrap64 (n + nValue out)"] v1 out show ?case by auto
qed simp

lemma have_prevouts_law:
  assumes "cinv v"
  shows "\<exists>v'. have_prevouts get ins v = (\<forall>txin \<in> set ins. clookup v (po_hash (prevout txin)) \<noteq> None, v') \<and> same_view v v'"
  using assms
proof (induction ins arbitrary: v)
  case (Cons txin ins)
  obtain v1 where v1: "Cache_HaveCoins get v (po_hash (prevout txin)) = (clookup v (po_hash (prevout txin)) \<noteq> None, v1)" "same_view v v1"
    using Cache_HaveCoins_law [OF Cons.prems] by blast
  with Cons.IH [of v1] show ?case by (auto split: bool.split)
qed simp

lemma prevouts_available_law:
  assumes "cinv v" "\<forall>txin \<in> set ins. clookup v (po_hash (prevout txin)) \<noteq> None"
  shows "\<exists>v'. prevouts_available get ins v = Some (\<forall>txin \<in> set ins. cutxo v (prevout txin) \<noteq> None, v') \<and> same_view v v'"
  using assms
proof (induction ins arbitrary: v)
  case (Cons txin ins)
  obtain c where c: "clookup v (po_hash (prevout txin)) = Some c" using Cons.prems(2) by auto
  obtain v1 where v1: "Cache_coins get v (po_hash (prevout txin)) = Some (c, v1)" "same_view v v1"
    using Cache_coins_law [OF Cons.prems(1), of "po_hash (prevout txin)"] c by auto
  have "cutxo v (prevout txin) \<noteq> None \<longleftrightarrow> IsAvailable c (unat (po_n (prevout txin)))" by (simp add: utxo_def c Let_def)
  moreover have "\<exists>v'. prevouts_available get ins v1 = Some (\<forall>txin \<in> set ins. cutxo v1 (prevout txin) \<noteq> None, v') \<and> same_view v1 v'"
    using Cons.IH [of v1] Cons.prems(2) v1(2) by simp
  ultimately show ?case using v1 by (cases "IsAvailable c (unat (po_n (prevout txin)))") auto
qed simp

lemma HaveInputs_law:
  assumes "cinv v"
  shows "\<exists>v'. HaveInputs get tx v = Some (IsCoinBase tx \<or> (\<forall>txin \<in> set (tx_vin tx). cutxo v (prevout txin) \<noteq> None), v') \<and> same_view v v'"
proof -
  define b where "b \<longleftrightarrow> (\<forall>txin \<in> set (tx_vin tx). clookup v (po_hash (prevout txin)) \<noteq> None)"
  obtain v1 where v1: "have_prevouts get (tx_vin tx) v = (b, v1)" "same_view v v1"
    using have_prevouts_law [OF assms] unfolding b_def by blast
  show ?thesis
  proof (cases "IsCoinBase tx")
    case True
    then show ?thesis using assms by (simp add: HaveInputs_def)
  next
    case tx: False
    show ?thesis
    proof (cases b)
      case True
      then show ?thesis using v1 tx prevouts_available_law [of v1 "tx_vin tx"] by (simp add: HaveInputs_def b_def)
    next
      case False
      then obtain txin where "txin \<in> set (tx_vin tx)" "cutxo v (prevout txin) = None"
        by (auto simp: b_def utxo_def)
      then show ?thesis using v1 tx False by (auto simp: HaveInputs_def)
    qed
  qed
qed

end

text \<open>Spending on what the view shows.\<close>

fun spend_map :: "CTxIn list \<Rightarrow> (uint256 \<Rightarrow> CCoins option) \<Rightarrow> (CTxUndo \<times> (uint256 \<Rightarrow> CCoins option)) option" where
  "spend_map [] lk = Some ([], lk)"
| "spend_map (txin # ins) lk = (case lk (po_hash (prevout txin)) of
     None \<Rightarrow> None
   | Some c \<Rightarrow> (case Spend c (prevout txin) of
       None \<Rightarrow> None
     | Some (undo, c') \<Rightarrow> map_option (\<lambda>(us, m). (undo # us, m)) (spend_map ins (lk(po_hash (prevout txin) \<mapsto> c')))))"

definition update_map :: "CTransaction \<Rightarrow> int \<Rightarrow> uint256 \<Rightarrow> (uint256 \<Rightarrow> CCoins option) \<Rightarrow> (CTxUndo \<times> (uint256 \<Rightarrow> CCoins option)) option" where
  "update_map tx h txid lk = map_option (\<lambda>(us, m). (us, m(txid \<mapsto> CCoins_of_tx tx h)))
     (if IsCoinBase tx then Some ([], lk) else spend_map (tx_vin tx) lk)"

lemma spend_map_utxo:
  "spend_map ins lk = Some (us, m) \<Longrightarrow>
   distinct (map prevout ins) \<and> (\<forall>txin \<in> set ins. utxo lk (prevout txin) \<noteq> None) \<and> length us = length ins \<and>
   utxo m = (\<lambda>p. if p \<in> prevout ` set ins then None else utxo lk p)"
proof (induction ins arbitrary: lk us m)
  case (Cons txin ins)
  obtain c undo c' vs where c: "lk (po_hash (prevout txin)) = Some c" "Spend c (prevout txin) = Some (undo, c')"
      "spend_map ins (lk(po_hash (prevout txin) \<mapsto> c')) = Some (vs, m)" "us = undo # vs"
    using Cons.prems by (auto split: option.splits)
  note u = utxo_spend [where lk = lk, OF c(1,2)]
  note ih = Cons.IH [OF c(3), unfolded u]
  have "utxo lk (prevout txin) \<noteq> None" using c(1) Spend_Some(1) [OF c(2)] by (simp add: utxo_def Let_def)
  moreover have "prevout txin \<notin> prevout ` set ins" using ih by auto
  moreover have "utxo lk (prevout x) \<noteq> None" if "x \<in> set ins" for x using ih that by (auto split: if_splits)
  ultimately show ?case using ih c(4) by (auto simp: fun_eq_iff)
qed simp

lemma spend_map_defined:
  "distinct (map prevout ins) \<Longrightarrow> \<forall>txin \<in> set ins. utxo lk (prevout txin) \<noteq> None \<Longrightarrow> \<exists>us m. spend_map ins lk = Some (us, m)"
proof (induction ins arbitrary: lk)
  case (Cons txin ins)
  obtain c where c: "lk (po_hash (prevout txin)) = Some c" "IsAvailable c (unat (po_n (prevout txin)))"
    using Cons.prems(2) utxo_some by fastforce
  then obtain undo c' where s: "Spend c (prevout txin) = Some (undo, c')" using Spend_iff by fastforce
  have "utxo (lk(po_hash (prevout txin) \<mapsto> c')) (prevout x) \<noteq> None" if "x \<in> set ins" for x
  proof -
    have "prevout x \<noteq> prevout txin" using Cons.prems(1) that by (metis distinct.simps(2) imageI list.simps(9) set_map)
    then show ?thesis using Cons.prems(2) that by (simp add: utxo_spend [where lk = lk, OF c(1) s])
  qed
  with Cons.IH Cons.prems(1) c s show ?case by fastforce
qed simp

lemma update_map_utxo:
  assumes "update_map tx h txid lk = Some (us, m)"
  shows "utxo m = utxo_update txid tx (utxo lk)"
proof (rule ext)
  fix p
  obtain m' where m: "m = m'(txid \<mapsto> CCoins_of_tx tx h)"
      and m': "utxo m' p = (if \<not> IsCoinBase tx \<and> p \<in> prevout ` set (tx_vin tx) then None else utxo lk p)"
  proof (cases "IsCoinBase tx")
    case True
    then show ?thesis using assms that [of lk] by (simp add: update_map_def)
  next
    case False
    then obtain m' where "spend_map (tx_vin tx) lk = Some (us, m')" "m = m'(txid \<mapsto> CCoins_of_tx tx h)"
      using assms by (auto simp: update_map_def)
    then show ?thesis using that [of m'] spend_map_utxo [of "tx_vin tx" lk us m'] False by simp
  qed
  then show "utxo m p = utxo_update txid tx (utxo lk) p" unfolding m utxo_new by (simp add: utxo_update_def)
qed

text \<open>A provider whose entries stay storable when an output is spent.\<close>

locale chain_backend = coins_backend get have_coins getbest lookup best view_ok batchwrite known storable
  for get :: "'s \<Rightarrow> uint256 \<Rightarrow> CCoins option \<times> 's" and have_coins getbest lookup best view_ok batchwrite known storable +
  assumes spend_storable: "storable c \<Longrightarrow> Spend c p = Some (undo, c') \<Longrightarrow> IsPruned c' \<or> storable c'"

context chain_backend
begin

lemma spend_inputs_law:
  assumes "cinv v"
  shows "case spend_map ins (clookup v) of
      None \<Rightarrow> spend_inputs get ins txundo v = None
    | Some (us, m) \<Rightarrow> \<exists>v'. spend_inputs get ins txundo v = Some (txundo @ us, v') \<and> cinv v' \<and> clookup v' = m \<and> cbest v' = cbest v"
  using assms
proof (induction ins arbitrary: v txundo)
  case (Cons txin ins)
  let ?h = "po_hash (prevout txin)"
  obtain v1 where v1: "Cache_coins get v ?h = map_option (\<lambda>c. (c, v1)) (clookup v ?h)" "same_view v v1"
    using Cache_coins_law [OF Cons.prems] by blast
  show ?case
  proof (cases "clookup v ?h")
    case (Some c)
    show ?thesis
    proof (cases "Spend c (prevout txin)")
      case n: (Some p)
      obtain undo c' where p: "p = (undo, c')" by (cases p)
      have "storable c \<or> IsPruned c"
        using cache_storable [OF Cons.prems Some] by blast
      moreover have "\<not> IsPruned c" using Spend_Some(1) [OF n [unfolded p]] by (auto simp: IsPruned_def IsAvailable_def list_all_length)
      ultimately have "IsPruned c' \<or> storable c'" using spend_storable n [unfolded p] by blast
      then obtain v2 where v2: "Cache_SetCoins ?h c' v1 = (True, v2)" "cinv v2" "clookup v2 = (clookup v)(?h \<mapsto> c')" "cbest v2 = cbest v"
        using Cache_SetCoins_law [of v1 c' ?h] v1(2) by auto
      have eqs: "spend_inputs get (txin # ins) txundo v = spend_inputs get ins (txundo @ [undo]) v2"
          "spend_map (txin # ins) (clookup v) = map_option (\<lambda>(us, m). (undo # us, m)) (spend_map ins (clookup v2))"
        using v1 v2(1,3) Some n p by simp_all
      show ?thesis using Cons.IH [OF v2(2), of "txundo @ [undo]"] v2(4)
        by (cases "spend_map ins (clookup v2)") (auto simp del: spend_map.simps spend_inputs.simps simp: eqs)
    qed (use v1 Some in simp)
  qed (use v1 in simp)
qed simp

lemma UpdateCoins_law:
  assumes "cinv v" "storable (CCoins_of_tx tx h) \<or> IsPruned (CCoins_of_tx tx h)"
  shows "case update_map tx h txid (clookup v) of
      None \<Rightarrow> UpdateCoins get tx txundo h txid v = None
    | Some (us, m) \<Rightarrow> \<exists>v'. UpdateCoins get tx txundo h txid v = Some (txundo @ us, v') \<and> cinv v' \<and> clookup v' = m \<and> cbest v' = cbest v"
proof -
  have set: "\<exists>v'. Cache_SetCoins txid (CCoins_of_tx tx h) w = (True, v') \<and> cinv v' \<and> clookup v' = (clookup w)(txid \<mapsto> CCoins_of_tx tx h) \<and> cbest v' = cbest w"
    if "cinv w" for w
    using Cache_SetCoins_law [OF that] assms(2) by blast
  show ?thesis
  proof (cases "IsCoinBase tx")
    case True
    then show ?thesis using set [OF assms(1)] by (auto simp: UpdateCoins_def update_map_def)
  next
    case False
    show ?thesis
    proof (cases "spend_map (tx_vin tx) (clookup v)")
      case None
      then show ?thesis using False spend_inputs_law [OF assms(1), of "tx_vin tx" txundo] by (simp add: UpdateCoins_def update_map_def)
    next
      case (Some p)
      obtain us m where p: "p = (us, m)" by (cases p)
      obtain v1 where v1: "spend_inputs get (tx_vin tx) txundo v = Some (txundo @ us, v1)" "cinv v1" "clookup v1 = m" "cbest v1 = cbest v"
        using spend_inputs_law [OF assms(1), of "tx_vin tx" txundo] Some p by auto
      then show ?thesis using False Some p set [OF v1(2)] by (auto simp: UpdateCoins_def update_map_def)
    qed
  qed
qed

end

text \<open>The database, and the tip cache over it.\<close>

lemma Spend_coins_ok:
  assumes "coins_ok c" "Spend c p = Some (undo, c')"
  shows "IsPruned c' \<or> coins_ok c'"
proof (cases "cc_vout c' = []")
  case False
  note s = Spend_Some(3) [OF assms(2)] and n = Spend_Some(1) [OF assms(2)]
  have sub: "x \<in> set (cc_vout c) \<or> x = CTxOut_SetNull" if "x \<in> set (cc_vout c')" for x
  proof -
    from that obtain i where i: "i < length (cc_vout c')" "cc_vout c' ! i = x" by (auto simp: in_set_conv_nth)
    then have "x = (cc_vout c)[unat (po_n p) := CTxOut_SetNull] ! i" "i < length (cc_vout c)"
      using s nth_pop_while [of i CTxOut_IsNull "(cc_vout c)[unat (po_n p) := CTxOut_SetNull]"]
        length_pop_while_le [of CTxOut_IsNull "(cc_vout c)[unat (po_n p) := CTxOut_SetNull]"] by auto
    then show ?thesis using n by (auto simp: nth_list_update IsAvailable_def)
  qed
  have "list_all stored_out_ok (cc_vout c')"
    using sub assms(1) by (fastforce simp: list_all_iff coins_ok_def stored_out_ok_def)
  moreover have "length (cc_vout c') \<le> length (cc_vout c)"
    using s length_pop_while_le [of CTxOut_IsNull "(cc_vout c)[unat (po_n p) := CTxOut_SetNull]"] by simp
  ultimately show ?thesis using assms(1) False Spend_cleaned [OF assms(2)] s by (simp add: coins_ok_def)
qed (simp add: IsPruned_def)

interpretation db_chain: chain_backend "DB_GetCoins L" DB_HaveCoins "DB_GetBestBlock idx" "db_lookup L" "db_best idx"
    "db_ok L" "DB_BatchWrite L" "\<lambda>h. h \<in> set idx" coins_ok for L idx
  by unfold_locales (rule Spend_coins_ok)

interpretation tip_chain: chain_backend "Cache_GetCoins (DB_GetCoins L)" "Cache_HaveCoins (DB_GetCoins L)"
    "Cache_GetBestBlock (DB_GetBestBlock idx)" "tip_lookup L" "tip_best idx" "tip_ok L" Cache_BatchWrite
    "\<lambda>h. h \<in> set idx" coins_ok for L idx
  by unfold_locales (rule Spend_coins_ok)

section \<open>What is accepted\<close>

text \<open>Whether a script check passes: the script with every signature verified anew.\<close>

definition script_passes :: "openssl \<Rightarrow> CScriptCheck \<Rightarrow> bool" where
  "script_passes L check \<longleftrightarrow>
     fst (VerifyScript L (pure_checker (signature_valid L (sc_txTo check) (sc_nIn check) (sc_nHashType check))) (sc_nFlags check)
       (scriptSig (tx_vin (sc_txTo check) ! sc_nIn check)) (sc_scriptPubKey check) ())"

lemma run_script_check_passes:
  assumes "cache_sound L cache"
  shows "\<exists>cache'. run_script_check L check cache = (script_passes L check, cache') \<and> cache_sound L cache'"
proof -
  obtain b c' where r: "run_script_check L check cache = (b, c')" by fastforce
  then show ?thesis using checksig.VerifyScript_pure [OF assms r [unfolded run_script_check_def]]
    by (simp add: script_passes_def)
qed

text \<open>The check of each input, for the output it spends.\<close>

definition input_check :: "(COutPoint \<Rightarrow> CTxOut option) \<Rightarrow> CTransaction \<Rightarrow> uint32 \<Rightarrow> nat \<Rightarrow> CScriptCheck" where
  "input_check u tx flags i =
     \<lparr>sc_scriptPubKey = scriptPubKey (the (u (prevout (tx_vin tx ! i)))), sc_txTo = tx, sc_nIn = i, sc_nFlags = flags, sc_nHashType = 0\<rparr>"

definition input_value :: "(COutPoint \<Rightarrow> CTxOut option) \<Rightarrow> CTxIn \<Rightarrow> int" where
  "input_value u txin = nValue (the (u (prevout txin)))"

definition mature :: "(uint256 \<Rightarrow> CCoins option) \<Rightarrow> int \<Rightarrow> CTxIn \<Rightarrow> bool" where
  "mature lk nSpendHeight txin \<longleftrightarrow> (case lk (po_hash (prevout txin)) of None \<Rightarrow> False
     | Some c \<Rightarrow> cc_fCoinBase c \<longrightarrow> COINBASE_MATURITY \<le> nSpendHeight - cc_nHeight c)"

lemma utxo_coins:
  assumes "utxo lk p \<noteq> None"
  shows "\<exists>c. lk (po_hash p) = Some c \<and> IsAvailable c (unat (po_n p)) \<and> the (utxo lk p) = cc_vout c ! unat (po_n p)"
  using assms utxo_some [of lk p] by fastforce

lemma MoneyRange_sum_prefix:
  "MoneyRange n \<Longrightarrow> \<forall>x \<in> set xs. MoneyRange (f x) \<Longrightarrow> MoneyRange (n + sum_list (map f (x # xs))) \<Longrightarrow> MoneyRange (f x) \<Longrightarrow> MoneyRange (n + f x)"
proof -
  assume a: "MoneyRange n" "\<forall>x \<in> set xs. MoneyRange (f x)" "MoneyRange (n + sum_list (map f (x # xs)))" "MoneyRange (f x)"
  have "0 \<le> sum_list (map f xs)" using a(2) by (intro sum_list_nonneg) (auto simp: MoneyRange_def)
  then show ?thesis using a by (simp add: MoneyRange_def)
qed

context coins_store
begin

text \<open>The values of available inputs: the loop ends without error exactly when all are mature and the running total stays in range;
it is the exact sum then.\<close>

lemma input_values_law:
  assumes "cinv v" "\<forall>txin \<in> set ins. cutxo v (prevout txin) \<noteq> None" "MoneyRange n"
  shows "\<exists>r v'. input_values get H n ins v = Some (r, v') \<and> same_view v v' \<and>
    (if (\<forall>txin \<in> set ins. mature (clookup v) H txin \<and> MoneyRange (input_value (cutxo v) txin)) \<and>
        MoneyRange (n + (\<Sum>txin \<leftarrow> ins. input_value (cutxo v) txin))
     then r = Inr (n + (\<Sum>txin \<leftarrow> ins. input_value (cutxo v) txin)) else isl r)"
  using assms
proof (induction ins arbitrary: n v)
  case (Cons txin ins)
  let ?h = "po_hash (prevout txin)" and ?x = "input_value (cutxo v) txin"
  obtain c where c: "clookup v ?h = Some c" "the (cutxo v (prevout txin)) = cc_vout c ! unat (po_n (prevout txin))"
    using utxo_coins [of "clookup v" "prevout txin"] Cons.prems(2) by auto
  have x: "nValue (cc_vout c ! unat (po_n (prevout txin))) = ?x" by (simp add: input_value_def c(2))
  have m: "mature (clookup v) H txin \<longleftrightarrow> \<not> (cc_fCoinBase c \<and> H - cc_nHeight c < COINBASE_MATURITY)"
    by (auto simp: mature_def c(1))
  obtain v1 where v1: "Cache_coins get v ?h = Some (c, v1)" "same_view v v1"
    using Cache_coins_law [OF Cons.prems(1), of ?h] c(1) by auto
  show ?case
  proof (cases "mature (clookup v) H txin \<and> MoneyRange ?x \<and> MoneyRange (n + ?x)")
    case True
    then have w: "wrap64 (n + ?x) = n + ?x" using MoneyRange_wrap64_add Cons.prems(3) by blast
    have e: "input_values get H n (txin # ins) v = input_values get H (n + ?x) ins v1"
      using True v1(1) m w x by (auto simp: Let_def)
    have "\<forall>txin \<in> set ins. cutxo v1 (prevout txin) \<noteq> None" "cinv v1" using Cons.prems(2) v1(2) by simp_all
    from Cons.IH [OF this(2,1), of "n + ?x"] True obtain r v' where
      r: "input_values get H (n + ?x) ins v1 = Some (r, v')" "same_view v1 v'"
        "if (\<forall>txin \<in> set ins. mature (clookup v1) H txin \<and> MoneyRange (input_value (cutxo v1) txin)) \<and>
            MoneyRange (n + ?x + (\<Sum>txin \<leftarrow> ins. input_value (cutxo v1) txin))
         then r = Inr (n + ?x + (\<Sum>txin \<leftarrow> ins. input_value (cutxo v1) txin)) else isl r"
      by blast
    have l: "clookup v1 = clookup v" using v1(2) by blast
    show ?thesis unfolding e r(1)
      by (rule exI [of _ r], rule exI [of _ v']) (use r(2,3) True v1(2) in \<open>auto simp: l add.assoc split: if_splits\<close>)
  next
    case False
    have "isl r" if "input_values get H n (txin # ins) v = Some (r, v')" for r v'
      using that False v1(1) m x MoneyRange_wrap64_add [OF Cons.prems(3), of ?x] by (auto simp: Let_def split: if_splits)
    moreover have "\<exists>r. input_values get H n (txin # ins) v = Some (r, v1) \<and> isl r"
      using False v1(1) m x MoneyRange_wrap64_add [OF Cons.prems(3), of ?x] by (auto simp: Let_def)
    moreover have "\<not> ((\<forall>t \<in> set (txin # ins). mature (clookup v) H t \<and> MoneyRange (input_value (cutxo v) t)) \<and>
        MoneyRange (n + (\<Sum>t \<leftarrow> txin # ins. input_value (cutxo v) t)))"
    proof
      assume a: "(\<forall>t \<in> set (txin # ins). mature (clookup v) H t \<and> MoneyRange (input_value (cutxo v) t)) \<and>
        MoneyRange (n + (\<Sum>t \<leftarrow> txin # ins. input_value (cutxo v) t))"
      then have "MoneyRange (n + ?x)" using MoneyRange_sum_prefix [OF Cons.prems(3), of ins "input_value (cutxo v)" txin] by simp
      then show False using False a by simp
    qed
    ultimately show ?thesis using v1(2) by auto
  qed
qed simp

lemma input_check_of:
  assumes "clookup v (po_hash (prevout (tx_vin tx ! i))) = Some c" "the (cutxo v (prevout (tx_vin tx ! i))) = cc_vout c ! unat (po_n (prevout (tx_vin tx ! i)))"
  shows "CScriptCheck_of c tx i flags 0 = input_check (cutxo v) tx flags i"
  using assms by (simp add: CScriptCheck_of_def input_check_def)

lemma collect_checks_law:
  assumes "cinv v" "\<forall>txin \<in> set ins. cutxo v (prevout txin) \<noteq> None" "ins = drop i (tx_vin tx)"
  shows "\<exists>v'. collect_checks get tx flags i ins pvChecks v =
      Some (pvChecks @ map (input_check (cutxo v) tx flags) [i..<i + length ins], v') \<and> same_view v v'"
  using assms
proof (induction ins arbitrary: i pvChecks v)
  case (Cons txin ins)
  have at: "tx_vin tx ! i = txin" "ins = drop (Suc i) (tx_vin tx)"
    using Cons.prems(3) by (metis nth_via_drop, metis drop_Suc list.sel(3) tl_drop)
  obtain c where c: "clookup v (po_hash (prevout txin)) = Some c" "the (cutxo v (prevout txin)) = cc_vout c ! unat (po_n (prevout txin))"
    using utxo_coins [of "clookup v" "prevout txin"] Cons.prems(2) by auto
  obtain v1 where v1: "Cache_coins get v (po_hash (prevout txin)) = Some (c, v1)" "same_view v v1"
    using Cache_coins_law [OF Cons.prems(1), of "po_hash (prevout txin)"] c(1) by auto
  have l: "clookup v1 = clookup v" using v1(2) by blast
  have k: "CScriptCheck_of c tx i flags 0 = input_check (cutxo v) tx flags i" by (rule input_check_of) (simp_all add: at(1) c)
  have "\<forall>txin \<in> set ins. cutxo v1 (prevout txin) \<noteq> None" "cinv v1" using Cons.prems(2) v1(2) by simp_all
  from Cons.IH [OF this(2,1) at(2), of "pvChecks @ [input_check (cutxo v) tx flags i]"] obtain v' where
    "collect_checks get tx flags (Suc i) ins (pvChecks @ [input_check (cutxo v) tx flags i]) v1 =
      Some ((pvChecks @ [input_check (cutxo v) tx flags i]) @ map (input_check (cutxo v) tx flags) [Suc i..<Suc i + length ins], v')" "same_view v1 v'"
    unfolding l by blast
  moreover have "[i..<i + length (txin # ins)] = i # [Suc i..<Suc i + length ins]" by (simp add: upt_rec)
  ultimately show ?case using v1 by (simp add: k)
qed simp

lemma execute_checks_law:
  assumes "cinv v" "\<forall>txin \<in> set ins. cutxo v (prevout txin) \<noteq> None" "ins = drop i (tx_vin tx)" "cache_sound L cache"
  shows "\<exists>r cache' v'. execute_checks L get tx flags i ins cache v = Some (r, cache', v') \<and> same_view v v' \<and> cache_sound L cache' \<and>
    (r = None \<longleftrightarrow> (\<forall>j \<in> {i..<i + length ins}. script_passes L (input_check (cutxo v) tx flags j)))"
  using assms
proof (induction ins arbitrary: i cache v)
  case (Cons txin ins)
  have at: "tx_vin tx ! i = txin" "ins = drop (Suc i) (tx_vin tx)"
    using Cons.prems(3) by (metis nth_via_drop, metis drop_Suc list.sel(3) tl_drop)
  obtain c where c: "clookup v (po_hash (prevout txin)) = Some c" "the (cutxo v (prevout txin)) = cc_vout c ! unat (po_n (prevout txin))"
    using utxo_coins [of "clookup v" "prevout txin"] Cons.prems(2) by auto
  obtain v1 where v1: "Cache_coins get v (po_hash (prevout txin)) = Some (c, v1)" "same_view v v1"
    using Cache_coins_law [OF Cons.prems(1), of "po_hash (prevout txin)"] c(1) by auto
  have l: "clookup v1 = clookup v" using v1(2) by blast
  have k: "CScriptCheck_of c tx i flags 0 = input_check (cutxo v) tx flags i" by (rule input_check_of) (simp_all add: at(1) c)
  obtain cache1 where c1: "run_script_check L (input_check (cutxo v) tx flags i) cache = (script_passes L (input_check (cutxo v) tx flags i), cache1)" "cache_sound L cache1"
    using run_script_check_passes [OF Cons.prems(4)] by blast
  have j: "{i..<i + length (txin # ins)} = insert i {Suc i..<Suc i + length ins}" by auto
  show ?case
  proof (cases "script_passes L (input_check (cutxo v) tx flags i)")
    case True
    have "\<forall>txin \<in> set ins. cutxo v1 (prevout txin) \<noteq> None" "cinv v1" using Cons.prems(2) v1(2) by simp_all
    from Cons.IH [OF this(2,1) at(2) c1(2)] obtain r cache' v' where
      "execute_checks L get tx flags (Suc i) ins cache1 v1 = Some (r, cache', v')" "same_view v1 v'" "cache_sound L cache'"
      "r = None \<longleftrightarrow> (\<forall>j \<in> {Suc i..<Suc i + length ins}. script_passes L (input_check (cutxo v) tx flags j))"
      unfolding l by blast
    then show ?thesis unfolding j using v1 c1(1) True by (simp add: k)
  next
    case False
    let ?check = "CScriptCheck_of c tx i (flags AND NOT SCRIPT_VERIFY_STRICTENC) 0"
    obtain cache2 where "run_script_check L ?check cache1 = (script_passes L ?check, cache2)" "cache_sound L cache2"
      using run_script_check_passes [OF c1(2)] by blast
    then show ?thesis unfolding j using v1 c1 False by (cases "script_passes L ?check") (auto simp: k)
  qed
qed simp

end

lemma GetValueOut_range: "GetValueOut tx = Some n \<Longrightarrow> MoneyRange n"
proof -
  have "value_out_loop m outs = Some n \<Longrightarrow> MoneyRange m \<Longrightarrow> MoneyRange n" for m outs
    by (induction m outs rule: value_out_loop.induct) (auto simp: Let_def split: if_splits)
  moreover have "MoneyRange 0" by (simp add: MoneyRange_def MAX_MONEY_eq)
  ultimately show "GetValueOut tx = Some n \<Longrightarrow> MoneyRange n" unfolding GetValueOut_def by blast
qed

text \<open>The rules for the inputs of a transaction, other than the scripts.\<close>

definition inputs_acceptable :: "(uint256 \<Rightarrow> CCoins option) \<Rightarrow> int \<Rightarrow> CTransaction \<Rightarrow> bool" where
  "inputs_acceptable lk nSpendHeight tx \<longleftrightarrow>
     (\<forall>txin \<in> set (tx_vin tx). utxo lk (prevout txin) \<noteq> None \<and> mature lk nSpendHeight txin \<and> MoneyRange (input_value (utxo lk) txin)) \<and>
     MoneyRange (\<Sum>txin \<leftarrow> tx_vin tx. input_value (utxo lk) txin) \<and>
     (\<exists>nValueOut. GetValueOut tx = Some nValueOut \<and> nValueOut \<le> (\<Sum>txin \<leftarrow> tx_vin tx. input_value (utxo lk) txin) \<and>
        GetMinFee tx 1 False GMF_BLOCK 0 \<le> (\<Sum>txin \<leftarrow> tx_vin tx. input_value (utxo lk) txin) - nValueOut)"

lemma check_fee_None_iff:
  "MoneyRange n \<Longrightarrow> check_fee n tx = None \<longleftrightarrow>
     (\<exists>nValueOut. GetValueOut tx = Some nValueOut \<and> nValueOut \<le> n \<and> GetMinFee tx 1 False GMF_BLOCK 0 \<le> n - nValueOut)"
  using GetValueOut_range [of tx] by (auto simp: check_fee_def Let_def MoneyRange_def split: option.splits)

context coins_store
begin

lemma CheckInputs_law:
  assumes v: "cinv v" "cbest v = Some b" and tx: "\<not> IsCoinBase tx" and cache: "cache_sound L cache"
  shows "\<exists>r cache' v'. CheckInputs L get getbest heights fScriptChecks flags collect tx cache v = Some (r, cache', v') \<and>
    same_view v v' \<and> cache_sound L cache' \<and>
    (if inputs_acceptable (clookup v) (heights b + 1) tx \<and>
        (fScriptChecks \<and> \<not> collect \<longrightarrow> (\<forall>i < length (tx_vin tx). script_passes L (input_check (cutxo v) tx flags i)))
     then r = Inr (if fScriptChecks \<and> collect then map (input_check (cutxo v) tx flags) [0..<length (tx_vin tx)] else [])
     else isl r)"
proof -
  let ?ins = "tx_vin tx" and ?H = "heights b + 1"
  obtain v1 where v1: "HaveInputs get tx v = Some (\<forall>txin \<in> set ?ins. cutxo v (prevout txin) \<noteq> None, v1)" "same_view v v1"
    using HaveInputs_law [OF v(1), of tx] tx by auto
  show ?thesis
  proof (cases "\<forall>txin \<in> set ?ins. cutxo v (prevout txin) \<noteq> None")
    case False
    then have "\<not> inputs_acceptable (clookup v) ?H tx" by (auto simp: inputs_acceptable_def)
    moreover have "HaveInputs get tx v = Some (False, v1)" using v1(1) False by (simp only:)
    ultimately show ?thesis using v1(2) tx cache by (simp add: CheckInputs_def)
  next
    case have_all: True
    obtain v2 where v2: "Cache_GetBestBlock getbest v1 = (Some b, v2)" "same_view v v2"
      using Cache_GetBestBlock_law [of v1] v1(2) v(2) by auto
    have l2: "clookup v2 = clookup v" using v2(2) by blast
    have range0: "MoneyRange 0" by (simp add: MoneyRange_def MAX_MONEY_eq)
    obtain r v3 where v3: "input_values get ?H 0 ?ins v2 = Some (r, v3)" "same_view v v3"
      and r: "if (\<forall>txin \<in> set ?ins. mature (clookup v) ?H txin \<and> MoneyRange (input_value (cutxo v) txin)) \<and>
          MoneyRange (\<Sum>txin \<leftarrow> ?ins. input_value (cutxo v) txin)
        then r = Inr (\<Sum>txin \<leftarrow> ?ins. input_value (cutxo v) txin) else isl r"
      using input_values_law [of v2 ?ins 0 ?H, unfolded l2, OF _ have_all range0] v2(2) by auto
    have l3: "clookup v3 = clookup v" "cinv v3" using v3(2) by blast+
    have pre: "CheckInputs L get getbest heights fScriptChecks flags collect tx cache v =
        (case r of Inl e \<Rightarrow> Some (Inl e, cache, v3)
         | Inr nValueIn \<Rightarrow> (case check_fee nValueIn tx of
             Some e \<Rightarrow> Some (Inl e, cache, v3)
           | None \<Rightarrow>
             if \<not> fScriptChecks then Some (Inr [], cache, v3)
             else if collect then
               (case collect_checks get tx flags 0 ?ins [] v3 of None \<Rightarrow> None | Some (checks, v) \<Rightarrow> Some (Inr checks, cache, v))
             else (case execute_checks L get tx flags 0 ?ins cache v3 of
                 None \<Rightarrow> None
               | Some (Some e, cache, v) \<Rightarrow> Some (Inl e, cache, v)
               | Some (None, cache, v) \<Rightarrow> Some (Inr [], cache, v))))"
      using v1(1) v2(1) v3(1) have_all tx by (cases r) (simp_all add: CheckInputs_def)
    show ?thesis
    proof (cases "inputs_acceptable (clookup v) ?H tx")
      case False
      then have "isl r \<or> (\<exists>n e. r = Inr n \<and> check_fee n tx = Some e)"
        using r have_all check_fee_None_iff [of "\<Sum>txin \<leftarrow> ?ins. input_value (cutxo v) txin" tx]
        by (auto simp: inputs_acceptable_def split: if_splits)
      then show ?thesis unfolding pre using False v3(2) cache by (cases r) auto
    next
      case True
      let ?n = "\<Sum>txin \<leftarrow> ?ins. input_value (cutxo v) txin"
      have n: "r = Inr ?n" "check_fee ?n tx = None"
        using r True check_fee_None_iff [of ?n tx] by (auto simp: inputs_acceptable_def split: if_splits)
      have avail: "\<forall>txin \<in> set ?ins. cutxo v3 (prevout txin) \<noteq> None" using have_all l3(1) by simp
      obtain v4 where v4: "collect_checks get tx flags 0 ?ins [] v3 = Some (map (input_check (cutxo v) tx flags) [0..<length ?ins], v4)" "same_view v v4"
        using collect_checks_law [OF l3(2) avail, of 0 tx flags "[]"] v3(2) unfolding l3(1) by auto
      obtain q cache5 v5 where v5: "execute_checks L get tx flags 0 ?ins cache v3 = Some (q, cache5, v5)" "same_view v v5" "cache_sound L cache5"
          "q = None \<longleftrightarrow> (\<forall>i < length ?ins. script_passes L (input_check (cutxo v) tx flags i))"
        using execute_checks_law [OF l3(2) avail _ cache, of 0 tx flags] v3(2) unfolding l3(1) by (auto simp: atLeast0LessThan)
      show ?thesis unfolding pre using True n v3(2) v4 v5 cache
        by (cases "fScriptChecks"; cases collect; cases q) auto
    qed
  qed
qed

end

section \<open>The total value\<close>

definition total_value :: "(COutPoint \<Rightarrow> CTxOut option) \<Rightarrow> int" where
  "total_value u = (\<Sum>p \<in> dom u. nValue (the (u p)))"

lemma sum_list_filter_nth:
  "(\<Sum>x \<leftarrow> filter P xs. f x) = (\<Sum>i | i < length xs \<and> P (xs ! i). f (xs ! i) :: int)"
proof -
  have "(\<Sum>x \<leftarrow> filter P xs. f x) = (\<Sum>x \<leftarrow> xs. if P x then f x else 0)" by (induction xs) auto
  also have "\<dots> = (\<Sum>i \<in> {0..<length xs}. if P (xs ! i) then f (xs ! i) else 0)" by (simp add: sum_list_sum_nth)
  also have "\<dots> = (\<Sum>i \<in> {i \<in> {0..<length xs}. P (xs ! i)}. f (xs ! i))" by (rule sum.inter_filter [symmetric]) simp
  finally show ?thesis by simp
qed

definition unspent_value :: "CTransaction \<Rightarrow> int" where
  "unspent_value tx = (\<Sum>txout \<leftarrow> filter (\<lambda>txout. \<not> CTxOut_IsNull txout) (tx_vout tx). nValue txout)"

lemma created_total:
  assumes "length (tx_vout tx) \<le> 2 ^ 32"
  shows "finite (dom (created txid tx)) \<and> total_value (created txid tx) = unspent_value tx"
proof -
  let ?I = "{i. i < length (tx_vout tx) \<and> \<not> CTxOut_IsNull (tx_vout tx ! i)}"
  let ?p = "\<lambda>i. \<lparr>po_hash = txid, po_n = of_nat i\<rparr> :: COutPoint"
  have n: "unat (of_nat i :: uint32) = i" if "i < length (tx_vout tx)" for i
    using that assms by (simp add: unat_of_nat take_bit_eq_mod)
  have "dom (created txid tx) = ?p ` ?I"
  proof (rule set_eqI)
    fix p :: COutPoint
    have d: "p \<in> dom (created txid tx) \<longleftrightarrow> po_hash p = txid \<and> unat (po_n p) \<in> ?I" by (simp add: created_def dom_def Let_def)
    show "p \<in> dom (created txid tx) \<longleftrightarrow> p \<in> ?p ` ?I"
    proof
      assume "p \<in> dom (created txid tx)"
      then have "unat (po_n p) \<in> ?I" "p = ?p (unat (po_n p))" using d by (cases p; simp)+
      then show "p \<in> ?p ` ?I" by blast
    next
      assume "p \<in> ?p ` ?I"
      then obtain i where i: "i \<in> ?I" "p = ?p i" by blast
      then show "p \<in> dom (created txid tx)" unfolding d using n [of i] by simp
    qed
  qed
  moreover have "inj_on ?p ?I"
  proof (rule inj_onI)
    fix i j assume i: "i \<in> ?I" "j \<in> ?I" and e: "?p i = ?p j"
    have "unat (po_n (?p i)) = unat (po_n (?p j))" by (simp only: e)
    then show "i = j" using n [of i] n [of j] i by simp
  qed
  ultimately have "total_value (created txid tx) = (\<Sum>i \<in> ?I. nValue (the (created txid tx (?p i))))" "finite (dom (created txid tx))"
    by (simp_all add: total_value_def sum.reindex)
  moreover have "nValue (the (created txid tx (?p i))) = nValue (tx_vout tx ! i)" if "i \<in> ?I" for i
    using that n [of i] by (simp add: created_def Let_def)
  ultimately show ?thesis by (simp add: unspent_value_def sum_list_filter_nth)
qed

lemma total_value_update:
  assumes fin: "finite (dom u)" and fresh: "\<And>p. po_hash p = txid \<Longrightarrow> u p = None" and len: "length (tx_vout tx) \<le> 2 ^ 32"
    and ins: "\<not> IsCoinBase tx \<Longrightarrow> distinct (map prevout (tx_vin tx)) \<and> (\<forall>txin \<in> set (tx_vin tx). u (prevout txin) \<noteq> None)"
  shows "finite (dom (utxo_update txid tx u)) \<and> total_value (utxo_update txid tx u) =
    total_value u - (if IsCoinBase tx then 0 else \<Sum>txin \<leftarrow> tx_vin tx. input_value u txin) + unspent_value tx"
proof -
  let ?P = "if IsCoinBase tx then {} else prevout ` set (tx_vin tx)" and ?c = "created txid tx" and ?v = "utxo_update txid tx u"
  have sub: "?P \<subseteq> dom u" using ins by (auto simp: dom_def)
  have cdom: "p \<in> dom ?c \<Longrightarrow> po_hash p = txid" for p by (auto simp: created_def Let_def split: if_splits)
  have d: "dom ?v = (dom u - ?P) \<union> dom ?c" using fresh cdom by (auto simp: utxo_update_def dom_def split: if_splits)
  have disj: "(dom u - ?P) \<inter> dom ?c = {}"
  proof -
    have "u p = None" if "p \<in> dom ?c" for p using fresh cdom [OF that] by blast
    then have "dom u \<inter> dom ?c = {}" by (metis IntE domIff equals0I)
    then show ?thesis by blast
  qed
  have c: "finite (dom ?c)" "total_value ?c = unspent_value tx" using created_total [OF len] by auto
  have "total_value ?v = (\<Sum>p \<in> dom u - ?P. nValue (the (?v p))) + (\<Sum>p \<in> dom ?c. nValue (the (?v p)))"
    unfolding total_value_def d using fin c(1) disj by (intro sum.union_disjoint) auto
  also have "(\<Sum>p \<in> dom u - ?P. nValue (the (?v p))) = (\<Sum>p \<in> dom u - ?P. nValue (the (u p)))"
    using fresh by (intro sum.cong) (auto simp: utxo_update_def split: if_splits)
  also have "(\<Sum>p \<in> dom ?c. nValue (the (?v p))) = total_value ?c"
    unfolding total_value_def using cdom by (intro sum.cong) (auto simp: utxo_update_def)
  also have "(\<Sum>p \<in> dom u - ?P. nValue (the (u p))) = total_value u - (\<Sum>p \<in> ?P. nValue (the (u p)))"
    unfolding total_value_def using fin sub by (simp add: sum_diff)
  also have "(\<Sum>p \<in> ?P. nValue (the (u p))) = (if IsCoinBase tx then 0 else \<Sum>txin \<leftarrow> tx_vin tx. input_value u txin)"
  proof (cases "IsCoinBase tx")
    case False
    then have "(\<Sum>txin \<leftarrow> tx_vin tx. input_value u txin) = (\<Sum>p \<leftarrow> map prevout (tx_vin tx). nValue (the (u p)))"
      by (simp add: input_value_def comp_def)
    also have "\<dots> = (\<Sum>p \<in> set (map prevout (tx_vin tx)). nValue (the (u p)))" using ins [OF False] by (intro sum_list_distinct_conv_sum_set) simp
    finally show ?thesis using False by simp
  qed simp
  finally show ?thesis using c fin d by simp
qed

section \<open>Properties\<close>

text \<open>The view of a block that is connected: its cache over the tip cache over the database.\<close>

abbreviation block_get where "block_get L \<equiv> Cache_GetCoins (DB_GetCoins L)"
abbreviation block_getbest where "block_getbest idx \<equiv> Cache_GetBestBlock (DB_GetBestBlock idx)"
abbreviation block_lookup where "block_lookup L \<equiv> cache_lookup (tip_lookup L)"
abbreviation block_best where "block_best idx \<equiv> cache_best (tip_best idx)"
abbreviation block_ok where "block_ok L \<equiv> cache_inv (tip_ok L) coins_ok"

text \<open>C13. \<open>CheckInputs\<close> of a transaction that is no coinbase accepts exactly when every input is an unspent output that the
view shows, coinbases are mature, all values and their sum are money, the outputs and the minimum fee are paid for, and (unless the
checks are skipped, or handed to the caller to execute) the script of every input verifies. It never fails an assertion, does not
change what the view shows, and hands out one check per input when asked to.\<close>

theorem CheckInputs_accepts:
  assumes "block_ok L v" "block_best idx v = Some b" "\<not> IsCoinBase tx" "cache_sound L cache"
  shows "case CheckInputs L (block_get L) (block_getbest idx) heights fScriptChecks flags collect tx cache v of
     None \<Rightarrow> False
   | Some (r, cache', v') \<Rightarrow> block_ok L v' \<and> block_lookup L v' = block_lookup L v \<and> cache_sound L cache' \<and>
       (r = Inr (if fScriptChecks \<and> collect then map (input_check (utxo (block_lookup L v)) tx flags) [0..<length (tx_vin tx)] else []) \<longleftrightarrow>
         (\<forall>txin \<in> set (tx_vin tx). utxo (block_lookup L v) (prevout txin) \<noteq> None \<and> mature (block_lookup L v) (heights b + 1) txin \<and>
            MoneyRange (input_value (utxo (block_lookup L v)) txin)) \<and>
         MoneyRange (\<Sum>txin \<leftarrow> tx_vin tx. input_value (utxo (block_lookup L v)) txin) \<and>
         (\<exists>nValueOut. GetValueOut tx = Some nValueOut \<and> nValueOut \<le> (\<Sum>txin \<leftarrow> tx_vin tx. input_value (utxo (block_lookup L v)) txin) \<and>
            GetMinFee tx 1 False GMF_BLOCK 0 \<le> (\<Sum>txin \<leftarrow> tx_vin tx. input_value (utxo (block_lookup L v)) txin) - nValueOut) \<and>
         (fScriptChecks \<and> \<not> collect \<longrightarrow> (\<forall>i < length (tx_vin tx). script_passes L (input_check (utxo (block_lookup L v)) tx flags i))))"
proof -
  obtain r cache' v' where r: "CheckInputs L (block_get L) (block_getbest idx) heights fScriptChecks flags collect tx cache v = Some (r, cache', v')"
    and v': "block_ok L v' \<and> block_lookup L v' = block_lookup L v \<and> block_best idx v' = block_best idx v" "cache_sound L cache'"
    and r2: "if inputs_acceptable (block_lookup L v) (heights b + 1) tx \<and>
        (fScriptChecks \<and> \<not> collect \<longrightarrow> (\<forall>i < length (tx_vin tx). script_passes L (input_check (utxo (block_lookup L v)) tx flags i)))
      then r = Inr (if fScriptChecks \<and> collect then map (input_check (utxo (block_lookup L v)) tx flags) [0..<length (tx_vin tx)] else [])
      else isl r"
    using tip_view.CheckInputs_law [OF assms(1,2,3,4)] by blast
  have "r = Inr (if fScriptChecks \<and> collect then map (input_check (utxo (block_lookup L v)) tx flags) [0..<length (tx_vin tx)] else []) \<longleftrightarrow>
      inputs_acceptable (block_lookup L v) (heights b + 1) tx \<and>
      (fScriptChecks \<and> \<not> collect \<longrightarrow> (\<forall>i < length (tx_vin tx). script_passes L (input_check (utxo (block_lookup L v)) tx flags i)))"
    using r2 by (auto split: if_splits)
  then show ?thesis unfolding r option.case prod.case inputs_acceptable_def using v' by simp
qed

text \<open>C14. \<open>UpdateCoins\<close> on the abstract view: it succeeds exactly when the inputs are distinct unspent outputs (a coinbase has none),
and then those are gone, the outputs of the transaction are there, and nothing else has changed.\<close>

theorem UpdateCoins_refines:
  assumes "block_ok L v" "coins_ok (CCoins_of_tx tx nHeight)"
  shows "case UpdateCoins (block_get L) tx txundo nHeight txid v of
     None \<Rightarrow> \<not> IsCoinBase tx \<and> \<not> (distinct (map prevout (tx_vin tx)) \<and> (\<forall>txin \<in> set (tx_vin tx). utxo (block_lookup L v) (prevout txin) \<noteq> None))
   | Some (txundo', v') \<Rightarrow> block_ok L v' \<and>
       utxo (block_lookup L v') = (\<lambda>p. if po_hash p = txid then created txid tx p
         else if \<not> IsCoinBase tx \<and> p \<in> prevout ` set (tx_vin tx) then None else utxo (block_lookup L v) p)"
proof (cases "update_map tx nHeight txid (block_lookup L v)")
  case None
  then have "\<not> IsCoinBase tx" "spend_map (tx_vin tx) (block_lookup L v) = None" by (simp_all add: update_map_def split: if_splits)
  moreover have "\<not> (distinct (map prevout (tx_vin tx)) \<and> (\<forall>txin \<in> set (tx_vin tx). utxo (block_lookup L v) (prevout txin) \<noteq> None))"
    using calculation(2) spend_map_defined [of "tx_vin tx" "block_lookup L v"] by fastforce
  ultimately show ?thesis using tip_chain.UpdateCoins_law [OF assms(1), where tx = tx and h = nHeight and txid = txid and txundo = txundo] assms(2) None by auto
next
  case (Some p)
  obtain us m where p: "p = (us, m)" by (cases p)
  obtain v' where "UpdateCoins (block_get L) tx txundo nHeight txid v = Some (txundo @ us, v')" "block_ok L v'" "block_lookup L v' = m"
    using tip_chain.UpdateCoins_law [OF assms(1), where tx = tx and h = nHeight and txid = txid and txundo = txundo] assms(2) Some p by auto
  moreover have "utxo m = (\<lambda>p. if po_hash p = txid then created txid tx p
      else if \<not> IsCoinBase tx \<and> p \<in> prevout ` set (tx_vin tx) then None else utxo (block_lookup L v) p)"
    using update_map_utxo [OF Some [unfolded p]] by (simp add: utxo_update_def [abs_def])
  ultimately show ?thesis by simp
qed

text \<open>The transaction that spends the first output of the example coins, in a view whose best block is at height 700.\<close>

definition spending_tx :: CTransaction where
  "spending_tx = \<lparr>tx_nVersion = 1, tx_nTime = 7,
     tx_vin = [\<lparr>prevout = \<lparr>po_hash = 7, po_n = 3\<rparr>, scriptSig = [OP_1], nSequence = -1\<rparr>],
     tx_vout = [\<lparr>nValue = 3, scriptPubKey = []\<rparr>], tx_nLockTime = 0\<rparr>"

definition example_view :: "leveldb CCoinsViewCache CCoinsViewCache" where
  "example_view = \<lparr>vc_base = CCoinsViewCache_init Map.empty, pindexTip = Some 5, cacheCoins = [(7, example_coins)]\<rparr>"

lemma example_view_ok: "block_ok reference_ssl example_view" "block_best idx example_view = Some 5"
  by (simp_all add: example_view_def cache_inv_def CCoinsViewCache_init_def db_ok_empty example_coins_ok cache_best_def)

lemma example_view_lookup: "block_lookup reference_ssl example_view 7 = Some example_coins"
  by (simp add: example_view_def cache_lookup_def)

lemma spending_tx_not_coinbase: "\<not> IsCoinBase spending_tx"
  by (simp add: spending_tx_def IsCoinBase_def COutPoint_IsNull_def)

theorem CheckInputs_accepts_witness:
  "case CheckInputs reference_ssl (block_get reference_ssl) (block_getbest []) (\<lambda>_. 700) False 0 True spending_tx example_cache example_view of
     None \<Rightarrow> False
   | Some (r, cache', v') \<Rightarrow> block_lookup reference_ssl v' = block_lookup reference_ssl example_view"
  using CheckInputs_accepts [OF example_view_ok(1) example_view_ok(2) spending_tx_not_coinbase cache_sound_example,
      where heights = "\<lambda>_. 700" and fScriptChecks = False and flags = 0 and collect = True and idx = "[]"]
  by (auto split: option.splits)

lemma spending_tx_coins: "coins_ok (CCoins_of_tx spending_tx 701)"
  by (simp add: coins_ok_def CCoins_of_tx_def spending_tx_def cleaned_def CTxOut_IsNull_def stored_out_ok_def ctxout_ok_def
      MoneyRange_def MAX_MONEY_eq MAX_SIZE_def)

theorem UpdateCoins_refines_witness:
  "\<exists>undo v'. UpdateCoins (block_get reference_ssl) spending_tx [] 701 9 example_view = Some (undo, v') \<and>
     utxo (block_lookup reference_ssl v') \<lparr>po_hash = 7, po_n = 3\<rparr> = None \<and>
     utxo (block_lookup reference_ssl v') \<lparr>po_hash = 9, po_n = 0\<rparr> = Some \<lparr>nValue = 3, scriptPubKey = []\<rparr>"
proof -
  have "utxo (block_lookup reference_ssl example_view) \<lparr>po_hash = 7, po_n = 3\<rparr> \<noteq> None"
    by (simp add: utxo_def example_view_lookup Let_def example_coins_def IsAvailable_def CTxOut_IsNull_def)
  then have a: "distinct (map prevout (tx_vin spending_tx)) \<and>
      (\<forall>txin \<in> set (tx_vin spending_tx). utxo (block_lookup reference_ssl example_view) (prevout txin) \<noteq> None)"
    by (simp add: spending_tx_def)
  note r = UpdateCoins_refines [OF example_view_ok(1) spending_tx_coins, where txundo = "[]" and txid = 9]
  then obtain undo v' where u: "UpdateCoins (block_get reference_ssl) spending_tx [] 701 9 example_view = Some (undo, v')"
    using a by (cases "UpdateCoins (block_get reference_ssl) spending_tx [] 701 9 example_view") auto
  have "utxo (block_lookup reference_ssl v') = (\<lambda>p. if po_hash p = 9 then created 9 spending_tx p
      else if \<not> IsCoinBase spending_tx \<and> p \<in> prevout ` set (tx_vin spending_tx) then None else utxo (block_lookup reference_ssl example_view) p)"
    using r unfolding u by simp
  then show ?thesis using u spending_tx_not_coinbase by (simp add: created_def Let_def) (simp add: spending_tx_def CTxOut_IsNull_def)
qed

end
