(* ===== verification/Merkle.thy ===== *)
theory Merkle
  imports Tx "HOL-Library.Sublist"
begin

text \<open>
  The merkle tree of a block, its branches (\<open>CBlock\<close> of \<open>src/src/main.h\<close>) and the partial merkle trees sent to light
  clients (\<open>CPartialMerkleTree\<close> of \<open>main.h\<close> and \<open>main.cpp\<close>).

  \<open>vMerkleTree\<close> holds the levels of the tree one after the other, so that the code works on indices. The reference is
  the recursion \<open>pair_up\<close> on the levels. Blocks hold at most \<open>MAX_BLOCK_SIZE\<close> transactions and a partial tree that is read
  is refused above \<open>MAX_BLOCK_SIZE / 60\<close> of them before its tree is walked, so that indices, widths and heights are far
  from the range of their types: they are natural numbers here.
\<close>

section \<open>The tree of a block\<close>

definition merkle_hash :: "openssl \<Rightarrow> uint256 \<Rightarrow> uint256 \<Rightarrow> uint256" where
  "merkle_hash L x y = Hash2 L (ser_word x) (ser_word y)"

function merkle_inner :: "openssl \<Rightarrow> nat \<Rightarrow> nat \<Rightarrow> nat \<Rightarrow> uint256 list \<Rightarrow> uint256 list" where
  "merkle_inner L j nSize i vMerkleTree =
     (if i < nSize then
        let i2 = min (i + 1) (nSize - 1) in
        merkle_inner L j nSize (i + 2) (vMerkleTree @ [merkle_hash L (vMerkleTree ! (j + i)) (vMerkleTree ! (j + i2))])
      else vMerkleTree)"
  by pat_completeness auto
termination by (relation "measure (\<lambda>(L, j, nSize, i, t). nSize - i)") auto

function merkle_outer :: "openssl \<Rightarrow> nat \<Rightarrow> nat \<Rightarrow> uint256 list \<Rightarrow> uint256 list" where
  "merkle_outer L j nSize vMerkleTree =
     (if nSize > 1 then merkle_outer L (j + nSize) ((nSize + 1) div 2) (merkle_inner L j nSize 0 vMerkleTree) else vMerkleTree)"
  by pat_completeness auto
termination by (relation "measure (\<lambda>(L, j, nSize, t). nSize)") auto

declare merkle_inner.simps [simp del] merkle_outer.simps [simp del]

text \<open>The root and the tree, which is a field of the block.\<close>

definition BuildMerkleTree :: "openssl \<Rightarrow> CTransaction list \<Rightarrow> uint256 \<times> uint256 list" where
  "BuildMerkleTree L vtx = (let vMerkleTree = merkle_outer L 0 (length vtx) (map (GetHash L) vtx) in
     (if vMerkleTree = [] then 0 else last vMerkleTree, vMerkleTree))"

definition GetTxHash :: "CTransaction list \<Rightarrow> uint256 list \<Rightarrow> nat \<Rightarrow> uint256 option" where
  "GetTxHash vtx vMerkleTree nIndex =
     (if vMerkleTree = [] then None else if nIndex < length vtx then Some (vMerkleTree ! nIndex) else None)"

function merkle_branch_loop :: "uint256 list \<Rightarrow> nat \<Rightarrow> nat \<Rightarrow> nat \<Rightarrow> uint256 list" where
  "merkle_branch_loop vMerkleTree j nSize nIndex =
     (if nSize > 1 then
        let i = min (nIndex XOR 1) (nSize - 1) in
        vMerkleTree ! (j + i) # merkle_branch_loop vMerkleTree (j + nSize) ((nSize + 1) div 2) (nIndex div 2)
      else [])"
  by pat_completeness auto
termination by (relation "measure (\<lambda>(t, j, nSize, i). nSize)") auto

declare merkle_branch_loop.simps [simp del]

definition GetMerkleBranch :: "openssl \<Rightarrow> CTransaction list \<Rightarrow> uint256 list \<Rightarrow> nat \<Rightarrow> uint256 list \<times> uint256 list" where
  "GetMerkleBranch L vtx vMerkleTree nIndex =
     (let vMerkleTree = (if vMerkleTree = [] then snd (BuildMerkleTree L vtx) else vMerkleTree) in
      (merkle_branch_loop vMerkleTree 0 (length vtx) nIndex, vMerkleTree))"

fun merkle_check_loop :: "openssl \<Rightarrow> uint256 \<Rightarrow> uint256 list \<Rightarrow> int \<Rightarrow> uint256" where
  "merkle_check_loop L hash [] nIndex = hash"
| "merkle_check_loop L hash (otherside # branch) nIndex =
     merkle_check_loop L (if odd nIndex then merkle_hash L otherside hash else merkle_hash L hash otherside) branch (nIndex div 2)"

definition CheckMerkleBranch :: "openssl \<Rightarrow> uint256 \<Rightarrow> uint256 list \<Rightarrow> int \<Rightarrow> uint256" where
  "CheckMerkleBranch L hash vMerkleBranch nIndex = (if nIndex = -1 then 0 else merkle_check_loop L hash vMerkleBranch nIndex)"

section \<open>Partial trees\<close>

record CPartialMerkleTree =
  pmt_nTransactions :: uint32
  pmt_vBits :: "bool list"
  pmt_vHash :: "uint256 list"
  pmt_fBad :: bool

definition CalcTreeWidth :: "nat \<Rightarrow> nat \<Rightarrow> nat" where
  "CalcTreeWidth nTransactions height = (nTransactions + 2 ^ height - 1) div 2 ^ height"

fun CalcHash :: "openssl \<Rightarrow> nat \<Rightarrow> uint256 list \<Rightarrow> nat \<Rightarrow> nat \<Rightarrow> uint256" where
  "CalcHash L nTransactions vTxid 0 pos = vTxid ! pos"
| "CalcHash L nTransactions vTxid (Suc height) pos =
     (let left = CalcHash L nTransactions vTxid height (pos * 2);
          right = (if pos * 2 + 1 < CalcTreeWidth nTransactions height then CalcHash L nTransactions vTxid height (pos * 2 + 1) else left)
      in merkle_hash L left right)"

text \<open>The loop that looks for a matched transaction below a node.\<close>

definition parent_of_match :: "nat \<Rightarrow> bool list \<Rightarrow> nat \<Rightarrow> nat \<Rightarrow> bool" where
  "parent_of_match nTransactions vMatch height pos =
     list_ex (\<lambda>p. vMatch ! p) [pos * 2 ^ height..<min ((pos + 1) * 2 ^ height) nTransactions]"

fun TraverseAndBuild :: "openssl \<Rightarrow> nat \<Rightarrow> uint256 list \<Rightarrow> bool list \<Rightarrow> nat \<Rightarrow> nat \<Rightarrow> bool list \<times> uint256 list \<Rightarrow> bool list \<times> uint256 list" where
  "TraverseAndBuild L nTransactions vTxid vMatch 0 pos (vBits, vHash) =
     (vBits @ [parent_of_match nTransactions vMatch 0 pos], vHash @ [CalcHash L nTransactions vTxid 0 pos])"
| "TraverseAndBuild L nTransactions vTxid vMatch (Suc height) pos (vBits, vHash) =
     (let fParentOfMatch = parent_of_match nTransactions vMatch (Suc height) pos; vBits = vBits @ [fParentOfMatch] in
      if \<not> fParentOfMatch then (vBits, vHash @ [CalcHash L nTransactions vTxid (Suc height) pos])
      else
        let s = TraverseAndBuild L nTransactions vTxid vMatch height (pos * 2) (vBits, vHash) in
        if pos * 2 + 1 < CalcTreeWidth nTransactions height
        then TraverseAndBuild L nTransactions vTxid vMatch height (pos * 2 + 1) s else s)"

lemma CalcTreeWidth_Suc: "CalcTreeWidth n (Suc h) = (CalcTreeWidth n h + 1) div 2"
proof -
  have pos: "(0 :: nat) < 2 ^ h" by simp
  have "CalcTreeWidth n h + 1 = (n + 2 ^ h - 1 + 2 ^ h) div 2 ^ h"
    unfolding CalcTreeWidth_def using div_add_self2 [of "2 ^ h" "n + 2 ^ h - 1"] by simp
  also have "n + 2 ^ h - 1 + 2 ^ h = n + 2 ^ Suc h - 1" using pos by (simp del: zero_less_power)
  finally show ?thesis by (simp add: CalcTreeWidth_def div_mult2_eq [symmetric] mult.commute)
qed

text \<open>The height: the loop of the constructor and of \<open>ExtractMatches\<close>.\<close>

function tree_height :: "nat \<Rightarrow> nat \<Rightarrow> nat" where
  "tree_height nTransactions nHeight = (if CalcTreeWidth nTransactions nHeight > 1 then tree_height nTransactions (Suc nHeight) else nHeight)"
  by pat_completeness auto
termination by (relation "measure (\<lambda>(n, h). CalcTreeWidth n h)") (auto simp: CalcTreeWidth_Suc)

declare tree_height.simps [simp del]

definition CPartialMerkleTree_of :: "openssl \<Rightarrow> uint256 list \<Rightarrow> bool list \<Rightarrow> CPartialMerkleTree" where
  "CPartialMerkleTree_of L vTxid vMatch =
     (let n = length vTxid; (vBits, vHash) = TraverseAndBuild L n vTxid vMatch (tree_height n 0) 0 ([], []) in
      \<lparr>pmt_nTransactions = of_nat n, pmt_vBits = vBits, pmt_vHash = vHash, pmt_fBad = False\<rparr>)"

definition CPartialMerkleTree_init :: CPartialMerkleTree where
  "CPartialMerkleTree_init = \<lparr>pmt_nTransactions = 0, pmt_vBits = [], pmt_vHash = [], pmt_fBad = True\<rparr>"

text \<open>What \<open>TraverseAndExtract\<close> passes by reference, with the flag \<open>fBad\<close>.\<close>

record extract_state =
  nBitsUsed :: nat
  nHashUsed :: nat
  ex_vMatch :: "uint256 list"
  ex_fBad :: bool

text \<open>The case of a stored hash, which is a matched transaction at height 0.\<close>

definition take_hash :: "uint256 list \<Rightarrow> bool \<Rightarrow> extract_state \<Rightarrow> uint256 \<times> extract_state" where
  "take_hash vHash matched s =
     (if nHashUsed s \<ge> length vHash then (0, s\<lparr>ex_fBad := True\<rparr>)
      else
        let hash = vHash ! nHashUsed s; s = s\<lparr>nHashUsed := nHashUsed s + 1\<rparr> in
        (hash, if matched then s\<lparr>ex_vMatch := ex_vMatch s @ [hash]\<rparr> else s))"

fun TraverseAndExtract :: "openssl \<Rightarrow> nat \<Rightarrow> bool list \<Rightarrow> uint256 list \<Rightarrow> nat \<Rightarrow> nat \<Rightarrow> extract_state \<Rightarrow> uint256 \<times> extract_state" where
  "TraverseAndExtract L nTransactions vBits vHash 0 pos s =
     (if nBitsUsed s \<ge> length vBits then (0, s\<lparr>ex_fBad := True\<rparr>)
      else take_hash vHash (vBits ! nBitsUsed s) (s\<lparr>nBitsUsed := nBitsUsed s + 1\<rparr>))"
| "TraverseAndExtract L nTransactions vBits vHash (Suc height) pos s =
     (if nBitsUsed s \<ge> length vBits then (0, s\<lparr>ex_fBad := True\<rparr>)
      else
        let fParentOfMatch = vBits ! nBitsUsed s; s = s\<lparr>nBitsUsed := nBitsUsed s + 1\<rparr> in
        if \<not> fParentOfMatch then take_hash vHash False s
        else
          case TraverseAndExtract L nTransactions vBits vHash height (pos * 2) s of (left, s) \<Rightarrow>
            if pos * 2 + 1 < CalcTreeWidth nTransactions height then
              (case TraverseAndExtract L nTransactions vBits vHash height (pos * 2 + 1) s of (right, s) \<Rightarrow>
                 (merkle_hash L left right, s))
            else (merkle_hash L left left, s))"


definition ExtractMatches :: "openssl \<Rightarrow> CPartialMerkleTree \<Rightarrow> uint256 \<times> uint256 list \<times> CPartialMerkleTree" where
  "ExtractMatches L t =
     (let n = unat (pmt_nTransactions t) in
      if n = 0 then (0, [], t)
      else if n > MAX_BLOCK_SIZE div 60 then (0, [], t)
      else if length (pmt_vHash t) > n then (0, [], t)
      else if length (pmt_vBits t) < length (pmt_vHash t) then (0, [], t)
      else
        case TraverseAndExtract L n (pmt_vBits t) (pmt_vHash t) (tree_height n 0) 0
            \<lparr>nBitsUsed = 0, nHashUsed = 0, ex_vMatch = [], ex_fBad = pmt_fBad t\<rparr> of
          (hashMerkleRoot, s) \<Rightarrow>
            let t = t\<lparr>pmt_fBad := ex_fBad s\<rparr> in
            if ex_fBad s then (0, ex_vMatch s, t)
            else if (nBitsUsed s + 7) div 8 \<noteq> (length (pmt_vBits t) + 7) div 8 then (0, ex_vMatch s, t)
            else if nHashUsed s \<noteq> length (pmt_vHash t) then (0, ex_vMatch s, t)
            else (hashMerkleRoot, ex_vMatch s, t))"

text \<open>The serialization: the bits are packed into bytes, the first into the lowest bit.\<close>

definition pack_bits :: "bool list \<Rightarrow> bytes" where
  "pack_bits vBits = fold (\<lambda>p vBytes. vBytes[p div 8 := vBytes ! (p div 8) OR push_bit (p mod 8) (of_bool (vBits ! p))])
     [0..<length vBits] (replicate ((length vBits + 7) div 8) 0)"

definition unpack_bits :: "bytes \<Rightarrow> bool list" where
  "unpack_bits vBytes = map (\<lambda>p. vBytes ! (p div 8) AND push_bit (p mod 8) 1 \<noteq> 0) [0..<length vBytes * 8]"

definition ser_pmt :: "CPartialMerkleTree \<Rightarrow> bytes" where
  "ser_pmt t = ser_word (pmt_nTransactions t) @ ser_vec ser_word (pmt_vHash t) @ ser_bytes (pack_bits (pmt_vBits t))"

definition unser_pmt :: "CPartialMerkleTree reader" where
  "unser_pmt = rbind unser_word (\<lambda>n. rbind (unser_vec unser_word) (\<lambda>vHash. rbind unser_bytes (\<lambda>vBytes.
     rreturn \<lparr>pmt_nTransactions = n, pmt_vBits = unpack_bits vBytes, pmt_vHash = vHash, pmt_fBad = False\<rparr>)))"

section \<open>The levels of a tree\<close>

fun adjacent :: "'a list \<Rightarrow> ('a \<times> 'a) list" where
  "adjacent [] = []"
| "adjacent [x] = [(x, x)]"
| "adjacent (x # y # zs) = (x, y) # adjacent zs"

definition pair_up :: "openssl \<Rightarrow> uint256 list \<Rightarrow> uint256 list" where
  "pair_up L xs = map (\<lambda>(x, y). merkle_hash L x y) (adjacent xs)"

lemma length_adjacent [simp]: "length (adjacent xs) = (length xs + 1) div 2"
  by (induction xs rule: adjacent.induct) auto

lemma length_pair_up [simp]: "length (pair_up L xs) = (length xs + 1) div 2"
  by (simp add: pair_up_def)

lemma nth_adjacent: "k < (length xs + 1) div 2 \<Longrightarrow> adjacent xs ! k = (xs ! (2 * k), xs ! min (2 * k + 1) (length xs - 1))"
proof (induction xs arbitrary: k rule: adjacent.induct)
  case (3 x y zs)
  then show ?case
    by (cases k) (auto simp: min_def nth_Cons' split: if_splits)
qed auto

lemma nth_pair_up:
  "k < (length xs + 1) div 2 \<Longrightarrow> pair_up L xs ! k = merkle_hash L (xs ! (2 * k)) (xs ! min (2 * k + 1) (length xs - 1))"
  by (simp add: pair_up_def nth_adjacent)

text \<open>All levels, and the pairs that are hashed.\<close>

function merkle_tower :: "openssl \<Rightarrow> uint256 list \<Rightarrow> uint256 list" where
  "merkle_tower L xs = (if length xs > 1 then xs @ merkle_tower L (pair_up L xs) else xs)"
  by pat_completeness auto
termination by (relation "measure (\<lambda>(L, xs). length xs)") auto

function tower_pairs :: "openssl \<Rightarrow> uint256 list \<Rightarrow> (uint256 \<times> uint256) list" where
  "tower_pairs L xs = (if length xs > 1 then adjacent xs @ tower_pairs L (pair_up L xs) else [])"
  by pat_completeness auto
termination by (relation "measure (\<lambda>(L, xs). length xs)") auto

function merkle_root :: "openssl \<Rightarrow> uint256 list \<Rightarrow> uint256" where
  "merkle_root L xs = (if length xs > 1 then merkle_root L (pair_up L xs) else if xs = [] then 0 else hd xs)"
  by pat_completeness auto
termination by (relation "measure (\<lambda>(L, xs). length xs)") auto

declare merkle_tower.simps [simp del] tower_pairs.simps [simp del] merkle_root.simps [simp del]

lemma merkle_tower_Nil_iff: "merkle_tower L xs = [] \<longleftrightarrow> xs = []"
  by (subst merkle_tower.simps) auto

lemma last_merkle_tower: "xs \<noteq> [] \<Longrightarrow> last (merkle_tower L xs) = merkle_root L xs"
proof (induction xs rule: merkle_root.induct [of _ L, rule_format])
  case (1 L xs)
  show ?case
  proof (cases "length xs > 1")
    case True
    then have "0 < length (pair_up L xs)" by simp
    then have ne: "pair_up L xs \<noteq> []" by (rule length_greater_0_conv [THEN iffD1])
    show ?thesis
      using 1(1) [OF True ne] 1(2) True merkle_tower_Nil_iff [of L "pair_up L xs"] ne
      by (simp add: merkle_tower.simps [of L xs] merkle_root.simps [of L xs])
  next
    case False
    then have "length xs = 1" using 1(2) by (cases xs) auto
    then obtain x where "xs = [x]" by (auto simp: length_Suc_conv)
    then show ?thesis by (simp add: merkle_tower.simps merkle_root.simps)
  qed
qed

lemma merkle_inner_eq:
  assumes "length pre = j" "length xs = n"
  shows "merkle_inner L j n i (pre @ xs @ acc) = pre @ xs @ acc @ pair_up L (drop i xs)"
  using assms
proof (induction "n - i" arbitrary: i acc rule: less_induct)
  case less
  show ?case
  proof (cases "i < n")
    case False
    then show ?thesis using less.prems by (subst merkle_inner.simps) (simp add: pair_up_def)
  next
    case True
    let ?h = "merkle_hash L (xs ! i) (xs ! min (i + 1) (n - 1))"
    have "merkle_inner L j n i (pre @ xs @ acc) = merkle_inner L j n (i + 2) (pre @ xs @ acc @ [?h])"
      using True less.prems by (subst merkle_inner.simps) (simp add: Let_def nth_append min_less_iff_disj)
    also have "\<dots> = pre @ xs @ acc @ [?h] @ pair_up L (drop (i + 2) xs)"
      using less.hyps [of "i + 2" "acc @ [?h]"] True less.prems by simp
    also have "[?h] @ pair_up L (drop (i + 2) xs) = pair_up L (drop i xs)"
    proof (cases "i + 1 < n")
      case True
      then have "drop i xs = xs ! i # xs ! (i + 1) # drop (i + 2) xs"
        using less.prems by (simp add: Cons_nth_drop_Suc)
      then show ?thesis using True by (simp add: pair_up_def)
    next
      case False
      then have "drop i xs = [xs ! i]" "drop (i + 2) xs = []"
        using True less.prems by (simp_all add: Cons_nth_drop_Suc [symmetric])
      moreover have "min (i + 1) (n - 1) = i" using True False by simp
      ultimately show ?thesis by (simp add: pair_up_def)
    qed
    finally show ?thesis by simp
  qed
qed

lemma merkle_outer_eq: "merkle_outer L (length pre) (length xs) (pre @ xs) = pre @ merkle_tower L xs"
proof (induction xs arbitrary: pre rule: merkle_tower.induct [of _ L, rule_format])
  case (1 L xs)
  show ?case
  proof (cases "length xs > 1")
    case True
    have "merkle_outer L (length pre) (length xs) (pre @ xs) =
        merkle_outer L (length (pre @ xs)) (length (pair_up L xs)) ((pre @ xs) @ pair_up L xs)"
      using merkle_inner_eq [of pre "length pre" xs "length xs" L 0 "[]"] True by (subst merkle_outer.simps) simp
    also have "\<dots> = (pre @ xs) @ merkle_tower L (pair_up L xs)" by (rule 1 [OF True])
    finally show ?thesis using True by (subst merkle_tower.simps) simp
  next
    case False
    then show ?thesis by (subst merkle_outer.simps, subst merkle_tower.simps) simp
  qed
qed

lemma BuildMerkleTree_eq:
  "BuildMerkleTree L vtx = (merkle_root L (map (GetHash L) vtx), merkle_tower L (map (GetHash L) vtx))"
  using merkle_outer_eq [of L "[]" "map (GetHash L) vtx"] last_merkle_tower [of "map (GetHash L) vtx" L]
    merkle_tower_Nil_iff [of L "map (GetHash L) vtx"]
  by (auto simp: BuildMerkleTree_def merkle_root.simps)

section \<open>Branches\<close>

definition sibling :: "nat \<Rightarrow> nat" where
  "sibling i = (if even i then i + 1 else i - 1)"

lemma XOR_1_sibling: "(i :: nat) XOR 1 = sibling i"
  unfolding sibling_def by (simp only: xor_one_eq) simp

function merkle_branch :: "openssl \<Rightarrow> uint256 list \<Rightarrow> nat \<Rightarrow> uint256 list" where
  "merkle_branch L xs i =
     (if length xs > 1 then xs ! min (sibling i) (length xs - 1) # merkle_branch L (pair_up L xs) (i div 2) else [])"
  by pat_completeness auto
termination by (relation "measure (\<lambda>(L, xs, i). length xs)") auto

declare merkle_branch.simps [simp del]


lemma merkle_branch_loop_eq: "merkle_branch_loop (pre @ merkle_tower L xs) (length pre) (length xs) i = merkle_branch L xs i"
proof (induction xs i arbitrary: pre rule: merkle_branch.induct [of _ L, rule_format])
  case (1 L xs i)
  show ?case
  proof (cases "length xs > 1")
    case True
    have "merkle_branch_loop (pre @ merkle_tower L xs) (length pre) (length xs) i =
        xs ! min (sibling i) (length xs - 1) #
          merkle_branch_loop ((pre @ xs) @ merkle_tower L (pair_up L xs)) (length (pre @ xs)) (length (pair_up L xs)) (i div 2)"
      using True diff_less [of 1 "length xs"]
      by (subst merkle_branch_loop.simps, simp only: merkle_tower.simps [of L xs])
        (auto simp: XOR_1_sibling [simplified] nth_append min_less_iff_disj Let_def)
    then show ?thesis using 1 [OF True, of "pre @ xs"] True by (simp only: merkle_branch.simps [of L xs] if_True)
  next
    case False
    then show ?thesis by (subst merkle_branch_loop.simps, subst merkle_branch.simps) simp
  qed
qed

lemma GetMerkleBranch_eq:
  assumes "vMerkleTree = [] \<or> vMerkleTree = snd (BuildMerkleTree L vtx)"
  shows "GetMerkleBranch L vtx vMerkleTree i = (merkle_branch L (map (GetHash L) vtx) i, snd (BuildMerkleTree L vtx))"
  using assms merkle_branch_loop_eq [of "[]" L "map (GetHash L) vtx" i]
  by (auto simp: GetMerkleBranch_def Let_def BuildMerkleTree_eq)

text \<open>The pair of a node and its sibling, in the order in which they are hashed.\<close>

definition node_pair :: "nat \<Rightarrow> uint256 \<Rightarrow> uint256 \<Rightarrow> uint256 \<times> uint256" where
  "node_pair i hash otherside = (if odd i then (otherside, hash) else (hash, otherside))"

lemma merkle_check_loop_Cons:
  "merkle_check_loop L hash (otherside # branch) (int i) =
     merkle_check_loop L (case node_pair i hash otherside of (x, y) \<Rightarrow> merkle_hash L x y) branch (int (i div 2))"
  by (simp add: node_pair_def zdiv_int)

lemma adjacent_node_pair:
  "i < length xs \<Longrightarrow> adjacent xs ! (i div 2) = node_pair i (xs ! i) (xs ! min (sibling i) (length xs - 1))"
  by (cases "even i") (auto simp: nth_adjacent node_pair_def sibling_def min_def elim!: evenE oddE)

lemma pair_up_node_pair:
  "i < length xs \<Longrightarrow> pair_up L xs ! (i div 2) =
     (case node_pair i (xs ! i) (xs ! min (sibling i) (length xs - 1)) of (x, y) \<Rightarrow> merkle_hash L x y)"
  by (simp add: pair_up_def adjacent_node_pair)

lemma merkle_check_branch:
  "i < length xs \<Longrightarrow> merkle_check_loop L (xs ! i) (merkle_branch L xs i) (int i) = merkle_root L xs"
proof (induction xs i rule: merkle_branch.induct [of _ L, rule_format])
  case (1 L xs i)
  show ?case
  proof (cases "length xs > 1")
    case True
    have "i div 2 < length (pair_up L xs)" using 1(2) by simp
    from 1(1) [OF True this, unfolded pair_up_node_pair [OF 1(2)]] show ?thesis using True
      by (simp add: merkle_branch.simps [of L xs i] merkle_root.simps [of L xs] merkle_check_loop_Cons del: merkle_check_loop.simps)
  next
    case False
    then show ?thesis using 1(2) by (cases xs) (auto simp: merkle_branch.simps merkle_root.simps)
  qed
qed

text \<open>The pairs that are hashed when a branch is checked, and the depth of a tree.\<close>

fun check_pairs :: "openssl \<Rightarrow> uint256 \<Rightarrow> uint256 list \<Rightarrow> nat \<Rightarrow> (uint256 \<times> uint256) list" where
  "check_pairs L hash [] i = []"
| "check_pairs L hash (otherside # branch) i =
     node_pair i hash otherside #
       check_pairs L (case node_pair i hash otherside of (x, y) \<Rightarrow> merkle_hash L x y) branch (i div 2)"

function merkle_depth :: "nat \<Rightarrow> nat" where
  "merkle_depth n = (if n > 1 then Suc (merkle_depth ((n + 1) div 2)) else 0)"
  by pat_completeness auto
termination by (relation "measure id") auto

declare merkle_depth.simps [simp del]

text \<open>No two different pairs among these have the same hash.\<close>

definition collision_free :: "openssl \<Rightarrow> (uint256 \<times> uint256) set \<Rightarrow> bool" where
  "collision_free L S \<longleftrightarrow> inj_on (\<lambda>(x, y). merkle_hash L x y) S"

lemma collision_freeD:
  "collision_free L S \<Longrightarrow> p \<in> S \<Longrightarrow> q \<in> S \<Longrightarrow>
     (case p of (x, y) \<Rightarrow> merkle_hash L x y) = (case q of (x, y) \<Rightarrow> merkle_hash L x y) \<Longrightarrow> p = q"
  unfolding collision_free_def by (rule inj_onD)

lemma collision_free_subset: "collision_free L S \<Longrightarrow> T \<subseteq> S \<Longrightarrow> collision_free L T"
  unfolding collision_free_def by (rule inj_on_subset)

lemma merkle_check_sound:
  assumes "merkle_check_loop L hash branch (int i) = merkle_root L xs"
    and "i < length xs" "length branch = merkle_depth (length xs)"
    and "collision_free L (set (check_pairs L hash branch i) \<union> set (tower_pairs L xs))"
  shows "hash = xs ! i"
  using assms
proof (induction xs i arbitrary: hash branch rule: merkle_branch.induct [of _ L, rule_format])
  case (1 L xs i)
  show ?case
  proof (cases "length xs > 1")
    case True
    then obtain otherside branch' where b: "branch = otherside # branch'" and len: "length branch' = merkle_depth (length (pair_up L xs))"
      using 1(4) by (subst (asm) merkle_depth.simps) (auto simp: length_Suc_conv)
    let ?p = "node_pair i hash otherside" and ?q = "adjacent xs ! (i div 2)"
    have i2: "i div 2 < (length xs + 1) div 2" using 1(3) by auto
    have "(case ?p of (x, y) \<Rightarrow> merkle_hash L x y) = pair_up L xs ! (i div 2)"
    proof (rule 1(1) [OF True])
      show "merkle_check_loop L (case ?p of (x, y) \<Rightarrow> merkle_hash L x y) branch' (int (i div 2)) = merkle_root L (pair_up L xs)"
        using 1(2) True unfolding b merkle_check_loop_Cons by (simp add: merkle_root.simps [of L xs])
      show "collision_free L (set (check_pairs L (case ?p of (x, y) \<Rightarrow> merkle_hash L x y) branch' (i div 2)) \<union> set (tower_pairs L (pair_up L xs)))"
        by (rule collision_free_subset [OF 1(5)]) (use True in \<open>auto simp: b tower_pairs.simps [of L xs]\<close>)
    qed (use i2 len in simp_all)
    then have "(case ?p of (x, y) \<Rightarrow> merkle_hash L x y) = (case ?q of (x, y) \<Rightarrow> merkle_hash L x y)"
      using i2 by (simp add: pair_up_def)
    moreover have "?q \<in> set (tower_pairs L xs)" using True i2 by (simp add: tower_pairs.simps [of L xs])
    ultimately have "?p = ?q" using collision_freeD [OF 1(5)] by (simp add: b)
    then show ?thesis unfolding adjacent_node_pair [OF 1(3)] by (simp add: node_pair_def split: if_splits)
  next
    case False
    then have "length xs = 1" using 1(3) by simp
    then show ?thesis using 1(2,3,4) by (auto simp: length_Suc_conv merkle_depth.simps merkle_root.simps)
  qed
qed

section \<open>Walking a partial tree\<close>

lemma CalcTreeWidth_iff: "k < CalcTreeWidth n h \<longleftrightarrow> k * 2 ^ h < n"
proof -
  have "k < (n + 2 ^ h - 1) div 2 ^ h \<longleftrightarrow> Suc k * 2 ^ h \<le> n + 2 ^ h - 1"
    unfolding Suc_le_eq [symmetric] by (rule less_eq_div_iff_mult_less_eq) simp
  also have "\<dots> \<longleftrightarrow> k * 2 ^ h < n"
  proof -
    have "\<And>a b :: nat. 0 < b \<Longrightarrow> b + a \<le> n + b - 1 \<longleftrightarrow> a < n" by arith
    from this [of "2 ^ h" "k * 2 ^ h"] show ?thesis by simp
  qed
  finally show ?thesis by (simp only: CalcTreeWidth_def)
qed

lemma length_levels: "length ((pair_up L ^^ h) xs) = CalcTreeWidth (length xs) h"
  by (induction h) (simp_all add: CalcTreeWidth_Suc, simp add: CalcTreeWidth_def)

lemma CalcHash_levels: "pos < CalcTreeWidth (length xs) h \<Longrightarrow> CalcHash L (length xs) xs h pos = (pair_up L ^^ h) xs ! pos"
proof (induction h arbitrary: pos)
  case (Suc h)
  let ?w = "CalcTreeWidth (length xs) h"
  have pos: "pos < (?w + 1) div 2" using Suc.prems by (simp add: CalcTreeWidth_Suc)
  then have l: "pos * 2 < ?w" by auto
  have "min (2 * pos + 1) (?w - 1) = (if pos * 2 + 1 < ?w then pos * 2 + 1 else pos * 2)" using l by auto
  then show ?case using pos l Suc.IH [of "pos * 2"] Suc.IH [of "pos * 2 + 1"]
    by (simp add: nth_pair_up length_levels Let_def mult.commute)
qed simp

lemma merkle_root_CalcHash:
  assumes "xs \<noteq> []"
  shows "CalcHash L (length xs) xs (tree_height (length xs) h) 0 = merkle_root L ((pair_up L ^^ h) xs)"
proof (induction "length xs" h rule: tree_height.induct)
  case (1 h)
  have len: "length ((pair_up L ^^ h) xs) = CalcTreeWidth (length xs) h" by (rule length_levels)
  show ?case
  proof (cases "CalcTreeWidth (length xs) h > 1")
    case True
    then show ?thesis using 1 [OF True] len by (simp add: tree_height.simps [of _ h] merkle_root.simps [of L "(pair_up L ^^ h) xs"])
  next
    case False
    have 0: "0 < CalcTreeWidth (length xs) h" using assms by (simp add: CalcTreeWidth_iff)
    then obtain x where "(pair_up L ^^ h) xs = [x]" using False len by (cases "(pair_up L ^^ h) xs"; cases "tl ((pair_up L ^^ h) xs)") auto
    then show ?thesis using CalcHash_levels [OF 0, of L] False
      by (simp add: tree_height.simps [of _ h] merkle_root.simps)
  qed
qed

text \<open>The transactions below a node, and those of them that are matched.\<close>

abbreviation (input) "leaves_below n h pos \<equiv> [pos * 2 ^ h..<min ((pos + 1) * 2 ^ h) n]"

definition matched_below :: "nat \<Rightarrow> uint256 list \<Rightarrow> bool list \<Rightarrow> nat \<Rightarrow> nat \<Rightarrow> uint256 list" where
  "matched_below n xs m h pos = map ((!) xs) (filter ((!) m) (leaves_below n h pos))"

lemma leaves_below_Suc:
  "leaves_below n (Suc h) pos =
     leaves_below n h (pos * 2) @ (if pos * 2 + 1 < CalcTreeWidth n h then leaves_below n h (pos * 2 + 1) else [])"
proof (cases "pos * 2 + 1 < CalcTreeWidth n h")
  case True
  then have "(pos * 2 + 1) * 2 ^ h < n" by (simp only: CalcTreeWidth_iff)
  then have m: "min ((pos * 2 + 1) * 2 ^ h) n = (pos * 2 + 1) * 2 ^ h" by simp
  have u: "(pos * 2 + 1 + 1) * 2 ^ h = (pos + 1) * 2 ^ Suc h" "pos * 2 * 2 ^ h = pos * 2 ^ Suc h" by (simp_all add: algebra_simps)
  have "(pos * 2 + 1) * 2 ^ h \<le> min ((pos + 1) * 2 ^ Suc h) n"
    using True by (auto simp: CalcTreeWidth_iff algebra_simps)
  then have "[pos * 2 ^ Suc h..<min ((pos + 1) * 2 ^ Suc h) n] =
      [pos * 2 ^ Suc h..<(pos * 2 + 1) * 2 ^ h] @ [(pos * 2 + 1) * 2 ^ h..<min ((pos + 1) * 2 ^ Suc h) n]"
    using upt_add_eq_append [of "pos * 2 ^ Suc h" "(pos * 2 + 1) * 2 ^ h" "min ((pos + 1) * 2 ^ Suc h) n - (pos * 2 + 1) * 2 ^ h"]
    by (simp add: algebra_simps)
  then show ?thesis using True unfolding m u by simp
next
  case False
  then have "n \<le> (pos * 2 + 1) * 2 ^ h" by (simp only: CalcTreeWidth_iff not_less)
  then have "min ((pos * 2 + 1) * 2 ^ h) n = n" "min ((pos + 1) * 2 ^ Suc h) n = n" by (simp_all add: algebra_simps min_def)
  then show ?thesis using False by (simp add: mult.assoc)
qed

lemma matched_below_Suc:
  "matched_below n xs m (Suc h) pos =
     matched_below n xs m h (pos * 2) @ (if pos * 2 + 1 < CalcTreeWidth n h then matched_below n xs m h (pos * 2 + 1) else [])"
  unfolding matched_below_def leaves_below_Suc by simp

lemma matched_below_none: "\<not> parent_of_match n m h pos \<Longrightarrow> matched_below n xs m h pos = []"
  by (auto simp: parent_of_match_def matched_below_def list_ex_iff filter_empty_conv)

text \<open>The bits \<open>B\<close> and hashes \<open>K\<close> that \<open>TraverseAndBuild\<close> appends for a node, wherever they stand, are those from which
\<open>TraverseAndExtract\<close> computes the hash of the node and the matched transactions below it.\<close>

definition node_code :: "openssl \<Rightarrow> uint256 list \<Rightarrow> bool list \<Rightarrow> nat \<Rightarrow> nat \<Rightarrow> bool list \<Rightarrow> uint256 list \<Rightarrow> bool" where
  "node_code L xs m h pos B K \<longleftrightarrow>
     (\<forall>b0 b1 k0 k1 s. nBitsUsed s = length b0 \<and> nHashUsed s = length k0 \<longrightarrow>
        TraverseAndExtract L (length xs) (b0 @ B @ b1) (k0 @ K @ k1) h pos s =
          (CalcHash L (length xs) xs h pos, s\<lparr>nBitsUsed := length b0 + length B, nHashUsed := length k0 + length K,
             ex_vMatch := ex_vMatch s @ matched_below (length xs) xs m h pos\<rparr>))"

lemma node_codeD:
  "node_code L xs m h pos B K \<Longrightarrow> nBitsUsed s = length b0 \<Longrightarrow> nHashUsed s = length k0 \<Longrightarrow>
     TraverseAndExtract L (length xs) (b0 @ B @ b1) (k0 @ K @ k1) h pos s =
          (CalcHash L (length xs) xs h pos, s\<lparr>nBitsUsed := length b0 + length B, nHashUsed := length k0 + length K,
             ex_vMatch := ex_vMatch s @ matched_below (length xs) xs m h pos\<rparr>)"
  unfolding node_code_def by blast

lemma node_code_leaf:
  assumes "pos < length xs"
  shows "node_code L xs m 0 pos [m ! pos] [xs ! pos]"
  using assms by (auto simp: node_code_def take_hash_def Let_def nth_append matched_below_def upt_conv_Cons)

lemma node_code_stop:
  "\<not> parent_of_match (length xs) m (Suc h) pos \<Longrightarrow> node_code L xs m (Suc h) pos [False] [CalcHash L (length xs) xs (Suc h) pos]"
  by (auto simp: node_code_def take_hash_def Let_def nth_append matched_below_none simp del: CalcHash.simps)

lemma node_code_left:
  assumes "node_code L xs m h (pos * 2) B K" "\<not> pos * 2 + 1 < CalcTreeWidth (length xs) h"
  shows "node_code L xs m (Suc h) pos (True # B) K"
  unfolding node_code_def
proof (intro allI impI)
  fix b0 b1 :: "bool list" and k0 k1 :: "uint256 list" and s :: extract_state
  assume "nBitsUsed s = length b0 \<and> nHashUsed s = length k0"
  then show "TraverseAndExtract L (length xs) (b0 @ (True # B) @ b1) (k0 @ K @ k1) (Suc h) pos s =
      (CalcHash L (length xs) xs (Suc h) pos, s\<lparr>nBitsUsed := length b0 + length (True # B), nHashUsed := length k0 + length K,
         ex_vMatch := ex_vMatch s @ matched_below (length xs) xs m (Suc h) pos\<rparr>)"
    using assms(2) node_codeD [OF assms(1), of "s\<lparr>nBitsUsed := Suc (length b0)\<rparr>" "b0 @ [True]" k0 b1 k1]
    by (simp add: nth_append matched_below_Suc Let_def)
qed

lemma node_code_both:
  assumes "node_code L xs m h (pos * 2) B K" "pos * 2 + 1 < CalcTreeWidth (length xs) h"
    and "node_code L xs m h (pos * 2 + 1) B' K'"
  shows "node_code L xs m (Suc h) pos (True # B @ B') (K @ K')"
  unfolding node_code_def
proof (intro allI impI)
  fix b0 b1 :: "bool list" and k0 k1 :: "uint256 list" and s :: extract_state
  let ?s = "s\<lparr>nBitsUsed := Suc (length b0)\<rparr>"
  let ?s1 = "?s\<lparr>nBitsUsed := length (b0 @ True # B), nHashUsed := length (k0 @ K),
      ex_vMatch := ex_vMatch s @ matched_below (length xs) xs m h (pos * 2)\<rparr>"
  assume s: "nBitsUsed s = length b0 \<and> nHashUsed s = length k0"
  show "TraverseAndExtract L (length xs) (b0 @ (True # B @ B') @ b1) (k0 @ (K @ K') @ k1) (Suc h) pos s =
      (CalcHash L (length xs) xs (Suc h) pos, s\<lparr>nBitsUsed := length b0 + length (True # B @ B'), nHashUsed := length k0 + length (K @ K'),
         ex_vMatch := ex_vMatch s @ matched_below (length xs) xs m (Suc h) pos\<rparr>)"
    using s assms(2) node_codeD [OF assms(1), of ?s "b0 @ [True]" k0 "B' @ b1" "K' @ k1"]
      node_codeD [OF assms(3), of ?s1 "b0 @ True # B" "k0 @ K" b1 k1]
    by (simp add: nth_append matched_below_Suc Let_def)
qed

lemma parent_of_match_leaf: "pos < n \<Longrightarrow> parent_of_match n m 0 pos = m ! pos"
  by (simp add: parent_of_match_def upt_conv_Cons)

definition tree_code :: "openssl \<Rightarrow> uint256 list \<Rightarrow> bool list \<Rightarrow> nat \<Rightarrow> nat \<Rightarrow> bool list \<Rightarrow> uint256 list \<Rightarrow> bool" where
  "tree_code L xs m h pos B K \<longleftrightarrow>
     (\<forall>b0 k0. TraverseAndBuild L (length xs) xs m h pos (b0, k0) = (b0 @ B, k0 @ K)) \<and> node_code L xs m h pos B K \<and>
     length K \<le> length B \<and> length K \<le> length (leaves_below (length xs) h pos) \<and> length B < 2 ^ Suc h"

lemma TraverseAndBuild_code: "pos < CalcTreeWidth (length xs) h \<Longrightarrow> \<exists>B K. tree_code L xs m h pos B K"
proof (induction h arbitrary: pos)
  case 0
  then have "pos < length xs" by (simp add: CalcTreeWidth_def)
  then have "tree_code L xs m 0 pos [m ! pos] [xs ! pos]"
    using node_code_leaf [of pos xs L m] by (simp add: tree_code_def parent_of_match_leaf)
  then show ?case by blast
next
  case (Suc h)
  let ?n = "length xs"
  have l: "pos * 2 < CalcTreeWidth ?n h" using Suc.prems by (auto simp: CalcTreeWidth_Suc)
  show ?case
  proof (cases "parent_of_match ?n m (Suc h) pos")
    case False
    have two_le: "1 < (2 :: nat) ^ Suc (Suc h)" by (rule one_less_power) simp_all
    have "pos * 2 ^ Suc h < ?n" using Suc.prems by (simp only: CalcTreeWidth_iff)
    then have "tree_code L xs m (Suc h) pos [False] [CalcHash L ?n xs (Suc h) pos]"
      using False node_code_stop [OF False, of L] two_le by (simp add: tree_code_def Suc_le_eq del: CalcHash.simps power_Suc)
    then show ?thesis by blast
  next
    case True
    obtain B K where left: "tree_code L xs m h (pos * 2) B K" using Suc.IH [OF l] by blast
    show ?thesis
    proof (cases "pos * 2 + 1 < CalcTreeWidth ?n h")
      case False
      then have "tree_code L xs m (Suc h) pos (True # B) K"
        using left True node_code_left [of L xs m h pos B K] leaves_below_Suc [of pos h ?n] by (simp add: tree_code_def Let_def)
      then show ?thesis by blast
    next
      case r: True
      obtain B' K' where right: "tree_code L xs m h (pos * 2 + 1) B' K'" using Suc.IH [OF r] by blast
      have "tree_code L xs m (Suc h) pos (True # B @ B') (K @ K')"
        using left right True r node_code_both [of L xs m h pos B K B' K'] arg_cong [OF leaves_below_Suc [of pos h ?n], of length]
        by (simp add: tree_code_def Let_def del: length_upt)
      then show ?thesis by blast
    qed
  qed
qed

lemma bit_set_byte: "j < 8 \<Longrightarrow> bit (x OR push_bit r (of_bool b) :: byte) j \<longleftrightarrow> bit x j \<or> j = r \<and> b"
  by (cases b) (auto simp: bit_or_iff bit_exp_iff)

lemma bit_pack_bits:
  fixes ys :: bytes
  assumes "k \<le> length bs" "length ys = (length bs + 7) div 8"
    and "\<forall>i < length ys. \<forall>j < 8. \<not> bit (ys ! i) j"
  shows "length (fold (\<lambda>p vBytes. vBytes[p div 8 := vBytes ! (p div 8) OR push_bit (p mod 8) (of_bool (bs ! p))]) [0..<k] ys) = length ys \<and>
    (\<forall>i < length ys. \<forall>j < 8. bit (fold (\<lambda>p vBytes. vBytes[p div 8 := vBytes ! (p div 8) OR push_bit (p mod 8) (of_bool (bs ! p))]) [0..<k] ys ! i) j \<longleftrightarrow>
       8 * i + j < k \<and> bs ! (8 * i + j))"
  using assms(1)
proof (induction k)
  case (Suc k)
  have k: "k div 8 < length ys" using Suc.prems assms(2) by auto
  have eq: "8 * i + j = k \<longleftrightarrow> i = k div 8 \<and> j = k mod 8" if "j < 8" for i j using that by auto
  let ?z = "fold (\<lambda>p vBytes. vBytes[p div 8 := vBytes ! (p div 8) OR push_bit (p mod 8) (of_bool (bs ! p))]) [0..<k] ys"
  have z: "length ?z = length ys" "\<And>i j. i < length ys \<Longrightarrow> j < 8 \<Longrightarrow> bit (?z ! i) j \<longleftrightarrow> 8 * i + j < k \<and> bs ! (8 * i + j)"
    using Suc by auto
  show ?case
    using z k eq by (auto simp: nth_list_update bit_set_byte less_Suc_eq)
qed (use assms(3) in auto)

lemma unpack_pack_bits: "unpack_bits (pack_bits bs) = bs @ replicate ((length bs + 7) div 8 * 8 - length bs) False"
proof (rule nth_equalityI)
  let ?ys = "replicate ((length bs + 7) div 8) 0 :: bytes"
  have len: "length (pack_bits bs) = (length bs + 7) div 8"
    and bits: "\<And>i j. i < (length bs + 7) div 8 \<Longrightarrow> j < 8 \<Longrightarrow> bit (pack_bits bs ! i) j \<longleftrightarrow> 8 * i + j < length bs \<and> bs ! (8 * i + j)"
    using bit_pack_bits [of "length bs" bs ?ys] by (auto simp: pack_bits_def)
  show l: "length (unpack_bits (pack_bits bs)) = length (bs @ replicate ((length bs + 7) div 8 * 8 - length bs) False)"
    by (simp add: unpack_bits_def len)
  fix p assume p: "p < length (unpack_bits (pack_bits bs))"
  then have p8: "p div 8 < (length bs + 7) div 8" by (auto simp: unpack_bits_def len)
  have "unpack_bits (pack_bits bs) ! p = bit (pack_bits bs ! (p div 8)) (p mod 8)"
    using p by (simp add: unpack_bits_def bit_iff_and_push_bit_not_eq_0)
  also have "\<dots> \<longleftrightarrow> p < length bs \<and> bs ! p" using bits [OF p8, of "p mod 8"] by simp
  finally show "unpack_bits (pack_bits bs) ! p = (bs @ replicate ((length bs + 7) div 8 * 8 - length bs) False) ! p"
    using p unfolding l by (simp add: nth_append)
qed

lemma tree_height_le: "CalcTreeWidth n k \<le> 1 \<Longrightarrow> h \<le> k \<Longrightarrow> tree_height n h \<le> k"
proof (induction n h rule: tree_height.induct)
  case (1 n h)
  show ?case
  proof (cases "CalcTreeWidth n h > 1")
    case True
    then have "Suc h \<le> k" using 1(2,3) by (cases "h = k") auto
    then show ?thesis using 1 True by (simp add: tree_height.simps [of n h])
  next
    case False
    then show ?thesis using 1(3) by (simp add: tree_height.simps [of n h])
  qed
qed

lemma tree_height_small:
  assumes "n \<le> MAX_BLOCK_SIZE div 60"
  shows "tree_height n 0 \<le> 15"
proof (rule tree_height_le)
  have "n + 2 ^ 15 - 1 < 2 * 2 ^ 15" using assms by (simp add: MAX_BLOCK_SIZE_def)
  then have "(n + 2 ^ 15 - 1) div 2 ^ 15 < 2" by (rule less_mult_imp_div_less)
  then show "CalcTreeWidth n 15 \<le> 1" unfolding CalcTreeWidth_def by linarith
qed simp

lemma width_tree_height: "0 < n \<Longrightarrow> CalcTreeWidth n (tree_height n h) = 1"
proof (induction n h rule: tree_height.induct)
  case (1 n h)
  have "0 < CalcTreeWidth n h" using 1(2) CalcTreeWidth_iff [of 0 n h] by simp
  then show ?case using 1 by (cases "CalcTreeWidth n h > 1") (simp_all add: tree_height.simps [of n h])
qed

lemma leaves_below_root: "0 < n \<Longrightarrow> leaves_below n (tree_height n 0) 0 = [0..<n]"
  using width_tree_height [of n 0] CalcTreeWidth_iff [of 1 n "tree_height n 0"] by (simp add: min_def)

lemma map_filter_zip:
  assumes "length m = length xs"
  shows "map fst (filter snd (zip xs m)) = map ((!) xs) (filter ((!) m) [0..<length xs])"
proof -
  have "zip xs m = map (\<lambda>i. (xs ! i, m ! i)) [0..<length xs]" using assms by (intro nth_equalityI) simp_all
  then show ?thesis by (simp add: filter_map comp_def)
qed

lemma matched_below_root:
  "xs \<noteq> [] \<Longrightarrow> length m = length xs \<Longrightarrow>
     matched_below (length xs) xs m (tree_height (length xs) 0) 0 = map fst (filter snd (zip xs m))"
  using leaves_below_root [of "length xs"] map_filter_zip [of m xs] by (simp add: matched_below_def)

section \<open>What a verified partial tree shows\<close>

text \<open>The pairs that \<open>TraverseAndExtract\<close> hashes.\<close>

fun extract_pairs :: "openssl \<Rightarrow> nat \<Rightarrow> bool list \<Rightarrow> uint256 list \<Rightarrow> nat \<Rightarrow> nat \<Rightarrow> extract_state \<Rightarrow> (uint256 \<times> uint256) list" where
  "extract_pairs L n vBits vHash 0 pos s = []"
| "extract_pairs L n vBits vHash (Suc h) pos s =
     (let s0 = s\<lparr>nBitsUsed := nBitsUsed s + 1\<rparr> in
      if nBitsUsed s \<ge> length vBits \<or> \<not> vBits ! nBitsUsed s then []
      else case TraverseAndExtract L n vBits vHash h (pos * 2) s0 of (left, s1) \<Rightarrow>
        extract_pairs L n vBits vHash h (pos * 2) s0 @
        (if pos * 2 + 1 < CalcTreeWidth n h
         then (left, fst (TraverseAndExtract L n vBits vHash h (pos * 2 + 1) s1)) # extract_pairs L n vBits vHash h (pos * 2 + 1) s1
         else [(left, left)]))"

lemma take_hash_bad: "ex_fBad s \<Longrightarrow> ex_fBad (snd (take_hash vHash m s))"
  by (simp add: take_hash_def Let_def)

lemma TraverseAndExtract_bad: "ex_fBad s \<Longrightarrow> ex_fBad (snd (TraverseAndExtract L n vBits vHash h pos s))"
proof (induction h arbitrary: pos s)
  case (Suc h)
  let ?s = "s\<lparr>nBitsUsed := Suc (nBitsUsed s)\<rparr>"
  obtain l s1 where l: "TraverseAndExtract L n vBits vHash h (pos * 2) ?s = (l, s1)" by fastforce
  then have s1: "ex_fBad s1" using Suc.IH [of ?s "pos * 2"] Suc.prems by simp
  then have "ex_fBad (snd (TraverseAndExtract L n vBits vHash h (pos * 2 + 1) s1))" by (rule Suc.IH)
  then show ?case using Suc.prems l s1 by (simp add: take_hash_bad Let_def split: prod.split) force
qed (simp add: take_hash_bad)

lemma levels_pairs:
  "CalcTreeWidth (length xs) h > 1 \<Longrightarrow> set (tower_pairs L ((pair_up L ^^ h) xs)) \<subseteq> set (tower_pairs L xs)"
proof (induction h)
  case (Suc h)
  then have w: "CalcTreeWidth (length xs) h > 1" by (auto simp: CalcTreeWidth_Suc)
  then have "set (tower_pairs L ((pair_up L ^^ Suc h) xs)) \<subseteq> set (tower_pairs L ((pair_up L ^^ h) xs))"
    by (subst (2) tower_pairs.simps) (simp add: length_levels)
  then show ?case using Suc.IH [OF w] by blast
qed simp

lemma CalcHash_pair:
  assumes "pos < CalcTreeWidth (length xs) (Suc h)" "CalcTreeWidth (length xs) h > 1"
  shows "(CalcHash L (length xs) xs h (pos * 2),
      if pos * 2 + 1 < CalcTreeWidth (length xs) h then CalcHash L (length xs) xs h (pos * 2 + 1) else CalcHash L (length xs) xs h (pos * 2))
    \<in> set (tower_pairs L xs)"
proof -
  let ?ys = "(pair_up L ^^ h) xs"
  have pos: "pos < (length ?ys + 1) div 2" using assms(1) by (simp add: length_levels CalcTreeWidth_Suc)
  then have l: "pos * 2 < CalcTreeWidth (length xs) h" by (auto simp: length_levels)
  have "min (2 * pos + 1) (length ?ys - 1) = (if pos * 2 + 1 < CalcTreeWidth (length xs) h then pos * 2 + 1 else pos * 2)"
    using l by (auto simp: length_levels)
  then have "(?ys ! (pos * 2), if pos * 2 + 1 < CalcTreeWidth (length xs) h then ?ys ! (pos * 2 + 1) else ?ys ! (pos * 2)) = adjacent ?ys ! pos"
    using nth_adjacent [OF pos] by (simp add: mult.commute)
  also have "\<dots> \<in> set (tower_pairs L ?ys)"
    using pos assms(2) by (subst tower_pairs.simps) (simp add: length_levels)
  finally show ?thesis
    using levels_pairs [OF assms(2), of L] l CalcHash_levels [OF l, of L] CalcHash_levels [of "pos * 2 + 1" xs h L] by (auto split: if_splits)
qed

lemma TraverseAndExtract_sound:
  assumes "TraverseAndExtract L (length xs) vBits vHash h pos s = (CalcHash L (length xs) xs h pos, s')" "\<not> ex_fBad s'"
    and "pos < CalcTreeWidth (length xs) h" "\<forall>k < h. CalcTreeWidth (length xs) k > 1"
    and "collision_free L (set (extract_pairs L (length xs) vBits vHash h pos s) \<union> set (tower_pairs L xs))"
  shows "\<exists>new. ex_vMatch s' = ex_vMatch s @ new \<and> subseq new (map ((!) xs) (leaves_below (length xs) h pos))"
  using assms
proof (induction h arbitrary: pos s s')
  case 0
  then have "pos < length xs" by (simp add: CalcTreeWidth_def)
  then show ?case using 0
    by (auto simp: take_hash_def Let_def upt_conv_Cons split: if_splits)
next
  case (Suc h)
  let ?n = "length xs" let ?s = "s\<lparr>nBitsUsed := Suc (nBitsUsed s)\<rparr>"
  let ?P = "set (extract_pairs L ?n vBits vHash (Suc h) pos s) \<union> set (tower_pairs L xs)"
  let ?C = "CalcHash L ?n xs h"
  show ?case
  proof (cases "nBitsUsed s < length vBits \<and> vBits ! nBitsUsed s")
    case False
    then have "ex_vMatch s' = ex_vMatch s" using Suc.prems(1,2)
      by (auto simp: take_hash_def Let_def simp del: CalcHash.simps split: if_splits)
    then show ?thesis by (intro exI [of _ "[]"]) simp
  next
    case bit: True
    obtain l s1 where l: "TraverseAndExtract L ?n vBits vHash h (pos * 2) ?s = (l, s1)" by fastforce
    have lpos: "pos * 2 < CalcTreeWidth ?n h" using Suc.prems(3) by (auto simp: CalcTreeWidth_Suc)
    have w: "CalcTreeWidth ?n h > 1" "\<forall>k < h. CalcTreeWidth ?n k > 1" using Suc.prems(4) by auto
    note pair = CalcHash_pair [OF Suc.prems(3) w(1), of L]
    have sub: "set (extract_pairs L ?n vBits vHash h (pos * 2) ?s) \<subseteq> ?P" using bit by (auto simp: Let_def l)
    show ?thesis
    proof (cases "pos * 2 + 1 < CalcTreeWidth ?n h")
      case False
      have s': "s1 = s'" "merkle_hash L l l = merkle_hash L (?C (pos * 2)) (?C (pos * 2))"
        using Suc.prems(1) bit False l by (simp_all add: Let_def)
      have "(l, l) = (?C (pos * 2), ?C (pos * 2))"
        by (rule collision_freeD [OF Suc.prems(5)]) (use bit False l s'(2) pair in \<open>auto simp: Let_def\<close>)
      then have "\<exists>new. ex_vMatch s' = ex_vMatch ?s @ new \<and> subseq new (map ((!) xs) (leaves_below ?n h (pos * 2)))"
        using Suc.IH [OF _ Suc.prems(2) lpos w(2), of ?s] l s'(1) collision_free_subset [OF Suc.prems(5)] sub by auto
      then show ?thesis unfolding leaves_below_Suc using False by simp
    next
      case right: True
      obtain r s2 where r: "TraverseAndExtract L ?n vBits vHash h (pos * 2 + 1) s1 = (r, s2)" by fastforce
      have s': "s2 = s'" "merkle_hash L l r = merkle_hash L (?C (pos * 2)) (?C (pos * 2 + 1))"
        using Suc.prems(1) bit right l r by (simp_all add: Let_def)
      have eq: "(l, r) = (?C (pos * 2), ?C (pos * 2 + 1))"
        by (rule collision_freeD [OF Suc.prems(5)]) (use bit right l r s'(2) pair in \<open>auto simp: Let_def\<close>)
      have ok1: "\<not> ex_fBad s1" using TraverseAndExtract_bad [of s1 L ?n vBits vHash h "pos * 2 + 1"] r s'(1) Suc.prems(2) by auto
      have sub2: "set (extract_pairs L ?n vBits vHash h (pos * 2 + 1) s1) \<subseteq> ?P" using bit right by (auto simp: Let_def l)
      obtain new1 where n1: "ex_vMatch s1 = ex_vMatch ?s @ new1" "subseq new1 (map ((!) xs) (leaves_below ?n h (pos * 2)))"
        using Suc.IH [OF _ ok1 lpos w(2), of ?s] l eq collision_free_subset [OF Suc.prems(5)] sub by auto
      obtain new2 where n2: "ex_vMatch s' = ex_vMatch s1 @ new2" "subseq new2 (map ((!) xs) (leaves_below ?n h (pos * 2 + 1)))"
        using Suc.IH [OF _ Suc.prems(2) right w(2), of s1] r eq s'(1) collision_free_subset [OF Suc.prems(5)] sub2 by auto
      have "subseq (new1 @ new2) (map ((!) xs) (leaves_below ?n (Suc h) pos))"
        unfolding leaves_below_Suc using list_emb_append_mono [OF n1(2) n2(2)] right by simp
      then show ?thesis using n1(1) n2(1) by (intro exI [of _ "new1 @ new2"]) simp
    qed
  qed
qed

section \<open>Properties\<close>

definition other_tx :: CTransaction where
  "other_tx = example_tx\<lparr>tx_nTime := 8\<rparr>"

text \<open>The branch of a transaction, from the tree that is cached in the block or from one built for it, leads from the hash of the
transaction to the root of the block.\<close>

theorem merkle_branch_roundtrip:
  assumes "nIndex < length vtx" "vMerkleTree = [] \<or> vMerkleTree = snd (BuildMerkleTree L vtx)"
  shows "CheckMerkleBranch L (GetHash L (vtx ! nIndex)) (fst (GetMerkleBranch L vtx vMerkleTree nIndex)) (int nIndex) =
    fst (BuildMerkleTree L vtx)"
  using assms merkle_check_branch [of nIndex "map (GetHash L) vtx" L] GetMerkleBranch_eq [OF assms(2)]
  by (simp add: CheckMerkleBranch_def BuildMerkleTree_eq)

theorem merkle_branch_roundtrip_witness:
  "CheckMerkleBranch reference_ssl (GetHash reference_ssl example_tx) (fst (GetMerkleBranch reference_ssl [example_tx, example_tx, example_tx] [] 2)) 2 =
   fst (BuildMerkleTree reference_ssl [example_tx, example_tx, example_tx])"
  using merkle_branch_roundtrip [of 2 "[example_tx, example_tx, example_tx]" "[]" reference_ssl] by simp

text \<open>C19. A branch proves membership: where a branch as long as the tree of a block is deep leads from a hash to the root of the block, and its index is less
than the number of transactions, the hash is that of the transaction at the index, unless two different pairs among those hashed for the check and for the tree have
the same hash. The length is a condition, which \<open>CheckMerkleBranch\<close> does not check itself: a shorter branch leads to the root from an inner node.\<close>

theorem merkle_branch_sound:
  assumes "CheckMerkleBranch L hash vMerkleBranch (int nIndex) = fst (BuildMerkleTree L vtx)"
    and "nIndex < length vtx" "length vMerkleBranch = merkle_depth (length vtx)"
    and "collision_free L (set (check_pairs L hash vMerkleBranch nIndex) \<union> set (tower_pairs L (map (GetHash L) vtx)))"
  shows "hash = GetHash L (vtx ! nIndex)"
  using merkle_check_sound [of L hash vMerkleBranch nIndex "map (GetHash L) vtx"] assms
  by (simp add: CheckMerkleBranch_def BuildMerkleTree_eq)

text \<open>The second of two transactions, with its branch.\<close>

theorem merkle_branch_sound_witness:
  "CheckMerkleBranch reference_ssl (Hash reference_ssl (ser_tx other_tx)) [GetHash reference_ssl example_tx] 1 =
     fst (BuildMerkleTree reference_ssl [example_tx, other_tx]) \<and>
   Hash reference_ssl (ser_tx other_tx) = GetHash reference_ssl ([example_tx, other_tx] ! 1)"
proof -
  have d: "merkle_depth (Suc (Suc 0)) = Suc 0" by (simp add: merkle_depth.simps)
  have c: "CheckMerkleBranch reference_ssl (Hash reference_ssl (ser_tx other_tx)) [GetHash reference_ssl example_tx] (int 1) =
      fst (BuildMerkleTree reference_ssl [example_tx, other_tx])"
    by (simp add: CheckMerkleBranch_def BuildMerkleTree_eq merkle_root.simps pair_up_def GetHash_def node_pair_def)
  show ?thesis
    using merkle_branch_sound [OF c] c by (simp add: d collision_free_def tower_pairs.simps pair_up_def node_pair_def GetHash_def)
qed

lemma unser_ser_pmt:
  assumes "length (pmt_vHash t) \<le> MAX_SIZE" "length (pack_bits (pmt_vBits t)) \<le> MAX_SIZE"
  shows "unser_pmt (ser_pmt t) = Inr (t\<lparr>pmt_fBad := False,
    pmt_vBits := pmt_vBits t @ replicate ((length (pmt_vBits t) + 7) div 8 * 8 - length (pmt_vBits t)) False\<rparr>, [])"
  using assms by (simp add: unser_pmt_def ser_pmt_def unpack_pack_bits word_codec.dec_enc word_codec.unser_ser_vec bytes_codec.dec_enc_Nil)

text \<open>C20. What a light client reads: the partial tree of a block, written and read back, gives the merkle root of the block and exactly the
matched transactions, in the order of the block.\<close>

theorem partial_merkle_roundtrip:
  assumes "0 < length vtx" "length vtx \<le> MAX_BLOCK_SIZE div 60" "length vMatch = length vtx"
  shows "\<exists>t. unser_pmt (ser_pmt (CPartialMerkleTree_of L (map (GetHash L) vtx) vMatch)) = Inr (t, []) \<and>
    ExtractMatches L t = (fst (BuildMerkleTree L vtx), map fst (filter snd (zip (map (GetHash L) vtx) vMatch)), t)"
proof -
  let ?xs = "map (GetHash L) vtx" let ?n = "length ?xs"
  have n: "?n = length vtx" "0 < ?n" "?n \<le> 16666" using assms(1,2) by (simp_all add: MAX_BLOCK_SIZE_def)
  have "0 < CalcTreeWidth ?n (tree_height ?n 0)" using n(2) by (simp add: CalcTreeWidth_iff)
  then obtain B K where "tree_code L ?xs vMatch (tree_height ?n 0) 0 B K" using TraverseAndBuild_code by blast
  then have tb: "TraverseAndBuild L ?n ?xs vMatch (tree_height ?n 0) 0 ([], []) = (B, K)"
    and code: "node_code L ?xs vMatch (tree_height ?n 0) 0 B K"
    and len: "length K \<le> length B" "length K \<le> ?n" "length B < 2 ^ Suc (tree_height ?n 0)"
    using leaves_below_root [OF n(2)] by (auto simp: tree_code_def simp del: length_map)
  have "length B < 2 ^ Suc 15"
    using len(3) power_increasing [of "Suc (tree_height ?n 0)" "Suc 15" "2 :: nat"] tree_height_small [of ?n] assms(2) by (simp del: power_Suc)
  then have B: "length B < 65536" by simp
  define pad where "pad = replicate ((length B + 7) div 8 * 8 - length B) False"
  define t where "t = \<lparr>pmt_nTransactions = of_nat ?n, pmt_vBits = B @ pad, pmt_vHash = K, pmt_fBad = False\<rparr>"
  have "length (pack_bits B) = (length B + 7) div 8"
    using bit_pack_bits [of "length B" B "replicate ((length B + 7) div 8) 0"] by (simp add: pack_bits_def)
  then have "length (pack_bits B) \<le> MAX_SIZE" "length K \<le> MAX_SIZE" using B n(3) len(2) by (simp_all add: MAX_SIZE_def)
  then have read: "unser_pmt (ser_pmt (CPartialMerkleTree_of L ?xs vMatch)) = Inr (t, [])"
    unfolding CPartialMerkleTree_of_def Let_def tb prod.case t_def pad_def
    using unser_ser_pmt [of "\<lparr>pmt_nTransactions = of_nat ?n, pmt_vBits = B, pmt_vHash = K, pmt_fBad = False\<rparr>"] by simp
  have u: "unat (of_nat ?n :: uint32) = ?n" using n(3) by (intro unat_of_nat_small) simp
  have p: "(length (B @ pad) + 7) div 8 = (length B + 7) div 8" by (simp add: pad_def)
  have "?xs \<noteq> []" using n(2) by auto
  then have m: "matched_below ?n ?xs vMatch (tree_height ?n 0) 0 = map fst (filter snd (zip ?xs vMatch))"
    and root: "CalcHash L ?n ?xs (tree_height ?n 0) 0 = merkle_root L ?xs"
    using matched_below_root [of ?xs vMatch] merkle_root_CalcHash [of ?xs L 0] assms(3) by simp_all
  have ex: "TraverseAndExtract L ?n (B @ pad) K (tree_height ?n 0) 0 \<lparr>nBitsUsed = 0, nHashUsed = 0, ex_vMatch = [], ex_fBad = False\<rparr> =
      (merkle_root L ?xs, \<lparr>nBitsUsed = length B, nHashUsed = length K, ex_vMatch = map fst (filter snd (zip ?xs vMatch)), ex_fBad = False\<rparr>)"
    using node_codeD [OF code, of "\<lparr>nBitsUsed = 0, nHashUsed = 0, ex_vMatch = [], ex_fBad = False\<rparr>" "[]" "[]" pad "[]"] m root by simp
  have "ExtractMatches L t = (merkle_root L ?xs, map fst (filter snd (zip ?xs vMatch)), t)"
    using ex u p n len by (simp add: ExtractMatches_def t_def Let_def MAX_BLOCK_SIZE_def)
  then show ?thesis using read by (simp add: BuildMerkleTree_eq)
qed

theorem partial_merkle_roundtrip_witness:
  "\<exists>t. unser_pmt (ser_pmt (CPartialMerkleTree_of reference_ssl (map (GetHash reference_ssl) [example_tx, other_tx, example_tx]) [False, True, False])) = Inr (t, []) \<and>
     ExtractMatches reference_ssl t = (fst (BuildMerkleTree reference_ssl [example_tx, other_tx, example_tx]), [GetHash reference_ssl other_tx], t)"
  using partial_merkle_roundtrip [of "[example_tx, other_tx, example_tx]" "[False, True, False]" reference_ssl]
  by (simp add: MAX_BLOCK_SIZE_def)

text \<open>C21. What a light client is sent: where \<open>ExtractMatches\<close> gives, for a partial tree that claims as many transactions as a block has, the
merkle root of this block (and not the hash 0 that stands for failure), the matched hashes are those of transactions of the block, in its order, unless two
different pairs among those hashed for the check and for the block have the same hash. Bits and hashes of the partial tree are arbitrary. The number of transactions
is a condition: under a smaller one, inner nodes of the block's tree pass for transactions.\<close>

theorem partial_merkle_sound:
  assumes "ExtractMatches L t = (fst (BuildMerkleTree L vtx), matched, t')" "fst (BuildMerkleTree L vtx) \<noteq> 0"
    and "unat (pmt_nTransactions t) = length vtx"
    and "collision_free L (set (extract_pairs L (length vtx) (pmt_vBits t) (pmt_vHash t) (tree_height (length vtx) 0) 0
           \<lparr>nBitsUsed = 0, nHashUsed = 0, ex_vMatch = [], ex_fBad = pmt_fBad t\<rparr>) \<union> set (tower_pairs L (map (GetHash L) vtx)))"
  shows "subseq matched (map (GetHash L) vtx)"
proof -
  let ?xs = "map (GetHash L) vtx" let ?n = "length ?xs"
  let ?s = "\<lparr>nBitsUsed = 0, nHashUsed = 0, ex_vMatch = [], ex_fBad = pmt_fBad t\<rparr>"
  have n: "unat (pmt_nTransactions t) = ?n" using assms(3) by simp
  have ne: "?n \<noteq> 0" using assms(1,2) by (auto simp: ExtractMatches_def assms(3) Let_def split: if_splits)
  then have xs: "?xs \<noteq> []" by auto
  obtain r s where rs: "TraverseAndExtract L ?n (pmt_vBits t) (pmt_vHash t) (tree_height ?n 0) 0 ?s = (r, s)" by fastforce
  have "r = merkle_root L ?xs \<and> \<not> ex_fBad s \<and> matched = ex_vMatch s"
    using assms(1,2) rs unfolding ExtractMatches_def n Let_def BuildMerkleTree_eq by (auto split: if_splits)
  moreover have "0 < CalcTreeWidth ?n (tree_height ?n 0)" using ne by (simp add: CalcTreeWidth_iff)
  moreover have "CalcTreeWidth ?n k > 1" if "k < tree_height ?n 0" for k
    by (rule ccontr) (use tree_height_le [of ?n k 0] that in simp)
  ultimately have "\<exists>new. ex_vMatch s = ex_vMatch ?s @ new \<and> subseq new (map ((!) ?xs) (leaves_below ?n (tree_height ?n 0) 0))"
    using TraverseAndExtract_sound [of L ?xs "pmt_vBits t" "pmt_vHash t" "tree_height ?n 0" 0 ?s s] rs assms(4) merkle_root_CalcHash [OF xs, of L 0]
    by simp
  then show ?thesis using \<open>r = _ \<and> _ \<and> _\<close> leaves_below_root [of ?n] ne map_nth [of ?xs] by simp
qed

text \<open>The partial tree of a block of two transactions of which the first is matched.\<close>

lemma reference_Hash:
  assumes "b = 1 # bs"
  shows "Hash reference_ssl b \<noteq> 0"
proof -
  have len: "length (resize 32 0 (resize 32 0 b)) = 32" by simp
  have "resize 32 0 (resize 32 0 b) ! 0 = 1" using assms by (simp add: nth_resize)
  then obtain cs where "resize 32 0 (resize 32 0 b) = 1 # cs" using len by (cases "resize 32 0 (resize 32 0 b)") simp_all
  then have "le_val (resize 32 0 (resize 32 0 b)) = 1 + 256 * le_val cs" by simp
  moreover have "le_val (resize 32 0 (resize 32 0 b)) < 2 ^ 256" using le_val_less [of "resize 32 0 (resize 32 0 b)"] len by simp
  ultimately have "unat (of_nat (le_val (resize 32 0 (resize 32 0 b))) :: uint256) = 1 + 256 * le_val cs"
    using unat_of_nat_small [of "le_val (resize 32 0 (resize 32 0 b))", where 'w = 256] by (simp del: of_nat_add of_nat_mult)
  then have "unat (Hash reference_ssl b) = 1 + 256 * le_val cs"
    unfolding Hash_def reference_ssl_def by simp
  then show ?thesis by auto
qed

lemma reference_merkle_hash: "merkle_hash reference_ssl x y = x"
proof -
  have "resize 32 0 (ser_word x @ ser_word y) = ser_word x" by (simp add: resize_def)
  moreover have "resize 32 0 (ser_word x) = ser_word x" by (simp add: resize_def)
  moreover have "unat x < 256 ^ 32" using unsigned_less [of x, where 'a = nat] by simp
  then have "le_val (ser_word x) = unat x" by (simp add: ser_word_def)
  ultimately show ?thesis by (simp add: merkle_hash_def Hash2_def reference_ssl_def)
qed

theorem partial_merkle_sound_witness:
  "let h = GetHash reference_ssl example_tx; k = GetHash reference_ssl other_tx;
       t = \<lparr>pmt_nTransactions = 2, pmt_vBits = [True, True, False], pmt_vHash = [h, k], pmt_fBad = False\<rparr>
   in ExtractMatches reference_ssl t = (fst (BuildMerkleTree reference_ssl [example_tx, other_tx]), [h], t) \<and>
     subseq [h] (map (GetHash reference_ssl) [example_tx, other_tx])"
proof -
  let ?h = "GetHash reference_ssl example_tx" and ?k = "GetHash reference_ssl other_tx"
  let ?t = "\<lparr>pmt_nTransactions = 2, pmt_vBits = [True, True, False], pmt_vHash = [?h, ?k], pmt_fBad = False\<rparr>"
  have h: "tree_height 2 0 = Suc 0" by (simp add: tree_height.simps CalcTreeWidth_def)
  have u: "unat (2 :: uint32) = 2" by simp
  have h': "tree_height (Suc (Suc 0)) 0 = Suc 0" using h by (simp add: numeral_2_eq_2)
  have ex: "TraverseAndExtract reference_ssl 2 [True, True, False] [?h, ?k] (Suc 0) 0 \<lparr>nBitsUsed = 0, nHashUsed = 0, ex_vMatch = [], ex_fBad = False\<rparr> =
      (merkle_hash reference_ssl ?h ?k, \<lparr>nBitsUsed = 3, nHashUsed = 2, ex_vMatch = [?h], ex_fBad = False\<rparr>)"
    by (simp add: take_hash_def CalcTreeWidth_def Let_def)
  have root: "fst (BuildMerkleTree reference_ssl [example_tx, other_tx]) = merkle_hash reference_ssl ?h ?k"
    by (simp add: BuildMerkleTree_eq merkle_root.simps pair_up_def)
  have extracts: "ExtractMatches reference_ssl ?t = (fst (BuildMerkleTree reference_ssl [example_tx, other_tx]), [?h], ?t)"
    unfolding root ExtractMatches_def Let_def CPartialMerkleTree.simps u h ex prod.case extract_state.simps by (simp add: MAX_BLOCK_SIZE_def)
  have "le_bytes (Suc (Suc (Suc (Suc 0)))) 1 = [1, 0, 0, 0]" by simp
  moreover have "(4 :: nat) = Suc (Suc (Suc (Suc 0)))" by simp
  ultimately have v: "ser_int 4 1 = [1, 0, 0, 0]" unfolding ser_int_def by (simp only:) simp
  have "\<exists>bs. ser_tx example_tx = ser_int 4 (tx_nVersion example_tx) @ bs" unfolding ser_tx_def by simp
  moreover have "tx_nVersion example_tx = 1" by (simp add: example_tx_def)
  ultimately obtain bs where "ser_tx example_tx = 1 # bs" using v by auto
  then have nonzero: "fst (BuildMerkleTree reference_ssl [example_tx, other_tx]) \<noteq> 0"
    unfolding root reference_merkle_hash using reference_Hash by (simp add: GetHash_def)
  have free: "collision_free reference_ssl (set (extract_pairs reference_ssl (length [example_tx, other_tx]) (pmt_vBits ?t) (pmt_vHash ?t)
       (tree_height (length [example_tx, other_tx]) 0) 0 \<lparr>nBitsUsed = 0, nHashUsed = 0, ex_vMatch = [], ex_fBad = pmt_fBad ?t\<rparr>) \<union>
       set (tower_pairs reference_ssl (map (GetHash reference_ssl) [example_tx, other_tx])))"
    by (simp add: h' tower_pairs.simps pair_up_def collision_free_def take_hash_def CalcTreeWidth_def Let_def)
  have "subseq [?h] (map (GetHash reference_ssl) [example_tx, other_tx])"
    by (rule partial_merkle_sound [OF extracts nonzero _ free]) simp
  then show ?thesis using extracts unfolding Let_def by blast
qed

end
