(* ===== verification/Standard.thy ===== *)
theory Standard
  imports Inputs
begin

text \<open>
  Standard outputs and transactions: \<open>Solver\<close>, \<open>IsStandard\<close>, \<open>ExtractDestination\<close> of \<open>src/src/script.cpp\<close> and
  \<open>CTransaction::IsStandard\<close>, \<open>AreInputsStandard\<close> of \<open>main.cpp\<close>.

  \<open>Solver\<close> compares a script, instruction by instruction, with three templates, which are scripts with opcodes that stand for
  keys, a key hash and small integers. The reference is \<open>standard_form\<close> on the list of instructions of a script.
\<close>

section \<open>Matching templates\<close>

datatype txnouttype = TX_NONSTANDARD | TX_PUBKEY | TX_PUBKEYHASH | TX_SCRIPTHASH | TX_MULTISIG

text \<open>A map of the source: sorted by type.\<close>

definition mTemplates :: "(txnouttype \<times> bytes) list" where
  "mTemplates =
     [(TX_PUBKEY, push_opcode OP_PUBKEY @ push_opcode OP_CHECKSIG),
      (TX_PUBKEYHASH, push_opcode OP_DUP @ push_opcode OP_HASH160 @ push_opcode OP_PUBKEYHASH @ push_opcode OP_EQUALVERIFY @ push_opcode OP_CHECKSIG),
      (TX_MULTISIG, push_opcode OP_SMALLINTEGER @ push_opcode OP_PUBKEYS @ push_opcode OP_SMALLINTEGER @ push_opcode OP_CHECKMULTISIG)]"

definition key_size :: "bytes \<Rightarrow> bool" where
  "key_size vch \<longleftrightarrow> 33 \<le> length vch \<and> length vch \<le> 120"

text \<open>The keys of a multisignature output. A \<open>GetOp\<close> that fails leaves \<open>OP_INVALIDOPCODE\<close> and an empty vector; the iterator it leaves
is not used, because the template goes on with \<open>OP_SMALLINTEGER\<close>, which does not match that opcode.\<close>

function match_pubkeys :: "byte \<Rightarrow> bytes \<Rightarrow> bytes \<Rightarrow> bytes list \<Rightarrow> byte \<times> bytes \<times> bytes \<times> bytes list" where
  "match_pubkeys opcode1 vch1 pc1 vSolutions =
     (if key_size vch1 then
        (case GetOp pc1 of
           None \<Rightarrow> (OP_INVALIDOPCODE, [], pc1, vSolutions @ [vch1])
         | Some (opcode1, vch1', pc1) \<Rightarrow> match_pubkeys opcode1 vch1' pc1 (vSolutions @ [vch1]))
      else (opcode1, vch1, pc1, vSolutions))"
  by pat_completeness auto
termination by (relation "measure (\<lambda>(o1, v1, pc1, s). length pc1)") (auto dest: GetOp_length)

declare match_pubkeys.simps [simp del]

text \<open>One instruction against one opcode of a template.\<close>

definition match_op :: "byte \<Rightarrow> bytes \<Rightarrow> byte \<Rightarrow> bytes \<Rightarrow> bytes list \<Rightarrow> bytes list option" where
  "match_op opcode1 vch1 opcode2 vch2 vSolutions =
     (if opcode2 = OP_PUBKEY then (if length vch1 < 33 \<or> length vch1 > 120 then None else Some (vSolutions @ [vch1]))
      else if opcode2 = OP_PUBKEYHASH then (if length vch1 \<noteq> LENGTH(160) div 8 then None else Some (vSolutions @ [vch1]))
      else if opcode2 = OP_SMALLINTEGER then
        (if opcode1 = OP_0 \<or> OP_1 \<le> opcode1 \<and> opcode1 \<le> OP_16 then Some (vSolutions @ [[of_nat (the (DecodeOP_N opcode1))]]) else None)
      else if opcode1 \<noteq> opcode2 \<or> vch1 \<noteq> vch2 then None
      else Some vSolutions)"

datatype match_result = Matched "bytes list" | Bad_multisig "bytes list" | No_match

definition check_multisig :: "bytes list \<Rightarrow> match_result" where
  "check_multisig vSolutions =
     (let m = hd (hd vSolutions); n = hd (last vSolutions) in
      if m < 1 \<or> n < 1 \<or> m > n \<or> length vSolutions - 2 \<noteq> unat n then Bad_multisig vSolutions else Matched vSolutions)"

function match_template :: "txnouttype \<Rightarrow> bytes \<Rightarrow> bytes \<Rightarrow> bytes list \<Rightarrow> match_result" where
  "match_template t pc1 pc2 vSolutions =
     (if pc1 = [] \<and> pc2 = [] then (if t = TX_MULTISIG then check_multisig vSolutions else Matched vSolutions)
      else case GetOp pc1 of
        None \<Rightarrow> No_match
      | Some (opcode1, vch1, pc1) \<Rightarrow> (case GetOp pc2 of
          None \<Rightarrow> No_match
        | Some (opcode2, vch2, pc2) \<Rightarrow>
          if opcode2 = OP_PUBKEYS then
            (case match_pubkeys opcode1 vch1 pc1 vSolutions of
              (opcode1, vch1, pc1, vSolutions) \<Rightarrow> (case GetOp pc2 of
                None \<Rightarrow> No_match
              | Some (opcode2, vch2, pc2) \<Rightarrow> (case match_op opcode1 vch1 opcode2 vch2 vSolutions of
                  None \<Rightarrow> No_match | Some vSolutions \<Rightarrow> match_template t pc1 pc2 vSolutions)))
          else (case match_op opcode1 vch1 opcode2 vch2 vSolutions of
            None \<Rightarrow> No_match | Some vSolutions \<Rightarrow> match_template t pc1 pc2 vSolutions)))"
  by pat_completeness auto
termination by (relation "measure (\<lambda>(t, pc1, pc2, s). length pc2)") (auto dest!: GetOp_length)

declare match_template.simps [simp del]

fun scan_templates :: "bytes \<Rightarrow> (txnouttype \<times> bytes) list \<Rightarrow> bool \<times> txnouttype \<times> bytes list" where
  "scan_templates script1 [] = (False, TX_NONSTANDARD, [])"
| "scan_templates script1 ((t, template) # ts) = (case match_template t script1 template [] of
     Matched vSolutions \<Rightarrow> (True, t, vSolutions)
   | Bad_multisig vSolutions \<Rightarrow> (False, t, vSolutions)
   | No_match \<Rightarrow> scan_templates script1 ts)"

text \<open>The result, \<open>typeRet\<close> and \<open>vSolutionsRet\<close>.\<close>

definition Solver :: "bytes \<Rightarrow> bool \<times> txnouttype \<times> bytes list" where
  "Solver script =
     (if IsPayToScriptHash script then (True, TX_SCRIPTHASH, [take 20 (drop 2 script)])
      else scan_templates script mTemplates)"

section \<open>Standard outputs, destinations and inputs\<close>

text \<open>\<open>vSolutions[0][0] + 1\<close> of a solution is at most 256, within \<open>int\<close>.\<close>

definition ScriptSigArgsExpected :: "txnouttype \<Rightarrow> bytes list \<Rightarrow> int" where
  "ScriptSigArgsExpected t vSolutions = (case t of
     TX_NONSTANDARD \<Rightarrow> -1
   | TX_PUBKEY \<Rightarrow> 1
   | TX_PUBKEYHASH \<Rightarrow> 2
   | TX_MULTISIG \<Rightarrow> if length vSolutions < 1 \<or> length (vSolutions ! 0) < 1 then -1 else uint (vSolutions ! 0 ! 0) + 1
   | TX_SCRIPTHASH \<Rightarrow> 1)"

definition IsStandard :: "bytes \<Rightarrow> bool" where
  "IsStandard script = (case Solver script of
     (False, _) \<Rightarrow> False
   | (True, whichType, vSolutions) \<Rightarrow>
       (if whichType = TX_MULTISIG then
          let m = hd (hd vSolutions); n = hd (last vSolutions) in
          if n < 1 \<or> n > 3 then False else if m < 1 \<or> m > n then False else whichType \<noteq> TX_NONSTANDARD
        else whichType \<noteq> TX_NONSTANDARD))"

datatype CTxDestination = CNoDestination | CKeyID uint160 | CScriptID uint160

definition uint160_of :: "bytes \<Rightarrow> uint160" where
  "uint160_of vch = (if length vch = LENGTH(160) div 8 then of_nat (le_val vch) else 0)"

definition ExtractDestination :: "openssl \<Rightarrow> bytes \<Rightarrow> CTxDestination option" where
  "ExtractDestination L script = (case Solver script of
     (False, _) \<Rightarrow> None
   | (True, whichType, vSolutions) \<Rightarrow>
       if whichType = TX_PUBKEY then Some (CKeyID (CPubKey_GetID L (CPubKey_Set (vSolutions ! 0))))
       else if whichType = TX_PUBKEYHASH then Some (CKeyID (uint160_of (vSolutions ! 0)))
       else if whichType = TX_SCRIPTHASH then Some (CScriptID (uint160_of (vSolutions ! 0)))
       else None)"

text \<open>The type, the destinations and the signatures required, when it succeeds.\<close>

definition ExtractDestinations :: "openssl \<Rightarrow> bytes \<Rightarrow> (txnouttype \<times> CTxDestination list \<times> int) option" where
  "ExtractDestinations L script = (case Solver script of
     (False, _) \<Rightarrow> None
   | (True, typeRet, vSolutions) \<Rightarrow>
       if typeRet = TX_MULTISIG then
         Some (typeRet, map (\<lambda>key. CKeyID (CPubKey_GetID L (CPubKey_Set key))) (butlast (tl vSolutions)), uint (hd (hd vSolutions)))
       else case ExtractDestination L script of
         None \<Rightarrow> None
       | Some address \<Rightarrow> Some (typeRet, [address], 1))"

definition IsDust :: "CTxOut \<Rightarrow> bool" where
  "IsDust out = False"

datatype nonstandard = Reason_version | Reason_not_final | Reason_tx_size | Reason_scriptsig_size | Reason_scriptsig_not_pushonly
  | Reason_scriptpubkey | Reason_dust

fun nonstandard_inputs :: "CTxIn list \<Rightarrow> nonstandard option" where
  "nonstandard_inputs [] = None"
| "nonstandard_inputs (txin # ins) =
     (if length (scriptSig txin) > 500 then Some Reason_scriptsig_size
      else if \<not> IsPushOnly (scriptSig txin) then Some Reason_scriptsig_not_pushonly
      else nonstandard_inputs ins)"

fun nonstandard_outputs :: "CTxOut list \<Rightarrow> nonstandard option" where
  "nonstandard_outputs [] = None"
| "nonstandard_outputs (txout # outs) =
     (if \<not> IsStandard (scriptPubKey txout) then Some Reason_scriptpubkey
      else if IsDust txout then Some Reason_dust
      else nonstandard_outputs outs)"

text \<open>\<open>IsFinal()\<close> is called with the height of the best block and the adjusted time, which are arguments here.\<close>

definition tx_IsStandard :: "int \<Rightarrow> int \<Rightarrow> CTransaction \<Rightarrow> nonstandard option" where
  "tx_IsStandard nBestHeight nAdjustedTime tx =
     (if tx_nVersion tx > 1 \<or> tx_nVersion tx < 1 then Some Reason_version
      else if \<not> IsFinal nBestHeight nAdjustedTime tx 0 0 then Some Reason_not_final
      else if length (ser_tx tx) \<ge> MAX_STANDARD_TX_SIZE then Some Reason_tx_size
      else case nonstandard_inputs (tx_vin tx) of
        Some r \<Rightarrow> Some r
      | None \<Rightarrow> nonstandard_outputs (tx_vout tx))"

text \<open>The loop of \<open>AreInputsStandard\<close>. \<open>None\<close> is the assertion of \<open>GetOutputFor\<close>.\<close>

fun inputs_standard_loop :: "openssl \<Rightarrow> ('s \<Rightarrow> uint256 \<Rightarrow> CCoins option \<times> 's) \<Rightarrow> CTransaction \<Rightarrow> nat \<Rightarrow> CTxIn list \<Rightarrow>
    CSignatureCache \<Rightarrow> 's CCoinsViewCache \<Rightarrow> (bool \<times> CSignatureCache \<times> 's CCoinsViewCache) option" where
  "inputs_standard_loop L get tx i [] cache v = Some (True, cache, v)"
| "inputs_standard_loop L get tx i (txin # ins) cache v = (case GetOutputFor get txin v of
     None \<Rightarrow> None
   | Some (prev, v) \<Rightarrow> (case Solver (scriptPubKey prev) of
       (False, _) \<Rightarrow> Some (False, cache, v)
     | (True, whichType, vSolutions) \<Rightarrow>
       (let nArgsExpected = ScriptSigArgsExpected whichType vSolutions in
        if nArgsExpected < 0 then Some (False, cache, v)
        else case EvalScript L (CheckSig L 0 tx i 0) 0 [] (scriptSig txin) cache of
          (False, st, cache) \<Rightarrow> Some (False, cache, v)
        | (True, st, cache) \<Rightarrow>
          if whichType = TX_SCRIPTHASH then
            (if st = [] then Some (False, cache, v)
             else case Solver (hd st) of
               (False, _) \<Rightarrow> Some (False, cache, v)
             | (True, whichType2, vSolutions2) \<Rightarrow>
               if whichType2 = TX_SCRIPTHASH then Some (False, cache, v)
               else let tmpExpected = ScriptSigArgsExpected whichType2 vSolutions2 in
                 if tmpExpected < 0 then Some (False, cache, v)
                 else if int (length st) \<noteq> nArgsExpected + tmpExpected then Some (False, cache, v)
                 else inputs_standard_loop L get tx (Suc i) ins cache v)
          else if int (length st) \<noteq> nArgsExpected then Some (False, cache, v)
          else inputs_standard_loop L get tx (Suc i) ins cache v)))"

definition AreInputsStandard :: "openssl \<Rightarrow> ('s \<Rightarrow> uint256 \<Rightarrow> CCoins option \<times> 's) \<Rightarrow> CTransaction \<Rightarrow>
    CSignatureCache \<Rightarrow> 's CCoinsViewCache \<Rightarrow> (bool \<times> CSignatureCache \<times> 's CCoinsViewCache) option" where
  "AreInputsStandard L get tx cache v =
     (if IsCoinBase tx then Some (True, cache, v) else inputs_standard_loop L get tx 0 (tx_vin tx) cache v)"

section \<open>The instructions of a script\<close>

function decode :: "bytes \<Rightarrow> (byte \<times> bytes) list option" where
  "decode pc = (if pc = [] then Some [] else case GetOp pc of
     None \<Rightarrow> None
   | Some (opcode, vch, pc) \<Rightarrow> map_option ((#) (opcode, vch)) (decode pc))"
  by pat_completeness auto
termination by (relation "measure length") (auto dest: GetOp_length)

declare decode.simps [simp del]

lemma decode_Nil [simp]: "decode [] = Some []"
  by (simp add: decode.simps)

lemma decode_eq_Nil [simp]: "decode pc = Some [] \<longleftrightarrow> pc = []"
  by (subst decode.simps) (auto split: option.splits)

lemma decode_eq_Cons: "decode pc = Some (x # xs) \<longleftrightarrow> (\<exists>pc'. GetOp pc = Some (fst x, snd x, pc') \<and> decode pc' = Some xs)"
  by (subst decode.simps) (auto split: option.splits)

lemma decode_step: "GetOp pc = Some (opcode, vch, pc') \<Longrightarrow> decode pc = map_option ((#) (opcode, vch)) (decode pc')"
  by (subst decode.simps) auto

lemma decode_mem: "decode pc = Some is \<Longrightarrow> (opcode, vch) \<in> set is \<Longrightarrow> \<exists>p p'. GetOp p = Some (opcode, vch, p')"
proof (induction "is" arbitrary: pc)
  case (Cons x xs)
  then obtain pc' where "GetOp pc = Some (fst x, snd x, pc')" "decode pc' = Some xs" by (auto simp: decode_eq_Cons)
  then show ?case using Cons.IH [of pc'] Cons.prems(2) by (cases "(opcode, vch) = x") (fastforce, auto)
qed simp

lemma GetOp_no_operand: "GetOp pc = Some (opcode, vch, pc') \<Longrightarrow> opcode = OP_0 \<or> \<not> opcode \<le> OP_PUSHDATA4 \<Longrightarrow> vch = []"
  by (auto simp: GetOp_def push_size_def split: list.splits if_splits option.splits)

text \<open>The standard forms other than pay-to-script-hash, with their solutions.\<close>

inductive standard_form :: "(byte \<times> bytes) list \<Rightarrow> txnouttype \<Rightarrow> bytes list \<Rightarrow> bool" where
  pubkey: "key_size k \<Longrightarrow> standard_form [(op, k), (OP_CHECKSIG, [])] TX_PUBKEY [k]"
| pubkeyhash: "length h = 20 \<Longrightarrow>
    standard_form [(OP_DUP, []), (OP_HASH160, []), (op, h), (OP_EQUALVERIFY, []), (OP_CHECKSIG, [])] TX_PUBKEYHASH [h]"
| multisig: "DecodeOP_N opm = Some m \<Longrightarrow> DecodeOP_N opn = Some n \<Longrightarrow> 1 \<le> m \<Longrightarrow> m \<le> n \<Longrightarrow> length ks = n \<Longrightarrow>
    \<forall>k \<in> set ks. key_size (snd k) \<Longrightarrow>
    standard_form ((opm, []) # ks @ [(opn, []), (OP_CHECKMULTISIG, [])]) TX_MULTISIG ([of_nat m] # map snd ks @ [[of_nat n]])"

inductive_simps standard_form_type [simp]:
  "standard_form is TX_PUBKEY sols" "standard_form is TX_PUBKEYHASH sols" "standard_form is TX_SCRIPTHASH sols"
  "standard_form is TX_NONSTANDARD sols"

lemma match_template_Nil: "match_template t pc [] sols =
    (if pc = [] then if t = TX_MULTISIG then check_multisig sols else Matched sols else No_match)"
  by (subst match_template.simps) (auto split: option.splits)

lemma match_template_op:
  assumes "\<not> op2 \<le> OP_PUSHDATA4" "op2 \<noteq> OP_PUBKEYS"
  shows "match_template t pc (op2 # pc2) sols = (case GetOp pc of
     None \<Rightarrow> No_match
   | Some (op1, v1, pc1) \<Rightarrow> (case match_op op1 v1 op2 [] sols of None \<Rightarrow> No_match | Some sols \<Rightarrow> match_template t pc1 pc2 sols))"
  using assms by (subst match_template.simps) (auto split: option.splits)

lemma match_pubkey:
  "match_template TX_PUBKEY s [OP_PUBKEY, OP_CHECKSIG] [] = Matched sols \<longleftrightarrow>
     (\<exists>is. decode s = Some is \<and> standard_form is TX_PUBKEY sols)"
  by (auto simp: match_template_op match_template_Nil match_op_def decode_eq_Cons key_size_def split: option.splits if_splits, auto simp: decode_step)

lemma match_pubkey_cases:
  "match_template TX_PUBKEY s [OP_PUBKEY, OP_CHECKSIG] [] \<noteq> Bad_multisig sols"
  by (auto simp: match_template_op match_template_Nil split: option.splits)

lemma match_pubkeyhash:
  "match_template TX_PUBKEYHASH s [OP_DUP, OP_HASH160, OP_PUBKEYHASH, OP_EQUALVERIFY, OP_CHECKSIG] [] = Matched sols \<longleftrightarrow>
     (\<exists>is. decode s = Some is \<and> standard_form is TX_PUBKEYHASH sols)"
  by (auto simp: match_template_op match_template_Nil match_op_def decode_eq_Cons split: option.splits if_splits, auto simp: decode_step)

lemma match_pubkeyhash_cases:
  "match_template TX_PUBKEYHASH s [OP_DUP, OP_HASH160, OP_PUBKEYHASH, OP_EQUALVERIFY, OP_CHECKSIG] [] \<noteq> Bad_multisig sols"
  by (auto simp: match_template_op match_template_Nil split: option.splits)

lemma match_pubkeys_stops:
  assumes "match_pubkeys op v pc sols = (op', v', pc', sols')" "op' \<noteq> OP_INVALIDOPCODE"
  shows "\<exists>ks. sols' = sols @ map snd ks \<and> (\<forall>k \<in> set ks. key_size (snd k)) \<and>
    map_option ((#) (op, v)) (decode pc) = map_option (\<lambda>is. ks @ (op', v') # is) (decode pc')"
  using assms
proof (induction op v pc sols rule: match_pubkeys.induct)
  case (1 op v pc sols)
  show ?case
  proof (cases "key_size v")
    case False
    then show ?thesis using 1(2) by (intro exI [of _ "[]"]) (simp add: match_pubkeys.simps [of op])
  next
    case True
    then obtain op1 v1 pc1 where g: "GetOp pc = Some (op1, v1, pc1)"
      using 1(2,3) by (auto simp: match_pubkeys.simps [of op] split: option.splits)
    obtain ks where "sols' = (sols @ [v]) @ map snd ks" "\<forall>k \<in> set ks. key_size (snd k)"
        "map_option ((#) (op1, v1)) (decode pc1) = map_option (\<lambda>is. ks @ (op', v') # is) (decode pc')"
      using 1(1) [OF True g refl refl] 1(2,3) True g by (auto simp: match_pubkeys.simps [of op])
    then show ?thesis using True decode_step [OF g]
      by (intro exI [of _ "(op, v) # ks"]) (auto simp: option.map_comp comp_def)
  qed
qed

lemma match_pubkeys_reads:
  assumes "decode pc = Some is" "(op, v) # is = ks @ (op', v') # rest" "\<forall>k \<in> set ks. key_size (snd k)" "\<not> key_size v'"
  shows "\<exists>pc'. match_pubkeys op v pc sols = (op', v', pc', sols @ map snd ks) \<and> decode pc' = Some rest"
  using assms
proof (induction ks arbitrary: op v pc "is" sols)
  case Nil
  then have "op = op'" "v = v'" "is = rest" by auto
  then show ?case using Nil by (simp add: match_pubkeys.simps [of op'])
next
  case (Cons k ks)
  then have k: "k = (op, v)" "is = ks @ (op', v') # rest" "key_size v" by auto
  then obtain op1 v1 is1 where e: "is = (op1, v1) # is1" by (cases ks) auto
  then obtain pc1 where g: "GetOp pc = Some (op1, v1, pc1)" "decode pc1 = Some is1" using Cons.prems(1) e by (auto simp: decode_eq_Cons)
  obtain pc' where "match_pubkeys op1 v1 pc1 (sols @ [v]) = (op', v', pc', (sols @ [v]) @ map snd ks)" "decode pc' = Some rest"
    using Cons.IH [OF g(2), of op1 v1 "sols @ [v]"] e k(2) Cons.prems(3,4) by auto
  then show ?case using g k by (simp add: match_pubkeys.simps [of op])
qed

definition small_op :: "byte \<Rightarrow> bool" where
  "small_op op \<longleftrightarrow> op = OP_0 \<or> OP_1 \<le> op \<and> op \<le> OP_16"

lemma DecodeOP_N_small: "(\<exists>n. DecodeOP_N op = Some n) \<longleftrightarrow> small_op op"
  by (simp add: DecodeOP_N_def small_op_def)

lemma DecodeOP_N_le: "DecodeOP_N op = Some n \<Longrightarrow> n \<le> 16"
  by (auto simp: DecodeOP_N_def word_le_nat_alt split: if_splits)

lemma small_op_no_operand: "GetOp pc = Some (op, v, pc') \<Longrightarrow> small_op op \<Longrightarrow> v = []"
  by (rule GetOp_no_operand) (auto simp: small_op_def word_le_nat_alt)

lemma match_op_small: "match_op op v OP_SMALLINTEGER [] sols = (if small_op op then Some (sols @ [[of_nat (the (DecodeOP_N op))]]) else None)"
  by (simp add: match_op_def small_op_def)

lemma match_multisig_unfold:
  "match_template TX_MULTISIG s [OP_SMALLINTEGER, OP_PUBKEYS, OP_SMALLINTEGER, OP_CHECKMULTISIG] [] = r \<and> r \<noteq> No_match \<longleftrightarrow>
     (\<exists>opm pc op v pc1 opn vn pc2 sols.
        GetOp s = Some (opm, [], pc) \<and> small_op opm \<and> GetOp pc = Some (op, v, pc1) \<and>
        match_pubkeys op v pc1 [[of_nat (the (DecodeOP_N opm))]] = (opn, vn, pc2, sols) \<and> small_op opn \<and>
        GetOp pc2 = Some (OP_CHECKMULTISIG, [], []) \<and> r = check_multisig (sols @ [[of_nat (the (DecodeOP_N opn))]]) \<and> r \<noteq> No_match)"
proof -
  have sk: "match_template TX_MULTISIG pc (OP_PUBKEYS # pc2) sols = (case GetOp pc of None \<Rightarrow> No_match | Some (op1, v1, pc1) \<Rightarrow>
      (case match_pubkeys op1 v1 pc1 sols of (op1, v1, pc1, sols) \<Rightarrow> (case GetOp pc2 of
         None \<Rightarrow> No_match
       | Some (op2, v2, pc2) \<Rightarrow> (case match_op op1 v1 op2 v2 sols of None \<Rightarrow> No_match | Some sols \<Rightarrow> match_template TX_MULTISIG pc1 pc2 sols))))"
    for pc pc2 sols
    by (subst match_template.simps) (auto split: option.splits)
  show ?thesis
    by (auto simp: match_template_op sk match_template_Nil match_op_small small_op_no_operand match_op_def [of _ _ OP_CHECKMULTISIG]
        split: option.splits prod.splits if_splits; force dest: small_op_no_operand)
qed

lemma check_multisig_eq:
  assumes "m \<le> 16" "n \<le> 16"
  shows "check_multisig ([of_nat m] # ks @ [[of_nat n]]) =
    (if 1 \<le> m \<and> m \<le> n \<and> length ks = n then Matched ([of_nat m] # ks @ [[of_nat n]]) else Bad_multisig ([of_nat m] # ks @ [[of_nat n]]))"
proof -
  have "unat (of_nat m :: byte) = m" "unat (of_nat n :: byte) = n" using assms by simp_all
  then show ?thesis by (auto simp: check_multisig_def Let_def word_less_nat_alt)
qed

lemma standard_form_multisig: "standard_form is TX_MULTISIG sols \<longleftrightarrow>
    (\<exists>opm opn m n ks. is = (opm, []) # ks @ [(opn, []), (OP_CHECKMULTISIG, [])] \<and> DecodeOP_N opm = Some m \<and> DecodeOP_N opn = Some n \<and>
       1 \<le> m \<and> m \<le> n \<and> length ks = n \<and> (\<forall>k \<in> set ks. key_size (snd k)) \<and> sols = [of_nat m] # map snd ks @ [[of_nat n]])"
  by (subst standard_form.simps) blast

lemma match_multisig:
  "match_template TX_MULTISIG s [OP_SMALLINTEGER, OP_PUBKEYS, OP_SMALLINTEGER, OP_CHECKMULTISIG] [] = Matched sols \<longleftrightarrow>
     (\<exists>is. decode s = Some is \<and> standard_form is TX_MULTISIG sols)" (is "?l \<longleftrightarrow> ?r")
proof
  assume ?l
  then obtain opm pc op v pc1 opn vn pc2 sols' where
    s: "GetOp s = Some (opm, [], pc)" "small_op opm" "GetOp pc = Some (op, v, pc1)" "small_op opn"
    and ks: "match_pubkeys op v pc1 [[of_nat (the (DecodeOP_N opm))]] = (opn, vn, pc2, sols')"
    and e: "GetOp pc2 = Some (OP_CHECKMULTISIG, [], [])" "check_multisig (sols' @ [[of_nat (the (DecodeOP_N opn))]]) = Matched sols"
    using match_multisig_unfold [of s "Matched sols"] by auto
  obtain m n where mn: "DecodeOP_N opm = Some m" "DecodeOP_N opn = Some n" using s(2,4) DecodeOP_N_small by metis
  have "opn \<noteq> OP_INVALIDOPCODE" using s(4) by (auto simp: small_op_def word_le_nat_alt)
  then obtain keys where keys: "sols' = [[of_nat m]] @ map snd keys" "\<forall>k \<in> set keys. key_size (snd k)"
      "map_option ((#) (op, v)) (decode pc1) = map_option (\<lambda>is. keys @ (opn, vn) # is) (decode pc2)"
    using match_pubkeys_stops [OF ks] mn by auto
  have d: "decode pc2 = Some [(OP_CHECKMULTISIG, [])]" using decode_step [OF e(1)] by simp
  have "decode s = Some ((opm, []) # keys @ [(opn, vn), (OP_CHECKMULTISIG, [])])"
    unfolding decode_step [OF s(1)] decode_step [OF s(3)] keys(3) d by simp
  moreover have "vn = []"
  proof -
    have "\<exists>pc3 pc4. GetOp pc3 = Some (opn, vn, pc4)"
      using calculation by (rule decode_mem) simp
    then show ?thesis using small_op_no_operand s(4) by blast
  qed
  moreover have "1 \<le> m \<and> m \<le> n \<and> length keys = n \<and> sols = [of_nat m] # map snd keys @ [[of_nat n]]"
    using e(2) check_multisig_eq [of m n "map snd keys"] DecodeOP_N_le [OF mn(1)] DecodeOP_N_le [OF mn(2)] mn keys(1) by (auto split: if_splits)
  ultimately show ?r using mn keys(2) by (auto simp: standard_form_multisig)
next
  assume ?r
  then obtain opm opn m n keys where d: "decode s = Some ((opm, []) # keys @ [(opn, []), (OP_CHECKMULTISIG, [])])"
    and mn: "DecodeOP_N opm = Some m" "DecodeOP_N opn = Some n"
    and r: "1 \<le> m" "m \<le> n" "length keys = n" "\<forall>k \<in> set keys. key_size (snd k)" "sols = [of_nat m] # map snd keys @ [[of_nat n]]"
    by (auto simp: standard_form_multisig)
  have small: "small_op opm" "small_op opn" using mn DecodeOP_N_small by blast+
  obtain pc where s: "GetOp s = Some (opm, [], pc)" "decode pc = Some (keys @ [(opn, []), (OP_CHECKMULTISIG, [])])"
    using d by (auto simp: decode_eq_Cons)
  obtain op v rest where k: "keys @ [(opn, []), (OP_CHECKMULTISIG, [])] = (op, v) # rest" by (cases keys) auto
  then obtain pc1 where p: "GetOp pc = Some (op, v, pc1)" "decode pc1 = Some rest" using s(2) by (auto simp: decode_eq_Cons)
  obtain pc2 where m: "match_pubkeys op v pc1 [[of_nat m]] = (opn, [], pc2, [[of_nat m]] @ map snd keys)" "decode pc2 = Some [(OP_CHECKMULTISIG, [])]"
    using match_pubkeys_reads [OF p(2), of op v keys opn "[]" "[(OP_CHECKMULTISIG, [])]" "[[of_nat m]]"] k r(4) by (auto simp: key_size_def)
  have "GetOp pc2 = Some (OP_CHECKMULTISIG, [], [])" using m(2) by (auto simp: decode_eq_Cons)
  moreover have "check_multisig (([[of_nat m]] @ map snd keys) @ [[of_nat n]]) = Matched sols"
    using check_multisig_eq [of m n "map snd keys"] DecodeOP_N_le [OF mn(1)] DecodeOP_N_le [OF mn(2)] r by simp
  ultimately show ?l using match_multisig_unfold [of s "Matched sols"] s(1) small p(1) m(1) mn by force
qed

text \<open>The three forms exclude each other.\<close>

lemma standard_form_unique: "standard_form is t sols \<Longrightarrow> standard_form is t' sols' \<Longrightarrow> t' = t"
  by (auto elim!: standard_form.cases simp: append_eq_Cons_conv Cons_eq_append_conv)

lemma Solver_scan:
  assumes "\<not> IsPayToScriptHash s"
  shows "Solver s = (True, t, sols) \<longleftrightarrow> (\<exists>is. decode s = Some is \<and> standard_form is t sols)"
proof -
  let ?m1 = "match_template TX_PUBKEY s [OP_PUBKEY, OP_CHECKSIG] []"
  let ?m2 = "match_template TX_PUBKEYHASH s [OP_DUP, OP_HASH160, OP_PUBKEYHASH, OP_EQUALVERIFY, OP_CHECKSIG] []"
  let ?m3 = "match_template TX_MULTISIG s [OP_SMALLINTEGER, OP_PUBKEYS, OP_SMALLINTEGER, OP_CHECKMULTISIG] []"
  have types: "standard_form is t sols \<Longrightarrow> t = TX_PUBKEY \<or> t = TX_PUBKEYHASH \<or> t = TX_MULTISIG" for "is" by (cases t) auto
  have same: "(\<exists>is. decode s = Some is \<and> standard_form is t sols) \<longleftrightarrow> t = t0 \<and> (\<exists>is. decode s = Some is \<and> standard_form is t0 sols)"
    if "\<exists>is. decode s = Some is \<and> standard_form is t0 x" for t0 x
    using that standard_form_unique by (metis option.inject)
  have solver: "Solver s = (case ?m1 of Matched sols \<Rightarrow> (True, TX_PUBKEY, sols) | Bad_multisig sols \<Rightarrow> (False, TX_PUBKEY, sols) | No_match \<Rightarrow>
      (case ?m2 of Matched sols \<Rightarrow> (True, TX_PUBKEYHASH, sols) | Bad_multisig sols \<Rightarrow> (False, TX_PUBKEYHASH, sols) | No_match \<Rightarrow>
      (case ?m3 of Matched sols \<Rightarrow> (True, TX_MULTISIG, sols) | Bad_multisig sols \<Rightarrow> (False, TX_MULTISIG, sols) | No_match \<Rightarrow> (False, TX_NONSTANDARD, []))))"
    using assms by (simp add: Solver_def mTemplates_def push_opcode_def cong: match_result.case_cong)
  show ?thesis
  proof (cases ?m1)
    case (Matched x)
    then show ?thesis using solver same [of TX_PUBKEY x] match_pubkey [of s x] match_pubkey [of s sols]
      by (simp del: standard_form_type) blast
  next
    case No_match
    then have n1: "\<not> (\<exists>is. decode s = Some is \<and> standard_form is TX_PUBKEY x)" for x using match_pubkey [of s x] by simp
    show ?thesis
    proof (cases ?m2)
      case (Matched x)
      then show ?thesis using solver No_match same [of TX_PUBKEYHASH x] match_pubkeyhash [of s x] match_pubkeyhash [of s sols]
        by (simp del: standard_form_type) blast
    next
      case n2: No_match
      then have "\<not> (\<exists>is. decode s = Some is \<and> standard_form is TX_PUBKEYHASH x)" for x using match_pubkeyhash [of s x] by simp
      then show ?thesis using solver No_match n1 n2 types match_multisig [of s sols] by (cases ?m3) fastforce+
    qed (use match_pubkeyhash_cases in blast)
  qed (use match_pubkey_cases in blast)
qed

section \<open>Properties\<close>

lemma P2SH_script_hash: "length h = 20 \<Longrightarrow> take 20 (drop 2 (P2SH_script h)) = h"
  by (simp add: P2SH_script_def)

lemma Solver_classifies_form:
  "Solver s = (True, t, sols) \<longleftrightarrow>
     (if IsPayToScriptHash s then t = TX_SCRIPTHASH \<and> (\<exists>h. length h = 20 \<and> s = P2SH_script h \<and> sols = [h])
      else \<exists>is. decode s = Some is \<and> standard_form is t sols)"
proof (cases "IsPayToScriptHash s")
  case True
  then have "Solver s = (True, t, sols) \<longleftrightarrow> t = TX_SCRIPTHASH \<and> sols = [take 20 (drop 2 s)]" by (auto simp: Solver_def)
  moreover have "(\<exists>h. length h = 20 \<and> s = P2SH_script h \<and> sols = [h]) \<longleftrightarrow> sols = [take 20 (drop 2 s)]"
    using True P2SH_script_hash by (auto simp: IsPayToScriptHash_iff)
  ultimately show ?thesis using True by simp
next
  case False
  then show ?thesis using Solver_scan by simp
qed

text \<open>C22. What \<open>Solver\<close> recognises: pay-to-script-hash by its bytes, and otherwise exactly the scripts whose instructions are one of the
standard forms, however their data is pushed, with the keys, the hash or the numbers in the solutions.\<close>

theorem Solver_classifies:
  "Solver s = (True, t, sols) \<longleftrightarrow>
     (if IsPayToScriptHash s then t = TX_SCRIPTHASH \<and> (\<exists>h. length h = 20 \<and> s = P2SH_script h \<and> sols = [h])
      else \<exists>is. decode s = Some is \<and> standard_form is t sols)"
  by (rule Solver_classifies_form)

fun sigops_list :: "bool \<Rightarrow> byte \<Rightarrow> (byte \<times> bytes) list \<Rightarrow> nat" where
  "sigops_list fAccurate lastOpcode [] = 0"
| "sigops_list fAccurate lastOpcode ((opcode, vch) # is) = sigops_of fAccurate lastOpcode opcode + sigops_list fAccurate opcode is"

lemma sigops_from_decode: "decode pc = Some is \<Longrightarrow> sigops_from f l pc = sigops_list f l is"
proof (induction "is" arbitrary: pc l)
  case (Cons x xs)
  then show ?case by (cases x) (auto simp: decode_eq_Cons sigops_from.simps [of f l pc])
qed (simp add: sigops_from.simps)

lemma sigops_list_keys: "\<forall>k \<in> set ks. key_size (snd k) \<Longrightarrow> \<forall>k \<in> set ks. fst k \<le> OP_PUSHDATA4 \<Longrightarrow>
    \<exists>l'. sigops_list f l (ks @ is) = sigops_list f l' is"
proof (induction ks arbitrary: l)
  case (Cons k ks)
  then show ?case by (cases k) (auto simp: sigops_of_def word_le_nat_alt)
qed auto

lemma GetOp_operand: "GetOp pc = Some (opcode, vch, pc') \<Longrightarrow> vch \<noteq> [] \<Longrightarrow> opcode \<le> OP_PUSHDATA4"
  using GetOp_no_operand by blast

lemma decode_P2SH: "length h = 20 \<Longrightarrow> decode (P2SH_script h) = Some [(OP_HASH160, []), (0x14, h), (OP_EQUAL, [])]"
  by (simp add: decode_eq_Cons P2SH_script_def GetOp_def push_size_def word_le_nat_alt word_less_nat_alt)

lemma small_op_sigops: "small_op op \<Longrightarrow> sigops_of f l op = 0"
  by (auto simp: small_op_def sigops_of_def word_le_nat_alt)

lemma standard_sigops_count:
  assumes "Solver s = (True, t, sols)"
  shows "GetSigOpCount True s = (case t of TX_SCRIPTHASH \<Rightarrow> 0 | TX_MULTISIG \<Rightarrow> unat (hd (last sols)) | _ \<Rightarrow> 1)"
proof (cases "IsPayToScriptHash s")
  case True
  then obtain h where "t = TX_SCRIPTHASH" "length h = 20" "s = P2SH_script h" using assms Solver_classifies_form by auto
  then show ?thesis using sigops_from_decode [OF decode_P2SH] by (simp add: GetSigOpCount_def sigops_of_def)
next
  case False
  then obtain "is" where d: "decode s = Some is" and f: "standard_form is t sols" using assms Solver_classifies_form by auto
  have push: "\<And>op v. (op, v) \<in> set is \<Longrightarrow> v \<noteq> [] \<Longrightarrow> op \<le> OP_PUSHDATA4" using decode_mem [OF d] GetOp_operand by blast
  have push0: "\<And>op v. (op, v) \<in> set is \<Longrightarrow> v \<noteq> [] \<Longrightarrow> sigops_of True l op = 0" for l
    using push by (fastforce simp: sigops_of_def word_le_nat_alt)
  have c: "GetSigOpCount True s = sigops_list True OP_INVALIDOPCODE is" by (simp add: GetSigOpCount_def sigops_from_decode [OF d])
  show ?thesis using f
  proof (cases rule: standard_form.cases)
    case (pubkey k op)
    then have "k \<noteq> []" by (auto simp: key_size_def)
    then show ?thesis using c pubkey push0 [of op k] by (simp add: sigops_of_def [of _ _ OP_CHECKSIG])
  next
    case (pubkeyhash h op)
    then have "h \<noteq> []" by auto
    then have "sigops_of True OP_HASH160 op = 0" using pubkeyhash push0 [of op h] by simp
    then show ?thesis using c pubkeyhash by (simp add: sigops_of_def [of _ _ OP_CHECKSIG] sigops_of_def [of _ _ OP_DUP] sigops_of_def [of _ _ OP_HASH160]
        sigops_of_def [of _ _ OP_EQUALVERIFY])
  next
    case (multisig opm m opn n ks)
    have small: "small_op opm" "small_op opn" using multisig DecodeOP_N_small by blast+
    have "\<forall>k \<in> set ks. fst k \<le> OP_PUSHDATA4"
    proof
      fix k assume k: "k \<in> set ks"
      then have "snd k \<noteq> []" using multisig by (auto simp: key_size_def)
      then show "fst k \<le> OP_PUSHDATA4" using push [of "fst k" "snd k"] k multisig(1) by simp
    qed
    then obtain l where l: "sigops_list True opm (ks @ [(opn, []), (OP_CHECKMULTISIG, [])]) = sigops_list True l [(opn, []), (OP_CHECKMULTISIG, [])]"
      using sigops_list_keys multisig by blast
    have "OP_1 \<le> opn \<and> opn \<le> OP_16" using small(2) multisig by (auto simp: small_op_def DecodeOP_N_def)
    then have "sigops_of True opn OP_CHECKMULTISIG = n" using multisig by (simp add: sigops_of_def)
    moreover have "unat (of_nat n :: byte) = n" using DecodeOP_N_le multisig by fastforce
    ultimately show ?thesis using c multisig l small small_op_sigops by simp
  qed
qed

text \<open>A standard output costs at most three signature operations, by the accurate count, and its type tells how many.\<close>

theorem standard_sigops:
  assumes "IsStandard s"
  shows "\<exists>t sols. Solver s = (True, t, sols) \<and> GetSigOpCount True s \<le> 3 \<and>
    GetSigOpCount True s = (case t of TX_SCRIPTHASH \<Rightarrow> 0 | TX_MULTISIG \<Rightarrow> unat (hd (last sols)) | _ \<Rightarrow> 1)"
proof -
  obtain b t sols where s: "Solver s = (b, t, sols)" by (cases "Solver s")
  then have "b" "t = TX_MULTISIG \<Longrightarrow> hd (last sols) \<le> 3"
    using assms by (auto simp: IsStandard_def Let_def split: bool.splits if_splits)
  then show ?thesis using s standard_sigops_count [of s t sols] by (cases t) (auto simp: word_le_nat_alt)
qed

theorem standard_sigops_witness:
  "GetSigOpCount True (P2SH_script (replicate 20 7)) \<le> 3"
proof -
  have "IsPayToScriptHash (P2SH_script (replicate 20 7))" by (subst IsPayToScriptHash_iff) (rule exI [of _ "replicate 20 7"], simp)
  then have "IsStandard (P2SH_script (replicate 20 7))" by (simp add: IsStandard_def Solver_def)
  from standard_sigops [OF this] show ?thesis by auto
qed

text \<open>\<open>AreInputsStandard\<close> asks \<open>Solver\<close> of the script inside a pay-to-script-hash output, not \<open>IsStandard\<close>: up to sixteen keys pass.\<close>

lemma GetOp_push_data_op: "length v < 76 \<Longrightarrow> GetOp (push_data v @ pc) = Some (of_nat (length v), v, pc)"
  by (auto simp: push_data_def GetOp_def push_size_def word_le_nat_alt word_less_nat_alt)

lemma redeem_script_not_standard:
  assumes "length k = 33"
  shows "\<exists>sols. Solver ([OP_1] @ push_data k @ push_data k @ push_data k @ push_data k @ [OP_4, OP_CHECKMULTISIG]) = (True, TX_MULTISIG, sols)"
    and "\<not> IsStandard ([OP_1] @ push_data k @ push_data k @ push_data k @ push_data k @ [OP_4, OP_CHECKMULTISIG])"
proof -
  let ?s = "[OP_1] @ push_data k @ push_data k @ push_data k @ push_data k @ [OP_4, OP_CHECKMULTISIG]"
  obtain op where op: "\<And>pc. GetOp (push_data k @ pc) = Some (op, k, pc)"
    using GetOp_push_data_op [of k] assms by auto
  have k: "\<And>pc. decode (push_data k @ pc) = map_option ((#) (op, k)) (decode pc)" using decode_step [OF op] by simp
  have one: "\<And>c pc. \<not> c \<le> OP_PUSHDATA4 \<Longrightarrow> decode (c # pc) = map_option ((#) (c, [])) (decode pc)" by (rule decode_step) simp
  have d: "decode ?s = Some ((OP_1, []) # replicate 4 (op, k) @ [(OP_4, []), (OP_CHECKMULTISIG, [])])"
  proof -
    have ops: "\<not> OP_1 \<le> OP_PUSHDATA4" "\<not> OP_4 \<le> OP_PUSHDATA4" "\<not> OP_CHECKMULTISIG \<le> OP_PUSHDATA4" by (simp_all add: word_le_nat_alt)
    show ?thesis by (simp only: append.simps one [OF ops(1)] one [OF ops(2)] one [OF ops(3)] k) (simp add: eval_nat_numeral)
  qed
  have n: "\<not> IsPayToScriptHash ?s" by (simp add: IsPayToScriptHash_def)
  have f: "standard_form ((OP_1, []) # replicate 4 (op, k) @ [(OP_4, []), (OP_CHECKMULTISIG, [])]) TX_MULTISIG
      ([of_nat 1] # map snd (replicate 4 (op, k)) @ [[of_nat 4]])"
    by (rule standard_form.multisig) (simp_all add: DecodeOP_N_def word_le_nat_alt assms key_size_def)
  then have s: "Solver ?s = (True, TX_MULTISIG, [of_nat 1] # map snd (replicate 4 (op, k)) @ [[of_nat 4]])"
    using Solver_scan [OF n] d by blast
  then show "\<exists>sols. Solver ?s = (True, TX_MULTISIG, sols)" by blast
  show "\<not> IsStandard ?s" unfolding IsStandard_def s by (simp add: Let_def word_less_nat_alt)
qed

end
