(* ===== verification/Block.thy ===== *)
theory Block
  imports Standard Merkle
begin

text \<open>
  Blocks (\<open>CBlockHeader\<close> and \<open>CBlock\<close> of \<open>src/src/main.h\<close>) and the rules that need no context (\<open>CheckBlock\<close> of
  \<open>main.cpp\<close>), with proof of work and the signature of the block.

  The program is built without \<open>PPCOINSTAKE\<close> and \<open>LITECOIN_SCRYPT_POWHASH\<close>: a block is proof of work, its hash is that of
  its header. What the node's start or its clock determine, the genesis block's hash, the adjusted time and the debug option that ignores
  signatures, are the record \<open>chain_params\<close>.
\<close>

section \<open>Data\<close>

record CBlockHeader =
  bh_nVersion :: int
  hashPrevBlock :: uint256
  hashMerkleRoot :: uint256
  bh_nTime :: uint32
  bh_nBits :: uint32
  bh_nNonce :: uint32

record CBlock = CBlockHeader +
  vtx :: "CTransaction list"
  vchBlockSig :: bytes

record chain_params =
  hashGenesisBlock :: uint256
  adjusted_time :: int
  ignore_block_sig :: bool
  total_blocks_estimate :: int

definition CBlockHeader_SetNull :: CBlockHeader where
  "CBlockHeader_SetNull = \<lparr>bh_nVersion = 1, hashPrevBlock = 0, hashMerkleRoot = 0, bh_nTime = 0, bh_nBits = 0, bh_nNonce = 0\<rparr>"

definition CBlock_SetNull :: CBlock where
  "CBlock_SetNull = CBlockHeader.extend CBlockHeader_SetNull (CBlock.fields [] [])"

definition CBlockHeader_IsNull :: "'a CBlockHeader_scheme \<Rightarrow> bool" where
  "CBlockHeader_IsNull block \<longleftrightarrow> bh_nBits block = 0"

definition GetBlockHeader :: "CBlock \<Rightarrow> CBlockHeader" where
  "GetBlockHeader block = CBlockHeader.truncate block"

definition CBlock_of_header :: "CBlockHeader \<Rightarrow> CBlock" where
  "CBlock_of_header h = CBlockHeader.extend h (CBlock.fields [] [])"

section \<open>Serialization and hash\<close>

definition ser_header :: "'a CBlockHeader_scheme \<Rightarrow> bytes" where
  "ser_header h = ser_int 4 (bh_nVersion h) @ ser_word (hashPrevBlock h) @ ser_word (hashMerkleRoot h) @
     ser_word (bh_nTime h) @ ser_word (bh_nBits h) @ ser_word (bh_nNonce h)"

definition unser_header :: "CBlockHeader reader" where
  "unser_header = rbind (unser_int 4) (\<lambda>v. rbind unser_word (\<lambda>p. rbind unser_word (\<lambda>m. rbind unser_word (\<lambda>t.
     rbind unser_word (\<lambda>b. rbind unser_word (\<lambda>n. rreturn
       \<lparr>bh_nVersion = v, hashPrevBlock = p, hashMerkleRoot = m, bh_nTime = t, bh_nBits = b, bh_nNonce = n\<rparr>))))))"

definition ser_block :: "CBlock \<Rightarrow> bytes" where
  "ser_block block = ser_header block @ ser_vec ser_tx (vtx block) @ ser_bytes (vchBlockSig block)"

definition unser_block :: "CBlock reader" where
  "unser_block = rbind unser_header (\<lambda>h. rbind (unser_vec unser_tx) (\<lambda>txs. rbind unser_bytes (\<lambda>sig.
     rreturn (CBlockHeader.extend h (CBlock.fields txs sig)))))"

text \<open>The hash is taken over the memory from \<open>nVersion\<close> to \<open>nNonce\<close>, which has the layout of the serialization.\<close>

definition Block_GetHash :: "openssl \<Rightarrow> 'a CBlockHeader_scheme \<Rightarrow> uint256" where
  "Block_GetHash L block = Hash L (ser_header block)"

definition GetPoWHash :: "openssl \<Rightarrow> 'a CBlockHeader_scheme \<Rightarrow> uint256" where
  "GetPoWHash L block = Block_GetHash L block"

definition GetBlockTime :: "'a CBlockHeader_scheme \<Rightarrow> int" where
  "GetBlockTime block = uint (bh_nTime block)"

definition GetMaxTransactionTime :: "CBlock \<Rightarrow> int" where
  "GetMaxTransactionTime block = foldl (\<lambda>t tx. max t (uint (tx_nTime tx))) 0 (vtx block)"

section \<open>Proof of work\<close>

text \<open>\<open>~uint256(0) >> 28\<close>.\<close>

definition bnProofOfWorkLimit :: int where
  "bnProofOfWorkLimit = uint (drop_bit 28 (NOT 0 :: uint256))"

definition CheckProofOfWork :: "openssl \<Rightarrow> uint256 \<Rightarrow> uint32 \<Rightarrow> bool" where
  "CheckProofOfWork L hash nBits =
     (let bnTarget = SetCompact nBits in
      if bnTarget \<le> 0 \<or> bnTarget > bnProofOfWorkLimit then False
      else if hash > getuint256 L bnTarget then False
      else True)"

section \<open>The signature\<close>

text \<open>The first output of the coinbase; both vectors are not empty where it is called, after the checks of the transactions.\<close>

definition CheckBlockSignature :: "openssl \<Rightarrow> chain_params \<Rightarrow> CBlock \<Rightarrow> bool" where
  "CheckBlockSignature L params block =
     (if Block_GetHash L block = hashGenesisBlock params then vchBlockSig block = []
      else if ignore_block_sig params then True
      else case Solver (scriptPubKey (tx_vout (vtx block ! 0) ! 0)) of
        (False, _) \<Rightarrow> False
      | (True, whichType, vSolutions) \<Rightarrow>
          if whichType = TX_PUBKEY then
            (if vchBlockSig block = [] then False
             else CPubKey_Verify L (CPubKey_Set (vSolutions ! 0)) (Block_GetHash L block) (vchBlockSig block))
          else False)"

section \<open>The rules\<close>

definition nMaxClockDrift :: int where
  "nMaxClockDrift = 2 * 60 * 60"

datatype block_error = Block_size_limits | Proof_of_work_failed | Too_far_in_future | First_not_coinbase | More_coinbases
  | CheckTransaction_failed tx_error | Tx_after_block | Duplicate_transaction | Sigops_out_of_bounds | Merkle_root_mismatch
  | Bad_block_signature

definition block_error_state :: "block_error \<Rightarrow> CValidationState \<Rightarrow> CValidationState" where
  "block_error_state e st = (case e of
     Proof_of_work_failed \<Rightarrow> state_DoS 50 False st
   | Too_far_in_future \<Rightarrow> state_Invalid st
   | CheckTransaction_failed e \<Rightarrow> state_DoS (tx_error_level e) False st
   | Tx_after_block \<Rightarrow> state_DoS 50 False st
   | Duplicate_transaction \<Rightarrow> state_DoS 100 True st
   | _ \<Rightarrow> state_DoS 100 False st)"

fun check_transactions :: "int \<Rightarrow> CTransaction list \<Rightarrow> block_error option" where
  "check_transactions blocktime [] = None"
| "check_transactions blocktime (tx # txs) = (case CheckTransaction tx of
     Some e \<Rightarrow> Some (CheckTransaction_failed e)
   | None \<Rightarrow> if blocktime < uint (tx_nTime tx) then Some Tx_after_block else check_transactions blocktime txs)"

definition CheckBlock :: "openssl \<Rightarrow> chain_params \<Rightarrow> bool \<Rightarrow> bool \<Rightarrow> CBlock \<Rightarrow> block_error option" where
  "CheckBlock L params fCheckPOW fCheckMerkleRoot block =
     (if vtx block = [] \<or> length (vtx block) > MAX_BLOCK_SIZE \<or> length (ser_block block) > MAX_BLOCK_SIZE then Some Block_size_limits
      else if fCheckPOW \<and> \<not> CheckProofOfWork L (GetPoWHash L block) (bh_nBits block) then Some Proof_of_work_failed
      else if GetBlockTime block > adjusted_time params + nMaxClockDrift then Some Too_far_in_future
      else if vtx block = [] \<or> \<not> IsCoinBase (vtx block ! 0) then Some First_not_coinbase
      else if list_ex IsCoinBase (tl (vtx block)) then Some More_coinbases
      else case check_transactions (GetBlockTime block) (vtx block) of
        Some e \<Rightarrow> Some e
      | None \<Rightarrow>
        (let (root, vMerkleTree) = BuildMerkleTree L (vtx block) in
         if card (set (map (\<lambda>i. vMerkleTree ! i) [0..<length (vtx block)])) \<noteq> length (vtx block) then Some Duplicate_transaction
         else if sum_list (map GetLegacySigOpCount (vtx block)) > MAX_BLOCK_SIGOPS then Some Sigops_out_of_bounds
         else if fCheckMerkleRoot \<and> hashMerkleRoot block \<noteq> root then Some Merkle_root_mismatch
         else if fCheckMerkleRoot \<and> \<not> CheckBlockSignature L params block then Some Bad_block_signature
         else None))"

definition CheckBlock_state :: "openssl \<Rightarrow> chain_params \<Rightarrow> bool \<Rightarrow> bool \<Rightarrow> CBlock \<Rightarrow> CValidationState \<Rightarrow> bool \<times> CValidationState" where
  "CheckBlock_state L params fCheckPOW fCheckMerkleRoot block st = (case CheckBlock L params fCheckPOW fCheckMerkleRoot block of
     None \<Rightarrow> (True, st)
   | Some e \<Rightarrow> (False, block_error_state e st))"

section \<open>What the rules say\<close>

lemma tower_txids: "take (length xs) (merkle_tower L xs) = xs"
  by (subst merkle_tower.simps) simp

lemma txids_of_tree: "map (\<lambda>i. snd (BuildMerkleTree L txs) ! i) [0..<length txs] = map (GetHash L) txs"
proof -
  have "take (length txs) (snd (BuildMerkleTree L txs)) = map (GetHash L) txs"
    using tower_txids [of "map (GetHash L) txs" L] by (simp add: BuildMerkleTree_eq)
  moreover have "length txs \<le> length (snd (BuildMerkleTree L txs))"
    using arg_cong [OF calculation, of length] by simp
  ultimately show ?thesis using take_map_nth [of "length txs" "snd (BuildMerkleTree L txs)"] by simp
qed

lemma check_transactions_None_iff:
  "check_transactions t txs = None \<longleftrightarrow> (\<forall>tx \<in> set txs. CheckTransaction tx = None \<and> uint (tx_nTime tx) \<le> t)"
  by (induction txs) (auto split: option.splits)

lemma CheckBlock_None_iff:
  "CheckBlock L params fCheckPOW fCheckMerkleRoot block = None \<longleftrightarrow>
     vtx block \<noteq> [] \<and> length (vtx block) \<le> MAX_BLOCK_SIZE \<and> length (ser_block block) \<le> MAX_BLOCK_SIZE \<and>
     (fCheckPOW \<longrightarrow> CheckProofOfWork L (Block_GetHash L block) (bh_nBits block)) \<and>
     GetBlockTime block \<le> adjusted_time params + nMaxClockDrift \<and>
     IsCoinBase (hd (vtx block)) \<and> (\<forall>tx \<in> set (tl (vtx block)). \<not> IsCoinBase tx) \<and>
     (\<forall>tx \<in> set (vtx block). CheckTransaction tx = None \<and> uint (tx_nTime tx) \<le> GetBlockTime block) \<and>
     distinct (map (GetHash L) (vtx block)) \<and>
     sum_list (map GetLegacySigOpCount (vtx block)) \<le> MAX_BLOCK_SIGOPS \<and>
     (fCheckMerkleRoot \<longrightarrow> hashMerkleRoot block = merkle_root L (map (GetHash L) (vtx block)) \<and> CheckBlockSignature L params block)"
proof -
  have dup: "card (set (map (\<lambda>i. snd (BuildMerkleTree L (vtx block)) ! i) [0..<length (vtx block)])) = length (vtx block) \<longleftrightarrow>
      distinct (map (GetHash L) (vtx block))"
    unfolding txids_of_tree
    using card_distinct [of "map (GetHash L) (vtx block)"] distinct_card [of "map (GetHash L) (vtx block)"] by auto
  have root: "fst (BuildMerkleTree L (vtx block)) = merkle_root L (map (GetHash L) (vtx block))" by (simp add: BuildMerkleTree_eq)
  have hd: "vtx block \<noteq> [] \<Longrightarrow> vtx block ! 0 = hd (vtx block)" by (simp add: hd_conv_nth)
  have if_None: "(if b then Some e else r) = None \<longleftrightarrow> \<not> b \<and> r = None" for b and e :: block_error and r by simp
  have opt: "(case r of None \<Rightarrow> q | Some e \<Rightarrow> Some e) = None \<longleftrightarrow> r = None \<and> q = None" for r q :: "block_error option"
    by (cases r) simp_all
  show ?thesis
    unfolding CheckBlock_def split_beta Let_def if_None opt dup root GetPoWHash_def check_transactions_None_iff list_ex_iff
    by (cases "vtx block = []") (simp_all only: hd not_less not_not de_Morgan_conj de_Morgan_disj HOL.simp_thms, blast)
qed

section \<open>The serialization is read back\<close>

definition header_ok :: "'a CBlockHeader_scheme \<Rightarrow> bool" where
  "header_ok h \<longleftrightarrow> in_int32 (bh_nVersion h)"

definition block_ok_ser :: "CBlock \<Rightarrow> bool" where
  "block_ok_ser block \<longleftrightarrow> header_ok block \<and> length (vtx block) \<le> MAX_SIZE \<and> (\<forall>tx \<in> set (vtx block). tx_ok tx) \<and>
     length (vchBlockSig block) \<le> MAX_SIZE"

interpretation header_codec: codec "ser_header :: CBlockHeader \<Rightarrow> bytes" unser_header header_ok
  by unfold_locales (simp add: ser_header_def unser_header_def header_ok_def int_codec.dec_enc word_codec.dec_enc)

lemma ser_header_truncate: "ser_header (CBlockHeader.truncate block) = ser_header block"
  by (simp add: ser_header_def CBlockHeader.truncate_def)

lemma CBlock_extend_truncate: "CBlockHeader.extend (CBlockHeader.truncate block) (CBlock.fields (vtx block) (vchBlockSig block)) = block"
  by (cases block) (simp add: CBlockHeader.truncate_def CBlockHeader.extend_def CBlock.fields_def)

interpretation block_codec: codec ser_block unser_block block_ok_ser
proof
  fix block r
  assume ok: "block_ok_ser block"
  then have "unser_header (ser_header block @ s) = Inr (CBlockHeader.truncate block, s)" for s
    using header_codec.dec_enc [of "CBlockHeader.truncate block" s]
    by (simp add: ser_header_truncate) (simp add: block_ok_ser_def header_ok_def CBlockHeader.truncate_def)
  then show "unser_block (ser_block block @ r) = Inr (block, r)"
    using ok by (simp add: unser_block_def ser_block_def block_ok_ser_def tx_codec.unser_ser_vec bytes_codec.dec_enc CBlock_extend_truncate)
qed

section \<open>A block with its last transaction repeated\<close>

lemma adjacent_repeat_last: "odd (length xs) \<Longrightarrow> adjacent (xs @ [last xs]) = adjacent xs"
  by (induction xs rule: adjacent.induct) auto

lemma merkle_root_repeat_last: "odd (length xs) \<Longrightarrow> 1 < length xs \<Longrightarrow> merkle_root L (xs @ [last xs]) = merkle_root L xs"
  using adjacent_repeat_last [of xs] merkle_root.simps [of L xs] merkle_root.simps [of L "xs @ [last xs]"]
  by (cases "xs = []") (simp_all add: pair_up_def)

section \<open>Properties\<close>

text \<open>C17. \<open>CheckBlock\<close> accepts exactly the blocks within the size limits, of enough work where it is asked for, not more than two hours
ahead of the adjusted time, whose first transaction and no other is a coinbase, whose transactions pass \<open>CheckTransaction\<close>, are not later
than the block and have distinct hashes, within the limit of signature operations; and, where it is asked for, with the merkle root of the
transactions in the header and a good signature. Otherwise the state says by how much the peer that sent it misbehaves.\<close>

theorem CheckBlock_accepts:
  "fst (CheckBlock_state L params fCheckPOW fCheckMerkleRoot block st) \<longleftrightarrow>
     0 < length (vtx block) \<and> length (vtx block) \<le> MAX_BLOCK_SIZE \<and> length (ser_block block) \<le> MAX_BLOCK_SIZE \<and>
     (fCheckPOW \<longrightarrow> CheckProofOfWork L (Block_GetHash L block) (bh_nBits block)) \<and>
     uint (bh_nTime block) \<le> adjusted_time params + 7200 \<and>
     (\<forall>i < length (vtx block). IsCoinBase (vtx block ! i) \<longleftrightarrow> i = 0) \<and>
     (\<forall>tx \<in> set (vtx block). CheckTransaction tx = None \<and> uint (tx_nTime tx) \<le> uint (bh_nTime block)) \<and>
     distinct (map (GetHash L) (vtx block)) \<and>
     sum_list (map GetLegacySigOpCount (vtx block)) \<le> 20000 \<and>
     (fCheckMerkleRoot \<longrightarrow> hashMerkleRoot block = fst (BuildMerkleTree L (vtx block)) \<and> CheckBlockSignature L params block)"
proof -
  have state: "fst (CheckBlock_state L params fCheckPOW fCheckMerkleRoot block st) \<longleftrightarrow> CheckBlock L params fCheckPOW fCheckMerkleRoot block = None"
    by (simp add: CheckBlock_state_def split: option.split)
  have coinbase: "vtx block \<noteq> [] \<Longrightarrow> (IsCoinBase (hd (vtx block)) \<and> (\<forall>tx \<in> set (tl (vtx block)). \<not> IsCoinBase tx)) \<longleftrightarrow>
      (\<forall>i < length (vtx block). IsCoinBase (vtx block ! i) \<longleftrightarrow> i = 0)"
    by (cases "vtx block") (auto simp: all_set_conv_all_nth less_Suc_eq_0_disj)
  show ?thesis
    unfolding state CheckBlock_None_iff coinbase [symmetric]
    using coinbase by (auto simp: MAX_BLOCK_SIGOPS_def MAX_BLOCK_SIZE_def nMaxClockDrift_def GetBlockTime_def BuildMerkleTree_eq)
qed

text \<open>C18. The weakness of the merkle tree: repeating the last transaction of a valid block with an odd number of transactions, more than one,
gives a block of the same hash and merkle root. \<open>CheckBlock\<close> rejects it, in the state of its validation with 100 points; the mark that the block may have
been corrupted on its way is set exactly if the longer block is still within the size limits, that is, where it is rejected for its duplicate transaction.\<close>

theorem repeated_transaction_rejected:
  assumes "CheckBlock L params fCheckPOW True block = None" "odd (length (vtx block))" "1 < length (vtx block)"
    and "block' = block\<lparr>vtx := vtx block @ [last (vtx block)]\<rparr>"
  shows "Block_GetHash L block' = Block_GetHash L block \<and> fst (BuildMerkleTree L (vtx block')) = hashMerkleRoot block' \<and>
    CheckBlock_state L params fCheckPOW True block' st =
      (False, state_DoS 100 (length (vtx block') \<le> MAX_BLOCK_SIZE \<and> length (ser_block block') \<le> MAX_BLOCK_SIZE) st)"
proof (intro conjI)
  let ?xs = "vtx block" let ?ys = "?xs @ [last ?xs]"
  let ?big = "MAX_BLOCK_SIZE < length (vtx block') \<or> MAX_BLOCK_SIZE < length (ser_block block')"
  have ys: "vtx block' = ?ys" by (simp add: assms(4))
  have last: "last ?xs \<in> set ?xs" "last ?xs \<in> set (tl ?xs)" "?xs \<noteq> []" using assms(3) by (cases ?xs, auto)+
  have ok: "CheckBlock L params fCheckPOW True block = None" by (fact assms(1))
  show hash: "Block_GetHash L block' = Block_GetHash L block" by (simp add: Block_GetHash_def ser_header_def assms(4))
  have "merkle_root L (map (GetHash L) ?ys) = merkle_root L (map (GetHash L) ?xs)"
    using merkle_root_repeat_last [of "map (GetHash L) ?xs" L] assms(2,3) last(3) by (simp add: last_map)
  then show "fst (BuildMerkleTree L (vtx block')) = hashMerkleRoot block'"
    using ok unfolding CheckBlock_None_iff by (simp add: BuildMerkleTree_eq assms(4))
  have txs: "check_transactions (GetBlockTime block') (vtx block') = None"
    using ok last unfolding CheckBlock_None_iff check_transactions_None_iff by (simp add: GetBlockTime_def assms(4))
  have first: "(vtx block' = [] \<or> \<not> IsCoinBase (vtx block' ! 0)) = False" "list_ex IsCoinBase (tl (vtx block')) = False"
    using ok last unfolding CheckBlock_None_iff ys by (auto simp: list_ex_iff hd_conv_nth nth_append)
  have dup: "(card (set (map (\<lambda>i. snd (BuildMerkleTree L (vtx block')) ! i) [0..<length (vtx block')])) \<noteq> length (vtx block')) = True"
    unfolding txids_of_tree ys using card_distinct [of "map (GetHash L) ?ys"] last by auto
  have "(fCheckPOW \<and> \<not> CheckProofOfWork L (GetPoWHash L block') (bh_nBits block')) = False"
    "(GetBlockTime block' > adjusted_time params + nMaxClockDrift) = False"
    using ok hash unfolding CheckBlock_None_iff by (simp_all add: GetPoWHash_def GetBlockTime_def assms(4))
  then have "CheckBlock L params fCheckPOW True block' = Some (if ?big then Block_size_limits else Duplicate_transaction)"
    unfolding CheckBlock_def split_beta Let_def first txs dup by (auto simp: ys)
  then show "CheckBlock_state L params fCheckPOW True block' st =
      (False, state_DoS 100 (length (vtx block') \<le> MAX_BLOCK_SIZE \<and> length (ser_block block') \<le> MAX_BLOCK_SIZE) st)"
    by (auto simp: CheckBlock_state_def block_error_state_def not_le)
qed

text \<open>A block of three transactions.\<close>

definition coinbase_tx :: CTransaction where
  "coinbase_tx = \<lparr> tx_nVersion = 1, tx_nTime = 6, tx_vin = [\<lparr>prevout = \<lparr>po_hash = 0, po_n = -1\<rparr>, scriptSig = [1, 1], nSequence = -1\<rparr>],
     tx_vout = [\<lparr>nValue = 5 * CENT, scriptPubKey = []\<rparr>], tx_nLockTime = 0 \<rparr>"

definition example_block :: CBlock where
  "example_block = \<lparr> bh_nVersion = 1, hashPrevBlock = 4, hashMerkleRoot = fst (BuildMerkleTree reference_ssl [coinbase_tx, example_tx, other_tx]),
     bh_nTime = 10, bh_nBits = 0, bh_nNonce = 0, vtx = [coinbase_tx, example_tx, other_tx], vchBlockSig = [] \<rparr>"

definition example_params :: chain_params where
  "example_params = \<lparr> hashGenesisBlock = Block_GetHash reference_ssl example_block + 1, adjusted_time = 0, ignore_block_sig = True,
     total_blocks_estimate = 0 \<rparr>"

lemma reference_Hash_inj: "Hash reference_ssl b = Hash reference_ssl c \<Longrightarrow> resize 32 0 b = resize 32 0 c"
proof -
  have *: "le_bytes 32 (unat (Hash reference_ssl x)) = resize 32 0 x" for x
  proof -
    have "resize 32 0 (resize 32 0 x) = resize 32 0 x" by (simp add: resize_def)
    moreover have "unat (of_nat (le_val (resize 32 0 x)) :: uint256) = le_val (resize 32 0 x)"
      using le_val_less [of "resize 32 0 x"] by (intro unat_of_nat_small) simp
    ultimately have "unat (Hash reference_ssl x) = le_val (resize 32 0 x)" by (simp add: Hash_def reference_ssl_def)
    then show ?thesis using le_bytes_le_val [of "resize 32 0 x"] by (simp only: length_resize)
  qed
  show "Hash reference_ssl b = Hash reference_ssl c \<Longrightarrow> resize 32 0 b = resize 32 0 c"
    unfolding * [symmetric] by simp
qed

lemma reference_txid_time: "GetHash reference_ssl tx = GetHash reference_ssl tx' \<Longrightarrow> uint (tx_nTime tx) mod 256 = uint (tx_nTime tx') mod 256"
proof -
  have *: "resize 32 0 (ser_tx x) ! 4 = of_nat (unat (tx_nTime x))" for x
  proof -
    have "(4 :: nat) = Suc (Suc (Suc (Suc 0)))" by simp
    then have "le_bytes 4 n ! 0 = of_nat (n mod 256)" for n by (simp only: le_bytes.simps nth_Cons_0)
    moreover have "(of_nat (n mod 256) :: byte) = of_nat n" for n
      by (simp add: word_unat_eq_iff unat_of_nat)
    ultimately show ?thesis by (simp add: nth_resize ser_tx_def nth_append ser_word_def)
  qed
  assume "GetHash reference_ssl tx = GetHash reference_ssl tx'"
  then have "resize 32 0 (ser_tx tx) = resize 32 0 (ser_tx tx')" unfolding GetHash_def by (rule reference_Hash_inj)
  then have "resize 32 0 (ser_tx tx) ! 4 = resize 32 0 (ser_tx tx') ! 4" by (rule arg_cong)
  then have "uint (of_nat (unat (tx_nTime tx)) :: byte) = uint (of_nat (unat (tx_nTime tx')) :: byte)" by (simp only: *)
  moreover have "uint (of_nat n :: byte) = int n mod 256" for n by (simp add: unsigned_of_nat take_bit_eq_mod zmod_int)
  ultimately show ?thesis by (simp only: uint_nat)
qed

lemma length_example_txs: "length (ser_tx coinbase_tx) = 66" "length (ser_tx example_tx) = 75" "length (ser_tx other_tx) = 75"
  by (simp_all add: coinbase_tx_def example_tx_def other_tx_def ser_tx_def ser_vec_def ser_txin_def ser_txout_def ser_outpoint_def
      ser_bytes_def length_WriteCompactSize GetSizeOfCompactSize_def)

lemma example_coinbase: "IsCoinBase coinbase_tx" "\<not> IsCoinBase example_tx" "\<not> IsCoinBase other_tx"
  by (simp_all add: coinbase_tx_def example_tx_def other_tx_def IsCoinBase_def COutPoint_IsNull_def)

lemma example_txs_checked: "CheckTransaction coinbase_tx = None" "CheckTransaction example_tx = None" "CheckTransaction other_tx = None"
  unfolding CheckTransaction_None_iff length_example_txs
  by (simp_all add: example_coinbase)
    (simp_all add: coinbase_tx_def example_tx_def other_tx_def output_ok_def COutPoint_IsNull_def MoneyRange_def MAX_BLOCK_SIZE_def MAX_MONEY_eq CENT_def)

lemma vtx_example_block: "vtx example_block = [coinbase_tx, example_tx, other_tx]"
  by (simp add: example_block_def)

lemma example_block_size:
  "length (ser_block example_block) \<le> MAX_BLOCK_SIZE"
  "length (ser_block (example_block\<lparr>vtx := [coinbase_tx, example_tx, other_tx, other_tx]\<rparr>)) \<le> MAX_BLOCK_SIZE"
  by (simp_all add: example_block_def ser_block_def ser_header_def ser_vec_def length_example_txs
      ser_bytes_def length_WriteCompactSize GetSizeOfCompactSize_def MAX_BLOCK_SIZE_def)

lemma example_block_accepted: "CheckBlock reference_ssl example_params False True example_block = None"
proof -
  have times: "uint (tx_nTime coinbase_tx) = 6" "uint (tx_nTime example_tx) = 7" "uint (tx_nTime other_tx) = 8"
    by (simp_all add: coinbase_tx_def example_tx_def other_tx_def)
  have "distinct (map (GetHash reference_ssl) [coinbase_tx, example_tx, other_tx])"
    using reference_txid_time [of coinbase_tx example_tx] reference_txid_time [of coinbase_tx other_tx]
      reference_txid_time [of example_tx other_tx] times by auto
  moreover have "sum_list (map GetLegacySigOpCount [coinbase_tx, example_tx, other_tx]) \<le> MAX_BLOCK_SIGOPS"
    using sigops_from_le [of False OP_INVALIDOPCODE "[1, 1]"] sigops_from_le [of False OP_INVALIDOPCODE "[]"]
      sigops_from_le [of False OP_INVALIDOPCODE "[OP_1]"] sigops_from_le [of False OP_INVALIDOPCODE "[OP_DUP]"]
    by (simp add: coinbase_tx_def example_tx_def other_tx_def GetLegacySigOpCount_def GetSigOpCount_def MAX_BLOCK_SIGOPS_def MAX_BLOCK_SIZE_def)
  ultimately show ?thesis
    using example_block_size(1) vtx_example_block example_coinbase times example_txs_checked
    unfolding CheckBlock_None_iff
    by (simp add: BuildMerkleTree_eq CheckBlockSignature_def example_params_def MAX_BLOCK_SIZE_def nMaxClockDrift_def GetBlockTime_def)
      (simp add: example_block_def BuildMerkleTree_eq)
qed

theorem repeated_transaction_rejected_witness:
  "CheckBlock_state reference_ssl example_params False True (example_block\<lparr>vtx := [coinbase_tx, example_tx, other_tx, other_tx]\<rparr>) valid_state =
     (False, state_DoS 100 True valid_state)"
  using repeated_transaction_rejected [of reference_ssl example_params False example_block "example_block\<lparr>vtx := [coinbase_tx, example_tx, other_tx, other_tx]\<rparr>" valid_state]
    example_block_accepted example_block_size(2)
  by (simp add: vtx_example_block MAX_BLOCK_SIZE_def)

theorem CheckBlock_accepts_witness:
  "distinct (map (GetHash reference_ssl) (vtx example_block)) \<and> sum_list (map GetLegacySigOpCount (vtx example_block)) \<le> 20000 \<and>
   CheckBlockSignature reference_ssl example_params example_block"
  using CheckBlock_accepts [of reference_ssl example_params False True example_block valid_state] example_block_accepted
  by (simp add: CheckBlock_state_def)

end
