(* ===== verification/Chain.thy ===== *)
theory Chain
  imports Block "HOL-Library.Signed_Division"
begin

text \<open>
  The index of the blocks (\<open>CBlockIndex\<close> of \<open>src/src/main.h\<close>) and the rules of the chain of \<open>src/src/manna.cpp\<close>: what a block may
  create, which target it must meet, and which time it may have.

  \<open>mapBlockIndex\<close> is a map from hashes to entries; a pointer to an entry is the hash of its block, and none is the null pointer. A null
  pointer that is read is \<open>None\<close>.
\<close>

section \<open>The block index\<close>

definition BLOCK_VALID_SCRIPTS :: uint32 where "BLOCK_VALID_SCRIPTS = 5"
definition BLOCK_VALID_MASK :: uint32 where "BLOCK_VALID_MASK = 7"
definition BLOCK_HAVE_DATA :: uint32 where "BLOCK_HAVE_DATA = 8"
definition BLOCK_HAVE_UNDO :: uint32 where "BLOCK_HAVE_UNDO = 16"
definition BLOCK_FAILED_VALID :: uint32 where "BLOCK_FAILED_VALID = 32"
definition BLOCK_FAILED_CHILD :: uint32 where "BLOCK_FAILED_CHILD = 64"
definition BLOCK_FAILED_MASK :: uint32 where "BLOCK_FAILED_MASK = 96"

record CDiskBlockPos =
  nFile :: int
  nPos :: uint32

definition CDiskBlockPos_SetNull :: CDiskBlockPos where
  "CDiskBlockPos_SetNull = \<lparr>nFile = -1, nPos = 0\<rparr>"

definition CDiskBlockPos_IsNull :: "CDiskBlockPos \<Rightarrow> bool" where
  "CDiskBlockPos_IsNull p \<longleftrightarrow> nFile p = -1"

record CBlockIndex =
  bi_pprev :: "uint256 option"
  bi_pnext :: "uint256 option"
  bi_nHeight :: int
  bi_nFile :: int
  bi_nDataPos :: uint32
  bi_nUndoPos :: uint32
  bi_nChainTrust :: uint256
  bi_nTx :: uint32
  bi_nChainTx :: uint32
  bi_nStatus :: uint32
  bi_nMoneySupply :: int
  bi_nVersion :: int
  bi_hashMerkleRoot :: uint256
  bi_nTime :: uint32
  bi_nBits :: uint32
  bi_nNonce :: uint32

type_synonym block_map = "uint256 \<Rightarrow> CBlockIndex option"

definition CBlockIndex_of :: "CBlock \<Rightarrow> CBlockIndex" where
  "CBlockIndex_of block = \<lparr>bi_pprev = None, bi_pnext = None, bi_nHeight = 0, bi_nFile = 0, bi_nDataPos = 0, bi_nUndoPos = 0,
     bi_nChainTrust = 0, bi_nTx = 0, bi_nChainTx = 0, bi_nStatus = 0, bi_nMoneySupply = 0,
     bi_nVersion = bh_nVersion block, bi_hashMerkleRoot = hashMerkleRoot block, bi_nTime = bh_nTime block,
     bi_nBits = bh_nBits block, bi_nNonce = bh_nNonce block\<rparr>"

definition GetBlockPos :: "CBlockIndex \<Rightarrow> CDiskBlockPos" where
  "GetBlockPos b = (if bi_nStatus b AND BLOCK_HAVE_DATA \<noteq> 0 then \<lparr>nFile = bi_nFile b, nPos = bi_nDataPos b\<rparr> else CDiskBlockPos_SetNull)"

definition GetUndoPos :: "CBlockIndex \<Rightarrow> CDiskBlockPos" where
  "GetUndoPos b = (if bi_nStatus b AND BLOCK_HAVE_UNDO \<noteq> 0 then \<lparr>nFile = bi_nFile b, nPos = bi_nUndoPos b\<rparr> else CDiskBlockPos_SetNull)"

text \<open>The header that an entry stands for.\<close>

definition CBlockIndex_GetBlockHeader :: "CBlockIndex \<Rightarrow> CBlockHeader" where
  "CBlockIndex_GetBlockHeader b =
     CBlockHeader_SetNull\<lparr>bh_nVersion := bi_nVersion b,
       hashPrevBlock := (case bi_pprev b of None \<Rightarrow> 0 | Some h \<Rightarrow> h),
       hashMerkleRoot := bi_hashMerkleRoot b, bh_nTime := bi_nTime b, bh_nBits := bi_nBits b, bh_nNonce := bi_nNonce b\<rparr>"

definition CBlockIndex_GetBlockTime :: "CBlockIndex \<Rightarrow> int" where
  "CBlockIndex_GetBlockTime b = uint (bi_nTime b)"

text \<open>The expected number of hashes for the target of an entry.\<close>

definition GetBlockTrust :: "CBlockIndex \<Rightarrow> int" where
  "GetBlockTrust b = (let bnTarget = SetCompact (bi_nBits b) in if bnTarget \<le> 0 then 0 else push_bit 256 1 sdiv (bnTarget + 1))"

definition nMedianTimeSpan :: nat where "nMedianTimeSpan = 11"

text \<open>The times of an entry and its predecessors, the last first, at most \<open>nMedianTimeSpan\<close>.\<close>

fun block_times :: "block_map \<Rightarrow> nat \<Rightarrow> uint256 option \<Rightarrow> int list option" where
  "block_times idx 0 pindex = Some []"
| "block_times idx (Suc n) None = Some []"
| "block_times idx (Suc n) (Some h) = (case idx h of
     None \<Rightarrow> None
   | Some b \<Rightarrow> map_option ((#) (CBlockIndex_GetBlockTime b)) (block_times idx n (bi_pprev b)))"

definition GetMedianTimePast :: "block_map \<Rightarrow> uint256 \<Rightarrow> int option" where
  "GetMedianTimePast idx h = map_option (\<lambda>ts. sort ts ! (length ts div 2)) (block_times idx nMedianTimeSpan (Some h))"

text \<open>Version 2 of blocks is not enforced.\<close>

definition IsSuperMajority :: "int \<Rightarrow> uint256 option \<Rightarrow> nat \<Rightarrow> nat \<Rightarrow> bool" where
  "IsSuperMajority minVersion pstart nRequired nToCheck = False"

section \<open>What a block creates\<close>

text \<open>The factors that are no integers are exact: 6.25, 12.5, 3.13, 1.57 and 2.5 coins are whole numbers of units.\<close>

definition GetProofOfWorkRewardTestNet :: "int \<Rightarrow> int" where
  "GetProofOfWorkRewardTestNet nHeight =
     (if nHeight = 1 then 10000000000 * COIN
      else if nHeight < 500 then CENT
      else if nHeight < 510 then 625 * COIN div 100
      else if nHeight < 520 then 125 * COIN div 10
      else if nHeight < 530 then 25 * COIN
      else if nHeight < 540 then 50 * COIN
      else if nHeight < 550 then 100 * COIN
      else if nHeight < 560 then 200 * COIN
      else if nHeight < 1000 then 400 * COIN
      else if nHeight < 1500 then 200 * COIN
      else if nHeight < 2000 then 100 * COIN
      else if nHeight < 2500 then 50 * COIN
      else if nHeight < 3000 then 25 * COIN
      else if nHeight < 3500 then 125 * COIN div 10
      else if nHeight < 4000 then 625 * COIN div 100
      else if nHeight < 4500 then 313 * COIN div 100
      else if nHeight < 5000 then 157 * COIN div 100
      else COIN)"

definition GetProofOfWorkReward :: "bool \<Rightarrow> int \<Rightarrow> int" where
  "GetProofOfWorkReward fTestNet nHeight =
     (if fTestNet then GetProofOfWorkRewardTestNet nHeight
      else if nHeight = 1 then 10000000000 * COIN
      else if nHeight < 50000 then CENT
      else if nHeight < 51000 then 625 * COIN div 100
      else if nHeight < 52000 then 125 * COIN div 10
      else if nHeight < 53000 then 25 * COIN
      else if nHeight < 54000 then 50 * COIN
      else if nHeight < 55000 then 100 * COIN
      else if nHeight < 56000 then 200 * COIN
      else if nHeight < 100000 then 400 * COIN
      else if nHeight < 150000 then 200 * COIN
      else if nHeight < 200000 then 100 * COIN
      else if nHeight < 250000 then 50 * COIN
      else if nHeight < 300000 then 25 * COIN
      else if nHeight < 1100000 then 10 * COIN
      else if nHeight < 1200000 then 5 * COIN
      else if nHeight < 1300000 then 25 * COIN div 10
      else 1 * COIN)"

text \<open>The value of a block of proof of work (coin age 0); its fees are not part of it.\<close>

definition GetBlockValue :: "bool \<Rightarrow> CBlockIndex \<Rightarrow> int \<Rightarrow> int" where
  "GetBlockValue fTestNet b nFees = GetProofOfWorkReward fTestNet (bi_nHeight b)"

section \<open>The target\<close>

definition STAKE_TARGET_SPACING :: int where "STAKE_TARGET_SPACING = 90"
definition nTargetTimespan :: int where "nTargetTimespan = 24 * 60 * 60"
definition nTargetSpacingWorkMax :: int where "nTargetSpacingWorkMax = 12 * STAKE_TARGET_SPACING"

definition bnInitialHashTarget :: int where
  "bnInitialHashTarget = uint (drop_bit 28 (NOT 0 :: uint256))"

function min_work_loop :: "int \<Rightarrow> int \<Rightarrow> int" where
  "min_work_loop bnResult nTime =
     (if nTime > 0 \<and> bnResult < bnProofOfWorkLimit then min_work_loop (bnResult * 2) (nTime - 3 * 60 * 60) else bnResult)"
  by pat_completeness auto
termination by (relation "measure (\<lambda>(r, t). nat t)") auto

declare min_work_loop.simps [simp del]

definition ComputeMinWork :: "openssl \<Rightarrow> uint32 \<Rightarrow> int \<Rightarrow> uint32" where
  "ComputeMinWork L nBase nTime =
     (let bnResult = min_work_loop (SetCompact nBase * 2) nTime in
      GetCompact L (if bnResult > bnProofOfWorkLimit then bnProofOfWorkLimit else bnResult))"

text \<open>Every block is proof of work: the last block index of proof of work is the one given.\<close>

definition GetLastBlockIndex :: "uint256 \<Rightarrow> bool \<Rightarrow> uint256 option" where
  "GetLastBlockIndex pindex fProofOfStake = (if fProofOfStake then None else Some pindex)"

text \<open>The new target from the previous one and the time between the last two blocks; the division of \<open>CBigNum\<close> rounds to zero.\<close>

definition retarget :: "int \<Rightarrow> int \<Rightarrow> int \<Rightarrow> int" where
  "retarget bnOld nTargetSpacing nActualSpacing =
     (let nInterval = nTargetTimespan div nTargetSpacing;
          bnNew = bnOld * ((nInterval - 1) * nTargetSpacing + nActualSpacing + nActualSpacing) sdiv ((nInterval + 1) * nTargetSpacing) in
      if bnNew > bnProofOfWorkLimit then bnProofOfWorkLimit else bnNew)"

definition GetNextTargetRequired :: "openssl \<Rightarrow> block_map \<Rightarrow> uint256 option \<Rightarrow> bool \<Rightarrow> uint32 option" where
  "GetNextTargetRequired L idx pindexLast fProofOfStake = (case pindexLast of
     None \<Rightarrow> Some (GetCompact L bnProofOfWorkLimit)
   | Some pl \<Rightarrow> (case Option.bind (GetLastBlockIndex pl fProofOfStake) idx of
       None \<Rightarrow> None
     | Some b \<Rightarrow> (case bi_pprev b of
         None \<Rightarrow> Some (GetCompact L bnInitialHashTarget)
       | Some prev \<Rightarrow> (case Option.bind (GetLastBlockIndex prev fProofOfStake) idx of
           None \<Rightarrow> None
         | Some p \<Rightarrow> (case bi_pprev p of
             None \<Rightarrow> Some (GetCompact L bnInitialHashTarget)
           | Some _ \<Rightarrow>
             let nActualSpacing = CBlockIndex_GetBlockTime b - CBlockIndex_GetBlockTime p;
                 nTargetSpacing = (if fProofOfStake then STAKE_TARGET_SPACING
                   else min nTargetSpacingWorkMax (STAKE_TARGET_SPACING * (1 + bi_nHeight (the (idx pl)) - bi_nHeight b))) in
             Some (GetCompact L (retarget (SetCompact (bi_nBits b)) nTargetSpacing nActualSpacing)))))))"

definition GetNextTrustRequired :: "openssl \<Rightarrow> block_map \<Rightarrow> uint256 option \<Rightarrow> uint32 option" where
  "GetNextTrustRequired L idx pindexLast = GetNextTargetRequired L idx pindexLast False"

section \<open>The time of a block\<close>

definition MINIMUM_BLOCK_SPACING :: int where "MINIMUM_BLOCK_SPACING = 60"
definition minimum_time_fork :: int where "minimum_time_fork = 250000"
definition minimum_time_fork_2 :: int where "minimum_time_fork_2 = 250000"

definition AcceptBlockTimestamp :: "CBlockIndex \<Rightarrow> 'a CBlockHeader_scheme \<Rightarrow> CValidationState \<Rightarrow> bool \<times> CValidationState" where
  "AcceptBlockTimestamp prev block st =
     (let delta = GetBlockTime block - CBlockIndex_GetBlockTime prev;
          nHeight = bi_nHeight prev + 1;
          time_allow = (if nHeight > minimum_time_fork_2 then 30 else -30) in
      if nHeight \<ge> minimum_time_fork_2 \<and> delta \<le> time_allow then (False, state_Invalid st)
      else if nHeight \<ge> minimum_time_fork \<and> delta \<le> MINIMUM_BLOCK_SPACING then (False, state_DoS 10 False st)
      else (True, st))"

definition UpdateTime :: "openssl \<Rightarrow> bool \<Rightarrow> block_map \<Rightarrow> int \<Rightarrow> uint256 \<Rightarrow> 'a CBlockHeader_scheme \<Rightarrow> 'a CBlockHeader_scheme option" where
  "UpdateTime L fTestNet idx adjustedTime pindexPrev block = (case idx pindexPrev of
     None \<Rightarrow> None
   | Some prev \<Rightarrow>
     let block = block\<lparr>bh_nTime := of_int (max (CBlockIndex_GetBlockTime prev + MINIMUM_BLOCK_SPACING + 1) (GetBlockTime block))\<rparr>;
         block = block\<lparr>bh_nTime := of_int (max adjustedTime (GetBlockTime block))\<rparr> in
     if fTestNet then map_option (\<lambda>nBits. block\<lparr>bh_nBits := nBits\<rparr>) (GetNextTrustRequired L idx (Some pindexPrev)) else Some block)"

section \<open>Properties\<close>

text \<open>The reward of a block is money at every height, and no more than 400 coins except for the planned distribution at height 1.\<close>

theorem GetBlockValue_bounds:
  "0 < GetBlockValue fTestNet b nFees \<and> MoneyRange (GetBlockValue fTestNet b nFees) \<and>
   (bi_nHeight b = 1 \<or> GetBlockValue fTestNet b nFees \<le> 400 * COIN)"
  by (auto simp: GetBlockValue_def GetProofOfWorkReward_def GetProofOfWorkRewardTestNet_def MoneyRange_def MAX_MONEY_eq COIN_def CENT_def)

lemma sdiv_nonneg: "0 \<le> a \<Longrightarrow> 0 < b \<Longrightarrow> (a :: int) sdiv b = a div b"
  by (cases "a = 0") (simp_all add: signed_divide_int_def)

lemma sdiv_neg: "a < 0 \<Longrightarrow> 0 < b \<Longrightarrow> (a :: int) sdiv b = - ((- a) div b)"
  by (simp add: signed_divide_int_def)

lemma retarget_90: "retarget t STAKE_TARGET_SPACING s = min bnProofOfWorkLimit ((t * (86310 + 2 * s)) sdiv 86490)"
proof -
  have e: "86310 + 2 * s = 2 * s + (86310 :: int)" by simp
  show ?thesis by (simp add: retarget_def nTargetTimespan_def STAKE_TARGET_SPACING_def Let_def min_def e)
qed

text \<open>C23. The new target follows the time between the last two blocks: it stays where they are 90 seconds apart, is not lowered for slower
blocks nor raised for faster ones, and never passes the limit. But the time between the blocks has no lower bound: where the last block is
stamped more than 43155 seconds before the one before it, the target required of the next block is negative.\<close>

theorem retarget_follows_spacing:
  assumes "0 < t" "t \<le> bnProofOfWorkLimit"
  shows "retarget t STAKE_TARGET_SPACING s \<le> bnProofOfWorkLimit \<and>
    (s = 90 \<longrightarrow> retarget t STAKE_TARGET_SPACING s = t) \<and>
    (90 \<le> s \<longrightarrow> t \<le> retarget t STAKE_TARGET_SPACING s) \<and>
    (s \<le> 90 \<longrightarrow> retarget t STAKE_TARGET_SPACING s \<le> t) \<and>
    (86490 \<le> t \<longrightarrow> (retarget t STAKE_TARGET_SPACING s < 0 \<longleftrightarrow> s < -43155))"
proof -
  let ?q = "(t * (86310 + 2 * s)) sdiv 86490"
  have q0: "?q = t * (86310 + 2 * s) div 86490" if "-43155 \<le> s" using that assms(1) by (intro sdiv_nonneg) auto
  have q1: "?q = - (- (t * (86310 + 2 * s)) div 86490)" if "s < -43155" using that assms(1) by (intro sdiv_neg) (auto simp: mult_less_0_iff)
  have mid: "?q = t" if "s = 90" using q0 that by simp
  have up: "t \<le> ?q" if "90 \<le> s"
  proof -
    have "t * 86490 div 86490 \<le> t * (86310 + 2 * s) div 86490" using that assms(1) by (intro zdiv_mono1 mult_left_mono) auto
    then show ?thesis using q0 that by simp
  qed
  have down: "?q \<le> t" if "s \<le> 90"
  proof (cases "-43155 \<le> s")
    case True
    have "t * (86310 + 2 * s) div 86490 \<le> t * 86490 div 86490" using that assms(1) by (intro zdiv_mono1 mult_left_mono) auto
    then show ?thesis using q0 [OF True] by simp
  next
    case False
    then have "0 \<le> - (t * (86310 + 2 * s)) div 86490" using assms(1) by (intro pos_imp_zdiv_nonneg_iff [THEN iffD2]) (auto simp: mult_le_0_iff)
    then show ?thesis using q1 False assms(1) by simp
  qed
  have sign: "?q < 0 \<longleftrightarrow> s < -43155" if "86490 \<le> t"
  proof (cases "s < -43155")
    case True
    have "86490 * 1 \<le> t * (- (86310 + 2 * s))" using that True by (intro mult_mono) auto
    then have "86490 \<le> - (t * (86310 + 2 * s))" by (simp only: mult_minus_right mult.right_neutral)
    from zdiv_mono1 [OF this, of 86490] have "1 \<le> - (t * (86310 + 2 * s)) div 86490" by simp
    then show ?thesis using q1 True by simp
  next
    case False
    then have "0 \<le> t * (86310 + 2 * s) div 86490" using assms(1) by (intro pos_imp_zdiv_nonneg_iff [THEN iffD2]) auto
    then show ?thesis using q0 False by simp
  qed
  have "0 < bnProofOfWorkLimit" using assms by simp
  then show ?thesis unfolding retarget_90 using assms mid up down sign by (auto simp: min_def)
qed

theorem retarget_follows_spacing_witness: "retarget 100000 STAKE_TARGET_SPACING (-50000) < 0 \<and> retarget 100000 STAKE_TARGET_SPACING 90 = 100000"
proof -
  have "bnProofOfWorkLimit = 2 ^ 228 - 1" by (simp add: bnProofOfWorkLimit_def) (simp add: uint_mask_eq mask_eq_exp_minus_1)
  then show ?thesis
    using retarget_follows_spacing [of 100000 "-50000"] retarget_follows_spacing [of 100000 90] by simp
qed

text \<open>From height 250000 on, a block is accepted exactly when it is more than a minute later than its predecessor. The check with the smaller
bound comes first and counts as no misbehaviour: a block 31 to 60 seconds later is punished, one stamped at the same second is not.\<close>

theorem AcceptBlockTimestamp_spacing:
  "fst (AcceptBlockTimestamp prev block st) \<longleftrightarrow>
     (bi_nHeight prev + 1 \<ge> 250000 \<longrightarrow> GetBlockTime block - CBlockIndex_GetBlockTime prev > 60)"
  "bi_nHeight prev \<ge> 250000 \<Longrightarrow> vs_mode st = MODE_VALID \<Longrightarrow> \<not> fst (AcceptBlockTimestamp prev block st) \<Longrightarrow>
     vs_nDoS (snd (AcceptBlockTimestamp prev block st)) =
     vs_nDoS st + (if GetBlockTime block - CBlockIndex_GetBlockTime prev \<le> 30 then 0 else 10)"
  by (auto simp: AcceptBlockTimestamp_def minimum_time_fork_def minimum_time_fork_2_def MINIMUM_BLOCK_SPACING_def Let_def state_Invalid_def
      state_DoS_def split: if_splits)

end
