(* ===== verification/Connect.thy ===== *)
theory Connect
  imports Chain
begin

text \<open>
  Connecting a block to the chain and disconnecting it (\<open>ConnectBlock\<close> and \<open>DisconnectBlock\<close> of \<open>src/src/main.cpp\<close>), against a
  \<open>CCoinsViewCache\<close> over any view below.

  \<open>None\<close> is an assertion that fails, a null pointer that is read or an exception. Whether the files and the index database can be written, and
  what is read from the undo file, are arguments (\<open>connect_env\<close>). The wallets that are told of the block are not modelled.
\<close>

section \<open>Connecting\<close>

record connect_env =
  fTestNet :: bool
  nScriptCheckThreads :: nat
  fTxIndex :: bool
  find_undo_pos :: "uint32 option"
  write_undo_ok :: bool
  write_index_ok :: bool
  write_txindex_ok :: bool

datatype connect_error = Block_rejected block_error | Overwrites_transaction | Too_many_sigops | Inputs_missing
  | Inputs_rejected inputs_error | Coinbase_too_high | Scripts_failed
  | Undo_pos_failed | Undo_write_failed | Index_write_failed | Txindex_write_failed

definition connect_error_state :: "connect_error \<Rightarrow> CValidationState \<Rightarrow> CValidationState" where
  "connect_error_state e st = (case e of
     Block_rejected e \<Rightarrow> block_error_state e st
   | Inputs_rejected e \<Rightarrow> inputs_error_state e st
   | Undo_pos_failed \<Rightarrow> st
   | Undo_write_failed \<Rightarrow> state_Error st
   | Index_write_failed \<Rightarrow> state_Error st
   | Txindex_write_failed \<Rightarrow> state_Error st
   | _ \<Rightarrow> state_DoS 100 False st)"

text \<open>No transaction may overwrite one that is not spent.\<close>

fun overwrites :: "('s \<Rightarrow> uint256 \<Rightarrow> CCoins option \<times> 's) \<Rightarrow> uint256 list \<Rightarrow> 's CCoinsViewCache \<Rightarrow> (bool \<times> 's CCoinsViewCache) option" where
  "overwrites get [] v = Some (False, v)"
| "overwrites get (hash # hashes) v = (case Cache_HaveCoins get v hash of
     (False, v) \<Rightarrow> overwrites get hashes v
   | (True, v) \<Rightarrow> (case Cache_coins get v hash of
       None \<Rightarrow> None
     | Some (coins, v) \<Rightarrow> if \<not> IsPruned coins then Some (True, v) else overwrites get hashes v))"

text \<open>What the loop over the transactions accumulates.\<close>

record connect_state =
  cs_nFees :: int
  cs_nValueOut :: int
  cs_nSigOps :: nat
  cs_checks :: "CScriptCheck list"
  cs_undo :: CBlockUndo
  cs_vPos :: "(uint256 \<times> nat) list"
  cs_nTxOffset :: nat

type_synonym 's connect_step = "((connect_error + connect_state) \<times> CSignatureCache \<times> 's CCoinsViewCache) option"

text \<open>A transaction that is no coinbase: \<open>strict\<close> is \<open>fStrictPayToScriptHash\<close>.\<close>

definition connect_inputs :: "openssl \<Rightarrow> ('s \<Rightarrow> uint256 \<Rightarrow> CCoins option \<times> 's) \<Rightarrow> ('s \<Rightarrow> uint256 option \<times> 's) \<Rightarrow> (uint256 \<Rightarrow> int) \<Rightarrow>
    bool \<Rightarrow> nat \<Rightarrow> bool \<Rightarrow> uint32 \<Rightarrow> CTransaction \<Rightarrow> connect_state \<Rightarrow> CSignatureCache \<Rightarrow> 's CCoinsViewCache \<Rightarrow> 's connect_step" where
  "connect_inputs L get getbest heights fScriptChecks nThreads strict flags tx cs cache v =
     (case HaveInputs get tx v of
        None \<Rightarrow> None
      | Some (False, v) \<Rightarrow> Some (Inl Inputs_missing, cache, v)
      | Some (True, v) \<Rightarrow>
        (case (if strict then GetP2SHSigOpCount get tx v else Some (0, v)) of
           None \<Rightarrow> None
         | Some (n, v) \<Rightarrow>
           if strict \<and> cs_nSigOps cs + n > MAX_BLOCK_SIGOPS then Some (Inl Too_many_sigops, cache, v)
           else (case GetValueIn get tx v of
              None \<Rightarrow> None
            | Some (nValueIn, v) \<Rightarrow> (case GetValueOut tx of
                None \<Rightarrow> None
              | Some nValueOut \<Rightarrow>
                (case CheckInputs L get getbest heights fScriptChecks flags (nThreads \<noteq> 0) tx cache v of
                   None \<Rightarrow> None
                 | Some (Inl e, cache, v) \<Rightarrow> Some (Inl (Inputs_rejected e), cache, v)
                 | Some (Inr checks, cache, v) \<Rightarrow>
                     Some (Inr (cs\<lparr>cs_nSigOps := cs_nSigOps cs + n,
                                   cs_nFees := wrap64 (cs_nFees cs + wrap64 (nValueIn - nValueOut)),
                                   cs_checks := cs_checks cs @ checks\<rparr>), cache, v))))))"

fun connect_txs :: "openssl \<Rightarrow> ('s \<Rightarrow> uint256 \<Rightarrow> CCoins option \<times> 's) \<Rightarrow> ('s \<Rightarrow> uint256 option \<times> 's) \<Rightarrow> (uint256 \<Rightarrow> int) \<Rightarrow>
    bool \<Rightarrow> nat \<Rightarrow> bool \<Rightarrow> uint32 \<Rightarrow> int \<Rightarrow> (uint256 \<times> CTransaction) list \<Rightarrow> connect_state \<Rightarrow> CSignatureCache \<Rightarrow> 's CCoinsViewCache \<Rightarrow>
    's connect_step" where
  "connect_txs L get getbest heights fScriptChecks nThreads strict flags nHeight [] cs cache v = Some (Inr cs, cache, v)"
| "connect_txs L get getbest heights fScriptChecks nThreads strict flags nHeight ((txid, tx) # txs) cs cache v =
     (let cs = cs\<lparr>cs_nSigOps := cs_nSigOps cs + GetLegacySigOpCount tx\<rparr> in
      if cs_nSigOps cs > MAX_BLOCK_SIGOPS then Some (Inl Too_many_sigops, cache, v)
      else case (if IsCoinBase tx
                 then map_option (\<lambda>nValueOut. (Inr (cs\<lparr>cs_nValueOut := wrap64 (cs_nValueOut cs + nValueOut)\<rparr>), cache, v)) (GetValueOut tx)
                 else connect_inputs L get getbest heights fScriptChecks nThreads strict flags tx cs cache v) of
        None \<Rightarrow> None
      | Some (Inl e, cache, v) \<Rightarrow> Some (Inl e, cache, v)
      | Some (Inr cs, cache, v) \<Rightarrow>
        (case UpdateCoins get tx [] nHeight txid v of
           None \<Rightarrow> None
         | Some (txundo, v) \<Rightarrow>
             connect_txs L get getbest heights fScriptChecks nThreads strict flags nHeight txs
               (cs\<lparr>cs_undo := (if IsCoinBase tx then cs_undo cs else cs_undo cs @ [txundo]),
                   cs_vPos := cs_vPos cs @ [(txid, cs_nTxOffset cs)],
                   cs_nTxOffset := cs_nTxOffset cs + length (ser_tx tx)\<rparr>) cache v))"

text \<open>\<open>control.Wait\<close>: whether all checks pass, in whatever order the threads execute them. With \<open>SCRIPT_VERIFY_NOCACHE\<close> they do not write to
the signature cache.\<close>

definition control_Wait :: "openssl \<Rightarrow> CScriptCheck list \<Rightarrow> CSignatureCache \<Rightarrow> bool" where
  "control_Wait L checks cache = list_all (\<lambda>check. fst (run_script_check L check cache)) checks"

text \<open>The undo data and the index entry: the error, the entry and the undo data written.\<close>

definition write_undo :: "connect_env \<Rightarrow> CBlockUndo \<Rightarrow> CBlockIndex \<Rightarrow> connect_error option \<times> CBlockIndex \<times> CBlockUndo option" where
  "write_undo env blockundo pindex =
     (if CDiskBlockPos_IsNull (GetUndoPos pindex) \<or> bi_nStatus pindex AND BLOCK_VALID_MASK < BLOCK_VALID_SCRIPTS then
        (case (if CDiskBlockPos_IsNull (GetUndoPos pindex) then
                 (case find_undo_pos env of
                    None \<Rightarrow> Inl Undo_pos_failed
                  | Some pos \<Rightarrow>
                    if \<not> write_undo_ok env then Inl Undo_write_failed
                    else Inr (pindex\<lparr>bi_nUndoPos := pos, bi_nStatus := bi_nStatus pindex OR BLOCK_HAVE_UNDO\<rparr>, Some blockundo))
               else Inr (pindex, None)) of
           Inl e \<Rightarrow> (Some e, pindex, None)
         | Inr (pindex, written) \<Rightarrow>
             (if write_index_ok env then None else Some Index_write_failed,
              pindex\<lparr>bi_nStatus := bi_nStatus pindex AND NOT BLOCK_VALID_MASK OR BLOCK_VALID_SCRIPTS\<rparr>, written))
      else (None, pindex, None))"

text \<open>The result: the error, the index, the signature cache, the view, what is written to the undo file and to the index of transactions, and
the new \<open>pindexGenesisBlock\<close>.\<close>

record 's connect_result =
  cr_error :: "connect_error option"
  cr_index :: block_map
  cr_cache :: CSignatureCache
  cr_view :: "'s CCoinsViewCache"
  cr_undo :: "CBlockUndo option"
  cr_txindex :: "(uint256 \<times> nat) list option"
  cr_genesis :: "uint256 option"

definition connect_done :: "connect_error option \<Rightarrow> block_map \<Rightarrow> CSignatureCache \<Rightarrow> 's CCoinsViewCache \<Rightarrow> 's connect_result" where
  "connect_done e idx cache v =
     \<lparr>cr_error = e, cr_index = idx, cr_cache = cache, cr_view = v, cr_undo = None, cr_txindex = None, cr_genesis = None\<rparr>"

definition nBIP16SwitchTime :: int where
  "nBIP16SwitchTime = 1349049600"

definition block_flags :: "CBlockIndex \<Rightarrow> uint32" where
  "block_flags pindex = SCRIPT_VERIFY_NOCACHE OR
     (if CBlockIndex_GetBlockTime pindex \<ge> nBIP16SwitchTime then SCRIPT_VERIFY_P2SH else SCRIPT_VERIFY_NONE)"

text \<open>From the point where the transactions are connected.\<close>

definition finish_connect :: "connect_env \<Rightarrow> block_map \<Rightarrow> uint256 \<Rightarrow> CBlockIndex \<Rightarrow> connect_state \<Rightarrow> CSignatureCache \<Rightarrow> 's CCoinsViewCache \<Rightarrow>
    's connect_result option" where
  "finish_connect env idx h pindex cs cache v =
     (case (case bi_pprev pindex of None \<Rightarrow> Some 0 | Some p \<Rightarrow> map_option bi_nMoneySupply (idx p)) of
        None \<Rightarrow> None
      | Some prevSupply \<Rightarrow>
        (case write_undo env (cs_undo cs) (pindex\<lparr>bi_nMoneySupply := wrap64 (prevSupply + cs_nValueOut cs)\<rparr>) of
           (e, pindex, written) \<Rightarrow>
             (let idx = idx(h \<mapsto> pindex); r = (connect_done e idx cache v)\<lparr>cr_undo := written\<rparr> in
              if e \<noteq> None then Some r
              else if fTxIndex env \<and> \<not> write_txindex_ok env then Some (r\<lparr>cr_error := Some Txindex_write_failed\<rparr>)
              else (case Cache_SetBestBlock (Some h) v of (ok, v) \<Rightarrow>
                if \<not> ok then None
                else Some (r\<lparr>cr_view := v, cr_txindex := (if fTxIndex env then Some (cs_vPos cs) else None)\<rparr>)))))"

definition connect_start :: "nat \<Rightarrow> connect_state" where
  "connect_start n = \<lparr>cs_nFees = 0, cs_nValueOut = 0, cs_nSigOps = 0, cs_checks = [], cs_undo = [], cs_vPos = [],
     cs_nTxOffset = GetSizeOfCompactSize n\<rparr>"

definition ConnectBlock :: "openssl \<Rightarrow> chain_params \<Rightarrow> connect_env \<Rightarrow> ('s \<Rightarrow> uint256 \<Rightarrow> CCoins option \<times> 's) \<Rightarrow> ('s \<Rightarrow> uint256 option \<times> 's) \<Rightarrow>
    block_map \<Rightarrow> uint256 \<Rightarrow> bool \<Rightarrow> CBlock \<Rightarrow> CSignatureCache \<Rightarrow> 's CCoinsViewCache \<Rightarrow> 's connect_result option" where
  "ConnectBlock L params env get getbest idx h fJustCheck block cache v =
     (case CheckBlock L params (\<not> fJustCheck) (\<not> fJustCheck) block of
        Some e \<Rightarrow> Some (connect_done (Some (Block_rejected e)) idx cache v)
      | None \<Rightarrow> (case idx h of
        None \<Rightarrow> None
      | Some pindex \<Rightarrow> (case Cache_GetBestBlock getbest v of (best, v) \<Rightarrow>
        if bi_pprev pindex \<noteq> best then None
        else if Block_GetHash L block = hashGenesisBlock params then
          Some ((connect_done None idx cache (snd (Cache_SetBestBlock (Some h) v)))\<lparr>cr_genesis := Some h\<rparr>)
        else
          (let fScriptChecks = bi_nHeight pindex \<ge> total_blocks_estimate params;
               vMerkleTree = snd (BuildMerkleTree L (vtx block));
               txids = map (\<lambda>i. vMerkleTree ! i) [0..<length (vtx block)];
               strict = CBlockIndex_GetBlockTime pindex \<ge> nBIP16SwitchTime in
           case overwrites get txids v of
             None \<Rightarrow> None
           | Some (True, v) \<Rightarrow> Some (connect_done (Some Overwrites_transaction) idx cache v)
           | Some (False, v) \<Rightarrow>
             (case connect_txs L get getbest (\<lambda>b. bi_nHeight (the (idx b))) fScriptChecks (nScriptCheckThreads env) strict (block_flags pindex)
                 (bi_nHeight pindex) (zip txids (vtx block)) (connect_start (length (vtx block))) cache v of
                None \<Rightarrow> None
              | Some (Inl e, cache, v) \<Rightarrow> Some (connect_done (Some e) idx cache v)
              | Some (Inr cs, cache, v) \<Rightarrow>
                (case GetValueOut (vtx block ! 0) of
                   None \<Rightarrow> None
                 | Some nValueOut \<Rightarrow>
                   if nValueOut > GetBlockValue (fTestNet env) pindex (cs_nFees cs) then Some (connect_done (Some Coinbase_too_high) idx cache v)
                   else if \<not> control_Wait L (cs_checks cs) cache then Some (connect_done (Some Scripts_failed) idx cache v)
                   else if fJustCheck then Some (connect_done None idx cache v)
                   else finish_connect env idx h pindex cs cache v))))))"

section \<open>Disconnecting\<close>

text \<open>One input: the coins are read and written back with the output that was spent.\<close>

definition restore_output :: "CCoins \<Rightarrow> COutPoint \<Rightarrow> TxInUndo \<Rightarrow> bool \<Rightarrow> (bool \<times> CCoins) option" where
  "restore_output coins out undo fClean =
     (let (fClean, coins) =
        (if ui_nHeight undo \<noteq> 0
         then (fClean \<and> IsPruned coins,
               CCoins_empty\<lparr>cc_fCoinBase := ui_fCoinBase undo, cc_nHeight := sint (ui_nHeight undo), cc_nVersion := ui_nVersion undo\<rparr>)
         else (fClean \<and> \<not> IsPruned coins, coins));
          n = unat (po_n out);
          fClean = (fClean \<and> \<not> IsAvailable coins n);
          vout = (if length (cc_vout coins) < unat (po_n out + 1) then resize (unat (po_n out + 1)) CTxOut_SetNull (cc_vout coins)
                  else cc_vout coins) in
      if n < length vout then Some (fClean, coins\<lparr>cc_vout := vout[n := ui_txout undo]\<rparr>) else None)"

text \<open>The inputs from the last to the first.\<close>

fun disconnect_inputs :: "('s \<Rightarrow> uint256 \<Rightarrow> CCoins option \<times> 's) \<Rightarrow> (CTxIn \<times> TxInUndo) list \<Rightarrow> bool \<Rightarrow> 's CCoinsViewCache \<Rightarrow>
    (bool option \<times> 's CCoinsViewCache) option" where
  "disconnect_inputs get [] fClean v = Some (Some fClean, v)"
| "disconnect_inputs get ((txin, undo) # ins) fClean v =
     (case Cache_GetCoins get v (po_hash (prevout txin)) of (r, v) \<Rightarrow>
      (case restore_output (case r of None \<Rightarrow> CCoins_empty | Some c \<Rightarrow> c) (prevout txin) undo fClean of
         None \<Rightarrow> None
       | Some (fClean, coins) \<Rightarrow> (case Cache_SetCoins (po_hash (prevout txin)) coins v of (ok, v) \<Rightarrow>
           if \<not> ok then Some (None, v) else disconnect_inputs get ins fClean v)))"

text \<open>One transaction, with its undo data unless it is the first; a result \<open>None\<close> inside is an error returned.\<close>

definition disconnect_tx :: "openssl \<Rightarrow> ('s \<Rightarrow> uint256 \<Rightarrow> CCoins option \<times> 's) \<Rightarrow> int \<Rightarrow> CTransaction \<Rightarrow> CTxUndo option \<Rightarrow> bool \<Rightarrow> 's CCoinsViewCache \<Rightarrow>
    (bool option \<times> 's CCoinsViewCache) option" where
  "disconnect_tx L get nHeight tx txundo fClean v =
     (let hash = GetHash L tx in
      case Cache_HaveCoins get v hash of (have_coins, v) \<Rightarrow>
      (case (if have_coins then (fClean, v) else (False, snd (Cache_SetCoins hash CCoins_empty v))) of (fClean, v) \<Rightarrow>
       (case Cache_coins get v hash of
          None \<Rightarrow> None
        | Some (outs, v) \<Rightarrow>
          (let outsBlock = CCoins_of_tx tx nHeight;
               outs = (if cc_nVersion outsBlock < 0 then outs\<lparr>cc_nVersion := cc_nVersion outsBlock\<rparr> else outs);
               fClean = (fClean \<and> outs = outsBlock);
               v = snd (Cache_SetCoins hash CCoins_empty v) in
           case txundo of
             None \<Rightarrow> Some (Some fClean, v)
           | Some vprevout \<Rightarrow>
             if length vprevout \<noteq> length (tx_vin tx) then Some (None, v)
             else disconnect_inputs get (rev (zip (tx_vin tx) vprevout)) fClean v))))"

fun disconnect_txs :: "openssl \<Rightarrow> ('s \<Rightarrow> uint256 \<Rightarrow> CCoins option \<times> 's) \<Rightarrow> int \<Rightarrow> (CTransaction \<times> CTxUndo option) list \<Rightarrow> bool \<Rightarrow> 's CCoinsViewCache \<Rightarrow>
    (bool option \<times> 's CCoinsViewCache) option" where
  "disconnect_txs L get nHeight [] fClean v = Some (Some fClean, v)"
| "disconnect_txs L get nHeight ((tx, txundo) # txs) fClean v = (case disconnect_tx L get nHeight tx txundo fClean v of
     None \<Rightarrow> None
   | Some (None, v) \<Rightarrow> Some (None, v)
   | Some (Some fClean, v) \<Rightarrow> disconnect_txs L get nHeight txs fClean v)"

text \<open>The value returned, \<open>*pfClean\<close> (asked for by \<open>pfClean\<close>) and the view; \<open>undo_data\<close> is what is read from the undo file.\<close>

definition DisconnectBlock :: "openssl \<Rightarrow> ('s \<Rightarrow> uint256 \<Rightarrow> CCoins option \<times> 's) \<Rightarrow> ('s \<Rightarrow> uint256 option \<times> 's) \<Rightarrow> block_map \<Rightarrow> uint256 \<Rightarrow>
    CBlockUndo option \<Rightarrow> bool \<Rightarrow> CBlock \<Rightarrow> 's CCoinsViewCache \<Rightarrow> (bool \<times> bool option \<times> 's CCoinsViewCache) option" where
  "DisconnectBlock L get getbest idx h undo_data pfClean block v =
     (case Cache_GetBestBlock getbest v of (best, v) \<Rightarrow>
      if best \<noteq> Some h then None
      else let failed = (\<lambda>v. (False, if pfClean then Some False else None, v)) in
      (case idx h of
         None \<Rightarrow> None
       | Some pindex \<Rightarrow>
         if CDiskBlockPos_IsNull (GetUndoPos pindex) then Some (failed v)
         else (case bi_pprev pindex of
            None \<Rightarrow> None
          | Some prev \<Rightarrow> (case undo_data of
              None \<Rightarrow> Some (failed v)
            | Some blockUndo \<Rightarrow>
              if length blockUndo + 1 \<noteq> length (vtx block) then Some (failed v)
              else (case disconnect_txs L get (bi_nHeight pindex) (rev (zip (vtx block) (None # map Some blockUndo))) True v of
                 None \<Rightarrow> None
               | Some (None, v) \<Rightarrow> Some (failed v)
               | Some (Some fClean, v) \<Rightarrow>
                 (let v = snd (Cache_SetBestBlock (Some prev) v) in
                  Some (if pfClean then (True, Some fClean, v) else (fClean, None, v))))))))"

end
