(* ===== verification/Connect_Behaviour.thy ===== *)
theory Connect_Behaviour
  imports Connect
begin

text \<open>
  What \<open>ConnectBlock\<close> and \<open>DisconnectBlock\<close> do to the unspent outputs. The relation \<open>connects\<close> is what a block does to them when each of its
  transactions may be applied in turn; \<open>ConnectBlock\<close> refines it, and \<open>DisconnectBlock\<close> inverts it. Both hold over any view that meets
  \<open>chain_backend\<close>; the locale \<open>undo_backend\<close> extends it by what restoring spent outputs needs.
\<close>

section \<open>A spent output is restored\<close>

lemma null_is_SetNull: "coins_ok c \<Longrightarrow> i < length (cc_vout c) \<Longrightarrow> CTxOut_IsNull (cc_vout c ! i) \<Longrightarrow> cc_vout c ! i = CTxOut_SetNull"
  by (auto simp: coins_ok_def stored_out_ok_def list_all_length)

lemma unat_succ: "unat (w :: uint32) < MAX_SIZE \<Longrightarrow> unat (w + 1) = unat w + 1"
  by (simp add: unat_word_ariths MAX_SIZE_def)

lemma sint_of_small: "0 \<le> n \<Longrightarrow> n < 2 ^ 31 \<Longrightarrow> sint (of_int n :: uint32) = n"
  by (simp add: signed_of_int signed_take_bit_int_eq_self)

lemma restore_Spend:
  assumes c: "coins_ok c" "cc_nHeight c \<noteq> 0" and s: "Spend c p = Some (undo, c')"
    and d: "if IsPruned c' then IsPruned d else d = c'"
  shows "restore_output d p undo True = Some (True, c)"
proof -
  let ?n = "unat (po_n p)"
  note S = Spend_Some [OF s]
  have n: "?n < length (cc_vout c)" "\<not> CTxOut_IsNull (cc_vout c ! ?n)" using S(1) by (auto simp: IsAvailable_def)
  have len: "length (cc_vout c) \<le> MAX_SIZE" using c(1) by (simp add: coins_ok_def)
  have n1: "unat (po_n p + 1) = ?n + 1" using n(1) len by (intro unat_succ) simp
  have vout': "cc_vout c' = pop_while CTxOut_IsNull ((cc_vout c)[?n := CTxOut_SetNull])" using S(3) by simp
  have tail: "CTxOut_IsNull (((cc_vout c)[?n := CTxOut_SetNull]) ! i)" if "length (cc_vout c') \<le> i" "i < length (cc_vout c)" for i
    using that pop_while_tail [of CTxOut_IsNull "(cc_vout c)[?n := CTxOut_SetNull]" i] by (simp add: vout')
  have c'f: "cc_fCoinBase c' = cc_fCoinBase c" "cc_nHeight c' = cc_nHeight c" "cc_nVersion c' = cc_nVersion c" using S(3) by simp_all
  have last: "\<not> CTxOut_IsNull (last (cc_vout c))" using c(1) by (auto simp: coins_ok_def cleaned_def)
  let ?v = "if length (cc_vout c') < ?n + 1 then resize (?n + 1) CTxOut_SetNull (cc_vout c') else cc_vout c'"
  have v: "?v[?n := ui_txout undo] = cc_vout c"
  proof (rule nth_equalityI)
    have le: "length (cc_vout c') \<le> length (cc_vout c)" unfolding vout' using length_pop_while_le [of CTxOut_IsNull "(cc_vout c)[?n := CTxOut_SetNull]"] by simp
    have top: "?n = length (cc_vout c) - 1" if "length (cc_vout c') < length (cc_vout c)"
    proof (rule ccontr)
      assume a: "?n \<noteq> length (cc_vout c) - 1"
      let ?m = "length (cc_vout c) - 1"
      have "((cc_vout c)[?n := CTxOut_SetNull]) ! ?m = last (cc_vout c)" using a n(1) by (cases "cc_vout c" rule: rev_cases) (auto simp: nth_append)
      moreover have "CTxOut_IsNull (((cc_vout c)[?n := CTxOut_SetNull]) ! ?m)"
        using that n(1) by (intro tail) auto
      ultimately show False using last by simp
    qed
    show lv: "length (?v[?n := ui_txout undo]) = length (cc_vout c)"
      using le n(1) top by (cases "length (cc_vout c') < length (cc_vout c)") auto
    fix i assume "i < length (?v[?n := ui_txout undo])"
    then have i: "i < length (cc_vout c)" using lv by simp
    show "?v[?n := ui_txout undo] ! i = cc_vout c ! i"
    proof (cases "i = ?n")
      case True
      then show ?thesis using S(2) lv n(1) by (simp del: length_list_update add: nth_list_update)
    next
      case False
      show ?thesis
      proof (cases "i < length (cc_vout c')")
        case True
        then have "cc_vout c' ! i = cc_vout c ! i" using False unfolding vout' by (simp add: nth_pop_while)
        then show ?thesis using True False by (simp add: nth_resize)
      next
        case iF: False
        have "CTxOut_IsNull (((cc_vout c)[?n := CTxOut_SetNull]) ! i)" using iF i by (intro tail) auto
        then have "cc_vout c ! i = CTxOut_SetNull" using False i null_is_SetNull [OF c(1) i] by simp
        moreover have "i < ?n + 1" using iF i top by auto
        ultimately show ?thesis using iF False by (simp add: nth_resize)
      qed
    qed
  qed
  have cl: "cleaned c'" by (rule Spend_cleaned [OF s])
  show ?thesis
  proof (cases "cc_vout c' = []")
    case True
    have h: "0 \<le> cc_nHeight c" "cc_nHeight c < 2 ^ 31" using c(1) by (simp_all add: coins_ok_def)
    then have "sint (of_int (cc_nHeight c) :: uint32) = cc_nHeight c" by (simp add: sint_of_small)
    moreover have "ui_nHeight undo \<noteq> 0"
    proof
      assume "ui_nHeight undo = 0"
      then have "sint (of_int (cc_nHeight c) :: uint32) = 0" using S(4) [OF True] by simp
      then show False using calculation c(2) by simp
    qed
    moreover have "IsPruned d" using d True cleaned_pruned_iff [OF cl] by simp
    ultimately show ?thesis
      using S(4) [OF True] v True n1 by (simp add: restore_output_def Let_def CCoins_empty_def IsAvailable_def)
  next
    case False
    then have "d = c'" "\<not> IsPruned c'" using d cleaned_pruned_iff [OF cl] by simp_all
    moreover have "\<not> IsAvailable c' ?n" using Spend_IsAvailable [OF s] by simp
    moreover have "?n < length ?v" by simp
    moreover have "c'\<lparr>cc_vout := ?v[?n := ui_txout undo]\<rparr> = c" unfolding v using c'f by simp
    ultimately show ?thesis using S(5) [OF False] n1
      by (cases "length (cc_vout c') < ?n + 1") (simp_all add: restore_output_def Let_def)
  qed
qed

section \<open>A transaction is undone\<close>

text \<open>Entries that can be restored once they are spent.\<close>

definition restorable :: "(uint256 \<Rightarrow> CCoins option) \<Rightarrow> bool" where
  "restorable lk \<longleftrightarrow> (\<forall>t c. lk t = Some c \<longrightarrow> \<not> IsPruned c \<longrightarrow> coins_ok c \<and> cc_nHeight c \<noteq> 0)"

lemma restorable_upd: "restorable lk \<Longrightarrow> IsPruned c \<or> coins_ok c \<and> cc_nHeight c \<noteq> 0 \<Longrightarrow> restorable (lk(t \<mapsto> c))"
  by (auto simp: restorable_def)

lemma Spend_restorable:
  assumes "restorable lk" "lk (po_hash p) = Some c" "Spend c p = Some (undo, c')"
  shows "coins_ok c" "cc_nHeight c \<noteq> 0" "\<not> IsPruned c" "restorable (lk(po_hash p \<mapsto> c'))"
proof -
  show np: "\<not> IsPruned c" using Spend_Some(1) [OF assms(3)] by (auto simp: IsPruned_def IsAvailable_def list_all_length)
  show c: "coins_ok c" "cc_nHeight c \<noteq> 0" using assms(1,2) np by (auto simp: restorable_def)
  have "cc_nHeight c' = cc_nHeight c" using Spend_Some(3) [OF assms(3)] by simp
  then show "restorable (lk(po_hash p \<mapsto> c'))" using assms(1) Spend_coins_ok [OF c(1) assms(3)] c(2) by (intro restorable_upd) auto
qed

lemma unspent_coins_upd: "unspent_coins (lk(t \<mapsto> c)) = (unspent_coins lk)(t := if IsPruned c then None else Some c)"
  by (auto simp: unspent_coins_def fun_eq_iff)

lemma spend_map_frame:
  assumes "spend_map ins lk = Some (us, m)" "unspent_coins lk t = None"
  shows "m t = lk t"
  using assms
proof (induction ins arbitrary: lk us)
  case (Cons txin ins)
  obtain c undo c' vs where c: "lk (po_hash (prevout txin)) = Some c" "Spend c (prevout txin) = Some (undo, c')"
      "spend_map ins (lk(po_hash (prevout txin) \<mapsto> c')) = Some (vs, m)"
    using Cons.prems by (auto split: option.splits)
  have "\<not> IsPruned c" using Spend_Some(1) [OF c(2)] by (auto simp: IsPruned_def IsAvailable_def list_all_length)
  then have "t \<noteq> po_hash (prevout txin)" using Cons.prems(2) c(1) by (auto simp: unspent_coins_def)
  then have "(lk(po_hash (prevout txin) \<mapsto> c')) t = lk t" by simp
  moreover have "unspent_coins (lk(po_hash (prevout txin) \<mapsto> c')) t = None"
    unfolding unspent_coins_upd using \<open>t \<noteq> _\<close> Cons.prems(2) by simp
  ultimately show ?case using Cons.IH [OF c(3)] by metis
qed simp

lemma spend_map_restorable: "spend_map ins lk = Some (us, m) \<Longrightarrow> restorable lk \<Longrightarrow> restorable m"
proof (induction ins arbitrary: lk us)
  case (Cons txin ins)
  obtain c undo c' vs where c: "lk (po_hash (prevout txin)) = Some c" "Spend c (prevout txin) = Some (undo, c')"
      "spend_map ins (lk(po_hash (prevout txin) \<mapsto> c')) = Some (vs, m)"
    using Cons.prems by (auto split: option.splits)
  show ?case by (rule Cons.IH [OF c(3) Spend_restorable(4) [OF Cons.prems(2) c(1,2)]])
qed simp

lemma spend_map_length: "spend_map ins lk = Some (us, m) \<Longrightarrow> length us = length ins"
  using spend_map_utxo by blast

lemma disconnect_inputs_append:
  "disconnect_inputs get (xs @ ys) f v = (case disconnect_inputs get xs f v of
     Some (Some f, v) \<Rightarrow> disconnect_inputs get ys f v | r \<Rightarrow> r)"
  by (induction get xs f v rule: disconnect_inputs.induct) (auto split: option.splits prod.splits)

locale undo_backend = chain_backend get have_coins getbest lookup best view_ok batchwrite known storable
  for get :: "'s \<Rightarrow> uint256 \<Rightarrow> CCoins option \<times> 's" and have_coins getbest lookup best view_ok batchwrite known storable +
  assumes coins_ok_storable: "coins_ok c \<Longrightarrow> storable c"

context undo_backend
begin

lemma disconnect_inputs_law:
  assumes "spend_map ins lk = Some (us, m)" "restorable lk" "cinv v" "unspent_coins (clookup v) = unspent_coins m"
  shows "\<exists>v'. disconnect_inputs get (rev (zip ins us)) True v = Some (Some True, v') \<and> cinv v' \<and>
    unspent_coins (clookup v') = unspent_coins lk \<and> cbest v' = cbest v"
  using assms(1,2)
proof (induction ins arbitrary: lk us)
  case Nil
  then show ?case using assms(3,4) by simp
next
  case (Cons txin ins)
  let ?h = "po_hash (prevout txin)"
  obtain c undo c' vs where c: "lk ?h = Some c" "Spend c (prevout txin) = Some (undo, c')" "spend_map ins (lk(?h \<mapsto> c')) = Some (vs, m)" "us = undo # vs"
    using Cons.prems by (auto split: option.splits)
  note r = Spend_restorable [OF Cons.prems(2) c(1,2)]
  obtain v1 where v1: "disconnect_inputs get (rev (zip ins vs)) True v = Some (Some True, v1)" "cinv v1"
      "unspent_coins (clookup v1) = unspent_coins (lk(?h \<mapsto> c'))" "cbest v1 = cbest v"
    using Cons.IH [OF c(3) r(4)] by blast
  obtain v2 where v2: "Cache_GetCoins get v1 ?h = (clookup v1 ?h, v2)" "cinv v2" "clookup v2 = clookup v1" "cbest v2 = cbest v1"
    using FetchCoins_law [OF v1(2)] unfolding Cache_GetCoins_eq by blast
  let ?d = "case clookup v1 ?h of None \<Rightarrow> CCoins_empty | Some c \<Rightarrow> c"
  have "unspent_coins (clookup v1) ?h = (if IsPruned c' then None else Some c')" unfolding v1(3) unspent_coins_upd by simp
  then have d: "if IsPruned c' then IsPruned ?d else ?d = c'"
    by (auto simp: unspent_coins_def CCoins_empty_def IsPruned_def split: option.splits if_splits)
  have "IsPruned c \<or> storable c" using r(1) coins_ok_storable by simp
  then obtain v3 where v3: "Cache_SetCoins ?h c v2 = (True, v3)" "cinv v3" "clookup v3 = (clookup v2)(?h \<mapsto> c)" "cbest v3 = cbest v2"
    using Cache_SetCoins_law [OF v2(2)] by blast
  have "unspent_coins (clookup v3) = unspent_coins lk"
    unfolding v3(3) v2(3) unspent_coins_upd v1(3) using c(1) r(3) by (auto simp: unspent_coins_def fun_eq_iff)
  then show ?case using v1 v2 v3 restore_Spend [OF r(1,2) c(2) d] c(4) by (simp add: disconnect_inputs_append)
qed

lemma disconnect_tx_law:
  assumes u: "update_map tx h (GetHash L tx) lk = Some (us, m)" "restorable lk" "unspent_coins lk (GetHash L tx) = None"
    and tx: "\<not> IsPruned (CCoins_of_tx tx h)"
    and v: "cinv v" "unspent_coins (clookup v) = unspent_coins m"
  shows "\<exists>v'. disconnect_tx L get h tx (if IsCoinBase tx then None else Some us) True v = Some (Some True, v') \<and> cinv v' \<and>
    unspent_coins (clookup v') = unspent_coins lk \<and> cbest v' = cbest v"
proof -
  let ?t = "GetHash L tx" and ?c = "CCoins_of_tx tx h"
  obtain m' where m': "if IsCoinBase tx then us = [] \<and> m' = lk else spend_map (tx_vin tx) lk = Some (us, m')" "m = m'(?t \<mapsto> ?c)"
    using u(1) by (cases "IsCoinBase tx") (auto simp: update_map_def)
  have "unspent_coins (clookup v) ?t = Some ?c" unfolding v(2) m'(2) unspent_coins_upd using tx by simp
  then have c: "clookup v ?t = Some ?c" by (auto simp: unspent_coins_def split: option.splits if_splits)
  obtain v1 where v1: "Cache_HaveCoins get v ?t = (True, v1)" "same_view v v1"
    using Cache_HaveCoins_law [OF v(1), of ?t] c by auto
  obtain v2 where v2: "Cache_coins get v1 ?t = Some (?c, v2)" "same_view v v2" using Cache_coins_law [of v1 ?t] v1(2) c by auto
  have "IsPruned CCoins_empty" by (simp add: IsPruned_def CCoins_empty_def)
  then obtain v3 where v3: "Cache_SetCoins ?t CCoins_empty v2 = (True, v3)" "cinv v3" "clookup v3 = (clookup v2)(?t \<mapsto> CCoins_empty)" "cbest v3 = cbest v2"
    using Cache_SetCoins_law [of v2] v2(2) by blast
  have m't: "unspent_coins m' ?t = None"
  proof (cases "IsCoinBase tx")
    case False
    then have "m' ?t = lk ?t" using m'(1) spend_map_frame [OF _ u(3)] by auto
    then show ?thesis using u(3) by (simp add: unspent_coins_def)
  qed (use m'(1) u(3) in simp)
  have s3: "unspent_coins (clookup v3) = unspent_coins m'"
  proof -
    have "clookup v2 = clookup v" using v2(2) by blast
    then have "unspent_coins (clookup v3) = (unspent_coins m')(?t := None)"
      unfolding v3(3) unspent_coins_upd using v(2) m'(2) \<open>IsPruned CCoins_empty\<close> by (simp add: unspent_coins_upd)
    then show ?thesis using m't by (simp add: fun_upd_idem)
  qed
  have cv: "(?c::CCoins)\<lparr>cc_nVersion := cc_nVersion ?c\<rparr> = ?c" by simp
  have pre: "disconnect_tx L get h tx txundo True v = (case txundo of None \<Rightarrow> Some (Some True, v3)
     | Some vprevout \<Rightarrow> if length vprevout \<noteq> length (tx_vin tx) then Some (None, v3)
         else disconnect_inputs get (rev (zip (tx_vin tx) vprevout)) True v3)" for txundo
    using v1(1) v2(1) v3(1) by (simp add: disconnect_tx_def cv split: option.split)
  show ?thesis
  proof (cases "IsCoinBase tx")
    case True
    then show ?thesis using m'(1) v3 s3 v2(2) unfolding pre by simp
  next
    case False
    then have sp: "spend_map (tx_vin tx) lk = Some (us, m')" using m'(1) by simp
    from disconnect_inputs_law [OF sp u(2) v3(2) s3] show ?thesis
      unfolding pre using False v3(4) v2(2) spend_map_length [OF sp] by auto
  qed
qed

end

section \<open>What a block does to the unspent outputs\<close>

text \<open>The transactions, with their hashes, are applied in turn: the coins before, the undo data of all but coinbases, the script checks, and the
coins after. \<open>H\<close> is the height at which inputs are spent, \<open>h\<close> that of the block.\<close>

inductive connects :: "int \<Rightarrow> int \<Rightarrow> uint32 \<Rightarrow> (uint256 \<times> CTransaction) list \<Rightarrow> (uint256 \<Rightarrow> CCoins option) \<Rightarrow> CBlockUndo \<Rightarrow> CScriptCheck list \<Rightarrow>
    (uint256 \<Rightarrow> CCoins option) \<Rightarrow> bool" for H h flags where
  connects_Nil: "connects H h flags [] lk [] [] lk"
| connects_coinbase: "IsCoinBase tx \<Longrightarrow> update_map tx h txid lk = Some (us, m) \<Longrightarrow> connects H h flags txs m uss cs m' \<Longrightarrow>
    connects H h flags ((txid, tx) # txs) lk uss cs m'"
| connects_spend: "\<not> IsCoinBase tx \<Longrightarrow> inputs_acceptable lk H tx \<Longrightarrow> update_map tx h txid lk = Some (us, m) \<Longrightarrow> connects H h flags txs m uss cs m' \<Longrightarrow>
    connects H h flags ((txid, tx) # txs) lk (us # uss) (map (input_check (utxo lk) tx flags) [0..<length (tx_vin tx)] @ cs) m'"

inductive_simps connects_Nil_simp [simp]: "connects H h flags [] lk uss cs m"
inductive_cases connects_ConsE: "connects H h flags ((txid, tx) # txs) lk uss cs m"

lemma update_map_restorable:
  "update_map tx h txid lk = Some (us, m) \<Longrightarrow> restorable lk \<Longrightarrow> coins_ok (CCoins_of_tx tx h) \<Longrightarrow> h \<noteq> 0 \<Longrightarrow> restorable m"
  by (auto simp: update_map_def CCoins_of_tx_def intro!: restorable_upd dest: spend_map_restorable split: if_splits)

lemma update_map_frame:
  "update_map tx h txid lk = Some (us, m) \<Longrightarrow> t \<noteq> txid \<Longrightarrow> unspent_coins lk t = None \<Longrightarrow> unspent_coins m t = None"
  by (auto simp: update_map_def unspent_coins_upd unspent_coins_def [of m' for m'] dest: spend_map_frame [of _ lk _ _ t] split: if_splits option.splits)

text \<open>The undo data for the transactions of a block, the coinbase without.\<close>

fun with_undo :: "(uint256 \<times> CTransaction) list \<Rightarrow> CBlockUndo \<Rightarrow> (CTransaction \<times> CTxUndo option) list" where
  "with_undo [] uss = []"
| "with_undo ((txid, tx) # txs) uss = (if IsCoinBase tx then (tx, None) # with_undo txs uss
     else (tx, Some (hd uss)) # with_undo txs (tl uss))"

lemma disconnect_txs_append:
  "disconnect_txs L get h (xs @ ys) f v = (case disconnect_txs L get h xs f v of
     Some (Some f, v) \<Rightarrow> disconnect_txs L get h ys f v | r \<Rightarrow> r)"
  by (induction L get h xs f v rule: disconnect_txs.induct) (auto split: option.splits prod.splits)

context undo_backend
begin

lemma disconnect_txs_law:
  assumes "connects H h flags txs lk uss cs m" "restorable lk" "h \<noteq> 0" "distinct (map fst txs)"
    and "\<forall>(txid, tx) \<in> set txs. txid = GetHash L tx \<and> coins_ok (CCoins_of_tx tx h) \<and> unspent_coins lk txid = None"
    and "cinv v" "unspent_coins (clookup v) = unspent_coins m"
  shows "\<exists>v'. disconnect_txs L get h (rev (with_undo txs uss)) True v = Some (Some True, v') \<and> cinv v' \<and>
    unspent_coins (clookup v') = unspent_coins lk \<and> cbest v' = cbest v"
  using assms(1,2,4,5)
proof (induction txs arbitrary: lk uss cs)
  case Nil
  then show ?case using assms(6,7) by simp
next
  case (Cons p txs)
  obtain txid tx where p: "p = (txid, tx)" by (cases p)
  have tx: "txid = GetHash L tx" "coins_ok (CCoins_of_tx tx h)" "unspent_coins lk txid = None" using Cons.prems(4) p by auto
  then have np: "\<not> IsPruned (CCoins_of_tx tx h)" using cleaned_pruned_iff by (auto simp: coins_ok_def)
  obtain us m1 uss' cs' where st: "update_map tx h txid lk = Some (us, m1)" "connects H h flags txs m1 uss' cs' m"
      "with_undo (p # txs) uss = (tx, if IsCoinBase tx then None else Some us) # with_undo txs uss'"
    using Cons.prems(1) unfolding p by (auto elim!: connects_ConsE)
  have "\<forall>(t, x) \<in> set txs. t = GetHash L x \<and> coins_ok (CCoins_of_tx x h) \<and> unspent_coins m1 t = None"
  proof safe
    fix t x assume t: "(t, x) \<in> set txs"
    then show "t = GetHash L x" "coins_ok (CCoins_of_tx x h)" using Cons.prems(4) by auto
    have "t \<noteq> txid" using Cons.prems(3) p t by force
    then show "unspent_coins m1 t = None" using update_map_frame [OF st(1)] Cons.prems(4) t by auto
  qed
  then obtain v1 where v1: "disconnect_txs L get h (rev (with_undo txs uss')) True v = Some (Some True, v1)" "cinv v1"
      "unspent_coins (clookup v1) = unspent_coins m1" "cbest v1 = cbest v"
    using Cons.IH [OF st(2)] update_map_restorable [OF st(1) Cons.prems(2) tx(2) assms(3)] Cons.prems(3) p by auto
  show ?case
    using disconnect_tx_law [OF st(1) [unfolded tx(1)] Cons.prems(2) tx(3) [unfolded tx(1)] np v1(2,3)] v1(1,4)
    unfolding st(3) by (auto simp: disconnect_txs_append)
qed

end

section \<open>Connecting refines it\<close>

text \<open>What is required of a transaction of a block, and follows from \<open>CheckTransaction\<close>.\<close>

definition connectable :: "(CCoins \<Rightarrow> bool) \<Rightarrow> int \<Rightarrow> CTransaction \<Rightarrow> bool" where
  "connectable storable h tx \<longleftrightarrow> distinct (map prevout (tx_vin tx)) \<and> GetValueOut tx \<noteq> None \<and> storable (CCoins_of_tx tx h)"

fun tx_offsets :: "nat \<Rightarrow> (uint256 \<times> CTransaction) list \<Rightarrow> (uint256 \<times> nat) list" where
  "tx_offsets n [] = []"
| "tx_offsets n ((txid, tx) # txs) = (txid, n) # tx_offsets (n + length (ser_tx tx)) txs"

fun coinbase_value :: "int \<Rightarrow> (uint256 \<times> CTransaction) list \<Rightarrow> int" where
  "coinbase_value n [] = n"
| "coinbase_value n ((txid, tx) # txs) = coinbase_value (if IsCoinBase tx then wrap64 (n + the (GetValueOut tx)) else n) txs"

context chain_backend
begin

lemma overwrites_law:
  assumes "cinv v"
  shows "\<exists>v'. overwrites get hashes v = Some (\<exists>h \<in> set hashes. unspent_coins (clookup v) h \<noteq> None, v') \<and> same_view v v'"
  using assms
proof (induction hashes arbitrary: v)
  case (Cons h hashes)
  obtain v1 where v1: "Cache_HaveCoins get v h = (clookup v h \<noteq> None, v1)" "same_view v v1"
    using Cache_HaveCoins_law [OF Cons.prems] by blast
  obtain v2 where v2: "Cache_coins get v1 h = map_option (\<lambda>c. (c, v2)) (clookup v h)" "same_view v v2"
    using Cache_coins_law [of v1 h] v1(2) by auto
  show ?case
    using v1 v2 Cons.IH [of v1] Cons.IH [of v2]
    by (cases "clookup v h") (auto simp: unspent_coins_def)
qed simp

lemma p2sh_sigops_law:
  assumes "cinv v" "\<forall>txin \<in> set ins. cutxo v (prevout txin) \<noteq> None"
  shows "\<exists>n' v'. p2sh_sigops_loop get n ins v = Some (n', v') \<and> same_view v v'"
  using assms
proof (induction ins arbitrary: n v)
  case (Cons txin ins)
  obtain out where out: "cutxo v (prevout txin) = Some out" using Cons.prems(2) by auto
  obtain v1 where v1: "GetOutputFor get txin v = Some (out, v1)" "same_view v v1"
    using GetOutputFor_law [OF Cons.prems(1), of txin] out by auto
  have "\<forall>txin \<in> set ins. cutxo v1 (prevout txin) \<noteq> None" "cinv v1" using Cons.prems(2) v1(2) by simp_all
  then have "\<exists>n' v'. p2sh_sigops_loop get k ins v1 = Some (n', v') \<and> same_view v1 v'" for k using Cons.IH by blast
  then show ?case using v1 by simp
qed simp

lemma connect_inputs_law:
  assumes v: "cinv v" "cbest v = Some b" and tx: "\<not> IsCoinBase tx" "GetValueOut tx \<noteq> None" and cache: "cache_sound L cache"
  shows "\<exists>r cache' v'. connect_inputs L get getbest heights fScriptChecks nThreads strict flags tx cs cache v = Some (r, cache', v') \<and>
    same_view v v' \<and> cache_sound L cache' \<and>
    (isl r \<or> inputs_acceptable (clookup v) (heights b + 1) tx \<and>
      (fScriptChecks \<and> nThreads = 0 \<longrightarrow> (\<forall>i < length (tx_vin tx). script_passes L (input_check (cutxo v) tx flags i))) \<and>
      (\<exists>n f. r = Inr (cs\<lparr>cs_nSigOps := n, cs_nFees := f, cs_checks := cs_checks cs @
         (if fScriptChecks \<and> nThreads \<noteq> 0 then map (input_check (cutxo v) tx flags) [0..<length (tx_vin tx)] else [])\<rparr>)))"
proof -
  let ?ins = "tx_vin tx"
  obtain v1 where v1: "HaveInputs get tx v = Some (\<forall>txin \<in> set ?ins. cutxo v (prevout txin) \<noteq> None, v1)" "same_view v v1"
    using HaveInputs_law [OF v(1), of tx] tx by auto
  show ?thesis
  proof (cases "\<forall>txin \<in> set ?ins. cutxo v (prevout txin) \<noteq> None")
    case False
    then have "HaveInputs get tx v = Some (False, v1)" using v1(1) by (simp only:)
    then show ?thesis using v1(2) cache by (simp add: connect_inputs_def)
  next
    case True
    then have have_all: "HaveInputs get tx v = Some (True, v1)" "\<forall>txin \<in> set ?ins. cutxo v1 (prevout txin) \<noteq> None"
      using v1 by (simp_all only:) simp
    obtain n v2 where v2: "(if strict then GetP2SHSigOpCount get tx v1 else Some (0, v1)) = Some (n, v2)" "same_view v v2"
      using p2sh_sigops_law [of v1 ?ins 0] have_all(2) v1(2) tx(1) by (cases strict) (auto simp: GetP2SHSigOpCount_def)
    show ?thesis
    proof (cases "strict \<and> cs_nSigOps cs + n > MAX_BLOCK_SIGOPS")
      case True
      then show ?thesis using have_all(1) v2 cache by (simp add: connect_inputs_def)
    next
      case False
      have "\<forall>txin \<in> set ?ins. cutxo v2 (prevout txin) \<noteq> None" using have_all(2) v1(2) v2(2) by simp
      then obtain nIn v3 where v3: "GetValueIn get tx v2 = Some (nIn, v3)" "same_view v v3"
        using value_in_loop_law [of v2 ?ins 0] v2(2) tx(1) by (auto simp: GetValueIn_def)
      obtain nOut where nOut: "GetValueOut tx = Some nOut" using tx(2) by auto
      have v3': "cinv v3" "cbest v3 = Some b" "clookup v3 = clookup v" using v3(2) v(2) by simp_all
      obtain r cache' v' where r: "CheckInputs L get getbest heights fScriptChecks flags (nThreads \<noteq> 0) tx cache v3 = Some (r, cache', v')"
          "same_view v3 v'" "cache_sound L cache'"
        and r': "if inputs_acceptable (clookup v) (heights b + 1) tx \<and>
            (fScriptChecks \<and> \<not> nThreads \<noteq> 0 \<longrightarrow> (\<forall>i < length ?ins. script_passes L (input_check (cutxo v) tx flags i)))
          then r = Inr (if fScriptChecks \<and> nThreads \<noteq> 0 then map (input_check (cutxo v) tx flags) [0..<length ?ins] else []) else isl r"
        using CheckInputs_law [OF v3'(1,2) tx(1) cache, of heights fScriptChecks flags "nThreads \<noteq> 0"] unfolding v3'(3) by blast
      have pre: "connect_inputs L get getbest heights fScriptChecks nThreads strict flags tx cs cache v =
          (case r of Inl e \<Rightarrow> Some (Inl (Inputs_rejected e), cache', v')
           | Inr checks \<Rightarrow> Some (Inr (cs\<lparr>cs_nSigOps := cs_nSigOps cs + n, cs_nFees := wrap64 (cs_nFees cs + wrap64 (nIn - nOut)),
               cs_checks := cs_checks cs @ checks\<rparr>), cache', v'))"
        using have_all(1) v2(1) False v3(1) nOut r(1) by (cases r) (auto simp: connect_inputs_def)
      have sv: "same_view v v'" using r(2) v3' v3(2) by simp
      show ?thesis
      proof (cases r)
        case (Inl e)
        then show ?thesis unfolding pre using sv r(3) by simp
      next
        case (Inr checks)
        then have "inputs_acceptable (clookup v) (heights b + 1) tx"
            "fScriptChecks \<and> nThreads = 0 \<longrightarrow> (\<forall>i < length ?ins. script_passes L (input_check (cutxo v) tx flags i))"
            "checks = (if fScriptChecks \<and> nThreads \<noteq> 0 then map (input_check (cutxo v) tx flags) [0..<length ?ins] else [])"
          using r' by (auto split: if_splits)
        then show ?thesis unfolding pre using Inr sv r(3) by auto
      qed
    qed
  qed
qed

end

text \<open>A transaction up to the update of the coins: the checks it adds, and what it is known to meet.\<close>

definition tx_checks :: "(COutPoint \<Rightarrow> CTxOut option) \<Rightarrow> uint32 \<Rightarrow> CTransaction \<Rightarrow> CScriptCheck list" where
  "tx_checks u flags tx = (if IsCoinBase tx then [] else map (input_check u tx flags) [0..<length (tx_vin tx)])"

definition coinbase_out :: "CTransaction \<Rightarrow> int \<Rightarrow> int" where
  "coinbase_out tx n = (if IsCoinBase tx then wrap64 (n + the (GetValueOut tx)) else n)"

context chain_backend
begin

lemma connect_one_law:
  assumes v: "cinv v" "cbest v = Some b" and cache: "cache_sound L cache" and tx: "connectable storable h tx"
  shows "\<exists>r cache' v'. (if IsCoinBase tx
       then map_option (\<lambda>nValueOut. (Inr (cs\<lparr>cs_nValueOut := wrap64 (cs_nValueOut cs + nValueOut)\<rparr>), cache, v)) (GetValueOut tx)
       else connect_inputs L get getbest heights fScriptChecks nThreads strict flags tx cs cache v) = Some (r, cache', v') \<and>
    same_view v v' \<and> cache_sound L cache' \<and>
    (isl r \<or> (\<not> IsCoinBase tx \<longrightarrow> inputs_acceptable (clookup v) (heights b + 1) tx) \<and>
      (fScriptChecks \<and> nThreads = 0 \<longrightarrow> (\<forall>c \<in> set (tx_checks (cutxo v) flags tx). script_passes L c)) \<and>
      (\<exists>n f. r = Inr (cs\<lparr>cs_nSigOps := n, cs_nFees := f,
         cs_checks := cs_checks cs @ (if fScriptChecks \<and> nThreads \<noteq> 0 then tx_checks (cutxo v) flags tx else []),
         cs_nValueOut := coinbase_out tx (cs_nValueOut cs)\<rparr>)))"
proof (cases "IsCoinBase tx")
  case True
  obtain nOut where nOut: "GetValueOut tx = Some nOut" using tx by (auto simp: connectable_def)
  have "\<exists>n f. Inr (cs\<lparr>cs_nValueOut := wrap64 (cs_nValueOut cs + nOut)\<rparr>) = Inr (cs\<lparr>cs_nSigOps := n, cs_nFees := f, cs_checks := cs_checks cs @ [],
      cs_nValueOut := coinbase_out tx (cs_nValueOut cs)\<rparr>)"
    using True nOut by (intro exI [of _ "cs_nSigOps cs"] exI [of _ "cs_nFees cs"]) (simp add: coinbase_out_def)
  then show ?thesis using True nOut v cache by (simp add: tx_checks_def)
next
  case False
  then show ?thesis
    using connect_inputs_law [OF v False _ cache, of heights fScriptChecks nThreads strict flags cs] tx
    by (auto simp: connectable_def tx_checks_def coinbase_out_def) fastforce+
qed

end

text \<open>The coins after a transaction, and what the rest of the block does.\<close>

lemma connects_Cons:
  assumes "\<not> IsCoinBase tx \<longrightarrow> inputs_acceptable lk H tx" "update_map tx h txid lk = Some (us, m)" "connects H h flags txs m uss cs m'"
  shows "connects H h flags ((txid, tx) # txs) lk (if IsCoinBase tx then uss else us # uss) (tx_checks (utxo lk) flags tx @ cs) m'"
  using connects_coinbase [OF _ assms(2,3)] connects_spend [OF _ _ assms(2,3)] assms(1) by (simp add: tx_checks_def)

lemma update_map_defined:
  assumes "connectable storable h tx" "\<not> IsCoinBase tx \<longrightarrow> inputs_acceptable lk H tx"
  shows "\<exists>us m. update_map tx h txid lk = Some (us, m)"
proof (cases "IsCoinBase tx")
  case False
  then have "\<forall>txin \<in> set (tx_vin tx). utxo lk (prevout txin) \<noteq> None" using assms(2) by (auto simp: inputs_acceptable_def)
  then show ?thesis using spend_map_defined [of "tx_vin tx" lk] assms(1) False by (auto simp: connectable_def update_map_def)
qed (simp add: update_map_def)

text \<open>What is known of the state after the transactions.\<close>

definition connected :: "openssl \<Rightarrow> bool \<Rightarrow> nat \<Rightarrow> (uint256 \<times> CTransaction) list \<Rightarrow> connect_state \<Rightarrow> CBlockUndo \<Rightarrow> CScriptCheck list \<Rightarrow> connect_state \<Rightarrow> bool" where
  "connected L fScriptChecks nThreads txs cs uss chks cs' \<longleftrightarrow>
     cs_undo cs' = cs_undo cs @ uss \<and> cs_vPos cs' = cs_vPos cs @ tx_offsets (cs_nTxOffset cs) txs \<and>
     cs_nValueOut cs' = coinbase_value (cs_nValueOut cs) txs \<and>
     (fScriptChecks \<and> nThreads = 0 \<longrightarrow> (\<forall>c \<in> set chks. script_passes L c)) \<and>
     cs_checks cs' = cs_checks cs @ (if fScriptChecks \<and> nThreads \<noteq> 0 then chks else [])"

context chain_backend
begin

lemma connect_txs_law:
  assumes "cinv v" "cbest v = Some b" "cache_sound L cache" "\<forall>(txid, tx) \<in> set txs. connectable storable h tx"
  shows "\<exists>r cache' v'. connect_txs L get getbest heights fScriptChecks nThreads strict flags h txs cs cache v = Some (r, cache', v') \<and>
    cinv v' \<and> cbest v' = Some b \<and> cache_sound L cache' \<and>
    (isl r \<or> (\<exists>cs' uss chks. r = Inr cs' \<and> connects (heights b + 1) h flags txs (clookup v) uss chks (clookup v') \<and>
       connected L fScriptChecks nThreads txs cs uss chks cs'))"
  using assms
proof (induction txs arbitrary: cs cache v)
  case Nil
  then show ?case by (simp add: connected_def)
next
  case (Cons p txs)
  obtain txid tx where p: "p = (txid, tx)" by (cases p)
  have tx: "connectable storable h tx" using Cons.prems(4) p by simp
  let ?cs = "cs\<lparr>cs_nSigOps := cs_nSigOps cs + GetLegacySigOpCount tx\<rparr>"
  show ?case
  proof (cases "cs_nSigOps ?cs > MAX_BLOCK_SIGOPS")
    case True
    then show ?thesis using Cons.prems p by simp
  next
    case False
    obtain r cache1 v1 where s: "(if IsCoinBase tx
         then map_option (\<lambda>nValueOut. (Inr (?cs\<lparr>cs_nValueOut := wrap64 (cs_nValueOut ?cs + nValueOut)\<rparr>), cache, v)) (GetValueOut tx)
         else connect_inputs L get getbest heights fScriptChecks nThreads strict flags tx ?cs cache v) = Some (r, cache1, v1)"
        "same_view v v1" "cache_sound L cache1"
      and s': "isl r \<or> (\<not> IsCoinBase tx \<longrightarrow> inputs_acceptable (clookup v) (heights b + 1) tx) \<and>
        (fScriptChecks \<and> nThreads = 0 \<longrightarrow> (\<forall>c \<in> set (tx_checks (cutxo v) flags tx). script_passes L c)) \<and>
        (\<exists>n f. r = Inr (?cs\<lparr>cs_nSigOps := n, cs_nFees := f,
           cs_checks := cs_checks ?cs @ (if fScriptChecks \<and> nThreads \<noteq> 0 then tx_checks (cutxo v) flags tx else []),
           cs_nValueOut := coinbase_out tx (cs_nValueOut ?cs)\<rparr>))"
      using connect_one_law [OF Cons.prems(1-3) tx, of ?cs heights fScriptChecks nThreads strict flags] by blast
    have pre: "connect_txs L get getbest heights fScriptChecks nThreads strict flags h (p # txs) cs cache v = (case r of
        Inl e \<Rightarrow> Some (Inl e, cache1, v1)
      | Inr cs \<Rightarrow> (case UpdateCoins get tx [] h txid v1 of
           None \<Rightarrow> None
         | Some (txundo, v) \<Rightarrow>
             connect_txs L get getbest heights fScriptChecks nThreads strict flags h txs
               (cs\<lparr>cs_undo := (if IsCoinBase tx then cs_undo cs else cs_undo cs @ [txundo]),
                   cs_vPos := cs_vPos cs @ [(txid, cs_nTxOffset cs)],
                   cs_nTxOffset := cs_nTxOffset cs + length (ser_tx tx)\<rparr>) cache1 v))"
      using False s(1) by (simp only: p connect_txs.simps(2) Let_def if_False option.case prod.case)
    show ?thesis
    proof (cases r)
      case (Inl e)
      then show ?thesis unfolding pre using s Cons.prems(2) by simp
    next
      case (Inr cs1)
      obtain n f where cs1: "cs1 = ?cs\<lparr>cs_nSigOps := n, cs_nFees := f,
           cs_checks := cs_checks ?cs @ (if fScriptChecks \<and> nThreads \<noteq> 0 then tx_checks (cutxo v) flags tx else []),
           cs_nValueOut := coinbase_out tx (cs_nValueOut ?cs)\<rparr>"
        and acc: "\<not> IsCoinBase tx \<longrightarrow> inputs_acceptable (clookup v) (heights b + 1) tx"
          "fScriptChecks \<and> nThreads = 0 \<longrightarrow> (\<forall>c \<in> set (tx_checks (cutxo v) flags tx). script_passes L c)"
        using s' Inr by auto
      obtain us m where um: "update_map tx h txid (clookup v) = Some (us, m)" using update_map_defined [OF tx acc(1)] by blast
      have v1: "cinv v1" "clookup v1 = clookup v" "cbest v1 = Some b" using s(2) Cons.prems(2) by simp_all
      obtain v2 where v2: "UpdateCoins get tx [] h txid v1 = Some (us, v2)" "cinv v2" "clookup v2 = m" "cbest v2 = Some b"
        using UpdateCoins_law [OF v1(1), where tx = tx and h = h and txid = txid and txundo = "[]"] tx um v1 by (auto simp: connectable_def)
      let ?cs2 = "cs1\<lparr>cs_undo := (if IsCoinBase tx then cs_undo cs1 else cs_undo cs1 @ [us]),
          cs_vPos := cs_vPos cs1 @ [(txid, cs_nTxOffset cs1)], cs_nTxOffset := cs_nTxOffset cs1 + length (ser_tx tx)\<rparr>"
      have rest: "\<forall>(txid, tx) \<in> set txs. connectable storable h tx" using Cons.prems(4) by simp
      obtain r2 cache2 v3 where i: "connect_txs L get getbest heights fScriptChecks nThreads strict flags h txs ?cs2 cache1 v2 = Some (r2, cache2, v3)"
          "cinv v3" "cbest v3 = Some b" "cache_sound L cache2"
        and i': "isl r2 \<or> (\<exists>cs' uss chks. r2 = Inr cs' \<and> connects (heights b + 1) h flags txs m uss chks (clookup v3) \<and>
           connected L fScriptChecks nThreads txs ?cs2 uss chks cs')"
        using Cons.IH [OF v2(2,4) s(3) rest, of ?cs2] unfolding v2(3) by blast
      have pre2: "connect_txs L get getbest heights fScriptChecks nThreads strict flags h (p # txs) cs cache v = Some (r2, cache2, v3)"
        unfolding pre using Inr v2(1) i(1) by simp
      have "connected L fScriptChecks nThreads (p # txs) cs (if IsCoinBase tx then uss else us # uss) (tx_checks (cutxo v) flags tx @ chks) cs'"
        if "connected L fScriptChecks nThreads txs ?cs2 uss chks cs'" for uss chks cs'
        using that acc(2) by (auto simp: connected_def cs1 p coinbase_out_def)
      moreover have "connects (heights b + 1) h flags (p # txs) (clookup v) (if IsCoinBase tx then uss else us # uss)
          (tx_checks (cutxo v) flags tx @ chks) (clookup v3)"
        if "connects (heights b + 1) h flags txs m uss chks (clookup v3)" for uss chks
        unfolding p by (rule connects_Cons [OF acc(1) um that])
      ultimately have "isl r2 \<or> (\<exists>cs' uss chks. r2 = Inr cs' \<and>
          connects (heights b + 1) h flags (p # txs) (clookup v) uss chks (clookup v3) \<and> connected L fScriptChecks nThreads (p # txs) cs uss chks cs')"
        using i' by blast
      then show ?thesis unfolding pre2 using i(2-4) by simp
    qed
  qed
qed

end

section \<open>The value of the unspent outputs\<close>

lemma value_out_loop_Some:
  "value_out_loop v outs = Some n \<Longrightarrow> MoneyRange v \<Longrightarrow> n = v + value_sum outs \<and> (\<forall>txout \<in> set outs. MoneyRange (nValue txout))"
proof (induction v outs rule: value_out_loop.induct)
  case (2 v txout outs)
  have r: "MoneyRange (nValue txout)" "MoneyRange (wrap64 (v + nValue txout))" "value_out_loop (wrap64 (v + nValue txout)) outs = Some n"
    using 2(2) by (auto simp: Let_def split: if_splits)
  have "wrap64 (v + nValue txout) = v + nValue txout" using 2(3) r(1) by (simp add: MoneyRange_wrap64_add)
  then show ?case using 2(1) r by simp
qed simp

lemma GetValueOut_unspent:
  assumes "GetValueOut tx = Some n"
  shows "unspent_value tx = n" "0 \<le> n" "n \<le> MAX_MONEY"
proof -
  have m: "MoneyRange 0" by (simp add: MoneyRange_def MAX_MONEY_eq)
  have v: "n = value_sum (tx_vout tx)" "\<forall>txout \<in> set (tx_vout tx). MoneyRange (nValue txout)"
    using value_out_loop_Some [of 0 "tx_vout tx" n] assms m by (simp_all add: GetValueOut_def)
  then have "filter (\<lambda>txout. \<not> CTxOut_IsNull txout) (tx_vout tx) = tx_vout tx"
    by (intro filter_True) (auto simp: CTxOut_IsNull_def MoneyRange_def)
  then show "unspent_value tx = n" using v(1) by (simp add: unspent_value_def value_sum_def)
  show "0 \<le> n" "n \<le> MAX_MONEY" using GetValueOut_range [OF assms] by (simp_all add: MoneyRange_def)
qed

lemma unspent_coins_utxo: "unspent_coins lk (po_hash p) = None \<Longrightarrow> utxo lk p = None"
  by (auto simp: unspent_coins_def utxo_def Let_def IsAvailable_def IsPruned_def list_all_length split: option.splits if_splits)

lemma connects_total:
  assumes "connects H h flags txs lk uss cs m" "finite (dom (utxo lk))" "distinct (map fst txs)"
    and "\<forall>(txid, tx) \<in> set txs. connectable storable h tx \<and> length (tx_vout tx) \<le> 2 ^ 32 \<and> unspent_coins lk txid = None"
  shows "\<exists>fees \<ge> 0. finite (dom (utxo m)) \<and>
    total_value (utxo m) + fees = total_value (utxo lk) + (\<Sum>(txid, tx) \<leftarrow> txs. if IsCoinBase tx then the (GetValueOut tx) else 0)"
  using assms
proof (induction txs arbitrary: lk uss cs)
  case Nil
  then show ?case by auto
next
  case (Cons p txs)
  obtain txid tx where p: "p = (txid, tx)" by (cases p)
  have tx: "connectable storable h tx" "length (tx_vout tx) \<le> 2 ^ 32" "unspent_coins lk txid = None" using Cons.prems(4) p by auto
  obtain n where n: "GetValueOut tx = Some n" using tx(1) by (auto simp: connectable_def)
  obtain us m1 uss' cs' where st: "update_map tx h txid lk = Some (us, m1)" "connects H h flags txs m1 uss' cs' m"
      "\<not> IsCoinBase tx \<longrightarrow> inputs_acceptable lk H tx"
    using Cons.prems(1) unfolding p by (auto elim!: connects_ConsE)
  let ?in = "if IsCoinBase tx then 0 else \<Sum>txin \<leftarrow> tx_vin tx. input_value (utxo lk) txin"
  have fresh: "utxo lk q = None" if "po_hash q = txid" for q using unspent_coins_utxo [of lk q] tx(3) that by simp
  have t1: "finite (dom (utxo m1)) \<and> total_value (utxo m1) = total_value (utxo lk) - ?in + n"
    using total_value_update [OF Cons.prems(2) fresh tx(2)] st(3) tx(1) GetValueOut_unspent(1) [OF n]
    unfolding update_map_utxo [OF st(1)] by (auto simp: connectable_def inputs_acceptable_def)
  have "\<forall>(t, x) \<in> set txs. connectable storable h x \<and> length (tx_vout x) \<le> 2 ^ 32 \<and> unspent_coins m1 t = None"
  proof safe
    fix t x assume t: "(t, x) \<in> set txs"
    then show "connectable storable h x" "length (tx_vout x) \<le> 2 ^ 32" using Cons.prems(4) by auto
    have "t \<noteq> txid" using Cons.prems(3) p t by force
    then show "unspent_coins m1 t = None" using update_map_frame [OF st(1)] Cons.prems(4) t by auto
  qed
  then obtain fees where f: "0 \<le> fees" "finite (dom (utxo m))"
      "total_value (utxo m) + fees = total_value (utxo m1) + (\<Sum>(txid, tx) \<leftarrow> txs. if IsCoinBase tx then the (GetValueOut tx) else 0)"
    using Cons.IH [OF st(2)] t1 Cons.prems(3) p by auto
  have "\<not> IsCoinBase tx \<Longrightarrow> n \<le> ?in" using st(3) n by (auto simp: inputs_acceptable_def)
  then show ?case using f t1 n p
    by (intro exI [of _ "fees + (if IsCoinBase tx then 0 else ?in - n)"]) auto
qed

section \<open>Transactions of a valid block\<close>

lemma length_concat_ge: "(\<And>x. x \<in> set xs \<Longrightarrow> 0 < length (f x)) \<Longrightarrow> length xs \<le> length (concat (map f xs))"
proof (induction xs)
  case (Cons x xs)
  have "1 \<le> length (f x)" using Cons.prems [of x] by (simp add: Suc_le_eq)
  moreover have "length xs \<le> length (concat (map f xs))" using Cons by simp
  ultimately show ?case by simp
qed simp

lemma length_concat_mem: "x \<in> set xs \<Longrightarrow> length (f x) \<le> length (concat (map f xs))"
  by (induction xs) auto

lemma length_ser_tx_out:
  "length (tx_vout tx) \<le> length (ser_tx tx)"
  "txout \<in> set (tx_vout tx) \<Longrightarrow> length (scriptPubKey txout) \<le> length (ser_tx tx)"
proof -
  have le: "length (concat (map ser_txout (tx_vout tx))) \<le> length (ser_tx tx)" by (simp add: ser_tx_def ser_vec_def)
  have "0 < length (ser_txout x)" for x by (simp add: ser_txout_def)
  then show "length (tx_vout tx) \<le> length (ser_tx tx)" using length_concat_ge [of "tx_vout tx" ser_txout] le by simp
  assume "txout \<in> set (tx_vout tx)"
  then have "length (ser_txout txout) \<le> length (ser_tx tx)" using length_concat_mem [of txout "tx_vout tx" ser_txout] le by simp
  moreover have "length (scriptPubKey txout) \<le> length (ser_txout txout)" by (simp add: ser_txout_def ser_bytes_def)
  ultimately show "length (scriptPubKey txout) \<le> length (ser_tx tx)" by simp
qed

lemma CheckTransaction_value_out:
  assumes "CheckTransaction tx = None"
  shows "GetValueOut tx = Some (value_sum (tx_vout tx))"
proof -
  have "\<forall>txout \<in> set (tx_vout tx). MoneyRange (nValue txout)" "value_sum (tx_vout tx) \<le> MAX_MONEY"
    using assms by (auto simp: CheckTransaction_None_iff output_ok_def)
  then show ?thesis using value_out_loop_eq [of 0 "tx_vout tx"] by (simp add: GetValueOut_def MoneyRange_def MAX_MONEY_eq)
qed

lemma CheckTransaction_connectable:
  assumes c: "CheckTransaction tx = None" and "0 \<le> tx_nVersion tx" "tx_nVersion tx < 2 ^ 31" "0 \<le> h" "h < 2 ^ 31"
  shows "coins_ok (CCoins_of_tx tx h)" "connectable coins_ok h tx" "length (tx_vout tx) \<le> 2 ^ 32"
proof -
  have tx: "tx_vout tx \<noteq> []" "length (ser_tx tx) \<le> 1000000" "distinct (map prevout (tx_vin tx))"
      "\<forall>txout \<in> set (tx_vout tx). MoneyRange (nValue txout)"
    using c by (auto simp: CheckTransaction_None_iff MAX_BLOCK_SIZE_def output_ok_def)
  have len: "length (tx_vout tx) \<le> 1000000" using length_ser_tx_out(1) [of tx] tx(2) by simp
  then show "length (tx_vout tx) \<le> 2 ^ 32" by simp
  have nn: "txout \<in> set (tx_vout tx) \<Longrightarrow> \<not> CTxOut_IsNull txout" for txout using tx(4) by (auto simp: CTxOut_IsNull_def MoneyRange_def)
  have "list_all stored_out_ok (tx_vout tx)"
    using tx(4) nn length_ser_tx_out(2) [of _ tx] tx(2) by (fastforce simp: list_all_iff stored_out_ok_def ctxout_ok_def MAX_SIZE_def)
  moreover have "\<not> CTxOut_IsNull (last (tx_vout tx))" using nn tx(1) by simp
  ultimately show ok: "coins_ok (CCoins_of_tx tx h)"
    using assms(2-5) tx(1) len by (simp add: coins_ok_def CCoins_of_tx_def cleaned_def MAX_SIZE_def)
  show "connectable coins_ok h tx" using ok tx(3) CheckTransaction_value_out [OF c] by (simp add: connectable_def)
qed

section \<open>Connecting a block\<close>

abbreviation block_txs :: "openssl \<Rightarrow> CBlock \<Rightarrow> (uint256 \<times> CTransaction) list" where
  "block_txs L block \<equiv> map (\<lambda>tx. (GetHash L tx, tx)) (vtx block)"

lemma zip_map_self: "zip (map f xs) xs = map (\<lambda>x. (f x, x)) xs"
  by (induction xs) auto

text \<open>A block that passes \<open>CheckBlock\<close>, whose transactions have versions that fit the coin database.\<close>

definition versions_ok :: "CBlock \<Rightarrow> bool" where
  "versions_ok block \<longleftrightarrow> (\<forall>tx \<in> set (vtx block). 0 \<le> tx_nVersion tx \<and> tx_nVersion tx < 2 ^ 31)"

lemma checked_block:
  assumes "CheckBlock L params fCheckPOW fCheckMerkleRoot block = None" "versions_ok block" "0 \<le> h" "h < 2 ^ 31"
  shows "vtx block \<noteq> []" "IsCoinBase (hd (vtx block))" "\<forall>tx \<in> set (tl (vtx block)). \<not> IsCoinBase tx"
    and "distinct (map fst (block_txs L block))"
    and "\<forall>(txid, tx) \<in> set (block_txs L block). txid = GetHash L tx \<and> coins_ok (CCoins_of_tx tx h) \<and> connectable coins_ok h tx \<and> length (tx_vout tx) \<le> 2 ^ 32"
    and "GetValueOut (hd (vtx block)) = Some (value_sum (tx_vout (hd (vtx block))))"
proof -
  note c = assms(1) [unfolded CheckBlock_None_iff]
  show "vtx block \<noteq> []" "IsCoinBase (hd (vtx block))" "\<forall>tx \<in> set (tl (vtx block)). \<not> IsCoinBase tx" using c by simp_all
  show "distinct (map fst (block_txs L block))" using c by (simp add: comp_def)
  have t: "coins_ok (CCoins_of_tx tx h)" "connectable coins_ok h tx" "length (tx_vout tx) \<le> 2 ^ 32" if "tx \<in> set (vtx block)" for tx
  proof -
    have "CheckTransaction tx = None" "0 \<le> tx_nVersion tx" "tx_nVersion tx < 2 ^ 31" using c assms(2) that by (simp_all add: versions_ok_def)
    from CheckTransaction_connectable [OF this assms(3,4)]
    show "coins_ok (CCoins_of_tx tx h)" "connectable coins_ok h tx" "length (tx_vout tx) \<le> 2 ^ 32" .
  qed
  show "\<forall>(txid, tx) \<in> set (block_txs L block). txid = GetHash L tx \<and> coins_ok (CCoins_of_tx tx h) \<and> connectable coins_ok h tx \<and> length (tx_vout tx) \<le> 2 ^ 32"
    using t by auto
  show "GetValueOut (hd (vtx block)) = Some (value_sum (tx_vout (hd (vtx block))))"
    using c by (intro CheckTransaction_value_out) auto
qed

lemma coinbase_value_none: "\<forall>tx \<in> set txs. \<not> IsCoinBase tx \<Longrightarrow> coinbase_value n (map (\<lambda>tx. (f tx, tx)) txs) = n"
  by (induction txs) auto

lemma coinbase_value_block:
  assumes "txs \<noteq> []" "IsCoinBase (hd txs)" "\<forall>tx \<in> set (tl txs). \<not> IsCoinBase tx" "GetValueOut (hd txs) = Some n"
  shows "coinbase_value 0 (map (\<lambda>tx. (f tx, tx)) txs) = n"
    and "(\<Sum>(txid, tx) \<leftarrow> map (\<lambda>tx. (f tx, tx)) txs. if IsCoinBase tx then the (GetValueOut tx) else 0) = n"
proof -
  have n: "wrap64 n = n" using GetValueOut_unspent(2,3) [OF assms(4)] by (intro wrap64_id) (simp add: in_int64_def MAX_MONEY_eq)
  obtain tx rest where txs: "txs = tx # rest" using assms(1) by (cases txs) auto
  show "coinbase_value 0 (map (\<lambda>tx. (f tx, tx)) txs) = n" using assms n txs by (simp add: coinbase_value_none)
  have "(\<Sum>(txid, tx) \<leftarrow> map (\<lambda>tx. (f tx, tx)) rest. if IsCoinBase tx then the (GetValueOut tx) else 0) = 0"
    using assms(3) txs by (induction rest arbitrary: txs) auto
  then show "(\<Sum>(txid, tx) \<leftarrow> map (\<lambda>tx. (f tx, tx)) txs. if IsCoinBase tx then the (GetValueOut tx) else 0) = n"
    using assms txs by simp
qed

text \<open>The status bits that \<open>write_undo\<close> sets.\<close>

lemma have_undo_bit: "((s OR BLOCK_HAVE_UNDO) AND NOT BLOCK_VALID_MASK OR BLOCK_VALID_SCRIPTS) AND BLOCK_HAVE_UNDO \<noteq> 0"
proof -
  have "bit BLOCK_HAVE_UNDO 4" by (simp add: BLOCK_HAVE_UNDO_def)
  moreover have "\<not> bit BLOCK_VALID_MASK 4" by (simp add: BLOCK_VALID_MASK_def)
  ultimately have "bit (((s OR BLOCK_HAVE_UNDO) AND NOT BLOCK_VALID_MASK OR BLOCK_VALID_SCRIPTS) AND BLOCK_HAVE_UNDO) 4"
    by (simp add: bit_simps)
  then show ?thesis by auto
qed

lemma write_undo_None:
  assumes "write_undo env uss p = (None, p', w)"
  shows "bi_nMoneySupply p' = bi_nMoneySupply p" "bi_nHeight p' = bi_nHeight p" "bi_pprev p' = bi_pprev p" "bi_nFile p' = bi_nFile p"
    and "if CDiskBlockPos_IsNull (GetUndoPos p) then w = Some uss \<and> GetUndoPos p' = \<lparr>nFile = bi_nFile p, nPos = bi_nUndoPos p'\<rparr> else w = None"
  using assms have_undo_bit [of "bi_nStatus p"]
  by (auto simp: write_undo_def GetUndoPos_def split: if_splits option.splits)

text \<open>What the index entry of a connected block records, and what is written.\<close>

definition recorded :: "connect_env \<Rightarrow> block_map \<Rightarrow> uint256 \<Rightarrow> CBlockIndex \<Rightarrow> int \<Rightarrow> CBlockUndo \<Rightarrow> (uint256 \<times> nat) list \<Rightarrow> 's connect_result \<Rightarrow> bool" where
  "recorded env idx h p supply uss vPos r \<longleftrightarrow>
     (\<exists>p'. cr_index r = idx(h \<mapsto> p') \<and> bi_nMoneySupply p' = supply \<and> bi_nHeight p' = bi_nHeight p \<and> bi_pprev p' = bi_pprev p \<and>
        bi_nFile p' = bi_nFile p \<and>
        (if CDiskBlockPos_IsNull (GetUndoPos p) then cr_undo r = Some uss \<and> GetUndoPos p' = \<lparr>nFile = bi_nFile p, nPos = bi_nUndoPos p'\<rparr>
         else cr_undo r = None)) \<and>
     cr_txindex r = (if fTxIndex env then Some vPos else None)"

context chain_backend
begin

lemma finish_connect_law:
  assumes "cinv v" "bi_pprev p = Some b" "idx b = Some prev"
  shows "\<exists>r. finish_connect env idx h p cs cache v = Some r \<and>
    (cr_error r = None \<longrightarrow> cinv (cr_view r) \<and> clookup (cr_view r) = clookup v \<and> cbest (cr_view r) = Some h \<and>
       recorded env idx h p (wrap64 (bi_nMoneySupply prev + cs_nValueOut cs)) (cs_undo cs) (cs_vPos cs) r)"
proof -
  let ?p = "p\<lparr>bi_nMoneySupply := wrap64 (bi_nMoneySupply prev + cs_nValueOut cs)\<rparr>"
  obtain e p' w where w: "write_undo env (cs_undo cs) ?p = (e, p', w)" by (cases "write_undo env (cs_undo cs) ?p")
  obtain v' where v': "Cache_SetBestBlock (Some h) v = (True, v')" "cinv v'" "clookup v' = clookup v" "cbest v' = Some h"
    using Cache_SetBestBlock_law [OF assms(1)] by blast
  have up: "GetUndoPos ?p = GetUndoPos p" by (simp add: GetUndoPos_def)
  show ?thesis
  proof (cases e)
    case (Some e')
    then show ?thesis using assms(2,3) w by (simp add: finish_connect_def connect_done_def)
  next
    case None
    note wn = write_undo_None [OF w [unfolded None], unfolded up]
    show ?thesis
    proof (cases "fTxIndex env \<and> \<not> write_txindex_ok env")
      case True
      then show ?thesis using assms(2,3) w None by (simp add: finish_connect_def connect_done_def Let_def)
    next
      case False
      let ?r = "(connect_done None (idx(h \<mapsto> p')) cache v)\<lparr>cr_undo := w, cr_view := v', cr_txindex := (if fTxIndex env then Some (cs_vPos cs) else None)\<rparr>"
      have "finish_connect env idx h p cs cache v = Some ?r"
        using assms(2,3) w None False v'(1) by (auto simp: finish_connect_def Let_def)
      moreover have "recorded env idx h p (wrap64 (bi_nMoneySupply prev + cs_nValueOut cs)) (cs_undo cs) (cs_vPos cs) ?r"
        using wn by (auto simp: recorded_def connect_done_def)
      ultimately show ?thesis using v' by auto
    qed
  qed
qed

end

text \<open>What is known when \<open>ConnectBlock\<close> returns true.\<close>

definition block_connected :: "openssl \<Rightarrow> chain_params \<Rightarrow> connect_env \<Rightarrow> block_map \<Rightarrow> uint256 \<Rightarrow> CBlockIndex \<Rightarrow> CBlockIndex \<Rightarrow> bool \<Rightarrow> CBlock \<Rightarrow>
    (uint256 \<Rightarrow> CCoins option) \<Rightarrow> (uint256 \<Rightarrow> CCoins option) \<Rightarrow> 's connect_result \<Rightarrow> bool" where
  "block_connected L params env idx h p prev fJustCheck block lk m r \<longleftrightarrow>
     CheckBlock L params (\<not> fJustCheck) (\<not> fJustCheck) block = None \<and>
     (\<forall>tx \<in> set (vtx block). unspent_coins lk (GetHash L tx) = None) \<and>
     value_sum (tx_vout (hd (vtx block))) \<le> GetBlockValue (fTestNet env) p 0 \<and>
     (\<exists>uss chks. connects (bi_nHeight prev + 1) (bi_nHeight p) (block_flags p) (block_txs L block) lk uss chks m \<and>
        (total_blocks_estimate params \<le> bi_nHeight p \<longrightarrow> (\<forall>c \<in> set chks. script_passes L c)) \<and>
        (if fJustCheck then cr_index r = idx \<and> cr_undo r = None
         else recorded env idx h p (wrap64 (bi_nMoneySupply prev + value_sum (tx_vout (hd (vtx block))))) uss
           (tx_offsets (GetSizeOfCompactSize (length (vtx block))) (block_txs L block)) r))"

context undo_backend
begin

lemma ConnectBlock_law:
  assumes v: "cinv v" "cache_sound L cache" "cbest v = Some b"
    and idx: "idx h = Some p" "bi_pprev p = Some b" "idx b = Some prev"
    and genesis: "Block_GetHash L block \<noteq> hashGenesisBlock params"
    and ok: "0 \<le> bi_nHeight p" "bi_nHeight p < 2 ^ 31" "versions_ok block"
  shows "\<exists>r. ConnectBlock L params env get getbest idx h fJustCheck block cache v = Some r \<and>
    (cr_error r = None \<longrightarrow> cinv (cr_view r) \<and> cbest (cr_view r) = Some (if fJustCheck then b else h) \<and>
       block_connected L params env idx h p prev fJustCheck block (clookup v) (clookup (cr_view r)) r)"
proof (cases "CheckBlock L params (\<not> fJustCheck) (\<not> fJustCheck) block")
  case (Some e)
  then show ?thesis by (simp add: ConnectBlock_def connect_done_def)
next
  case None
  note cb = checked_block [OF None ok(3,1,2)]
  let ?n = "value_sum (tx_vout (hd (vtx block)))" and ?txs = "block_txs L block"
  let ?scripts = "bi_nHeight p \<ge> total_blocks_estimate params" and ?strict = "CBlockIndex_GetBlockTime p \<ge> nBIP16SwitchTime"
  obtain v1 where v1: "Cache_GetBestBlock getbest v = (Some b, v1)" "same_view v v1"
    using Cache_GetBestBlock_law [OF v(1)] v(3) by auto
  obtain v2 where v2: "overwrites get (map (GetHash L) (vtx block)) v1 =
      Some (\<exists>h \<in> set (map (GetHash L) (vtx block)). unspent_coins (clookup v1) h \<noteq> None, v2)" "same_view v1 v2"
    using overwrites_law [of v1] v1(2) by blast
  have l2: "cinv v2" "clookup v2 = clookup v" "cbest v2 = Some b" using v1(2) v2(2) v(3) by simp_all
  have n0: "GetValueOut (vtx block ! 0) = Some ?n" using cb(1,6) by (simp add: hd_conv_nth)
  have same: "clookup v1 = clookup v" using v1(2) by simp
  define start where "start = connect_start (length (vtx block))"
  have pre: "ConnectBlock L params env get getbest idx h fJustCheck block cache v =
      (if \<exists>tx \<in> set (vtx block). unspent_coins (clookup v) (GetHash L tx) \<noteq> None then Some (connect_done (Some Overwrites_transaction) idx cache v2)
       else case connect_txs L get getbest (\<lambda>b. bi_nHeight (the (idx b))) ?scripts (nScriptCheckThreads env) ?strict (block_flags p)
           (bi_nHeight p) ?txs start cache v2 of
          None \<Rightarrow> None
        | Some (Inl e, cache, v) \<Rightarrow> Some (connect_done (Some e) idx cache v)
        | Some (Inr cs, cache, v) \<Rightarrow>
          if ?n > GetBlockValue (fTestNet env) p (cs_nFees cs) then Some (connect_done (Some Coinbase_too_high) idx cache v)
          else if \<not> control_Wait L (cs_checks cs) cache then Some (connect_done (Some Scripts_failed) idx cache v)
          else if fJustCheck then Some (connect_done None idx cache v)
          else finish_connect env idx h p cs cache v)"
    unfolding ConnectBlock_def Let_def txids_of_tree zip_map_self n0 option.case
    using None idx(1,2) v1(1) v2(1) genesis same by (simp add: start_def)
  show ?thesis
  proof (cases "\<exists>tx \<in> set (vtx block). unspent_coins (clookup v) (GetHash L tx) \<noteq> None")
    case True
    then show ?thesis unfolding pre by (simp add: connect_done_def)
  next
    case fresh: False
    have "\<forall>(txid, tx) \<in> set ?txs. connectable storable (bi_nHeight p) tx"
      using cb(5) coins_ok_storable by (auto simp: connectable_def)
    note law = connect_txs_law [OF l2(1,3) v(2) this, where cs = start and heights = "\<lambda>b. bi_nHeight (the (idx b))" and fScriptChecks = ?scripts and
        nThreads = "nScriptCheckThreads env" and strict = ?strict and flags = "block_flags p"]
    have prev: "bi_nHeight (the (idx b)) = bi_nHeight prev" using idx(3) by simp
    obtain r cache3 v3 where c: "connect_txs L get getbest (\<lambda>b. bi_nHeight (the (idx b))) ?scripts (nScriptCheckThreads env) ?strict (block_flags p)
           (bi_nHeight p) ?txs start cache v2 = Some (r, cache3, v3)" "cinv v3" "cbest v3 = Some b" "cache_sound L cache3"
      and c': "isl r \<or> (\<exists>cs uss chks. r = Inr cs \<and> connects (bi_nHeight prev + 1) (bi_nHeight p) (block_flags p) ?txs (clookup v) uss chks (clookup v3) \<and>
           connected L ?scripts (nScriptCheckThreads env) ?txs start uss chks cs)"
      using law unfolding l2(2) prev by blast
    show ?thesis
    proof (cases r)
      case (Inl e)
      then show ?thesis unfolding pre using fresh c(1) by (simp add: connect_done_def)
    next
      case (Inr cs)
      then obtain uss chks where k: "connects (bi_nHeight prev + 1) (bi_nHeight p) (block_flags p) ?txs (clookup v) uss chks (clookup v3)"
          "connected L ?scripts (nScriptCheckThreads env) ?txs start uss chks cs"
        using c' by auto
      have cs: "cs_undo cs = uss" "cs_vPos cs = tx_offsets (GetSizeOfCompactSize (length (vtx block))) ?txs" "cs_nValueOut cs = ?n"
        using k(2) coinbase_value_block(1) [OF cb(1-3,6)] by (simp_all add: connected_def start_def connect_start_def)
      have pre2: "ConnectBlock L params env get getbest idx h fJustCheck block cache v =
          (if ?n > GetBlockValue (fTestNet env) p (cs_nFees cs) then Some (connect_done (Some Coinbase_too_high) idx cache3 v3)
           else if \<not> control_Wait L (cs_checks cs) cache3 then Some (connect_done (Some Scripts_failed) idx cache3 v3)
           else if fJustCheck then Some (connect_done None idx cache3 v3)
           else finish_connect env idx h p cs cache3 v3)"
        unfolding pre using fresh c(1) Inr by simp
      show ?thesis
      proof (cases "?n \<le> GetBlockValue (fTestNet env) p (cs_nFees cs) \<and> control_Wait L (cs_checks cs) cache3")
        case False
        then show ?thesis unfolding pre2 by (auto simp: connect_done_def)
      next
        case True
        note passed = True
        have scripts: "?scripts \<longrightarrow> (\<forall>c \<in> set chks. script_passes L c)"
          using True k(2) run_script_check_passes [OF c(4)]
          by (cases "nScriptCheckThreads env = 0")
            (auto simp: connected_def control_Wait_def list_all_iff start_def connect_start_def, metis fst_conv)
        have n: "?n \<le> GetBlockValue (fTestNet env) p 0" using True by (simp add: GetBlockValue_def)
        have bc: "block_connected L params env idx h p prev fJustCheck block (clookup v) (clookup v3) r'"
          if "if fJustCheck then cr_index r' = idx \<and> cr_undo r' = None
            else recorded env idx h p (wrap64 (bi_nMoneySupply prev + ?n)) uss (tx_offsets (GetSizeOfCompactSize (length (vtx block))) ?txs) r'" for r' :: "'s connect_result"
          unfolding block_connected_def using None fresh n k(1) scripts that by blast
        show ?thesis
        proof (cases fJustCheck)
          case True
          then show ?thesis unfolding pre2 using passed c(2,3) bc [of "connect_done None idx cache3 v3"]
            by (simp add: connect_done_def not_less)
        next
          case False
          obtain r' where "finish_connect env idx h p cs cache3 v3 = Some r'"
              "cr_error r' = None \<longrightarrow> cinv (cr_view r') \<and> clookup (cr_view r') = clookup v3 \<and> cbest (cr_view r') = Some h \<and>
                recorded env idx h p (wrap64 (bi_nMoneySupply prev + ?n)) uss (tx_offsets (GetSizeOfCompactSize (length (vtx block))) ?txs) r'"
            using finish_connect_law [where idx = idx, OF c(2) idx(2,3), of env h cs cache3] unfolding cs by (elim exE conjE)
          then show ?thesis unfolding pre2 using passed bc [of r'] False by (auto simp: not_less)
        qed
      qed
    qed
  qed
qed

end

section \<open>Disconnecting inverts it\<close>

lemma connects_with_undo:
  assumes "connects H h flags txs lk uss cs m" "\<forall>tx \<in> set (map snd txs). \<not> IsCoinBase tx"
  shows "length uss = length txs" "with_undo txs uss = zip (map snd txs) (map Some uss)"
  using assms by (induction rule: connects.induct) auto

lemma connects_block_undo:
  assumes "connects H h flags (block_txs L block) lk uss cs m"
    and "vtx block \<noteq> []" "IsCoinBase (hd (vtx block))" "\<forall>tx \<in> set (tl (vtx block)). \<not> IsCoinBase tx"
  shows "length uss + 1 = length (vtx block)" "with_undo (block_txs L block) uss = zip (vtx block) (None # map Some uss)"
proof -
  obtain tx txs where txs: "vtx block = tx # txs" using assms(2) by (cases "vtx block") auto
  obtain us m1 where st: "connects H h flags (map (\<lambda>tx. (GetHash L tx, tx)) txs) m1 uss cs m"
    using assms(1,3) unfolding txs by (auto elim!: connects_ConsE)
  have "\<forall>tx \<in> set (map snd (map (\<lambda>tx. (GetHash L tx, tx)) txs)). \<not> IsCoinBase tx" using assms(4) txs by simp
  from connects_with_undo [OF st this] show "length uss + 1 = length (vtx block)" "with_undo (block_txs L block) uss = zip (vtx block) (None # map Some uss)"
    using assms(3) by (simp_all add: txs comp_def)
qed

context undo_backend
begin

lemma DisconnectBlock_law:
  assumes bc: "block_connected L params env idx h p prev False block lk m r" and idx: "bi_pprev p = Some b" and lk: "restorable lk"
    and ok: "0 < bi_nHeight p" "bi_nHeight p < 2 ^ 31" "versions_ok block"
    and undo: "CDiskBlockPos_IsNull (GetUndoPos p)" "bi_nFile p \<noteq> -1"
    and v: "cinv v" "unspent_coins (clookup v) = unspent_coins m" "cbest v = Some h"
  shows "\<exists>v'. DisconnectBlock L get getbest (cr_index r) h (cr_undo r) pfClean block v = Some (True, if pfClean then Some True else None, v') \<and>
    cinv v' \<and> unspent_coins (clookup v') = unspent_coins lk \<and> cbest v' = Some b"
proof -
  let ?txs = "block_txs L block"
  have c: "CheckBlock L params True True block = None" "\<forall>tx \<in> set (vtx block). unspent_coins lk (GetHash L tx) = None"
    using bc by (simp_all add: block_connected_def)
  obtain uss chks where k: "connects (bi_nHeight prev + 1) (bi_nHeight p) (block_flags p) ?txs lk uss chks m"
    and rec: "recorded env idx h p (wrap64 (bi_nMoneySupply prev + value_sum (tx_vout (hd (vtx block))))) uss
        (tx_offsets (GetSizeOfCompactSize (length (vtx block))) ?txs) r"
    using bc by (auto simp: block_connected_def)
  have h0: "0 \<le> bi_nHeight p" "bi_nHeight p \<noteq> 0" using ok(1) by simp_all
  note cb = checked_block [OF c(1) ok(3) h0(1) ok(2)]
  obtain p' where p': "cr_index r = idx(h \<mapsto> p')" "bi_nHeight p' = bi_nHeight p" "bi_pprev p' = Some b"
      "cr_undo r = Some uss" "GetUndoPos p' = \<lparr>nFile = bi_nFile p, nPos = bi_nUndoPos p'\<rparr>"
    using rec undo(1) idx unfolding recorded_def by auto
  note u = connects_block_undo [OF k cb(1-3)]
  obtain v1 where v1: "Cache_GetBestBlock getbest v = (Some h, v1)" "same_view v v1"
    using Cache_GetBestBlock_law [OF v(1)] v(3) by auto
  have l1: "cinv v1" "unspent_coins (clookup v1) = unspent_coins m" using v1(2) v(2) by simp_all
  have "\<forall>(txid, tx) \<in> set ?txs. txid = GetHash L tx \<and> coins_ok (CCoins_of_tx tx (bi_nHeight p)) \<and> unspent_coins lk txid = None"
    using cb(5) c(2) by auto
  from disconnect_txs_law [OF k lk h0(2) cb(4) this l1]
  obtain v2 where v2: "disconnect_txs L get (bi_nHeight p) (rev (zip (vtx block) (None # map Some uss))) True v1 = Some (Some True, v2)"
      "cinv v2" "unspent_coins (clookup v2) = unspent_coins lk"
    unfolding u(2) by blast
  obtain v3 where v3: "Cache_SetBestBlock (Some b) v2 = (True, v3)" "cinv v3" "clookup v3 = clookup v2" "cbest v3 = Some b"
    using Cache_SetBestBlock_law [OF v2(2)] by blast
  have "DisconnectBlock L get getbest (cr_index r) h (cr_undo r) pfClean block v = Some (True, if pfClean then Some True else None, v3)"
    using v1(1) p' undo(2) u(1) v2(1) v3(1) by (simp add: DisconnectBlock_def CDiskBlockPos_IsNull_def)
  then show ?thesis using v3 v2(3) by simp
qed

end

interpretation db_undo: undo_backend "DB_GetCoins L" DB_HaveCoins "DB_GetBestBlock idx" "db_lookup L" "db_best idx"
    "db_ok L" "DB_BatchWrite L" "\<lambda>h. h \<in> set idx" coins_ok for L idx
  by unfold_locales simp

interpretation tip_undo: undo_backend "Cache_GetCoins (DB_GetCoins L)" "Cache_HaveCoins (DB_GetCoins L)"
    "Cache_GetBestBlock (DB_GetBestBlock idx)" "tip_lookup L" "tip_best idx" "tip_ok L" Cache_BatchWrite
    "\<lambda>h. h \<in> set idx" coins_ok for L idx
  by unfold_locales simp

end
