(* ===== verification/Connect_Properties.thy ===== *)
theory Connect_Properties
  imports Connect_Behaviour
begin

text \<open>
  What \<open>ConnectBlock\<close> and \<open>DisconnectBlock\<close> of \<open>src/src/main.cpp\<close> guarantee on the views of the program (the cache of a block over the tip
  cache over the database), and a mined block on which the theorems are applied.
\<close>

section \<open>An example\<close>

text \<open>A block of one transaction on the example view, whose header satisfies its target.\<close>

definition mined_block :: CBlock where
  "mined_block = \<lparr> bh_nVersion = 1, hashPrevBlock = 5, hashMerkleRoot = GetHash reference_ssl coinbase_tx,
     bh_nTime = 10, bh_nBits = 0x067fffff, bh_nNonce = 0, vtx = [coinbase_tx], vchBlockSig = [] \<rparr>"

definition mined_params :: chain_params where
  "mined_params = example_params\<lparr>hashGenesisBlock := Block_GetHash reference_ssl mined_block + 1\<rparr>"

definition mined_env :: connect_env where
  "mined_env = \<lparr>fTestNet = False, nScriptCheckThreads = 4, fTxIndex = True, find_undo_pos = Some 8,
     write_undo_ok = True, write_index_ok = True, write_txindex_ok = True\<rparr>"

definition prev_entry :: CBlockIndex where
  "prev_entry = (CBlockIndex_of example_block)\<lparr>bi_nHeight := 53999, bi_nMoneySupply := 70\<rparr>"

definition mined_entry :: CBlockIndex where
  "mined_entry = (CBlockIndex_of mined_block)\<lparr>bi_pprev := Some 5, bi_nHeight := 54000\<rparr>"

definition mined_index :: block_map where
  "mined_index = [5 \<mapsto> prev_entry, 9 \<mapsto> mined_entry]"

lemma le_bytes_0: "le_bytes k 0 = replicate k 0"
  by (induction k) auto

lemma le_val_append_zeros: "le_val (xs @ replicate k 0) = le_val xs"
proof (induction xs)
  case Nil
  show ?case by (induction k) auto
qed simp

lemma le_bytes_4: "le_bytes 4 n = [of_nat n, of_nat (n div 256), of_nat (n div 256 div 256), of_nat (n div 256 div 256 div 256)]"
proof -
  have "(4 :: nat) = Suc (Suc (Suc (Suc 0)))" by simp
  then have "le_bytes 4 n = le_bytes (Suc (Suc (Suc (Suc 0)))) n" by (rule arg_cong)
  moreover have "(of_nat (k mod 256) :: byte) = of_nat k" for k by (simp add: word_unat_eq_iff unat_of_nat)
  ultimately show ?thesis by (simp del: div_mult2_eq)
qed

lemma ser_int_1: "ser_int 4 1 = [1, 0, 0, 0]"
  by (simp add: ser_int_def le_bytes_4)

lemma Hash_prefix: "32 \<le> length b \<Longrightarrow> Hash reference_ssl b = of_nat (le_val (take 32 b))"
  by (simp add: Hash_def reference_ssl_def resize_def)

lemma mined_hash: "Block_GetHash reference_ssl mined_block = 1 + 5 * 2 ^ 32"
proof -
  have p: "ser_word (5 :: uint256) = 5 # replicate 31 0"
    using le_bytes.simps(2) [of 31 5] by (simp add: ser_word_def le_bytes_0)
  have "take 32 (ser_header mined_block) = [1, 0, 0, 0, 5] @ replicate 27 0"
    unfolding ser_header_def by (simp add: mined_block_def ser_int_1 p)
  moreover have "32 \<le> length (ser_header mined_block)" unfolding ser_header_def by (simp add: mined_block_def ser_int_1 p)
  ultimately have "Block_GetHash reference_ssl mined_block = of_nat (le_val ([1, 0, 0, 0, 5] @ replicate 27 0))"
    by (simp only: Block_GetHash_def Hash_prefix)
  then show ?thesis unfolding le_val_append_zeros by simp
qed

lemma mined_work: "CheckProofOfWork reference_ssl (Block_GetHash reference_ssl mined_block) (bh_nBits mined_block)"
proof -
  have t: "SetCompact 0x067fffff = 0x7fffff000000" by (simp add: SetCompact_def)
  have m: "mpi_magnitude reference_ssl 0x7fffff000000 = [0, 0, 0, 255, 255, 127]"
  proof -
    have "min_bytes 0x7fffff000000 = [0, 0, 0, 255, 255, 127]" by (simp add: min_bytes.simps)
    then have "vch_of_num 0x7fffff000000 = [0, 0, 0, 255, 255, 127]" by (simp add: vch_of_num_def Let_def)
    then show ?thesis by (simp add: mpi_magnitude_def reference_ssl_def mpi_header_def le_bytes_4 Let_def)
  qed
  show ?thesis unfolding mined_hash
    by (simp add: CheckProofOfWork_def mined_block_def t getuint256_def m bnProofOfWorkLimit_def mask_eq_exp_minus_1)
qed

lemma mined_checked: "CheckBlock reference_ssl mined_params True True mined_block = None"
proof -
  have "sum_list (map GetLegacySigOpCount [coinbase_tx]) \<le> MAX_BLOCK_SIGOPS"
    using sigops_from_le [of False OP_INVALIDOPCODE "[1, 1]"] sigops_from_le [of False OP_INVALIDOPCODE "[]"]
    by (simp add: coinbase_tx_def GetLegacySigOpCount_def GetSigOpCount_def MAX_BLOCK_SIGOPS_def MAX_BLOCK_SIZE_def)
  moreover have "length (ser_block mined_block) \<le> MAX_BLOCK_SIZE"
    by (simp add: mined_block_def ser_block_def ser_header_def ser_vec_def length_example_txs
      ser_bytes_def length_WriteCompactSize GetSizeOfCompactSize_def MAX_BLOCK_SIZE_def)
  moreover have "uint (tx_nTime coinbase_tx) = 6" by (simp add: coinbase_tx_def)
  ultimately show ?thesis
    using mined_work example_coinbase(1) example_txs_checked(1)
    unfolding CheckBlock_None_iff
    by (simp add: CheckBlockSignature_def mined_params_def example_params_def MAX_BLOCK_SIZE_def nMaxClockDrift_def GetBlockTime_def)
      (simp add: mined_block_def merkle_root.simps)
qed

lemma mined_txid: "GetHash reference_ssl coinbase_tx \<noteq> 7"
proof
  assume h: "GetHash reference_ssl coinbase_tx = 7"
  obtain b where b: "ser_tx coinbase_tx = 1 # b" unfolding ser_tx_def by (simp add: coinbase_tx_def ser_int_1)
  have l: "le_val (take 32 (1 # b)) = 1 + 256 * le_val (take 31 b)" by (simp add: take_Cons')
  have "of_nat (le_val (take 32 (1 # b))) = (7 :: uint256)"
    using h length_example_txs(1) Hash_prefix [of "ser_tx coinbase_tx"] by (simp add: GetHash_def b)
  then have "unat (of_nat (le_val (take 32 (1 # b))) :: uint256) = 7" by simp
  moreover have "le_val (take 32 (1 # b)) < 256 ^ length (take 32 (1 # b))" by (rule le_val_less)
  then have "le_val (take 32 (1 # b)) < 256 ^ 32" by (rule less_le_trans) (intro power_increasing, simp_all)
  then have "unat (of_nat (le_val (take 32 (1 # b))) :: uint256) = le_val (take 32 (1 # b))" by (intro unat_of_nat_small) simp
  ultimately have "1 + 256 * le_val (take 31 b) = 7" unfolding l by (simp only:)
  then show False by presburger
qed

lemma mined_entry_fields:
  "bi_pprev mined_entry = Some 5" "bi_nHeight mined_entry = 54000" "bi_nFile mined_entry = 0" "GetUndoPos mined_entry = CDiskBlockPos_SetNull"
  "mined_index 9 = Some mined_entry" "mined_index 5 = Some prev_entry" "bi_nHeight prev_entry = 53999" "bi_nMoneySupply prev_entry = 70"
  by (simp_all add: mined_entry_def mined_index_def prev_entry_def CBlockIndex_of_def GetUndoPos_def)

lemma mined_block_fields: "vtx mined_block = [coinbase_tx]" "versions_ok mined_block"
  "Block_GetHash reference_ssl mined_block \<noteq> hashGenesisBlock mined_params" "total_blocks_estimate mined_params = 0"
  by (simp_all add: mined_block_def versions_ok_def coinbase_tx_def mined_params_def example_params_def)

lemma example_view_restorable: "restorable (block_lookup reference_ssl example_view)"
proof -
  have "block_lookup reference_ssl example_view = [7 \<mapsto> example_coins]"
    by (simp add: example_view_def cache_lookup_def CCoinsViewCache_init_def db_lookup_def DB_GetCoins_def db_Read_def fun_eq_iff)
  then show ?thesis using example_coins_ok by (simp add: restorable_def example_coins_def)
qed

lemma example_view_finite: "finite (dom (utxo (block_lookup reference_ssl example_view)))"
proof (rule finite_subset)
  have l: "block_lookup reference_ssl example_view = [7 \<mapsto> example_coins]"
    by (simp add: example_view_def cache_lookup_def CCoinsViewCache_init_def db_lookup_def DB_GetCoins_def db_Read_def fun_eq_iff)
  show "dom (utxo (block_lookup reference_ssl example_view)) \<subseteq> (\<lambda>n. \<lparr>po_hash = 7, po_n = n\<rparr>) ` UNIV"
  proof
    fix q :: COutPoint assume "q \<in> dom (utxo (block_lookup reference_ssl example_view))"
    then have "po_hash q = 7" unfolding l by (auto simp: utxo_def split: if_splits)
    then have "q = \<lparr>po_hash = 7, po_n = po_n q\<rparr>" by (cases q) simp
    then show "q \<in> (\<lambda>n. \<lparr>po_hash = 7, po_n = n\<rparr>) ` UNIV" by blast
  qed
qed simp

lemma example_view_fresh: "unspent_coins (block_lookup reference_ssl example_view) (GetHash reference_ssl coinbase_tx) = None"
  using mined_txid by (simp add: unspent_coins_def example_view_def cache_lookup_def CCoinsViewCache_init_def db_lookup_def DB_GetCoins_def db_Read_def)

lemma mined_connects:
  "\<exists>r. ConnectBlock reference_ssl mined_params mined_env (block_get reference_ssl) (block_getbest []) mined_index 9 False mined_block example_cache example_view = Some r \<and>
     cr_error r = None"
proof -
  let ?L = reference_ssl and ?get = "block_get reference_ssl" and ?txid = "GetHash reference_ssl coinbase_tx"
  have ok: "block_ok ?L example_view" "block_best [] example_view = Some 5" by (rule example_view_ok)+
  obtain v1 where v1: "Cache_GetBestBlock (block_getbest []) example_view = (Some 5, v1)" "block_ok ?L v1" "block_lookup ?L v1 = block_lookup ?L example_view"
    using tip_view.Cache_GetBestBlock_law [OF ok(1), of "[]"] ok(2) by auto
  obtain v2 where v2: "overwrites ?get [?txid] v1 = Some (False, v2)" "block_ok ?L v2"
    using tip_chain.overwrites_law [OF v1(2), of "[?txid]"] example_view_fresh v1(3) by auto
  have n: "GetValueOut coinbase_tx = Some (5 * CENT)"
    using CheckTransaction_value_out [OF example_txs_checked(1)] by (simp add: coinbase_tx_def value_sum_def)
  have coins: "coins_ok (CCoins_of_tx coinbase_tx 54000)"
    using CheckTransaction_connectable(1) [OF example_txs_checked(1), of 54000] by (simp add: coinbase_tx_def)
  then obtain v3 where v3: "UpdateCoins ?get coinbase_tx [] 54000 ?txid v2 = Some ([], v3)"
    using tip_chain.UpdateCoins_law [OF v2(2), where tx = coinbase_tx and h = 54000 and txid = ?txid and txundo = "[]"] example_coinbase(1) by (auto simp: update_map_def)
  have sig: "GetLegacySigOpCount coinbase_tx \<le> MAX_BLOCK_SIGOPS"
    using sigops_from_le [of False OP_INVALIDOPCODE "[1, 1]"] sigops_from_le [of False OP_INVALIDOPCODE "[]"]
    by (simp add: coinbase_tx_def GetLegacySigOpCount_def GetSigOpCount_def MAX_BLOCK_SIGOPS_def MAX_BLOCK_SIZE_def)
  let ?cs = "(connect_start 1)\<lparr>cs_nSigOps := GetLegacySigOpCount coinbase_tx, cs_nValueOut := 5 * CENT,
      cs_vPos := [(?txid, GetSizeOfCompactSize 1)], cs_nTxOffset := GetSizeOfCompactSize 1 + length (ser_tx coinbase_tx)\<rparr>"
  have w: "wrap64 (5 * CENT) = 5 * CENT" by (simp add: CENT_def wrap64_def)
  have txs: "connect_txs ?L ?get (block_getbest []) heights scripts threads strict flags 54000 [(?txid, coinbase_tx)] (connect_start 1) example_cache v2 =
      Some (Inr ?cs, example_cache, v3)" for heights scripts threads strict flags
    using sig v3 example_coinbase(1) n w by (simp add: connect_start_def)
  have reward: "5 * CENT \<le> GetBlockValue False mined_entry 0"
    by (simp add: GetBlockValue_def mined_entry_fields GetProofOfWorkReward_def CENT_def COIN_def)
  have "ConnectBlock ?L mined_params mined_env ?get (block_getbest []) mined_index 9 False mined_block example_cache example_view =
      finish_connect mined_env mined_index 9 mined_entry ?cs example_cache v3"
    unfolding ConnectBlock_def Let_def txids_of_tree zip_map_self
    using v1(1) v2(1) txs n reward mined_checked mined_block_fields
    by (simp add: mined_entry_fields mined_env_def control_Wait_def connect_start_def GetBlockValue_def)
  then show ?thesis
    by (simp add: finish_connect_def mined_entry_fields write_undo_def mined_env_def CDiskBlockPos_SetNull_def CDiskBlockPos_IsNull_def
        connect_done_def Let_def Cache_SetBestBlock_def GetUndoPos_def split: prod.split)
qed

section \<open>Properties\<close>

text \<open>C2. \<open>ConnectBlock\<close> on the view of a block that is a well-formed one of the previous block never fails an assertion, reads a null pointer or
throws. When it returns true, the view is well-formed and has the block as its best one (unless it was only to be checked), the block passes
\<open>CheckBlock\<close>, overwrites no transaction that has unspent outputs, pays its coinbase no more than the reward at its height, and each of its
transactions in turn spends distinct outputs that are unspent at that point, mature and worth enough, and, above the last checkpoint, every
script check passes; the view then shows exactly what these transactions leave.\<close>

theorem ConnectBlock_refines:
  assumes "block_ok L v" "cache_sound L cache" "block_best known v = Some b"
    and "idx h = Some p" "bi_pprev p = Some b" "idx b = Some prev" "Block_GetHash L block \<noteq> hashGenesisBlock params"
    and "0 \<le> bi_nHeight p" "bi_nHeight p < 2 ^ 31" "versions_ok block"
  shows "case ConnectBlock L params env (block_get L) (block_getbest known) idx h fJustCheck block cache v of
     None \<Rightarrow> False
   | Some r \<Rightarrow> cr_error r = None \<longrightarrow>
       block_ok L (cr_view r) \<and> block_best known (cr_view r) = Some (if fJustCheck then b else h) \<and>
       CheckBlock L params (\<not> fJustCheck) (\<not> fJustCheck) block = None \<and>
       (\<forall>tx \<in> set (vtx block). unspent_coins (block_lookup L v) (GetHash L tx) = None) \<and>
       value_sum (tx_vout (hd (vtx block))) \<le> GetBlockValue (fTestNet env) p 0 \<and>
       (\<exists>uss chks. connects (bi_nHeight prev + 1) (bi_nHeight p) (block_flags p) (block_txs L block)
            (block_lookup L v) uss chks (block_lookup L (cr_view r)) \<and>
          (total_blocks_estimate params \<le> bi_nHeight p \<longrightarrow> (\<forall>c \<in> set chks. script_passes L c)))"
proof -
  obtain r where r: "ConnectBlock L params env (block_get L) (block_getbest known) idx h fJustCheck block cache v = Some r"
      "cr_error r = None \<longrightarrow> block_ok L (cr_view r) \<and> block_best known (cr_view r) = Some (if fJustCheck then b else h) \<and>
        block_connected L params env idx h p prev fJustCheck block (block_lookup L v) (block_lookup L (cr_view r)) r"
    using tip_undo.ConnectBlock_law [OF assms, where env = env and fJustCheck = fJustCheck] by (elim exE conjE)
  show ?thesis unfolding r(1) option.case using r(2) unfolding block_connected_def by blast
qed

text \<open>C3. No block creates money beyond its reward: connecting it changes the total value of the unspent outputs by what its coinbase pays,
which is no more than the reward at its height, less fees that are not negative. The money supply that the index records grows by the coinbase
alone, so that it exceeds the total by the fees, which nobody collects.\<close>

theorem ConnectBlock_no_inflation:
  assumes "block_ok L v" "cache_sound L cache" "block_best known v = Some b"
    and "idx h = Some p" "bi_pprev p = Some b" "idx b = Some prev" "Block_GetHash L block \<noteq> hashGenesisBlock params"
    and "0 \<le> bi_nHeight p" "bi_nHeight p < 2 ^ 31" "versions_ok block" "finite (dom (utxo (block_lookup L v)))"
    and "ConnectBlock L params env (block_get L) (block_getbest known) idx h False block cache v = Some r" "cr_error r = None"
  shows "\<exists>fees coinbase p'. 0 \<le> fees \<and> coinbase \<le> GetBlockValue (fTestNet env) p 0 \<and>
     total_value (utxo (block_lookup L (cr_view r))) = total_value (utxo (block_lookup L v)) + coinbase - fees \<and>
     cr_index r h = Some p' \<and> bi_nMoneySupply p' = wrap64 (bi_nMoneySupply prev + coinbase)"
proof -
  have bc: "block_connected L params env idx h p prev False block (block_lookup L v) (block_lookup L (cr_view r)) r"
    using tip_undo.ConnectBlock_law [OF assms(1-10), of env False] assms(12,13) by simp
  let ?n = "value_sum (tx_vout (hd (vtx block)))"
  have cb: "CheckBlock L params True True block = None" "?n \<le> GetBlockValue (fTestNet env) p 0"
      "\<forall>tx \<in> set (vtx block). unspent_coins (block_lookup L v) (GetHash L tx) = None"
    using bc by (simp_all add: block_connected_def)
  obtain uss chks where k: "connects (bi_nHeight prev + 1) (bi_nHeight p) (block_flags p) (block_txs L block) (block_lookup L v) uss chks (block_lookup L (cr_view r))"
    and rec: "recorded env idx h p (wrap64 (bi_nMoneySupply prev + ?n)) uss (tx_offsets (GetSizeOfCompactSize (length (vtx block))) (block_txs L block)) r"
    using bc by (auto simp: block_connected_def)
  note c = checked_block [OF cb(1) assms(10,8,9)]
  have "\<forall>(txid, tx) \<in> set (block_txs L block). connectable coins_ok (bi_nHeight p) tx \<and> length (tx_vout tx) \<le> 2 ^ 32 \<and> unspent_coins (block_lookup L v) txid = None"
    using c(5) cb(3) by auto
  from connects_total [OF k assms(11) c(4) this] obtain fees where "0 \<le> fees"
      "total_value (utxo (block_lookup L (cr_view r))) + fees = total_value (utxo (block_lookup L v)) + ?n"
    unfolding coinbase_value_block(2) [OF c(1-3,6)] by blast
  moreover obtain p' where "cr_index r h = Some p'" "bi_nMoneySupply p' = wrap64 (bi_nMoneySupply prev + ?n)"
    using rec by (auto simp: recorded_def)
  ultimately show ?thesis using cb(2) by (intro exI [of _ fees] exI [of _ ?n] exI [of _ p']) simp
qed

text \<open>C4. \<open>DisconnectBlock\<close> inverts \<open>ConnectBlock\<close>: with the undo data that connecting the block wrote, on any well-formed view that shows the
unspent outputs which connecting it left, it reports a clean disconnect, and the view then shows the unspent outputs of before, with the
previous block as its best one.\<close>

theorem DisconnectBlock_inverts:
  assumes "block_ok L v" "cache_sound L cache" "block_best known v = Some b"
    and "idx h = Some p" "bi_pprev p = Some b" "idx b = Some prev" "Block_GetHash L block \<noteq> hashGenesisBlock params"
    and "0 < bi_nHeight p" "bi_nHeight p < 2 ^ 31" "versions_ok block" "restorable (block_lookup L v)"
    and "CDiskBlockPos_IsNull (GetUndoPos p)" "bi_nFile p \<noteq> -1"
    and "ConnectBlock L params env (block_get L) (block_getbest known) idx h False block cache v = Some r" "cr_error r = None"
    and "block_ok L w" "unspent_coins (block_lookup L w) = unspent_coins (block_lookup L (cr_view r))" "block_best known' w = Some h"
  shows "\<exists>w'. DisconnectBlock L (block_get L) (block_getbest known') (cr_index r) h (cr_undo r) pfClean block w =
       Some (True, if pfClean then Some True else None, w') \<and>
     block_ok L w' \<and> unspent_coins (block_lookup L w') = unspent_coins (block_lookup L v) \<and> block_best known' w' = Some b"
proof -
  have h: "0 \<le> bi_nHeight p" using assms(8) by simp
  have "block_connected L params env idx h p prev False block (block_lookup L v) (block_lookup L (cr_view r)) r"
    using tip_undo.ConnectBlock_law [OF assms(1-7) h assms(9,10), of env False] assms(14,15) by simp
  from tip_undo.DisconnectBlock_law [OF this assms(5,11,8,9,10,12,13,16,17,18)] show ?thesis .
qed

section \<open>Witnesses\<close>

lemma mined_height: "0 \<le> bi_nHeight mined_entry" "0 < bi_nHeight mined_entry" "bi_nHeight mined_entry < 2 ^ 31"
  by (simp_all add: mined_entry_fields)

theorem ConnectBlock_refines_witness:
  "\<exists>r. ConnectBlock reference_ssl mined_params mined_env (block_get reference_ssl) (block_getbest []) mined_index 9 False mined_block example_cache example_view = Some r \<and>
     block_ok reference_ssl (cr_view r) \<and> block_best [] (cr_view r) = Some 9 \<and>
     (\<exists>uss chks. connects 54000 54000 (block_flags mined_entry) [(GetHash reference_ssl coinbase_tx, coinbase_tx)]
       (block_lookup reference_ssl example_view) uss chks (block_lookup reference_ssl (cr_view r)))"
proof -
  obtain r where "ConnectBlock reference_ssl mined_params mined_env (block_get reference_ssl) (block_getbest []) mined_index 9 False mined_block example_cache example_view = Some r"
      "cr_error r = None"
    using mined_connects by blast
  then show ?thesis
    using ConnectBlock_refines [OF example_view_ok(1) cache_sound_example example_view_ok(2) mined_entry_fields(5,1,6) mined_block_fields(3)
        mined_height(1,3) mined_block_fields(2), where env = mined_env and fJustCheck = False and known = "[]"]
    by (auto simp: mined_block_fields mined_entry_fields)
qed

theorem ConnectBlock_no_inflation_witness:
  "\<exists>r fees coinbase. ConnectBlock reference_ssl mined_params mined_env (block_get reference_ssl) (block_getbest []) mined_index 9 False mined_block example_cache example_view = Some r \<and>
     0 \<le> fees \<and> coinbase \<le> 100 * COIN \<and>
     total_value (utxo (block_lookup reference_ssl (cr_view r))) = total_value (utxo (block_lookup reference_ssl example_view)) + coinbase - fees"
proof -
  obtain r where r: "ConnectBlock reference_ssl mined_params mined_env (block_get reference_ssl) (block_getbest []) mined_index 9 False mined_block example_cache example_view = Some r"
      "cr_error r = None"
    using mined_connects by blast
  have reward: "GetBlockValue (fTestNet mined_env) mined_entry 0 = 100 * COIN"
    by (simp add: GetBlockValue_def mined_entry_fields GetProofOfWorkReward_def mined_env_def)
  show ?thesis
    using ConnectBlock_no_inflation [OF example_view_ok(1) cache_sound_example example_view_ok(2) mined_entry_fields(5,1,6) mined_block_fields(3)
        mined_height(1,3) mined_block_fields(2) example_view_finite r] r(1) unfolding reward by blast
qed

theorem DisconnectBlock_inverts_witness:
  "\<exists>r w. ConnectBlock reference_ssl mined_params mined_env (block_get reference_ssl) (block_getbest []) mined_index 9 False mined_block example_cache example_view = Some r \<and>
     DisconnectBlock reference_ssl (block_get reference_ssl) (block_getbest []) (cr_index r) 9 (cr_undo r) True mined_block (cr_view r) = Some (True, Some True, w) \<and>
     unspent_coins (block_lookup reference_ssl w) = unspent_coins (block_lookup reference_ssl example_view) \<and> block_best [] w = Some 5"
proof -
  obtain r where r: "ConnectBlock reference_ssl mined_params mined_env (block_get reference_ssl) (block_getbest []) mined_index 9 False mined_block example_cache example_view = Some r"
      "cr_error r = None"
    using mined_connects by blast
  have best: "block_best [] example_view = Some 5" by (rule example_view_ok)
  have "CDiskBlockPos_IsNull (GetUndoPos mined_entry)" "bi_nFile mined_entry \<noteq> -1"
    by (simp_all add: mined_entry_fields CDiskBlockPos_SetNull_def CDiskBlockPos_IsNull_def)
  moreover have "block_ok reference_ssl (cr_view r)" "block_best [] (cr_view r) = Some 9"
    using tip_undo.ConnectBlock_law [OF example_view_ok(1) cache_sound_example best mined_entry_fields(5,1,6) mined_block_fields(3)
        mined_height(1,3) mined_block_fields(2), where env = mined_env and fJustCheck = False] r by simp_all
  ultimately show ?thesis
    using DisconnectBlock_inverts [OF example_view_ok(1) cache_sound_example example_view_ok(2) mined_entry_fields(5,1,6) mined_block_fields(3)
        mined_height(2,3) mined_block_fields(2) example_view_restorable, where w = "cr_view r" and r = r and known' = "[]" and pfClean = True] r by auto
qed

end
