(* ===== verification/Js_Strings.thy ===== *)
theory Js_Strings
  imports Main "HOL-Library.Sublist" "HOL-Library.Multiset"
begin

text \<open>The parts of JavaScript strings, arrays and regular expressions that the web interface of the p2pool node
(\<open>contrib/p2pool/web-static/js/bootstrap.js\<close>) uses. A string is a list of code units below 256 (Latin-1),
on which \<open>toLowerCase\<close> works unit by unit. The two regular expressions of the file are written as the matchers
they denote: the escaping of the query of the type-ahead box, and the one that strips what stands before the last
\<open>#\<close> of a link.\<close>

section \<open>Strings\<close>

lemma filter_only: "distinct xs \<Longrightarrow> x \<in> set xs \<Longrightarrow> filter (\<lambda>n. n = x) xs = [x]"
  by (induction xs) (auto simp: filter_empty_conv)

definition toLowerUnit :: "char \<Rightarrow> char" where
  "toLowerUnit c = (let n = of_char c :: nat in
     if 65 \<le> n \<and> n \<le> 90 \<or> 192 \<le> n \<and> n \<le> 222 \<and> n \<noteq> 215 then char_of (n + 32) else c)"

definition toLowerCase :: "string \<Rightarrow> string" where
  "toLowerCase s = map toLowerUnit s"

text \<open>\<open>s.indexOf(q)\<close>: the first position at which \<open>q\<close> stands in \<open>s\<close>, or -1.\<close>

fun indexOf :: "string \<Rightarrow> string \<Rightarrow> int" where
  "indexOf [] q = (if q = [] then 0 else -1)"
| "indexOf (c # s) q = (if prefix q (c # s) then 0
     else let i = indexOf s q in if i = -1 then -1 else i + 1)"

lemma indexOf_ge: "indexOf s q \<ge> -1"
  by (induction s) (auto simp: Let_def)

lemma indexOf_sublist: "indexOf s q \<noteq> -1 \<longleftrightarrow> sublist q s"
proof (induction s)
  case Nil
  then show ?case by (auto simp: sublist_Nil_right)
next
  case (Cons c s)
  then show ?case using indexOf_ge [of s q] by (auto simp: sublist_Cons_right Let_def)
qed

lemma indexOf_0: "indexOf s q = 0 \<longleftrightarrow> prefix q s"
proof (cases s)
  case (Cons c t)
  then show ?thesis using indexOf_ge [of t q] by (auto simp: Let_def)
qed simp

text \<open>A position that \<open>indexOf\<close> returns is one at which the query stands, and no smaller one is.\<close>

lemma indexOf_at:
  "indexOf s q = int i \<Longrightarrow> prefix q (drop i s) \<and> (\<forall>j < i. \<not> prefix q (drop j s))"
proof (induction s arbitrary: i)
  case Nil
  then show ?case by (auto split: if_splits)
next
  case (Cons c s)
  show ?case
  proof (cases "prefix q (c # s)")
    case True
    with Cons.prems show ?thesis by simp
  next
    case False
    with Cons.prems have i: "indexOf s q \<noteq> -1" "indexOf s q + 1 = int i"
      by (auto simp: Let_def split: if_splits)
    then obtain k where k: "i = Suc k" using indexOf_ge [of s q] by (cases i) auto
    with i have "prefix q (drop k s) \<and> (\<forall>j < k. \<not> prefix q (drop j s))" by (intro Cons.IH) simp
    then show ?thesis using False k by (auto simp: less_Suc_eq_0_disj)
  qed
qed

lemma length_toLowerCase [simp]: "length (toLowerCase s) = length s"
  by (simp add: toLowerCase_def)

lemma toLowerCase_simps [simp]:
  "toLowerCase [] = []" "toLowerCase (c # s) = toLowerUnit c # toLowerCase s"
  "toLowerCase (s @ t) = toLowerCase s @ toLowerCase t" "toLowerCase s = [] \<longleftrightarrow> s = []"
  "toLowerCase (take n s) = take n (toLowerCase s)" "toLowerCase (drop n s) = drop n (toLowerCase s)"
  by (simp_all add: toLowerCase_def take_map drop_map)

text \<open>White space, as \<open>\s\<close> has it, and the units that \<open>.\<close> does not match.\<close>

definition is_space :: "char \<Rightarrow> bool" where
  "is_space c \<longleftrightarrow> (let n = of_char c :: nat in n = 32 \<or> 9 \<le> n \<and> n \<le> 13 \<or> n = 160)"

definition is_newline :: "char \<Rightarrow> bool" where
  "is_newline c \<longleftrightarrow> (let n = of_char c :: nat in n = 10 \<or> n = 13)"

section \<open>Stripping a link\<close>

text \<open>\<open>href.replace(/.*(?=#[^\s]*$)/, '')\<close> (with \<open>ne\<close>: \<open>[^\s]+\<close>). From a start, \<open>.*\<close> takes as much as it can
such that the lookahead holds behind it; the first start that matches is replaced.\<close>

definition hash_ahead :: "bool \<Rightarrow> string \<Rightarrow> bool" where
  "hash_ahead ne s \<longleftrightarrow> (case s of [] \<Rightarrow> False
     | c # t \<Rightarrow> c = CHR ''#'' \<and> list_all (\<lambda>u. \<not> is_space u) t \<and> (ne \<longrightarrow> t \<noteq> []))"

fun match_before_hash :: "bool \<Rightarrow> string \<Rightarrow> string option" where
  "match_before_hash ne [] = None"
| "match_before_hash ne (c # s) =
     (case (if is_newline c then None else match_before_hash ne s) of
        Some t \<Rightarrow> Some t
      | None \<Rightarrow> if hash_ahead ne (c # s) then Some (c # s) else None)"

fun strip_ie7 :: "bool \<Rightarrow> string \<Rightarrow> string" where
  "strip_ie7 ne [] = []"
| "strip_ie7 ne (c # s) = (case match_before_hash ne (c # s) of
     Some t \<Rightarrow> t
   | None \<Rightarrow> c # strip_ie7 ne s)"

lemma match_before_hash_None:
  "CHR ''#'' \<notin> set s \<Longrightarrow> match_before_hash ne s = None"
  by (induction s) (auto simp: hash_ahead_def)

lemma match_before_hash_ahead:
  "match_before_hash ne s = Some t \<Longrightarrow> hash_ahead ne t \<and> suffix t s"
  by (induction s) (auto simp: suffix_Cons split: option.splits if_splits)

text \<open>The fragment of a link is what remains of it; a selector is left as it is.\<close>

lemma strip_ie7_fragment:
  assumes "list_all (\<lambda>u. \<not> is_newline u) pre" "list_all (\<lambda>u. \<not> is_space u) frag" "CHR ''#'' \<notin> set frag" "frag \<noteq> []"
  shows "strip_ie7 ne (pre @ CHR ''#'' # frag) = CHR ''#'' # frag"
proof -
  have "\<not> is_newline (CHR ''#'')" by (simp add: is_newline_def)
  then have "match_before_hash ne (pre @ CHR ''#'' # frag) = Some (CHR ''#'' # frag)"
    using assms(1) match_before_hash_None [OF assms(3)] assms(2,4)
    by (induction pre) (simp_all add: hash_ahead_def)
  then show ?thesis by (cases pre) simp_all
qed

lemma strip_ie7_plain: "CHR ''#'' \<notin> set s \<Longrightarrow> strip_ie7 ne s = s"
  by (induction s) (auto simp: match_before_hash_None simp del: match_before_hash.simps)

section \<open>Class lists\<close>

text \<open>The names of a string of class names, divided by white space.\<close>

fun class_words :: "string \<Rightarrow> string \<Rightarrow> string list" where
  "class_words acc [] = (if acc = [] then [] else [rev acc])"
| "class_words acc (c # cs) =
     (if is_space c then (if acc = [] then class_words [] cs else rev acc # class_words [] cs)
      else class_words (c # acc) cs)"

abbreviation class_names :: "string \<Rightarrow> string list" where
  "class_names \<equiv> class_words []"

declare class_words.simps [simp del]

lemmas class_names_eval = class_words.simps is_space_def

section \<open>The replacement of the highlighter\<close>

text \<open>The units that the character class of the escaping names, and those that have a meaning of their own in a
regular expression.\<close>

definition escaped_units :: "char list" where
  "escaped_units = ''-[]{}()*+?.,^$|#'' @ [char_of (92::nat)]"

definition regex_units :: "char list" where
  "regex_units = ''^$.*+?()[]{}|'' @ [char_of (92::nat)]"

definition escape_query :: "string \<Rightarrow> string" where
  "escape_query q = concat (map (\<lambda>c. if c \<in> set escaped_units \<or> is_space c then [char_of (92::nat), c] else [c]) q)"

text \<open>A pattern without operators denotes the string it spells: an escaped unit that is not a letter or a digit is
that unit. Other patterns are not read.\<close>

definition is_word_unit :: "char \<Rightarrow> bool" where
  "is_word_unit c \<longleftrightarrow> (let n = of_char c :: nat in 48 \<le> n \<and> n \<le> 57 \<or> 65 \<le> n \<and> n \<le> 90 \<or> 97 \<le> n \<and> n \<le> 122 \<or> n = 95)"

fun regex_literal :: "string \<Rightarrow> string option" where
  "regex_literal [] = Some []"
| "regex_literal (c # s) =
     (if c = char_of (92::nat) then
        (case s of [] \<Rightarrow> None
         | d # t \<Rightarrow> if is_word_unit d then None else map_option ((#) d) (regex_literal t))
      else if c \<in> set regex_units then None
      else map_option ((#) c) (regex_literal s))"

text \<open>\<open>s.replace(new RegExp('(' + q + ')', 'ig'), f)\<close> for a pattern that spells \<open>q\<close>: the matches from left to right,
without regard to case. An empty pattern matches before every unit and at the end.\<close>

function replace_all_ci :: "string \<Rightarrow> (string \<Rightarrow> string) \<Rightarrow> string \<Rightarrow> string" where
  "replace_all_ci q f s =
     (if q = [] then concat (map (\<lambda>c. f [] @ [c]) s) @ f []
      else case s of [] \<Rightarrow> []
        | c # t \<Rightarrow>
          if prefix (toLowerCase q) (toLowerCase s)
          then f (take (length q) s) @ replace_all_ci q f (drop (length q) s)
          else c # replace_all_ci q f t)"
  by pat_completeness auto
termination
  by (relation "measure (\<lambda>(q, f, s). length s)") (auto simp: length_greater_0_conv [symmetric] simp del: length_greater_0_conv)

declare replace_all_ci.simps [simp del]

end
