(* ===== verification/Jquery.thy ===== *)
theory Jquery
  imports Js_Strings
begin

text \<open>The page of the web interface and the functions of jQuery that \<open>bootstrap.js\<close> calls. jQuery is not part of the
repository: its functions are a parameter of the model, the record \<open>jquery\<close>, over the page they work on, the record
\<open>dom\<close>. What the widgets rely on is the predicate \<open>jquery_ok\<close>, one clause per function, as the documentation of the
function states it; \<open>quiet\<close> says that the handlers other code has attached to the widgets' events leave the page as
it is (they may still prevent the default action). \<open>jquery_instance\<close> meets both.\<close>

named_theorems jq \<open>what the functions of jQuery do\<close>

section \<open>The page\<close>

type_synonym node = nat

datatype css_value = Px int | Css string

record dom =
  fresh_node :: node
  tag_of :: "node \<Rightarrow> string"
  classes :: "node \<Rightarrow> string set"
  attrs :: "node \<Rightarrow> string \<Rightarrow> string option"
  kids :: "node \<Rightarrow> node list"
  parent_of :: "node \<Rightarrow> node option"
  val_of :: "node \<Rightarrow> string"
  html_of :: "node \<Rightarrow> string"
  displayed :: "node \<Rightarrow> bool"
  css_of :: "node \<Rightarrow> string \<Rightarrow> css_value"
  focused :: "node option"

text \<open>The elements below one, in document order. The page has fewer levels than elements.\<close>

fun descend :: "nat \<Rightarrow> (node \<Rightarrow> node list) \<Rightarrow> node \<Rightarrow> node list" where
  "descend 0 k n = []"
| "descend (Suc i) k n = concat (map (\<lambda>c. c # descend i k c) (k n))"

definition descendants :: "dom \<Rightarrow> node \<Rightarrow> node list" where
  "descendants d n = descend (fresh_node d) (kids d) n"

text \<open>The selectors made of tags and classes: \<open>li.dropdown\<close>, \<open>.item.active\<close>, \<open>.next, .prev\<close>.\<close>

fun split_units :: "char \<Rightarrow> string \<Rightarrow> string list" where
  "split_units c [] = [[]]"
| "split_units c (u # s) = (if u = c then [] # split_units c s
     else case split_units c s of [] \<Rightarrow> [[u]] | w # ws \<Rightarrow> (u # w) # ws)"

definition simple_selector :: "string \<Rightarrow> bool" where
  "simple_selector s \<longleftrightarrow> s \<noteq> [] \<and> list_all (\<lambda>c. is_word_unit c \<or> c \<in> set ''-.'') s \<and>
     list_all (\<lambda>w. w \<noteq> []) (tl (split_units (CHR ''.'') s))"

definition sel_matches :: "dom \<Rightarrow> string \<Rightarrow> node \<Rightarrow> bool" where
  "sel_matches d s n = (case split_units (CHR ''.'') s of [] \<Rightarrow> False
     | t # cs \<Rightarrow> (t = [] \<or> tag_of d n = t) \<and> list_all (\<lambda>c. c \<in> classes d n) cs)"

text \<open>Updates of the elements of a set.\<close>

definition upd_nodes :: "node list \<Rightarrow> ('a \<Rightarrow> 'a) \<Rightarrow> (node \<Rightarrow> 'a) \<Rightarrow> node \<Rightarrow> 'a" where
  "upd_nodes S f g = (\<lambda>n. if n \<in> set S then f (g n) else g n)"

definition dom_addClass :: "node list \<Rightarrow> string \<Rightarrow> dom \<Rightarrow> dom" where
  "dom_addClass S c d = d\<lparr>classes := upd_nodes S (\<lambda>C. C \<union> set (class_names c)) (classes d)\<rparr>"

definition dom_removeClass :: "node list \<Rightarrow> string \<Rightarrow> dom \<Rightarrow> dom" where
  "dom_removeClass S c d = d\<lparr>classes := upd_nodes S (\<lambda>C. C - set (class_names c)) (classes d)\<rparr>"

definition dom_toggleClass :: "node list \<Rightarrow> string \<Rightarrow> dom \<Rightarrow> dom" where
  "dom_toggleClass S c d = d\<lparr>classes := upd_nodes S
     (\<lambda>C. foldl (\<lambda>C w. if w \<in> C then C - {w} else insert w C) C (class_names c)) (classes d)\<rparr>"

definition dom_detach :: "node list \<Rightarrow> dom \<Rightarrow> dom" where
  "dom_detach S d = d\<lparr>parent_of := upd_nodes S (\<lambda>_. None) (parent_of d),
     kids := (\<lambda>n. filter (\<lambda>k. k \<notin> set S) (kids d n))\<rparr>"

text \<open>The element behind (before) one among the children of its parent.\<close>

fun after :: "node \<Rightarrow> node list \<Rightarrow> node list" where
  "after n [] = []"
| "after n (m # ms) = (if m = n then take 1 ms else after n ms)"

definition dom_next :: "dom \<Rightarrow> node \<Rightarrow> node list" where
  "dom_next d n = (case parent_of d n of None \<Rightarrow> [] | Some p \<Rightarrow> after n (kids d p))"

definition dom_prev :: "dom \<Rightarrow> node \<Rightarrow> node list" where
  "dom_prev d n = (case parent_of d n of None \<Rightarrow> [] | Some p \<Rightarrow> after n (rev (kids d p)))"

text \<open>The position of an element in a list, or -1.\<close>

fun index_of :: "node list \<Rightarrow> node \<Rightarrow> int" where
  "index_of [] m = -1"
| "index_of (n # ns) m = (if n = m then 0 else let i = index_of ns m in if i = -1 then -1 else i + 1)"

section \<open>jQuery\<close>

text \<open>A jQuery set is a list of elements. Functions that read take the page first, functions that change it take it
last. \<open>transition_end\<close> is \<open>$.support.transition.end\<close>, when the browser supports transitions.
\<open>jq_trigger\<close> runs the handlers that the page has attached to a widget's event: the flag is
\<open>e.isDefaultPrevented()\<close> afterwards.\<close>

record jquery =
  transition_end :: "string option"
  jq_has_member :: "string \<Rightarrow> bool"
  jq_select :: "dom \<Rightarrow> string \<Rightarrow> node list"
  jq_find :: "dom \<Rightarrow> node list \<Rightarrow> string \<Rightarrow> node list"
  jq_filter :: "dom \<Rightarrow> node list \<Rightarrow> string \<Rightarrow> node list"
  jq_is :: "dom \<Rightarrow> node list \<Rightarrow> string \<Rightarrow> bool"
  jq_parent :: "dom \<Rightarrow> node list \<Rightarrow> node list"
  jq_parent_sel :: "dom \<Rightarrow> node list \<Rightarrow> string \<Rightarrow> node list"
  jq_closest :: "dom \<Rightarrow> node list \<Rightarrow> string \<Rightarrow> node list"
  jq_children :: "dom \<Rightarrow> node list \<Rightarrow> node list"
  jq_next :: "dom \<Rightarrow> node list \<Rightarrow> node list"
  jq_prev :: "dom \<Rightarrow> node list \<Rightarrow> node list"
  jq_hasClass :: "dom \<Rightarrow> node list \<Rightarrow> string \<Rightarrow> bool"
  jq_addClass :: "node list \<Rightarrow> string \<Rightarrow> dom \<Rightarrow> dom"
  jq_removeClass :: "node list \<Rightarrow> string \<Rightarrow> dom \<Rightarrow> dom"
  jq_toggleClass :: "node list \<Rightarrow> string \<Rightarrow> dom \<Rightarrow> dom"
  jq_attr :: "dom \<Rightarrow> node list \<Rightarrow> string \<Rightarrow> string option"
  jq_set_attr :: "node list \<Rightarrow> string \<Rightarrow> string \<Rightarrow> dom \<Rightarrow> dom"
  jq_removeAttr :: "node list \<Rightarrow> string \<Rightarrow> dom \<Rightarrow> dom"
  jq_val :: "dom \<Rightarrow> node list \<Rightarrow> string"
  jq_set_val :: "node list \<Rightarrow> string option \<Rightarrow> dom \<Rightarrow> dom"
  jq_html :: "dom \<Rightarrow> node list \<Rightarrow> string"
  jq_set_html :: "node list \<Rightarrow> string \<Rightarrow> dom \<Rightarrow> dom"
  jq_set_content :: "node list \<Rightarrow> node list \<Rightarrow> dom \<Rightarrow> dom"
  jq_create :: "string \<Rightarrow> dom \<Rightarrow> node list \<times> dom"
  jq_insertAfter :: "node list \<Rightarrow> node list \<Rightarrow> dom \<Rightarrow> dom"
  jq_appendTo_body :: "node list \<Rightarrow> dom \<Rightarrow> dom"
  jq_remove :: "node list \<Rightarrow> dom \<Rightarrow> dom"
  jq_show :: "node list \<Rightarrow> dom \<Rightarrow> dom"
  jq_hide :: "node list \<Rightarrow> dom \<Rightarrow> dom"
  jq_css :: "node list \<Rightarrow> string \<Rightarrow> css_value \<Rightarrow> dom \<Rightarrow> dom"
  jq_size :: "dom \<Rightarrow> node list \<Rightarrow> string \<Rightarrow> int"
  jq_scroll_size :: "dom \<Rightarrow> node list \<Rightarrow> string \<Rightarrow> int"
  jq_position :: "dom \<Rightarrow> node list \<Rightarrow> int \<times> int"
  jq_focus :: "node list \<Rightarrow> dom \<Rightarrow> dom"
  jq_load :: "node list \<Rightarrow> string \<Rightarrow> dom \<Rightarrow> dom"
  jq_index :: "dom \<Rightarrow> node list \<Rightarrow> node list \<Rightarrow> int"
  jq_trigger :: "string \<Rightarrow> node list \<Rightarrow> dom \<Rightarrow> bool \<times> dom"

text \<open>\<open>$.support.transition\<close> as a truth value.\<close>

abbreviation has_transition :: "jquery \<Rightarrow> bool" where
  "has_transition J \<equiv> transition_end J \<noteq> None"

text \<open>The markup of the type-ahead items and what the browser builds from it.\<close>

definition item_markup :: string where
  "item_markup = ''<li><a href=\"#\"></a></li>''"

definition create_item :: "dom \<Rightarrow> node list \<times> dom" where
  "create_item d = (let n = fresh_node d; a = Suc n in
     ([n], d\<lparr>fresh_node := Suc a,
        tag_of := (tag_of d)(n := ''li'', a := ''a''),
        classes := (classes d)(n := {}, a := {}),
        attrs := (attrs d)(n := Map.empty, a := [''href'' \<mapsto> ''#'']),
        kids := (kids d)(n := [a], a := []),
        parent_of := (parent_of d)(n := None, a := Some n)\<rparr>))"

definition menu_markup :: string where
  "menu_markup = ''<ul class=\"typeahead dropdown-menu\"></ul>''"

definition create_menu :: "dom \<Rightarrow> node list \<times> dom" where
  "create_menu d = (let n = fresh_node d in
     ([n], d\<lparr>fresh_node := Suc n,
        tag_of := (tag_of d)(n := ''ul''),
        classes := (classes d)(n := {''typeahead'', ''dropdown-menu''}),
        attrs := (attrs d)(n := Map.empty),
        kids := (kids d)(n := []),
        parent_of := (parent_of d)(n := None),
        displayed := (displayed d)(n := False)\<rparr>))"

text \<open>Elements moved behind one that is in the document, and elements that replace the content of another.\<close>

fun insert_after :: "node \<Rightarrow> node list \<Rightarrow> node list \<Rightarrow> node list" where
  "insert_after n S [] = []"
| "insert_after n S (m # ms) = (if m = n then m # S @ ms else m # insert_after n S ms)"

definition dom_insertAfter :: "node list \<Rightarrow> node \<Rightarrow> node \<Rightarrow> dom \<Rightarrow> dom" where
  "dom_insertAfter S n p d = (let e = dom_detach S d in
     e\<lparr>kids := (kids e)(p := insert_after n S (kids e p)), parent_of := upd_nodes S (\<lambda>_. Some p) (parent_of e)\<rparr>)"

definition dom_set_content :: "node \<Rightarrow> node list \<Rightarrow> dom \<Rightarrow> dom" where
  "dom_set_content n S d = (let e = dom_detach (kids d n @ S) d in
     e\<lparr>kids := (kids e)(n := S), parent_of := upd_nodes S (\<lambda>_. Some n) (parent_of e)\<rparr>)"

definition traversal_ok :: "jquery \<Rightarrow> bool" where
  "traversal_ok J \<longleftrightarrow>
     (\<forall>d sel. jq_find J d [] sel = []) \<and>
     (\<forall>d n sel. simple_selector sel \<longrightarrow> jq_find J d [n] sel = filter (sel_matches d sel) (descendants d n)) \<and>
     (\<forall>d S. set (jq_parent J d S) = {p. \<exists>n \<in> set S. parent_of d n = Some p}) \<and>
     (\<forall>d n. jq_parent J d [n] = (case parent_of d n of None \<Rightarrow> [] | Some p \<Rightarrow> [p])) \<and>
     (\<forall>d S sel. simple_selector sel \<longrightarrow> jq_parent_sel J d S sel = filter (sel_matches d sel) (jq_parent J d S)) \<and>
     (\<forall>d n. jq_children J d [n] = kids d n) \<and> (\<forall>d. jq_children J d [] = []) \<and>
     (\<forall>d n. jq_next J d [n] = dom_next d n) \<and> (\<forall>d. jq_next J d [] = []) \<and>
     (\<forall>d n. jq_prev J d [n] = dom_prev d n) \<and> (\<forall>d. jq_prev J d [] = []) \<and>
     (\<forall>d S T. jq_index J d S T = (if T = [] then -1 else index_of S (hd T)))"

definition updates_ok :: "jquery \<Rightarrow> bool" where
  "updates_ok J \<longleftrightarrow>
     (\<forall>d S c. jq_hasClass J d S c \<longleftrightarrow> list_ex (\<lambda>n. c \<in> classes d n) S) \<and>
     jq_addClass J = dom_addClass \<and> jq_removeClass J = dom_removeClass \<and> jq_toggleClass J = dom_toggleClass \<and>
     (\<forall>d S a. jq_attr J d S a = (case S of [] \<Rightarrow> None | n # _ \<Rightarrow> attrs d n a)) \<and>
     (\<forall>d S a v. jq_set_attr J S a v d = d\<lparr>attrs := upd_nodes S (\<lambda>m. m(a \<mapsto> v)) (attrs d)\<rparr>) \<and>
     (\<forall>d S a. jq_removeAttr J S a d = d\<lparr>attrs := upd_nodes S (\<lambda>m. m(a := None)) (attrs d)\<rparr>) \<and>
     (\<forall>d n. jq_val J d [n] = val_of d n) \<and>
     (\<forall>d S v. jq_set_val J S v d = d\<lparr>val_of := upd_nodes S (\<lambda>_. case v of None \<Rightarrow> [] | Some s \<Rightarrow> s) (val_of d)\<rparr>) \<and>
     (\<forall>d n. jq_html J d [n] = html_of d n) \<and>
     (\<forall>d S s. jq_set_html J S s d = d\<lparr>html_of := upd_nodes S (\<lambda>_. s) (html_of d)\<rparr>) \<and>
     (\<forall>d n S. jq_set_content J [n] S d = dom_set_content n S d) \<and>
     (\<forall>d n p S. parent_of d n = Some p \<longrightarrow> n \<notin> set S \<longrightarrow> jq_insertAfter J S [n] d = dom_insertAfter S n p d) \<and>
     (\<forall>d. jq_create J menu_markup d = create_menu d) \<and>
     (\<forall>d. jq_create J item_markup d = create_item d) \<and>
     (\<forall>d S. jq_show J S d = d\<lparr>displayed := upd_nodes S (\<lambda>_. True) (displayed d)\<rparr>) \<and>
     (\<forall>d S. jq_hide J S d = d\<lparr>displayed := upd_nodes S (\<lambda>_. False) (displayed d)\<rparr>) \<and>
     (\<forall>d S p v. jq_css J S p v d = d\<lparr>css_of := upd_nodes S (\<lambda>m. m(p := v)) (css_of d)\<rparr>) \<and>
     (\<forall>d n. jq_focus J [n] d = d\<lparr>focused := Some n\<rparr>) \<and> (\<forall>d. jq_focus J [] d = d) \<and>
     (\<forall>d S. jq_remove J S d = dom_detach S d)"

definition jquery_ok :: "jquery \<Rightarrow> bool" where
  "jquery_ok J \<longleftrightarrow> traversal_ok J \<and> updates_ok J"

text \<open>The handlers of other code change nothing of the page.\<close>

definition quiet :: "jquery \<Rightarrow> bool" where
  "quiet J \<longleftrightarrow> (\<forall>e S d. snd (jq_trigger J e S d) = d)"

text \<open>Consequences, as rewrite rules.\<close>

lemma jq_parent_Nil:
  assumes "traversal_ok J"
  shows "jq_parent J d [] = []"
proof -
  have "set (jq_parent J d []) = {p. \<exists>n \<in> set []. parent_of d n = Some p}"
    using assms by (simp only: traversal_ok_def)
  then show ?thesis by simp
qed

lemma jq_traversal [jq]:
  assumes "jquery_ok J"
  shows "jq_find J d [] sel = []"
    and "jq_parent J d [] = []"
    and "jq_parent J d [n] = (case parent_of d n of None \<Rightarrow> [] | Some p \<Rightarrow> [p])"
    and "simple_selector sel \<Longrightarrow> jq_parent_sel J d S sel = filter (sel_matches d sel) (jq_parent J d S)"
    and "jq_children J d [n] = kids d n" and "jq_children J d [] = []"
    and "jq_next J d [n] = dom_next d n" and "jq_next J d [] = []"
    and "jq_prev J d [n] = dom_prev d n" and "jq_prev J d [] = []"
    and "jq_index J d S T = (if T = [] then -1 else index_of S (hd T))"
  using assms jq_parent_Nil by (auto simp: jquery_ok_def traversal_ok_def)

lemma jq_find_simple:
  "jquery_ok J \<Longrightarrow> simple_selector sel \<Longrightarrow> jq_find J d [n] sel = filter (sel_matches d sel) (descendants d n)"
  by (simp add: jquery_ok_def traversal_ok_def)

lemma set_jq_parent: "jquery_ok J \<Longrightarrow> set (jq_parent J d S) = {p. \<exists>n \<in> set S. parent_of d n = Some p}"
  by (simp add: jquery_ok_def traversal_ok_def)

lemma jq_updates [jq]:
  assumes "jquery_ok J"
  shows "jq_hasClass J d S c \<longleftrightarrow> list_ex (\<lambda>n. c \<in> classes d n) S"
    and "jq_addClass J = dom_addClass" and "jq_removeClass J = dom_removeClass" and "jq_toggleClass J = dom_toggleClass"
    and "jq_attr J d S a = (case S of [] \<Rightarrow> None | n # _ \<Rightarrow> attrs d n a)"
    and "jq_set_attr J S a v d = d\<lparr>attrs := upd_nodes S (\<lambda>m. m(a \<mapsto> v)) (attrs d)\<rparr>"
    and "jq_removeAttr J S a d = d\<lparr>attrs := upd_nodes S (\<lambda>m. m(a := None)) (attrs d)\<rparr>"
    and "jq_val J d [n] = val_of d n"
    and "jq_set_val J S w d = d\<lparr>val_of := upd_nodes S (\<lambda>_. case w of None \<Rightarrow> [] | Some s \<Rightarrow> s) (val_of d)\<rparr>"
    and "jq_html J d [n] = html_of d n"
    and "jq_set_html J S s d = d\<lparr>html_of := upd_nodes S (\<lambda>_. s) (html_of d)\<rparr>"
    and "jq_set_content J [n] S d = dom_set_content n S d"
    and "parent_of d n = Some p \<Longrightarrow> n \<notin> set S \<Longrightarrow> jq_insertAfter J S [n] d = dom_insertAfter S n p d"
    and "jq_create J menu_markup d = create_menu d"
    and "jq_create J item_markup d = create_item d"
    and "jq_show J S d = d\<lparr>displayed := upd_nodes S (\<lambda>_. True) (displayed d)\<rparr>"
    and "jq_hide J S d = d\<lparr>displayed := upd_nodes S (\<lambda>_. False) (displayed d)\<rparr>"
    and "jq_css J S cp cv d = d\<lparr>css_of := upd_nodes S (\<lambda>m. m(cp := cv)) (css_of d)\<rparr>"
    and "jq_focus J [n] d = d\<lparr>focused := Some n\<rparr>" and "jq_focus J [] d = d"
    and "jq_remove J S d = dom_detach S d"
  using assms by (simp_all add: jquery_ok_def updates_ok_def)

lemma quietD [simp]: "quiet J \<Longrightarrow> snd (jq_trigger J e S d) = d"
  by (simp add: quiet_def)

text \<open>Pages whose handlers prevent nothing.\<close>

definition permissive :: "jquery \<Rightarrow> bool" where
  "permissive J \<longleftrightarrow> (\<forall>e S d. \<not> fst (jq_trigger J e S d))"

lemma permissive_trigger: "permissive J \<Longrightarrow> quiet J \<Longrightarrow> jq_trigger J e S d = (False, d)"
  unfolding permissive_def quiet_def by (metis prod.collapse)

text \<open>What class updates do, and what they leave.\<close>

lemma dom_class_simps [simp]:
  "classes (dom_addClass S c d) n = (if n \<in> set S then classes d n \<union> set (class_names c) else classes d n)"
  "classes (dom_removeClass S c d) n = (if n \<in> set S then classes d n - set (class_names c) else classes d n)"
  "kids (dom_addClass S c d) = kids d" "kids (dom_removeClass S c d) = kids d" "kids (dom_toggleClass S c d) = kids d"
  "fresh_node (dom_addClass S c d) = fresh_node d" "fresh_node (dom_removeClass S c d) = fresh_node d"
  "fresh_node (dom_toggleClass S c d) = fresh_node d"
  "parent_of (dom_addClass S c d) = parent_of d" "parent_of (dom_removeClass S c d) = parent_of d"
  "parent_of (dom_toggleClass S c d) = parent_of d"
  "attrs (dom_addClass S c d) = attrs d" "attrs (dom_removeClass S c d) = attrs d" "attrs (dom_toggleClass S c d) = attrs d"
  "displayed (dom_addClass S c d) = displayed d" "displayed (dom_removeClass S c d) = displayed d"
  "tag_of (dom_addClass S c d) = tag_of d" "tag_of (dom_removeClass S c d) = tag_of d"
  "val_of (dom_addClass S c d) = val_of d" "val_of (dom_removeClass S c d) = val_of d"
  "html_of (dom_addClass S c d) = html_of d" "html_of (dom_removeClass S c d) = html_of d"
  "css_of (dom_addClass S c d) = css_of d" "css_of (dom_removeClass S c d) = css_of d"
  "focused (dom_addClass S c d) = focused d" "focused (dom_removeClass S c d) = focused d"
  by (simp_all add: dom_addClass_def dom_removeClass_def dom_toggleClass_def upd_nodes_def)

lemma class_names_literals [simp]:
  "class_names ''active'' = [''active'']" "class_names ''in'' = [''in'']" "class_names ''fade'' = [''fade'']"
  "class_names ''collapse'' = [''collapse'']" "class_names ''collapsed'' = [''collapsed'']" "class_names ''open'' = [''open'']"
  "class_names ''next'' = [''next'']" "class_names ''prev'' = [''prev'']" "class_names ''left'' = [''left'']"
  "class_names ''right'' = [''right'']" "class_names ''next left'' = [''next'', ''left'']"
  "class_names ''prev right'' = [''prev'', ''right'']" "class_names ''active left'' = [''active'', ''left'']"
  "class_names ''active right'' = [''active'', ''right'']" "class_names ''disabled'' = [''disabled'']"
  by (simp_all add: class_names_eval)

lemma class_toggle1 [simp]:
  "class_names c = [w] \<Longrightarrow> classes (dom_toggleClass S c d) n =
     (if n \<in> set S then (if w \<in> classes d n then classes d n - {w} else insert w (classes d n)) else classes d n)"
  by (simp add: dom_toggleClass_def upd_nodes_def)

lemma dom_class_Nil [simp]: "dom_addClass [] c d = d" "dom_removeClass [] c d = d"
  by (simp_all add: dom_addClass_def dom_removeClass_def upd_nodes_def)

lemma descendants_cong: "kids d = kids e \<Longrightarrow> fresh_node d = fresh_node e \<Longrightarrow> descendants d n = descendants e n"
  by (simp add: descendants_def)

lemma descendants_class [simp]:
  "descendants (dom_addClass S c d) n = descendants d n" "descendants (dom_removeClass S c d) n = descendants d n"
  "descendants (dom_toggleClass S c d) n = descendants d n"
  by (simp_all add: descendants_def)

text \<open>Positions, and the neighbours of an element.\<close>

lemma index_of_nth: "k < length ns \<Longrightarrow> distinct ns \<Longrightarrow> index_of ns (ns ! k) = int k"
  by (induction ns arbitrary: k) (auto simp: nth_Cons' Let_def)

lemma after_nth:
  "distinct ns \<Longrightarrow> i < length ns \<Longrightarrow> after (ns ! i) ns = (if Suc i < length ns then [ns ! Suc i] else [])"
proof (induction ns arbitrary: i)
  case (Cons n ns)
  show ?case
  proof (cases i)
    case 0
    then show ?thesis by (cases ns) simp_all
  next
    case (Suc j)
    with Cons.prems have "ns ! j \<noteq> n" by (auto simp: in_set_conv_nth)
    with Suc Cons show ?thesis by simp
  qed
qed simp

lemma before_nth:
  assumes "distinct ns" "i < length ns"
  shows "after (ns ! i) (rev ns) = (if i = 0 then [] else [ns ! (i - 1)])"
proof -
  let ?j = "length ns - Suc i"
  have "rev ns ! ?j = ns ! i" using assms(2) by (simp add: rev_nth)
  moreover have "Suc ?j < length ns \<Longrightarrow> rev ns ! Suc ?j = ns ! (i - 1)" using assms(2) by (simp add: rev_nth Suc_diff_Suc)
  ultimately show ?thesis using after_nth [of "rev ns" ?j] assms by auto
qed

section \<open>Plugins\<close>

text \<open>A call of a plugin: without an argument, with an object of options, with the name of a method, or with a
number. \<open>each\<close> goes through the elements of the set; an exception ends it.\<close>

datatype js_error = TypeError

datatype 'o plugin_arg = Arg_none | Arg_object 'o | Arg_name string | Arg_number int

fun arg_object :: "'o plugin_arg \<Rightarrow> 'o option" where
  "arg_object (Arg_object opts) = Some opts"
| "arg_object _ = None"

text \<open>A call returns the state it leaves, and the exception that ended it, if one did.\<close>

type_synonym 's js_result = "js_error option \<times> 's"

definition js_then :: "'s js_result \<Rightarrow> ('s \<Rightarrow> 's js_result) \<Rightarrow> 's js_result" where
  "js_then r f = (case r of (None, s) \<Rightarrow> f s | (Some e, s) \<Rightarrow> (Some e, s))"

lemma js_then_simps [simp]:
  "js_then (None, s) f = f s" "js_then (Some e, s) f = (Some e, s)"
  by (simp_all add: js_then_def)

fun jq_each :: "('a \<Rightarrow> 's \<Rightarrow> 's js_result) \<Rightarrow> 'a list \<Rightarrow> 's \<Rightarrow> 's js_result" where
  "jq_each f [] s = (None, s)"
| "jq_each f (n # ns) s = js_then (f n s) (jq_each f ns)"

lemma jq_each_invariant:
  assumes "\<And>n s. P s \<Longrightarrow> P (snd (f n s))"
  shows "P s \<Longrightarrow> P (snd (jq_each f S s))"
proof (induction S arbitrary: s)
  case (Cons n S)
  from assms [OF Cons.prems, of n] Cons.IH show ?case
    by (cases "f n s"; cases "fst (f n s)") (auto simp: js_then_def)
qed simp

section \<open>An instance\<close>

definition jquery_instance :: "string option \<Rightarrow> (string \<Rightarrow> node list \<Rightarrow> dom \<Rightarrow> bool) \<Rightarrow> jquery" where
  "jquery_instance tr prevented = \<lparr>
     transition_end = tr, jq_has_member = (\<lambda>_. True),
     jq_select = (\<lambda>d sel. filter (sel_matches d sel) [0..<fresh_node d]),
     jq_find = (\<lambda>d S sel. filter (sel_matches d sel) (concat (map (descendants d) S))),
     jq_filter = (\<lambda>d S sel. filter (sel_matches d sel) S),
     jq_is = (\<lambda>d S sel. list_ex (sel_matches d sel) S),
     jq_parent = (\<lambda>d S. concat (map (\<lambda>n. case parent_of d n of None \<Rightarrow> [] | Some p \<Rightarrow> [p]) S)),
     jq_parent_sel = (\<lambda>d S sel. filter (sel_matches d sel) (concat (map (\<lambda>n. case parent_of d n of None \<Rightarrow> [] | Some p \<Rightarrow> [p]) S))),
     jq_closest = (\<lambda>d S sel. filter (sel_matches d sel) S),
     jq_children = (\<lambda>d S. concat (map (kids d) S)),
     jq_next = (\<lambda>d S. concat (map (dom_next d) S)), jq_prev = (\<lambda>d S. concat (map (dom_prev d) S)),
     jq_hasClass = (\<lambda>d S c. list_ex (\<lambda>n. c \<in> classes d n) S),
     jq_addClass = dom_addClass, jq_removeClass = dom_removeClass, jq_toggleClass = dom_toggleClass,
     jq_attr = (\<lambda>d S a. case S of [] \<Rightarrow> None | n # _ \<Rightarrow> attrs d n a),
     jq_set_attr = (\<lambda>S a v d. d\<lparr>attrs := upd_nodes S (\<lambda>m. m(a \<mapsto> v)) (attrs d)\<rparr>),
     jq_removeAttr = (\<lambda>S a d. d\<lparr>attrs := upd_nodes S (\<lambda>m. m(a := None)) (attrs d)\<rparr>),
     jq_val = (\<lambda>d S. case S of [] \<Rightarrow> [] | n # _ \<Rightarrow> val_of d n),
     jq_set_val = (\<lambda>S v d. d\<lparr>val_of := upd_nodes S (\<lambda>_. case v of None \<Rightarrow> [] | Some s \<Rightarrow> s) (val_of d)\<rparr>),
     jq_html = (\<lambda>d S. case S of [] \<Rightarrow> [] | n # _ \<Rightarrow> html_of d n),
     jq_set_html = (\<lambda>S s d. d\<lparr>html_of := upd_nodes S (\<lambda>_. s) (html_of d)\<rparr>),
     jq_set_content = (\<lambda>T S d. case T of [] \<Rightarrow> d
       | n # _ \<Rightarrow> dom_set_content n S d),
     jq_create = (\<lambda>markup d. if markup = menu_markup then create_menu d else create_item d),
     jq_insertAfter = (\<lambda>S T d. case T of [] \<Rightarrow> d
       | n # _ \<Rightarrow> (case parent_of d n of None \<Rightarrow> d | Some p \<Rightarrow> dom_insertAfter S n p d)),
     jq_appendTo_body = (\<lambda>S d. d),
     jq_remove = dom_detach,
     jq_show = (\<lambda>S d. d\<lparr>displayed := upd_nodes S (\<lambda>_. True) (displayed d)\<rparr>),
     jq_hide = (\<lambda>S d. d\<lparr>displayed := upd_nodes S (\<lambda>_. False) (displayed d)\<rparr>),
     jq_css = (\<lambda>S p v d. d\<lparr>css_of := upd_nodes S (\<lambda>m. m(p := v)) (css_of d)\<rparr>),
     jq_size = (\<lambda>d S p. 0), jq_scroll_size = (\<lambda>d S p. 0), jq_position = (\<lambda>d S. (0, 0)),
     jq_focus = (\<lambda>S d. case S of [] \<Rightarrow> d | n # _ \<Rightarrow> d\<lparr>focused := Some n\<rparr>),
     jq_load = (\<lambda>S url d. d), jq_index = (\<lambda>d S T. if T = [] then -1 else index_of S (hd T)),
     jq_trigger = (\<lambda>e S d. (prevented e S d, d))\<rparr>"

lemma jquery_instance_ok [simp]: "jquery_ok (jquery_instance tr prevented)"
  unfolding jquery_ok_def
proof
  show "traversal_ok (jquery_instance tr prevented)"
    by (auto simp: traversal_ok_def jquery_instance_def split: option.split)
  show "updates_ok (jquery_instance tr prevented)"
    by (simp add: updates_ok_def jquery_instance_def item_markup_def menu_markup_def)
qed

lemma jquery_instance_quiet [simp]: "quiet (jquery_instance tr prevented)"
  by (simp add: quiet_def jquery_instance_def)

lemma jquery_instance_permissive [simp]: "permissive (jquery_instance tr (\<lambda>_ _ _. False))"
  by (simp add: permissive_def jquery_instance_def)

text \<open>jQuery with other answers for selectors that are not simple, and for the functions whose answers the widgets take
as they are.\<close>

lemma jquery_ok_find:
  assumes "jquery_ok J" "\<not> simple_selector s" "\<And>d. f d [] = []"
  shows "jquery_ok (J\<lparr>jq_find := (\<lambda>d S sel. if sel = s then f d S else jq_find J d S sel)\<rparr>)"
proof -
  have "traversal_ok (J\<lparr>jq_find := (\<lambda>d S sel. if sel = s then f d S else jq_find J d S sel)\<rparr>)"
    using assms unfolding jquery_ok_def traversal_ok_def by auto
  moreover have "updates_ok (J\<lparr>jq_find := (\<lambda>d S sel. if sel = s then f d S else jq_find J d S sel)\<rparr>)"
    using assms(1) unfolding jquery_ok_def updates_ok_def by simp
  ultimately show ?thesis by (simp add: jquery_ok_def)
qed

lemma jquery_ok_free [simp]:
  "jquery_ok (J\<lparr>jq_filter := f\<rparr>) = jquery_ok J" "jquery_ok (J\<lparr>jq_select := g\<rparr>) = jquery_ok J"
  "jquery_ok (J\<lparr>jq_closest := h\<rparr>) = jquery_ok J" "jquery_ok (J\<lparr>jq_is := i\<rparr>) = jquery_ok J"
  "quiet (J\<lparr>jq_filter := f\<rparr>) = quiet J" "quiet (J\<lparr>jq_select := g\<rparr>) = quiet J"
  "quiet (J\<lparr>jq_closest := h\<rparr>) = quiet J" "quiet (J\<lparr>jq_find := k\<rparr>) = quiet J"
  "permissive (J\<lparr>jq_closest := h\<rparr>) = permissive J" "permissive (J\<lparr>jq_select := g\<rparr>) = permissive J"
  "permissive (J\<lparr>jq_find := k\<rparr>) = permissive J"
  by (cases J; simp only: jquery_ok_def traversal_ok_def updates_ok_def quiet_def permissive_def jquery.simps)+

text \<open>A page without elements.\<close>

definition empty_dom :: dom where
  "empty_dom = \<lparr>fresh_node = 0, tag_of = (\<lambda>_. []), classes = (\<lambda>_. {}), attrs = (\<lambda>_ _. None), kids = (\<lambda>_. []),
     parent_of = (\<lambda>_. None), val_of = (\<lambda>_. []), html_of = (\<lambda>_. []), displayed = (\<lambda>_. False),
     css_of = (\<lambda>_ _. Css []), focused = None\<rparr>"

end
