(* ===== verification/Affix.thy ===== *)
theory Affix
  imports Jquery
begin

text \<open>The affix widget (\<open>bootstrap.js\<close>): an element that is pinned while the page scrolls. What the browser measures
at a call is a record; heights and positions are whole pixels.\<close>

section \<open>State\<close>

record affix_view =
  visible :: bool
  scroll_height :: int
  scroll_top :: int
  position_top :: int
  element_height :: int

text \<open>The offset option is a number, an object with numbers or functions under \<open>top\<close> and \<open>bottom\<close>, or a function.\<close>

datatype affix_bound = Bound_number int | Bound_function "affix_view \<Rightarrow> int"

datatype affix_offset = Offset_number int | Offset_object "affix_bound option" "affix_bound option" | Offset_function

text \<open>The value of \<open>affixed\<close>; \<open>None\<close> is \<open>undefined\<close>.\<close>

datatype affix_pos = Pos_false | Pos_top | Pos_bottom

record affix =
  affix_element :: node
  affix_offset :: affix_offset
  affixed :: "affix_pos option"
  unpin :: "int option"
  affix_timers :: nat

section \<open>Operations\<close>

fun bound_value :: "affix_view \<Rightarrow> affix_bound option \<Rightarrow> int option" where
  "bound_value v None = None"
| "bound_value v (Some (Bound_number i)) = Some i"
| "bound_value v (Some (Bound_function f)) = Some (f v)"

text \<open>\<open>offsetTop\<close> and \<open>offsetBottom\<close>. A function has no \<open>top\<close> to call.\<close>

fun affix_offsets :: "affix_view \<Rightarrow> affix_offset \<Rightarrow> js_error + (int option \<times> int option)" where
  "affix_offsets v (Offset_number i) = Inr (Some i, Some i)"
| "affix_offsets v (Offset_object t b) = Inr (bound_value v t, bound_value v b)"
| "affix_offsets v Offset_function = Inl TypeError"

definition affix_decide :: "affix_view \<Rightarrow> int option \<Rightarrow> int option \<Rightarrow> int option \<Rightarrow> affix_pos" where
  "affix_decide v unp offsetTop offsetBottom =
     (if (case unp of None \<Rightarrow> False | Some u \<Rightarrow> scroll_top v + u \<le> position_top v) then Pos_false
      else if (case offsetBottom of None \<Rightarrow> False
               | Some b \<Rightarrow> position_top v + element_height v \<ge> scroll_height v - b) then Pos_bottom
      else if (case offsetTop of None \<Rightarrow> False | Some t \<Rightarrow> scroll_top v \<le> t) then Pos_top
      else Pos_false)"

fun affix_class :: "affix_pos \<Rightarrow> string" where
  "affix_class Pos_false = ''affix''"
| "affix_class Pos_top = ''affix-top''"
| "affix_class Pos_bottom = ''affix-bottom''"

definition checkPosition :: "jquery \<Rightarrow> affix_view \<Rightarrow> affix \<times> dom \<Rightarrow> (affix \<times> dom) js_result" where
  "checkPosition J v = (\<lambda>(w, d).
     if \<not> visible v then (None, w, d)
     else case affix_offsets v (affix_offset w) of
       Inl e \<Rightarrow> (Some e, w, d)
     | Inr (offsetTop, offsetBottom) \<Rightarrow>
         let a = affix_decide v (unpin w) offsetTop offsetBottom in
         if affixed w = Some a then (None, w, d)
         else (None, w\<lparr>affixed := Some a, unpin := (if a = Pos_bottom then Some (position_top v - scroll_top v) else None)\<rparr>,
           jq_addClass J [affix_element w] (affix_class a)
             (jq_removeClass J [affix_element w] ''affix affix-top affix-bottom'' d)))"

definition affix_init :: "node \<Rightarrow> affix_offset option \<Rightarrow> affix" where
  "affix_init n opt = \<lparr>affix_element = n, affix_offset = (case opt of None \<Rightarrow> Offset_number 0 | Some off \<Rightarrow> off),
     affixed = None, unpin = None, affix_timers = 0\<rparr>"

definition affix_new :: "jquery \<Rightarrow> affix_view \<Rightarrow> node \<Rightarrow> affix_offset option \<Rightarrow> dom \<Rightarrow> (affix \<times> dom) js_result" where
  "affix_new J v n opt d = checkPosition J v (affix_init n opt, d)"

text \<open>The window's events: scrolling checks at once, a click starts a timer of one millisecond that checks. An
exception ends the handler.\<close>

datatype affix_event = Window_scroll affix_view | Window_click | Affix_timer affix_view

fun affix_step :: "jquery \<Rightarrow> affix_event \<Rightarrow> affix \<times> dom \<Rightarrow> (affix \<times> dom) js_result" where
  "affix_step J (Window_scroll v) s = checkPosition J v s"
| "affix_step J Window_click (w, d) = (None, w\<lparr>affix_timers := Suc (affix_timers w)\<rparr>, d)"
| "affix_step J (Affix_timer v) (w, d) =
     (if affix_timers w = 0 then (None, w, d)
      else checkPosition J v (w\<lparr>affix_timers := affix_timers w - 1\<rparr>, d))"

definition affix_run :: "jquery \<Rightarrow> affix_event list \<Rightarrow> affix \<times> dom \<Rightarrow> affix \<times> dom" where
  "affix_run J es s = foldl (\<lambda>s e. snd (affix_step J e s)) s es"

text \<open>The plugin. The instances are what \<open>data('affix')\<close> keeps on the elements; one whose constructor has thrown is
not kept. The only method of an instance is \<open>checkPosition\<close>.\<close>

type_synonym affix_page = "(node \<Rightarrow> affix option) \<times> dom"

definition affix_instance :: "jquery \<Rightarrow> affix_view \<Rightarrow> node \<Rightarrow> affix_offset option \<Rightarrow> affix_page \<Rightarrow> affix_page js_result" where
  "affix_instance J v n opt = (\<lambda>(insts, d). case insts n of
       Some w \<Rightarrow> (None, insts, d)
     | None \<Rightarrow> (case affix_new J v n opt d of
           (None, w, d') \<Rightarrow> (None, insts(n \<mapsto> w), d')
         | (Some e, w, d') \<Rightarrow> (Some e, insts, d')))"

definition affix_method :: "jquery \<Rightarrow> affix_view \<Rightarrow> node \<Rightarrow> string \<Rightarrow> affix_page \<Rightarrow> affix_page js_result" where
  "affix_method J v n name = (\<lambda>(insts, d). case insts n of
       Some w \<Rightarrow>
         if name = ''checkPosition'' then (case checkPosition J v (w, d) of (r, w', d') \<Rightarrow> (r, insts(n \<mapsto> w'), d'))
         else (Some TypeError, insts, d)
     | None \<Rightarrow> (Some TypeError, insts, d))"

definition affix_plugin1 :: "jquery \<Rightarrow> (node \<Rightarrow> affix_view) \<Rightarrow> affix_offset option plugin_arg \<Rightarrow> node \<Rightarrow> affix_page \<Rightarrow> affix_page js_result" where
  "affix_plugin1 J view arg n s =
     js_then (affix_instance J (view n) n (case arg_object arg of None \<Rightarrow> None | Some off \<Rightarrow> off) s)
       (\<lambda>s. case arg of Arg_name name \<Rightarrow> affix_method J (view n) n name s | _ \<Rightarrow> (None, s))"

definition affix_plugin :: "jquery \<Rightarrow> (node \<Rightarrow> affix_view) \<Rightarrow> affix_offset option plugin_arg \<Rightarrow> node list \<Rightarrow> affix_page \<Rightarrow> affix_page js_result" where
  "affix_plugin J view arg S = jq_each (affix_plugin1 J view arg) S"

text \<open>The options of an element: \<open>data-offset\<close>, into which \<open>data-offset-top\<close> and \<open>data-offset-bottom\<close> are written.
In strict mode a number takes no property; zero counts as absent.\<close>

definition affix_data_offset :: "affix_offset option \<Rightarrow> int option \<Rightarrow> int option \<Rightarrow> js_error + affix_offset" where
  "affix_data_offset off offTop offBottom =
     (let t = (if offTop = Some 0 then None else offTop); b = (if offBottom = Some 0 then None else offBottom) in
      case (if off = None \<or> off = Some (Offset_number 0) then Offset_object None None else the off) of
        Offset_object t0 b0 \<Rightarrow> Inr (Offset_object (if t = None then t0 else map_option Bound_number t)
                                            (if b = None then b0 else map_option Bound_number b))
      | Offset_number i \<Rightarrow> if t = None \<and> b = None then Inr (Offset_number i) else Inl TypeError
      | Offset_function \<Rightarrow> Inr Offset_function)"

definition affix_load :: "jquery \<Rightarrow> (node \<Rightarrow> affix_view) \<Rightarrow> (node \<Rightarrow> affix_offset option \<times> int option \<times> int option) \<Rightarrow>
    affix_page \<Rightarrow> affix_page js_result" where
  "affix_load J view data s = jq_each
     (\<lambda>n s. case data n of (off, t, b) \<Rightarrow>
        (case affix_data_offset off t b of
           Inl e \<Rightarrow> (Some e, s)
         | Inr off' \<Rightarrow> affix_plugin J view (Arg_object (Some off')) [n] s))
     (jq_select J (snd s) ''[data-spy=\"affix\"]'') s"

section \<open>Lemmas\<close>

text \<open>The classes that the widget gives an element.\<close>

abbreviation affix_classes :: "string set" where
  "affix_classes \<equiv> {''affix'', ''affix-top'', ''affix-bottom''}"

lemma class_names_affix [simp]:
  "class_names ''affix affix-top affix-bottom'' = [''affix'', ''affix-top'', ''affix-bottom'']"
  "class_names (affix_class a) = [affix_class a]"
  by (simp add: class_names_eval) (cases a; simp add: class_names_eval)

lemma affix_class_in: "affix_class a \<in> affix_classes"
  by (cases a) simp_all

text \<open>The class of the element is that of the position last decided.\<close>

definition affix_inv :: "affix \<times> dom \<Rightarrow> bool" where
  "affix_inv = (\<lambda>(w, d).
     (case affixed w of None \<Rightarrow> unpin w = None
      | Some a \<Rightarrow> classes d (affix_element w) \<inter> affix_classes = {affix_class a} \<and> (unpin w \<noteq> None \<longleftrightarrow> a = Pos_bottom)))"

lemma affix_reclass:
  "classes (dom_addClass [n] (affix_class a) (dom_removeClass [n] ''affix affix-top affix-bottom'' d)) n \<inter> affix_classes
     = {affix_class a}"
proof -
  have "c \<in> A \<Longrightarrow> (X - A \<union> {c}) \<inter> A = {c}" for c :: string and A X by blast
  from this [OF affix_class_in [of a]]
  have "(classes d n - affix_classes \<union> {affix_class a}) \<inter> affix_classes = {affix_class a}" .
  then show ?thesis by (simp only: dom_class_simps class_names_affix list.set list.simps simp_thms if_True insertI1)
qed

lemma affix_inv_timers [simp]: "affix_inv (w\<lparr>affix_timers := k\<rparr>, d) \<longleftrightarrow> affix_inv (w, d)"
  by (simp add: affix_inv_def split: option.split)

lemma affix_inv_set:
  "affix_inv (w\<lparr>affixed := Some a, unpin := (if a = Pos_bottom then Some u else None)\<rparr>,
     dom_addClass [affix_element w] (affix_class a) (dom_removeClass [affix_element w] ''affix affix-top affix-bottom'' d))"
  using affix_reclass [of "affix_element w" a d] by (simp add: affix_inv_def del: dom_class_simps)

lemma checkPosition_inv:
  assumes "jquery_ok J" "affix_inv (w, d)"
  shows "affix_inv (snd (checkPosition J v (w, d)))"
proof (cases "visible v \<and> (\<exists>r. affix_offsets v (affix_offset w) = Inr r)")
  case False
  then show ?thesis using assms(2) by (auto simp: checkPosition_def split: sum.split)
next
  case True
  then obtain t b where o: "affix_offsets v (affix_offset w) = Inr (t, b)" by auto
  show ?thesis
  proof (cases "affixed w = Some (affix_decide v (unpin w) t b)")
    case True
    then show ?thesis using o assms(2) by (simp add: checkPosition_def Let_def)
  next
    case ch: False
    then show ?thesis using o True assms(1) affix_inv_set
      by (simp add: checkPosition_def Let_def jq del: dom_class_simps)
  qed
qed

lemma affix_step_inv:
  assumes "jquery_ok J" "affix_inv (w, d)"
  shows "affix_inv (snd (affix_step J e (w, d)))"
  using assms checkPosition_inv [of J "w\<lparr>affix_timers := affix_timers w - 1\<rparr>" d] checkPosition_inv [of J w d]
  by (cases e) simp_all

lemma affix_run_inv:
  "jquery_ok J \<Longrightarrow> affix_inv s \<Longrightarrow> affix_inv (affix_run J es s)"
proof (induction es arbitrary: s)
  case (Cons e es)
  have "affix_inv (snd (affix_step J e s))" using affix_step_inv [OF Cons.prems(1)] Cons.prems(2) by (cases s) simp
  from Cons.IH [OF Cons.prems(1) this] show ?case by (simp add: affix_run_def)
qed (simp add: affix_run_def)

section \<open>Properties\<close>

text \<open>C27. The affixed element: after the constructor and any events of the window, the element has exactly one of the three classes, that of the position last decided, and the distance at which it comes unpinned is kept exactly at the bottom.\<close>

theorem affix_invariant:
  assumes "jquery_ok J" "affix_new J v n opt d = (None, s)" "affix_run J es s = (w, e)"
  shows "affixed w = None \<and> unpin w = None \<or>
     (\<exists>a. affixed w = Some a \<and> classes e (affix_element w) \<inter> {''affix'', ''affix-top'', ''affix-bottom''} = {affix_class a} \<and>
        (unpin w \<noteq> None \<longleftrightarrow> a = Pos_bottom))"
proof -
  have "affix_inv (affix_init n opt, d)" by (simp add: affix_inv_def affix_init_def)
  from checkPosition_inv [OF assms(1) this, of v] have "affix_inv s" using assms(2) by (simp add: affix_new_def)
  from affix_run_inv [OF assms(1) this, of es] show ?thesis
    unfolding assms(3) affix_inv_def by (cases "affixed w") auto
qed

definition example_view :: "int \<Rightarrow> affix_view" where
  "example_view y = \<lparr>visible = True, scroll_height = 1000, scroll_top = y, position_top = y + 20, element_height = 50\<rparr>"

theorem affix_invariant_witness:
  "\<exists>w e. affix_run (jquery_instance None (\<lambda>_ _ _. False)) [Window_scroll (example_view 300), Window_click, Affix_timer (example_view 950)]
       (snd (affix_new (jquery_instance None (\<lambda>_ _ _. False)) (example_view 0) 1 (Some (Offset_number 10)) empty_dom)) = (w, e) \<and>
     classes e (affix_element w) \<inter> {''affix'', ''affix-top'', ''affix-bottom''} = {''affix-bottom''}"
proof -
  let ?J = "jquery_instance None (\<lambda>_ _ _. False)"
  let ?n = "affix_new ?J (example_view 0) 1 (Some (Offset_number 10)) empty_dom"
  have n: "?n = (None, snd ?n)"
    by (simp add: affix_new_def checkPosition_def affix_init_def example_view_def Let_def)
  obtain w e where r: "affix_run ?J [Window_scroll (example_view 300), Window_click, Affix_timer (example_view 950)] (snd ?n) = (w, e)"
    by (cases "affix_run ?J [Window_scroll (example_view 300), Window_click, Affix_timer (example_view 950)] (snd ?n)")
  have "affixed w = Some Pos_bottom"
    using arg_cong [OF r, of "affixed \<circ> fst"]
    by (simp add: affix_run_def affix_new_def checkPosition_def affix_init_def example_view_def affix_decide_def Let_def)
  with affix_invariant [OF jquery_instance_ok n r] show ?thesis using r by auto
qed

text \<open>An element at the bottom does not stay there: checking again where neither the page nor the element has moved unpins it, and checking once more puts it back. (The distance is compared with itself.)\<close>

theorem affix_bottom_flips:
  assumes "jquery_ok J" "visible v" "affix_offsets v (affix_offset w) = Inr (t, b)" "unpin w = None"
    "affix_decide v None t b = Pos_bottom" "affixed w \<noteq> Some Pos_bottom"
  shows "map (\<lambda>k. affixed (fst (affix_run J (replicate k (Window_scroll v)) (w, d)))) [1, 2, 3] =
    [Some Pos_bottom, Some Pos_false, Some Pos_bottom]"
proof -
  have flip: "affix_decide v (Some (position_top v - scroll_top v)) t b = Pos_false" by (simp add: affix_decide_def)
  show ?thesis
    using assms flip by (simp add: affix_run_def checkPosition_def numeral_3_eq_3 numeral_2_eq_2 Let_def)
qed

theorem affix_bottom_flips_witness:
  "map (\<lambda>k. affixed (fst (affix_run (jquery_instance None (\<lambda>_ _ _. False)) (replicate k (Window_scroll (example_view 950)))
      (affix_init 1 (Some (Offset_number 10)), empty_dom)))) [1, 2, 3] = [Some Pos_bottom, Some Pos_false, Some Pos_bottom]"
  by (rule affix_bottom_flips [where t = "Some 10" and b = "Some 10"])
    (simp_all add: example_view_def affix_init_def affix_decide_def)

text \<open>The attributes of the page: a number in \<open>data-offset\<close> beside \<open>data-offset-top\<close> or \<open>data-offset-bottom\<close> throws in strict mode, which ends the set-up of the elements behind it.\<close>

theorem affix_load_throws:
  assumes "data n = (Some (Offset_number i), t, b)" "i \<noteq> 0" "t \<noteq> None \<and> t \<noteq> Some 0 \<or> b \<noteq> None \<and> b \<noteq> Some 0"
    "jq_select J (snd s) ''[data-spy=\"affix\"]'' = n # ns"
  shows "affix_load J view data s = (Some TypeError, s)"
  using assms by (auto simp: affix_load_def affix_data_offset_def Let_def)

theorem affix_load_throws_witness:
  "affix_load (jquery_instance None (\<lambda>_ _ _. False)\<lparr>jq_select := (\<lambda>_ _. [1, 2])\<rparr>) (\<lambda>_. example_view 0)
     (\<lambda>_. (Some (Offset_number 200), None, Some 10)) (Map.empty, empty_dom) = (Some TypeError, Map.empty, empty_dom)"
  by (rule affix_load_throws [where n = 1 and i = 200 and t = None and b = "Some 10" and ns = "[2]"]) simp_all

end
