(* ===== verification/Typeahead.thy ===== *)
theory Typeahead
  imports Jquery
begin

text \<open>The type-ahead box (\<open>bootstrap.js\<close>): the pure part that selects, orders and marks the suggestions, and the
widget, whose menu lies in the page. Its events are steps; a source that answers later is the event \<open>Source_answer\<close>.\<close>

section \<open>Options and state\<close>

text \<open>The source is an array, or a function of the query, whose result may be \<open>undefined\<close>.\<close>

datatype typeahead_source = Source_array "string list" | Source_function "string \<Rightarrow> string list option"

text \<open>The matcher, the sorter, the highlighter and the updater may be replaced; the first three see the query.\<close>

record typeahead_options =
  opt_source :: typeahead_source
  opt_items :: int
  opt_menu :: string
  opt_item :: string
  opt_minLength :: int
  opt_matcher :: "(string \<Rightarrow> string \<Rightarrow> bool) option"
  opt_sorter :: "(string \<Rightarrow> string list \<Rightarrow> string list) option"
  opt_highlighter :: "(string \<Rightarrow> string \<Rightarrow> string) option"
  opt_updater :: "(string option \<Rightarrow> string option) option"

definition typeahead_defaults :: typeahead_options where
  "typeahead_defaults = \<lparr>opt_source = Source_array [], opt_items = 8, opt_menu = menu_markup, opt_item = item_markup,
     opt_minLength = 1, opt_matcher = None, opt_sorter = None, opt_highlighter = None, opt_updater = None\<rparr>"

record typeahead =
  ta_element :: node
  ta_menu :: "node list"
  ta_options :: typeahead_options
  ta_query :: string
  ta_shown :: bool
  ta_focused :: bool
  ta_mousedover :: bool
  ta_suppressKeyPressRepeat :: bool

type_synonym typeahead_page = "typeahead \<times> dom"

section \<open>Selecting and ordering\<close>

definition typeahead_matcher :: "string \<Rightarrow> string \<Rightarrow> bool" where
  "typeahead_matcher query item \<longleftrightarrow> indexOf (toLowerCase item) (toLowerCase query) \<noteq> -1"

fun sorter_loop :: "string \<Rightarrow> string list \<Rightarrow> string list \<Rightarrow> string list \<Rightarrow> string list \<Rightarrow> string list" where
  "sorter_loop query [] beginswith caseSensitive caseInsensitive = beginswith @ caseSensitive @ caseInsensitive"
| "sorter_loop query (item # items) beginswith caseSensitive caseInsensitive =
     (if item = [] then beginswith @ caseSensitive @ caseInsensitive
      else if indexOf (toLowerCase item) (toLowerCase query) = 0
        then sorter_loop query items (beginswith @ [item]) caseSensitive caseInsensitive
      else if indexOf item query \<noteq> -1
        then sorter_loop query items beginswith (caseSensitive @ [item]) caseInsensitive
      else sorter_loop query items beginswith caseSensitive (caseInsensitive @ [item]))"

definition typeahead_sorter :: "string \<Rightarrow> string list \<Rightarrow> string list" where
  "typeahead_sorter query items = sorter_loop query items [] [] []"

text \<open>The pattern is the escaped query; a pattern that could not be read would throw.\<close>

definition mark_match :: "string \<Rightarrow> string" where
  "mark_match match = ''<strong>'' @ match @ ''</strong>''"

definition typeahead_highlighter :: "string \<Rightarrow> string \<Rightarrow> string" where
  "typeahead_highlighter query item = (case regex_literal (escape_query query) of
     None \<Rightarrow> []
   | Some q \<Rightarrow> replace_all_ci q mark_match item)"

definition typeahead_updater :: "string option \<Rightarrow> string option" where
  "typeahead_updater item = item"

text \<open>\<open>options.matcher || this.matcher\<close> and so on.\<close>

definition the_matcher :: "typeahead \<Rightarrow> string \<Rightarrow> bool" where
  "the_matcher w = (case opt_matcher (ta_options w) of None \<Rightarrow> typeahead_matcher | Some f \<Rightarrow> f) (ta_query w)"

definition the_sorter :: "typeahead \<Rightarrow> string list \<Rightarrow> string list" where
  "the_sorter w = (case opt_sorter (ta_options w) of None \<Rightarrow> typeahead_sorter | Some f \<Rightarrow> f) (ta_query w)"

definition the_highlighter :: "typeahead \<Rightarrow> string \<Rightarrow> string" where
  "the_highlighter w = (case opt_highlighter (ta_options w) of None \<Rightarrow> typeahead_highlighter | Some f \<Rightarrow> f) (ta_query w)"

definition the_updater :: "typeahead \<Rightarrow> string option \<Rightarrow> string option" where
  "the_updater w = (case opt_updater (ta_options w) of None \<Rightarrow> typeahead_updater | Some f \<Rightarrow> f)"

text \<open>\<open>items.slice(0, n)\<close>.\<close>

definition slice0 :: "int \<Rightarrow> 'a list \<Rightarrow> 'a list" where
  "slice0 n xs = take (nat (if n < 0 then int (length xs) + n else n)) xs"

section \<open>The widget\<close>

definition typeahead_hide :: "jquery \<Rightarrow> typeahead_page \<Rightarrow> typeahead_page" where
  "typeahead_hide J = (\<lambda>(w, d). (w\<lparr>ta_shown := False\<rparr>, jq_hide J (ta_menu w) d))"

definition typeahead_show :: "jquery \<Rightarrow> typeahead_page \<Rightarrow> typeahead_page" where
  "typeahead_show J = (\<lambda>(w, d).
     let (top, left) = jq_position J d [ta_element w];
         height = jq_size J d [ta_element w] ''offsetHeight'';
         d1 = jq_insertAfter J (ta_menu w) [ta_element w] d;
         d2 = jq_css J (ta_menu w) ''left'' (Px left) (jq_css J (ta_menu w) ''top'' (Px (top + height)) d1)
     in (w\<lparr>ta_shown := True\<rparr>, jq_show J (ta_menu w) d2))"

definition typeahead_select :: "jquery \<Rightarrow> typeahead_page \<Rightarrow> typeahead_page" where
  "typeahead_select J = (\<lambda>(w, d).
     let v = jq_attr J d (jq_find J d (ta_menu w) ''.active'') ''data-value'';
         d1 = jq_set_val J [ta_element w] (the_updater w v) d;
         d2 = snd (jq_trigger J ''change'' [ta_element w] d1)
     in typeahead_hide J (w, d2))"

text \<open>One element per item, in order, each with its value and its marked text.\<close>

fun render_items :: "jquery \<Rightarrow> typeahead \<Rightarrow> string list \<Rightarrow> dom \<Rightarrow> node list \<times> dom" where
  "render_items J w [] d = ([], d)"
| "render_items J w (item # items) d =
     (let (i, d1) = jq_create J (opt_item (ta_options w)) d;
          d2 = jq_set_attr J i ''data-value'' item d1;
          d3 = jq_set_html J (jq_find J d2 i ''a'') (the_highlighter w item) d2;
          (is, d4) = render_items J w items d3
      in (take 1 i @ is, d4))"

definition typeahead_render :: "jquery \<Rightarrow> string list \<Rightarrow> typeahead_page \<Rightarrow> typeahead_page" where
  "typeahead_render J items = (\<lambda>(w, d).
     let (ns, d1) = render_items J w items d;
         d2 = jq_addClass J (take 1 ns) ''active'' d1
     in (w, jq_set_content J (ta_menu w) ns d2))"

definition typeahead_hide_if_shown :: "jquery \<Rightarrow> typeahead_page \<Rightarrow> typeahead_page" where
  "typeahead_hide_if_shown J s = (if ta_shown (fst s) then typeahead_hide J s else s)"

definition typeahead_process :: "jquery \<Rightarrow> string list \<Rightarrow> typeahead_page \<Rightarrow> typeahead_page" where
  "typeahead_process J items s =
     (let items1 = filter (the_matcher (fst s)) items;
          items2 = the_sorter (fst s) items1
      in if items2 = [] then typeahead_hide_if_shown J s
         else typeahead_show J (typeahead_render J (slice0 (opt_items (ta_options (fst s))) items2) s))"

definition typeahead_lookup :: "jquery \<Rightarrow> typeahead_page \<Rightarrow> typeahead_page" where
  "typeahead_lookup J = (\<lambda>(w, d).
     let query = jq_val J d [ta_element w]; s = (w\<lparr>ta_query := query\<rparr>, d)
     in if query = [] \<or> int (length query) < opt_minLength (ta_options w) then typeahead_hide_if_shown J s
        else case opt_source (ta_options w) of
          Source_array items \<Rightarrow> typeahead_process J items s
        | Source_function f \<Rightarrow> (case f query of None \<Rightarrow> s | Some items \<Rightarrow> typeahead_process J items s))"

definition typeahead_next :: "jquery \<Rightarrow> typeahead_page \<Rightarrow> typeahead_page" where
  "typeahead_next J = (\<lambda>(w, d).
     let active = jq_find J d (ta_menu w) ''.active'';
         d1 = jq_removeClass J active ''active'' d;
         next = jq_next J d1 active;
         next' = (if next = [] then take 1 (jq_find J d1 (ta_menu w) ''li'') else next)
     in (w, jq_addClass J next' ''active'' d1))"

definition typeahead_prev :: "jquery \<Rightarrow> typeahead_page \<Rightarrow> typeahead_page" where
  "typeahead_prev J = (\<lambda>(w, d).
     let active = jq_find J d (ta_menu w) ''.active'';
         d1 = jq_removeClass J active ''active'' d;
         prev = jq_prev J d1 active;
         prev' = (if prev = [] then take 1 (rev (jq_find J d1 (ta_menu w) ''li'')) else prev)
     in (w, jq_addClass J prev' ''active'' d1))"

section \<open>Events\<close>

text \<open>What a handler of a key or of the mouse does to the event: \<open>preventDefault\<close> and \<open>stopPropagation\<close>.\<close>

type_synonym event_result = "bool \<times> bool"

definition typeahead_move :: "jquery \<Rightarrow> int \<Rightarrow> typeahead_page \<Rightarrow> event_result \<times> typeahead_page" where
  "typeahead_move J keyCode s =
     (if \<not> ta_shown (fst s) then ((False, False), s)
      else if keyCode = 9 \<or> keyCode = 13 \<or> keyCode = 27 then ((True, True), s)
      else if keyCode = 38 then ((True, True), typeahead_prev J s)
      else if keyCode = 40 then ((True, True), typeahead_next J s)
      else ((False, True), s))"

definition typeahead_keydown :: "jquery \<Rightarrow> int \<Rightarrow> typeahead_page \<Rightarrow> event_result \<times> typeahead_page" where
  "typeahead_keydown J keyCode = (\<lambda>(w, d).
     typeahead_move J keyCode (w\<lparr>ta_suppressKeyPressRepeat := keyCode \<in> {40, 38, 9, 13, 27}\<rparr>, d))"

definition typeahead_keypress :: "jquery \<Rightarrow> int \<Rightarrow> typeahead_page \<Rightarrow> event_result \<times> typeahead_page" where
  "typeahead_keypress J keyCode s =
     (if ta_suppressKeyPressRepeat (fst s) then ((False, False), s) else typeahead_move J keyCode s)"

definition typeahead_keyup :: "jquery \<Rightarrow> int \<Rightarrow> typeahead_page \<Rightarrow> event_result \<times> typeahead_page" where
  "typeahead_keyup J keyCode s =
     (if keyCode \<in> {40, 38, 16, 17, 18} then ((True, True), s)
      else if keyCode = 9 \<or> keyCode = 13 then
        if \<not> ta_shown (fst s) then ((False, False), s) else ((True, True), typeahead_select J s)
      else if keyCode = 27 then
        if \<not> ta_shown (fst s) then ((False, False), s) else ((True, True), typeahead_hide J s)
      else ((True, True), typeahead_lookup J s))"

definition typeahead_focus :: "typeahead_page \<Rightarrow> typeahead_page" where
  "typeahead_focus = (\<lambda>(w, d). (w\<lparr>ta_focused := True\<rparr>, d))"

definition typeahead_blur :: "jquery \<Rightarrow> typeahead_page \<Rightarrow> typeahead_page" where
  "typeahead_blur J = (\<lambda>(w, d).
     let s = (w\<lparr>ta_focused := False\<rparr>, d)
     in if \<not> ta_mousedover w \<and> ta_shown w then typeahead_hide J s else s)"

text \<open>Focusing the element runs the widget's handler of that event.\<close>

definition typeahead_click :: "jquery \<Rightarrow> typeahead_page \<Rightarrow> event_result \<times> typeahead_page" where
  "typeahead_click J s =
     (let (w, d) = typeahead_select J s
      in ((True, True), typeahead_focus (w, jq_focus J [ta_element w] d)))"

definition typeahead_mouseenter :: "jquery \<Rightarrow> node \<Rightarrow> typeahead_page \<Rightarrow> typeahead_page" where
  "typeahead_mouseenter J currentTarget = (\<lambda>(w, d).
     let d1 = jq_removeClass J (jq_find J d (ta_menu w) ''.active'') ''active'' d
     in (w\<lparr>ta_mousedover := True\<rparr>, jq_addClass J [currentTarget] ''active'' d1))"

definition typeahead_mouseleave :: "jquery \<Rightarrow> typeahead_page \<Rightarrow> typeahead_page" where
  "typeahead_mouseleave J = (\<lambda>(w, d).
     let s = (w\<lparr>ta_mousedover := False\<rparr>, d)
     in if \<not> ta_focused w \<and> ta_shown w then typeahead_hide J s else s)"

text \<open>The handlers that \<open>listen\<close> attaches. The mouse events of the menu are delegated to its \<open>li\<close> elements.\<close>

datatype typeahead_event = Ta_focus | Ta_blur | Ta_keypress int | Ta_keyup int | Ta_keydown int | Ta_click
  | Ta_mouseenter node | Ta_mouseleave node | Source_answer "string list"

fun typeahead_step :: "jquery \<Rightarrow> typeahead_event \<Rightarrow> typeahead_page \<Rightarrow> typeahead_page" where
  "typeahead_step J Ta_focus s = typeahead_focus s"
| "typeahead_step J Ta_blur s = typeahead_blur J s"
| "typeahead_step J (Ta_keypress k) s = snd (typeahead_keypress J k s)"
| "typeahead_step J (Ta_keyup k) s = snd (typeahead_keyup J k s)"
| "typeahead_step J (Ta_keydown k) s = snd (typeahead_keydown J k s)"
| "typeahead_step J Ta_click s = snd (typeahead_click J s)"
| "typeahead_step J (Ta_mouseenter n) s =
     (if n \<in> set (jq_find J (snd s) (ta_menu (fst s)) ''li'') then typeahead_mouseenter J n s else s)"
| "typeahead_step J (Ta_mouseleave n) s =
     (if n \<in> set (jq_find J (snd s) (ta_menu (fst s)) ''li'') then typeahead_mouseleave J s else s)"
| "typeahead_step J (Source_answer items) s = typeahead_process J items s"

definition typeahead_run :: "jquery \<Rightarrow> typeahead_event list \<Rightarrow> typeahead_page \<Rightarrow> typeahead_page" where
  "typeahead_run J es s = foldl (\<lambda>s e. typeahead_step J e s) s es"

section \<open>Construction\<close>

text \<open>\<open>eventName in this.$element\<close> asks the jQuery object. When it has no such member, its \<open>setAttribute\<close> is called,
which jQuery objects do not have.\<close>

definition eventSupported :: "jquery \<Rightarrow> string \<Rightarrow> js_error + bool" where
  "eventSupported J eventName = (if jq_has_member J eventName then Inr True else Inl TypeError)"

definition typeahead_listen :: "jquery \<Rightarrow> js_error + string list" where
  "typeahead_listen J = (case eventSupported J ''keydown'' of
     Inl e \<Rightarrow> Inl e
   | Inr isSupported \<Rightarrow> Inr ([''focus'', ''blur'', ''keypress'', ''keyup''] @ (if isSupported then [''keydown''] else []) @
        [''click'', ''mouseenter'', ''mouseleave'']))"

definition typeahead_new :: "jquery \<Rightarrow> node \<Rightarrow> typeahead_options \<Rightarrow> dom \<Rightarrow> typeahead_page js_result" where
  "typeahead_new J element opts d =
     (let (menu, d1) = jq_create J (opt_menu opts) d;
          w = \<lparr>ta_element = element, ta_menu = menu, ta_options = opts, ta_query = [], ta_shown = False,
               ta_focused = False, ta_mousedover = False, ta_suppressKeyPressRepeat = False\<rparr>
      in case typeahead_listen J of Inl e \<Rightarrow> (Some e, w, d1) | Inr _ \<Rightarrow> (None, w, d1))"

text \<open>A method called by name gets no argument: those that read their argument throw. (\<open>constructor\<close> and \<open>listen\<close>
called in this way, which would start the widget anew, are not modelled.)\<close>

definition typeahead_method :: "jquery \<Rightarrow> string \<Rightarrow> typeahead_page \<Rightarrow> typeahead_page js_result" where
  "typeahead_method J name s =
     (if name = ''select'' then (None, typeahead_select J s)
      else if name = ''show'' then (None, typeahead_show J s)
      else if name = ''hide'' then (None, typeahead_hide J s)
      else if name = ''lookup'' then (None, typeahead_lookup J s)
      else if name = ''next'' then (None, typeahead_next J s)
      else if name = ''prev'' then (None, typeahead_prev J s)
      else if name = ''render'' then (None, typeahead_render J [] s)
      else if name = ''updater'' then (None, s)
      else if name = ''focus'' then (None, typeahead_focus s)
      else if name = ''blur'' then (None, typeahead_blur J s)
      else if name = ''mouseleave'' then (None, typeahead_mouseleave J s)
      else if name = ''move'' then (if ta_shown (fst s) then Some TypeError else None, s)
      else if name = ''keypress'' then
        (if \<not> ta_suppressKeyPressRepeat (fst s) \<and> ta_shown (fst s) then Some TypeError else None, s)
      else if name = ''mouseenter'' then
        (Some TypeError, (fst s)\<lparr>ta_mousedover := True\<rparr>,
         jq_removeClass J (jq_find J (snd s) (ta_menu (fst s)) ''.active'') ''active'' (snd s))
      else (Some TypeError, s))"

text \<open>An object of options stands for what it overwrites in the defaults.\<close>

type_synonym typeahead_object = "typeahead_options \<Rightarrow> typeahead_options"

definition typeahead_plugin1 :: "jquery \<Rightarrow> typeahead_object plugin_arg \<Rightarrow> node \<Rightarrow> (node \<Rightarrow> typeahead option) \<times> dom \<Rightarrow>
    ((node \<Rightarrow> typeahead option) \<times> dom) js_result" where
  "typeahead_plugin1 J arg n = (\<lambda>(insts, d).
     js_then
       (case insts n of Some w \<Rightarrow> (None, insts, d)
        | None \<Rightarrow> (case typeahead_new J n (case arg_object arg of None \<Rightarrow> typeahead_defaults | Some f \<Rightarrow> f typeahead_defaults) d of
             (None, w, d') \<Rightarrow> (None, insts(n \<mapsto> w), d')
           | (Some e, w, d') \<Rightarrow> (Some e, insts, d')))
       (\<lambda>(insts, d). case arg of
          Arg_name name \<Rightarrow> (case insts n of None \<Rightarrow> (Some TypeError, insts, d)
            | Some w \<Rightarrow> (case typeahead_method J name (w, d) of (r, w', d') \<Rightarrow> (r, insts(n \<mapsto> w'), d')))
        | _ \<Rightarrow> (None, insts, d)))"

definition typeahead_plugin :: "jquery \<Rightarrow> typeahead_object plugin_arg \<Rightarrow> node list \<Rightarrow> (node \<Rightarrow> typeahead option) \<times> dom \<Rightarrow>
    ((node \<Rightarrow> typeahead option) \<times> dom) js_result" where
  "typeahead_plugin J arg S = jq_each (typeahead_plugin1 J arg) S"

text \<open>The first focus of an element that asks for a box by its attributes.\<close>

definition typeahead_data_api :: "jquery \<Rightarrow> (node \<Rightarrow> typeahead_object) \<Rightarrow> node \<Rightarrow> (node \<Rightarrow> typeahead option) \<times> dom \<Rightarrow>
    ((node \<Rightarrow> typeahead option) \<times> dom) js_result" where
  "typeahead_data_api J data n s =
     (if fst s n \<noteq> None then (None, s) else typeahead_plugin J (Arg_object (data n)) [n] s)"

section \<open>Lemmas on the suggestions\<close>

lemma typeahead_matcher_sublist:
  "typeahead_matcher query item \<longleftrightarrow> sublist (toLowerCase query) (toLowerCase item)"
  by (simp add: typeahead_matcher_def indexOf_sublist)

text \<open>The three groups of the sorter.\<close>

definition begins_with :: "string \<Rightarrow> string \<Rightarrow> bool" where
  "begins_with query item \<longleftrightarrow> prefix (toLowerCase query) (toLowerCase item)"

definition has_exactly :: "string \<Rightarrow> string \<Rightarrow> bool" where
  "has_exactly query item \<longleftrightarrow> sublist query item"

lemma sorter_loop_eq:
  "sorter_loop query items b c i =
     (let xs = takeWhile (\<lambda>x. x \<noteq> []) items in
      (b @ filter (begins_with query) xs) @
      (c @ filter (\<lambda>x. \<not> begins_with query x \<and> has_exactly query x) xs) @
      (i @ filter (\<lambda>x. \<not> begins_with query x \<and> \<not> has_exactly query x) xs))"
  by (induction query items b c i rule: sorter_loop.induct)
    (simp_all add: Let_def begins_with_def has_exactly_def indexOf_0 indexOf_sublist)

lemma takeWhile_nonempty: "[] \<notin> set items \<Longrightarrow> takeWhile (\<lambda>x. x \<noteq> []) items = items"
  by (simp add: takeWhile_eq_all_conv) metis

lemma typeahead_sorter_eq:
  "[] \<notin> set items \<Longrightarrow> typeahead_sorter query items =
     filter (begins_with query) items @
     filter (\<lambda>x. \<not> begins_with query x \<and> has_exactly query x) items @
     filter (\<lambda>x. \<not> begins_with query x \<and> \<not> has_exactly query x) items"
  by (simp add: typeahead_sorter_def sorter_loop_eq takeWhile_nonempty Let_def)

lemma mset_typeahead_sorter: "[] \<notin> set items \<Longrightarrow> mset (typeahead_sorter query items) = mset items"
  unfolding typeahead_sorter_eq by (induction items) (auto simp: ac_simps)

text \<open>The items that the default matcher keeps are not empty, unless the query is.\<close>

lemma matched_nonempty: "query \<noteq> [] \<Longrightarrow> typeahead_matcher query item \<Longrightarrow> item \<noteq> []"
  by (auto simp: typeahead_matcher_sublist sublist_Nil_right)

text \<open>The escaped query is a pattern that spells the query: no unit that has a meaning of its own is left.\<close>

lemma space_not_word: "is_space c \<Longrightarrow> \<not> is_word_unit c"
  by (auto simp: is_space_def is_word_unit_def Let_def)

lemma escaped_not_word: "c \<in> set escaped_units \<Longrightarrow> \<not> is_word_unit c"
  by (auto simp: escaped_units_def is_word_unit_def Let_def)

lemma regex_units_escaped: "set regex_units \<subseteq> set escaped_units"
  by (simp add: regex_units_def escaped_units_def)

lemma backslash_escaped: "char_of (92::nat) \<in> set escaped_units"
  by (simp add: escaped_units_def)

lemma regex_escape: "regex_literal (escape_query q) = Some q"
proof (induction q)
  case Nil
  then show ?case by (simp add: escape_query_def)
next
  case (Cons c q)
  have u: "escape_query (c # q) = (if c \<in> set escaped_units \<or> is_space c then [char_of (92::nat), c] else [c]) @ escape_query q"
    by (simp add: escape_query_def)
  show ?case
  proof (cases "c \<in> set escaped_units \<or> is_space c")
    case True
    then have "\<not> is_word_unit c" using space_not_word escaped_not_word by blast
    with True Cons.IH show ?thesis by (simp add: u)
  next
    case False
    then have "c \<noteq> char_of (92::nat)" "c \<notin> set regex_units" using backslash_escaped regex_units_escaped by blast+
    with False Cons.IH show ?thesis by (simp add: u)
  qed
qed

lemma typeahead_highlighter_eq:
  "typeahead_highlighter query item = replace_all_ci query mark_match item"
  by (simp add: typeahead_highlighter_def regex_escape)

section \<open>Lemmas on the menu\<close>

lemma sel_active [simp]:
  "sel_matches d ''.active'' = (\<lambda>n. ''active'' \<in> classes d n)" "simple_selector ''.active''"
  "sel_matches d ''li'' = (\<lambda>n. tag_of d n = ''li'')" "simple_selector ''li''"
  "sel_matches d ''a'' = (\<lambda>n. tag_of d n = ''a'')" "simple_selector ''a''"
  by (simp_all add: fun_eq_iff sel_matches_def simple_selector_def is_word_unit_def)

text \<open>The items of a menu, each an \<open>li\<close> with a link, and the menu's place in the page.\<close>

definition menu_item :: "dom \<Rightarrow> node \<Rightarrow> node \<Rightarrow> bool" where
  "menu_item d m n \<longleftrightarrow> tag_of d n = ''li'' \<and> parent_of d n = Some m \<and> n \<noteq> m \<and> n < fresh_node d \<and>
     (\<exists>a. a < fresh_node d \<and> kids d n = [a] \<and> kids d a = [] \<and> tag_of d a = ''a'' \<and> ''active'' \<notin> classes d a \<and> a \<noteq> m)"

definition menu_ok :: "dom \<Rightarrow> node \<Rightarrow> bool" where
  "menu_ok d m \<longleftrightarrow> m < fresh_node d \<and> 2 \<le> fresh_node d \<and> distinct (kids d m) \<and> (\<forall>n \<in> set (kids d m). menu_item d m n)"

definition active_items :: "dom \<Rightarrow> node \<Rightarrow> node list" where
  "active_items d m = filter (\<lambda>n. ''active'' \<in> classes d n) (kids d m)"

lemma descendants_2:
  assumes "2 \<le> fresh_node d" "\<And>n. n \<in> set (kids d m) \<Longrightarrow> \<exists>a. kids d n = [a] \<and> kids d a = []"
  shows "descendants d m = concat (map (\<lambda>n. n # kids d n) (kids d m))"
proof -
  obtain i where "fresh_node d = 2 + i" using le_Suc_ex assms(1) by blast
  then have i: "fresh_node d = Suc (Suc i)" by simp
  have "concat (map (\<lambda>b. b # descend i (kids d) b) (kids d n)) = kids d n" if "n \<in> set (kids d m)" for n
    using assms(2) [OF that] by (cases i) auto
  then have "map (\<lambda>c. c # concat (map (\<lambda>b. b # descend i (kids d) b) (kids d c))) (kids d m) = map (\<lambda>n. n # kids d n) (kids d m)"
    by (intro map_cong refl) simp
  then show ?thesis unfolding descendants_def i descend.simps by (rule arg_cong)
qed

lemma menu_find:
  assumes "jquery_ok J" "menu_ok d m"
  shows "jq_find J d [m] ''.active'' = active_items d m" and "jq_find J d [m] ''li'' = kids d m"
proof -
  have item: "menu_item d m n" if "n \<in> set (kids d m)" for n using assms(2) that by (simp add: menu_ok_def)
  have desc: "descendants d m = concat (map (\<lambda>n. n # kids d n) (kids d m))"
    by (rule descendants_2) (use assms(2) item in \<open>auto simp: menu_ok_def menu_item_def\<close>)
  have fa: "filter (\<lambda>n. ''active'' \<in> classes d n) (concat (map (\<lambda>n. n # kids d n) ns)) = filter (\<lambda>n. ''active'' \<in> classes d n) ns"
    if "\<forall>n \<in> set ns. menu_item d m n" for ns
    using that by (induction ns) (auto simp: menu_item_def)
  have fl: "filter (\<lambda>n. tag_of d n = ''li'') (concat (map (\<lambda>n. n # kids d n) ns)) = ns"
    if "\<forall>n \<in> set ns. menu_item d m n" for ns
    using that by (induction ns) (auto simp: menu_item_def)
  show "jq_find J d [m] ''.active'' = active_items d m"
    using assms(1) fa item by (simp add: jq_find_simple desc active_items_def)
  show "jq_find J d [m] ''li'' = kids d m"
    using assms(1) fl item by (simp add: jq_find_simple desc)
qed

text \<open>Marking one item.\<close>

lemma menu_unmark: "menu_ok d m \<Longrightarrow> menu_ok (dom_removeClass S c d) m"
proof -
  assume m: "menu_ok d m"
  have "menu_item (dom_removeClass S c d) m n" if "n \<in> set (kids d m)" for n
  proof -
    have "menu_item d m n" using m that by (simp add: menu_ok_def)
    then obtain a where "kids d n = [a]" "kids d a = []" "tag_of d a = ''a''" "a \<noteq> m" "tag_of d n = ''li''"
        "parent_of d n = Some m" "n \<noteq> m" "n < fresh_node d" "a < fresh_node d" "''active'' \<notin> classes d a"
      by (auto simp: menu_item_def)
    then show ?thesis unfolding menu_item_def by simp
  qed
  with m show ?thesis unfolding menu_ok_def by simp
qed


lemma menu_mark:
  assumes "menu_ok d m" "x \<in> set (kids d m)" "set S \<subseteq> set (kids d m)" "active_items d m = S"
    and d': "d' = dom_addClass [x] ''active'' (dom_removeClass S ''active'' d)"
  shows "menu_ok d' m" "active_items d' m = [x]" "kids d' m = kids d m"
proof -
  have links: "''active'' \<notin> classes d' a" if "n \<in> set (kids d m)" "kids d n = [a]" for n a
  proof -
    have "tag_of d a = ''a''" "''active'' \<notin> classes d a"
      using assms(1) that by (auto simp: menu_ok_def menu_item_def)
    moreover have "tag_of d x = ''li''" using assms(1,2) by (simp add: menu_ok_def menu_item_def)
    ultimately show ?thesis by (auto simp: d')
  qed
  have "kids d' = kids d" "parent_of d' = parent_of d" "tag_of d' = tag_of d" "fresh_node d' = fresh_node d"
    by (simp_all add: d')
  moreover have "menu_item d' m n" if n: "n \<in> set (kids d m)" for n
  proof -
    have "menu_item d m n" using assms(1) n by (simp add: menu_ok_def)
    then obtain a where a: "kids d n = [a]" "kids d a = []" "tag_of d a = ''a''" "a \<noteq> m" "tag_of d n = ''li''"
        "parent_of d n = Some m" "n \<noteq> m" "n < fresh_node d" "a < fresh_node d" by (auto simp: menu_item_def)
    from links [OF n a(1)] a calculation show ?thesis unfolding menu_item_def by simp
  qed
  ultimately show "menu_ok d' m" using assms(1) unfolding menu_ok_def by simp
  have dist: "distinct (kids d m)" using assms(1) by (simp add: menu_ok_def)
  have "(''active'' \<in> classes d' n) = (n = x)" if "n \<in> set (kids d m)" for n
    using that assms(4) by (auto simp: d' active_items_def)
  then have "filter (\<lambda>n. ''active'' \<in> classes d' n) (kids d m) = filter (\<lambda>n. n = x) (kids d m)"
    by (intro filter_cong) simp_all
  then show "active_items d' m = [x]" using filter_only [OF dist assms(2)] by (simp add: active_items_def d')
  show "kids d' m = kids d m" by (simp add: d')
qed

text \<open>Going through the items.\<close>

lemma menu_parent: "menu_ok d m \<Longrightarrow> n \<in> set (kids d m) \<Longrightarrow> parent_of d n = Some m"
  by (simp add: menu_ok_def menu_item_def)

lemma take1: "xs \<noteq> [] \<Longrightarrow> take (Suc 0) xs = [xs ! 0]"
  by (cases xs) simp_all

lemma mod_next: "i < n \<Longrightarrow> Suc i mod n = (if Suc i < n then Suc i else 0)"
  by (cases "Suc i = n") auto

lemma mod_prev: "i < n \<Longrightarrow> (i + n - 1) mod n = (if i = 0 then n - 1 else i - 1)" for n :: nat
proof (cases i)
  case (Suc j)
  assume "i < n"
  moreover have "i + n - 1 = j + n" using Suc by simp
  ultimately show ?thesis using Suc by simp
qed simp

lemma typeahead_next_eq:
  assumes J: "jquery_ok J" and m: "ta_menu w = [m]" "menu_ok d m" and a: "active_items d m = [kids d m ! i]" "i < length (kids d m)"
  shows "typeahead_next J (w, d) = (w, dom_addClass [kids d m ! (Suc i mod length (kids d m))] ''active'' (dom_removeClass [kids d m ! i] ''active'' d))"
proof -
  let ?ns = "kids d m"
  let ?j = "Suc i mod length ?ns"
  let ?d1 = "dom_removeClass [?ns ! i] ''active'' d"
  let ?d' = "dom_addClass [?ns ! ?j] ''active'' ?d1"
  have dist: "distinct ?ns" using m(2) by (simp add: menu_ok_def)
  have "dom_next ?d1 (?ns ! i) = (if Suc i < length ?ns then [?ns ! Suc i] else [])"
    using after_nth [OF dist a(2)] menu_parent [OF m(2), of "?ns ! i"] a(2) by (simp add: dom_next_def)
  moreover have "menu_ok ?d1 m" using m(2) by (rule menu_unmark)
  then have "jq_find J ?d1 [m] ''li'' = ?ns" using menu_find(2) [OF J] by simp
  moreover have "?ns \<noteq> []" using a(2) by auto
  then have "take (Suc 0) ?ns = [?ns ! 0]" by (rule take1)
  ultimately show ?thesis
    using mod_next [OF a(2)] a(2) by (auto simp: typeahead_next_def m(1) menu_find(1) [OF J m(2)] a(1) jq J Let_def)
qed

lemma typeahead_prev_eq:
  assumes J: "jquery_ok J" and m: "ta_menu w = [m]" "menu_ok d m" and a: "active_items d m = [kids d m ! i]" "i < length (kids d m)"
  shows "typeahead_prev J (w, d) = (w, dom_addClass [kids d m ! ((i + length (kids d m) - 1) mod length (kids d m))] ''active'' (dom_removeClass [kids d m ! i] ''active'' d))"
proof -
  let ?ns = "kids d m"
  let ?j = "(i + length ?ns - 1) mod length ?ns"
  let ?d1 = "dom_removeClass [?ns ! i] ''active'' d"
  let ?d' = "dom_addClass [?ns ! ?j] ''active'' ?d1"
  have dist: "distinct ?ns" using m(2) by (simp add: menu_ok_def)
  have "dom_prev ?d1 (?ns ! i) = (if i = 0 then [] else [?ns ! (i - 1)])"
    using before_nth [OF dist a(2)] menu_parent [OF m(2), of "?ns ! i"] a(2) by (simp add: dom_prev_def)
  moreover have "menu_ok ?d1 m" using m(2) by (rule menu_unmark)
  then have "jq_find J ?d1 [m] ''li'' = ?ns" using menu_find(2) [OF J] by simp
  moreover have "rev ?ns \<noteq> []" using a(2) by auto
  then have "take (Suc 0) (rev ?ns) = [?ns ! (length ?ns - 1)]" using take1 [of "rev ?ns"] by (simp add: rev_nth)
  ultimately show ?thesis
    using mod_prev [OF a(2)] a(2) by (auto simp: typeahead_prev_def m(1) menu_find(1) [OF J m(2)] a(1) jq J Let_def)
qed

section \<open>Lemmas on rendering\<close>

text \<open>An item as \<open>render\<close> builds it, and what building leaves alone: the elements that were there.\<close>

definition built :: "dom \<Rightarrow> node \<Rightarrow> string \<Rightarrow> string \<Rightarrow> bool" where
  "built d n item html \<longleftrightarrow> tag_of d n = ''li'' \<and> kids d n = [Suc n] \<and> kids d (Suc n) = [] \<and> tag_of d (Suc n) = ''a'' \<and>
     classes d n = {} \<and> classes d (Suc n) = {} \<and> attrs d n ''data-value'' = Some item \<and> html_of d (Suc n) = html"

definition same_below :: "node \<Rightarrow> dom \<Rightarrow> dom \<Rightarrow> bool" where
  "same_below k d e \<longleftrightarrow> (\<forall>p < k. kids e p = kids d p \<and> parent_of e p = parent_of d p \<and> tag_of e p = tag_of d p \<and>
     classes e p = classes d p \<and> attrs e p = attrs d p \<and> html_of e p = html_of d p \<and> displayed e p = displayed d p)"

lemma same_below_trans: "same_below k d e \<Longrightarrow> same_below l e f \<Longrightarrow> k \<le> l \<Longrightarrow> same_below k d f"
  by (auto simp: same_below_def)

lemma built_same: "built d n item html \<Longrightarrow> same_below k d e \<Longrightarrow> Suc n < k \<Longrightarrow> built e n item html"
  by (simp add: built_def same_below_def)

lemma render_item:
  assumes J: "jquery_ok J"
  shows "\<exists>e. jq_set_html J (jq_find J (jq_set_attr J [fresh_node d] ''data-value'' item (snd (create_item d))) [fresh_node d] ''a'') html
        (jq_set_attr J [fresh_node d] ''data-value'' item (snd (create_item d))) = e \<and>
     built e (fresh_node d) item html \<and> same_below (fresh_node d) d e \<and> fresh_node e = fresh_node d + 2"
proof -
  let ?n = "fresh_node d"
  let ?d2 = "jq_set_attr J [?n] ''data-value'' item (snd (create_item d))"
  have k: "kids ?d2 = (kids d)(?n := [Suc ?n], Suc ?n := [])" "fresh_node ?d2 = Suc (Suc ?n)" "tag_of ?d2 (Suc ?n) = ''a''"
    using J by (simp_all add: jq create_item_def Let_def)
  then have "descendants ?d2 ?n = [Suc ?n]" by (simp add: descendants_def)
  then have f: "jq_find J ?d2 [?n] ''a'' = [Suc ?n]" using jq_find_simple [OF J, of "''a''"] k(3) by simp
  show ?thesis unfolding f using J
    by (simp add: jq create_item_def Let_def built_def same_below_def upd_nodes_def)
qed

lemma render_items_spec:
  assumes J: "jquery_ok J" and item: "opt_item (ta_options w) = item_markup"
  shows "\<exists>e. render_items J w items d = (map (\<lambda>k. fresh_node d + 2 * k) [0..<length items], e) \<and>
     fresh_node e = fresh_node d + 2 * length items \<and> same_below (fresh_node d) d e \<and>
     (\<forall>k < length items. built e (fresh_node d + 2 * k) (items ! k) (the_highlighter w (items ! k)))"
proof (induction items arbitrary: d)
  case Nil
  then show ?case by (simp add: same_below_def)
next
  case (Cons item items)
  let ?n = "fresh_node d"
  obtain e1 where e1: "jq_set_html J (jq_find J (jq_set_attr J [?n] ''data-value'' item (snd (create_item d))) [?n] ''a'') (the_highlighter w item)
        (jq_set_attr J [?n] ''data-value'' item (snd (create_item d))) = e1"
      "built e1 ?n item (the_highlighter w item)" "same_below ?n d e1" "fresh_node e1 = ?n + 2"
    using render_item [OF J] by blast
  obtain e where e: "render_items J w items e1 = (map (\<lambda>k. fresh_node e1 + 2 * k) [0..<length items], e)"
      "fresh_node e = fresh_node e1 + 2 * length items" "same_below (fresh_node e1) e1 e"
      "\<forall>k < length items. built e (fresh_node e1 + 2 * k) (items ! k) (the_highlighter w (items ! k))"
    using Cons.IH by blast
  have "fst (create_item d) = [?n]" by (simp add: create_item_def Let_def)
  then have c: "jq_create J (opt_item (ta_options w)) d = ([?n], snd (create_item d))"
    using J by (simp add: jq item prod_eq_iff)
  have "map (\<lambda>k. ?n + 2 * k) [0..<length (item # items)] = ?n # map (\<lambda>k. fresh_node e1 + 2 * k) [0..<length items]"
    by (simp add: upt_conv_Cons map_Suc_upt [symmetric] e1(4) del: upt_Suc)
  then have "render_items J w (item # items) d = (map (\<lambda>k. ?n + 2 * k) [0..<length (item # items)], e)"
    by (simp add: c e1(1) e(1) Let_def)
  moreover have "fresh_node e = ?n + 2 * length (item # items)" using e(2) e1(4) by simp
  moreover have "same_below ?n d e" using same_below_trans [OF e1(3) e(3)] e1(4) by simp
  moreover have "built e (?n + 2 * k) ((item # items) ! k) (the_highlighter w ((item # items) ! k))"
    if "k < length (item # items)" for k
  proof (cases k)
    case 0
    then show ?thesis using built_same [OF e1(2) e(3)] e1(4) by simp
  next
    case (Suc j)
    then show ?thesis using that e(4) e1(4) by (simp add: algebra_simps)
  qed
  ultimately show ?case by blast
qed

section \<open>The invariant\<close>

text \<open>The menu in the page, outside of which the input element lies, with one marked item; the flag \<open>shown\<close> says
whether the menu is displayed.\<close>

definition typeahead_shape :: "typeahead \<Rightarrow> dom \<Rightarrow> node \<Rightarrow> node \<Rightarrow> bool" where
  "typeahead_shape w d m p \<longleftrightarrow> ta_menu w = [m] \<and> opt_item (ta_options w) = item_markup \<and> menu_ok d m \<and>
     parent_of d (ta_element w) = Some p \<and> ta_element w \<noteq> m \<and> ta_element w < fresh_node d \<and> p < fresh_node d \<and>
     p \<noteq> m \<and> p \<notin> set (kids d m) \<and> (\<forall>n \<in> set (kids d m). p \<notin> set (kids d n))"

definition one_marked :: "dom \<Rightarrow> node \<Rightarrow> bool" where
  "one_marked d m \<longleftrightarrow> kids d m = [] \<or> (\<exists>n \<in> set (kids d m). active_items d m = [n])"

definition typeahead_inv :: "typeahead_page \<Rightarrow> bool" where
  "typeahead_inv = (\<lambda>(w, d). \<exists>m p. typeahead_shape w d m p \<and> one_marked d m \<and> (ta_shown w \<longleftrightarrow> displayed d m))"

lemma shape_cong:
  assumes "typeahead_shape w d m p" "kids e = kids d" "parent_of e = parent_of d" "tag_of e = tag_of d"
    "classes e = classes d" "fresh_node e = fresh_node d"
    "ta_menu v = ta_menu w" "ta_options v = ta_options w" "ta_element v = ta_element w"
  shows "typeahead_shape v e m p" "active_items e m = active_items d m" "one_marked e m = one_marked d m"
  using assms unfolding typeahead_shape_def menu_ok_def menu_item_def active_items_def one_marked_def by simp_all

lemma shape_mark:
  assumes "typeahead_shape w d m p" "x \<in> set (kids d m)" "active_items d m = S"
    and e_def: "e = dom_addClass [x] ''active'' (dom_removeClass S ''active'' d)"
  shows "typeahead_shape w e m p" "one_marked e m"
proof -
  have "menu_ok d m" using assms(1) by (simp add: typeahead_shape_def)
  moreover have "set S \<subseteq> set (kids d m)" using assms(3) by (auto simp: active_items_def)
  ultimately have e: "menu_ok e m" "active_items e m = [x]" "kids e m = kids d m"
    using menu_mark [OF _ assms(2) _ assms(3) e_def] by simp_all
  then show "one_marked e m" using assms(2) by (auto simp: one_marked_def)
  have "kids e = kids d" "parent_of e = parent_of d" "fresh_node e = fresh_node d" by (simp_all add: assms(4))
  then show "typeahead_shape w e m p" using assms(1) e(1) by (simp add: typeahead_shape_def)
qed

lemma filter_take1: "distinct xs \<Longrightarrow> filter (\<lambda>n. n \<in> set (take 1 xs)) xs = take 1 xs"
  by (cases xs) (auto simp: filter_empty_conv)

lemma shape_render:
  assumes J: "jquery_ok J" and sh: "typeahead_shape w d m p"
  shows "\<exists>e. typeahead_render J items (w, d) = (w, e) \<and> typeahead_shape w e m p \<and> displayed e m = displayed d m \<and>
     kids e m = map (\<lambda>k. fresh_node d + 2 * k) [0..<length items] \<and>
     map (\<lambda>n. attrs e n ''data-value'') (kids e m) = map Some items \<and>
     map (\<lambda>n. map (html_of e) (kids e n)) (kids e m) = map (\<lambda>i. [the_highlighter w i]) items \<and>
     active_items e m = take 1 (kids e m)"
proof -
  let ?f = "fresh_node d"
  let ?ns = "map (\<lambda>k. ?f + 2 * k) [0..<length items]"
  have w: "ta_menu w = [m]" "opt_item (ta_options w) = item_markup" "menu_ok d m" "parent_of d (ta_element w) = Some p"
    and lt: "m < ?f" "2 \<le> ?f" "ta_element w < ?f" "p < ?f" and ne: "ta_element w \<noteq> m" "p \<noteq> m"
    using sh by (simp_all add: typeahead_shape_def menu_ok_def)
  obtain d1 where d1: "render_items J w items d = (?ns, d1)" "fresh_node d1 = ?f + 2 * length items" "same_below ?f d d1"
      "\<forall>k < length items. built d1 (?f + 2 * k) (items ! k) (the_highlighter w (items ! k))"
    using render_items_spec [OF J w(2)] by blast
  define d2 where "d2 = dom_addClass (take 1 ?ns) ''active'' d1"
  define e where "e = dom_set_content m ?ns d2"
  have old: "n < ?f" if "n \<in> set (kids d m)" for n using w(3) that by (simp add: menu_ok_def menu_item_def)
  have km: "kids d1 m = kids d m" using d1(3) lt by (simp add: same_below_def)
  have ke: "kids e n = (if n = m then ?ns else filter (\<lambda>k. k \<notin> set (kids d m @ ?ns)) (kids d1 n))" for n
    by (simp add: e_def d2_def dom_set_content_def dom_detach_def Let_def km)
  have fe: "fresh_node e = fresh_node d1" "tag_of e = tag_of d1" "attrs e = attrs d1" "html_of e = html_of d1"
      "displayed e = displayed d1" "classes e = classes d2"
    by (simp_all add: e_def d2_def dom_set_content_def dom_detach_def Let_def)
  have pe: "parent_of e n = (if n \<in> set ?ns then Some m else if n \<in> set (kids d m) then None else parent_of d1 n)" for n
    by (simp add: e_def d2_def dom_set_content_def dom_detach_def Let_def upd_nodes_def km)
  have odd: "Suc n \<notin> set ?ns" if "n \<in> set ?ns" for n
  proof
    assume "Suc n \<in> set ?ns"
    with that obtain j k where "Suc (?f + 2 * k) = ?f + 2 * j" by auto
    then show False by presburger
  qed
  have b: "tag_of e n = ''li'' \<and> kids e n = [Suc n] \<and> kids e (Suc n) = [] \<and> tag_of e (Suc n) = ''a'' \<and>
      classes d1 n = {} \<and> ''active'' \<notin> classes e (Suc n) \<and> Suc n < fresh_node e \<and> n \<noteq> m \<and> Suc n \<noteq> m"
    if n: "n \<in> set ?ns" for n
  proof -
    obtain k where k: "n = ?f + 2 * k" "k < length items" using n by auto
    then have bu: "built d1 n (items ! k) (the_highlighter w (items ! k))" using d1(4) by simp
    have "Suc n \<notin> set (kids d m)" using old k(1) by fastforce
    moreover have "n \<noteq> m" "Suc n \<noteq> m" using k lt by simp_all
    moreover have "Suc n \<notin> set (take 1 ?ns)" using odd [OF n] in_set_takeD by metis
    then have "classes d2 (Suc n) = {}" using bu unfolding d2_def built_def by simp
    moreover have "Suc n < fresh_node e" using k d1(2) fe(1) by simp
    ultimately show ?thesis using bu odd [OF n] unfolding built_def ke fe(2,6) by simp
  qed
  have dist: "distinct ?ns" by (simp add: distinct_map inj_on_def)
  have item: "menu_item e m n" if "n \<in> set ?ns" for n
    using b [OF that] pe [of n] that unfolding menu_item_def by auto
  have "ta_element w \<notin> set (kids d m)" using menu_parent [OF w(3)] w(4) ne(2) by auto
  moreover have "ta_element w \<notin> set ?ns" "p \<notin> set ?ns" using lt by auto
  moreover have "parent_of d1 (ta_element w) = Some p" using d1(3) lt w(4) by (simp add: same_below_def)
  ultimately have "parent_of e (ta_element w) = Some p" "p \<notin> set (kids e m)" by (simp_all add: pe ke)
  moreover have "p \<notin> set (kids e n)" if "n \<in> set ?ns" for n using b [OF that] lt that by auto
  moreover have "fresh_node e \<ge> ?f" using d1(2) fe(1) by simp
  moreover have "kids e m = ?ns" by (simp add: ke)
  moreover have "menu_ok e m"
    using item dist lt \<open>kids e m = ?ns\<close> \<open>fresh_node e \<ge> ?f\<close> unfolding menu_ok_def by simp
  ultimately have "typeahead_shape w e m p" using w(1,2) lt ne unfolding typeahead_shape_def by simp
  moreover have "typeahead_render J items (w, d) = (w, e)"
    using J by (simp add: typeahead_render_def d1(1) w(1) jq e_def d2_def Let_def)
  moreover have "displayed e m = displayed d m" using d1(3) lt fe(5) by (simp add: same_below_def)
  moreover have "map (\<lambda>n. attrs e n ''data-value'') ?ns = map Some items"
    using d1(4) fe(3) by (intro nth_equalityI) (simp_all add: built_def)
  moreover have "map (\<lambda>n. map (html_of e) (kids e n)) ?ns = map (\<lambda>i. [the_highlighter w i]) items"
    using d1(4) fe(4) b by (intro nth_equalityI) (simp_all add: built_def)
  moreover have "(''active'' \<in> classes e n) = (n \<in> set (take 1 ?ns))" if "n \<in> set ?ns" for n
    using b [OF that] by (simp add: fe(6) d2_def)
  then have "filter (\<lambda>n. ''active'' \<in> classes e n) ?ns = filter (\<lambda>n. n \<in> set (take 1 ?ns)) ?ns"
    by (intro filter_cong) simp_all
  then have "active_items e m = take 1 ?ns"
    using \<open>kids e m = ?ns\<close> filter_take1 [OF dist] by (simp add: active_items_def)
  ultimately show ?thesis using \<open>kids e m = ?ns\<close> by auto
qed

lemma shape_show:
  assumes J: "jquery_ok J" and sh: "typeahead_shape w d m p"
  shows "\<exists>e. typeahead_show J (w, d) = (w\<lparr>ta_shown := True\<rparr>, e) \<and> typeahead_shape w e m p \<and> displayed e m \<and>
     kids e m = kids d m \<and> active_items e m = active_items d m \<and> one_marked e m = one_marked d m \<and>
     attrs e = attrs d \<and> parent_of e m = Some p"
proof -
  let ?d1 = "dom_insertAfter [m] (ta_element w) p d"
  have w: "ta_menu w = [m]" "opt_item (ta_options w) = item_markup" "menu_ok d m" "parent_of d (ta_element w) = Some p"
    and lt: "ta_element w < fresh_node d" "p < fresh_node d" and ne: "ta_element w \<noteq> m" "p \<noteq> m" "p \<notin> set (kids d m)"
    and pk: "\<forall>n \<in> set (kids d m). p \<notin> set (kids d n)"
    using sh by (simp_all add: typeahead_shape_def)
  obtain t l where tl: "jq_position J d [ta_element w] = (t, l)" by (cases "jq_position J d [ta_element w]")
  define e where "e = jq_show J [m] (jq_css J [m] ''left'' (Px l) (jq_css J [m] ''top'' (Px (t + jq_size J d [ta_element w] ''offsetHeight'')) ?d1))"
  have k1: "kids e n = (if n = p then insert_after (ta_element w) [m] (filter (\<lambda>k. k \<noteq> m) (kids d n)) else filter (\<lambda>k. k \<noteq> m) (kids d n))" for n
    using J by (simp add: e_def jq dom_insertAfter_def dom_detach_def Let_def)
  have p1: "parent_of e n = (if n = m then Some p else parent_of d n)" for n
    using J by (simp add: e_def jq dom_insertAfter_def dom_detach_def Let_def upd_nodes_def)
  have f1: "fresh_node e = fresh_node d" "tag_of e = tag_of d" "classes e = classes d" "displayed e m" "attrs e = attrs d"
    using J by (simp_all add: e_def jq dom_insertAfter_def dom_detach_def Let_def upd_nodes_def)
  have items: "menu_item d m n" if "n \<in> set (kids d m)" for n using w(3) that by (simp add: menu_ok_def)
  have "m \<notin> set (kids d m)" using items by (force simp: menu_item_def)
  then have km: "kids e m = kids d m" using ne(2) by (simp add: k1 filter_id_conv) metis
  have item: "menu_item e m n \<and> kids e n = kids d n" if n: "n \<in> set (kids d m)" for n
  proof -
    obtain a where a: "kids d n = [a]" "kids d a = []" "tag_of d a = ''a''" "a \<noteq> m" "tag_of d n = ''li''"
        "parent_of d n = Some m" "n \<noteq> m" "n < fresh_node d" "a < fresh_node d" "''active'' \<notin> classes d a"
      using items [OF n] by (auto simp: menu_item_def)
    moreover have "p \<noteq> n" "p \<noteq> a" using n ne pk a(1) by auto
    ultimately have "kids e n = [a]" "kids e a = []" by (simp_all add: k1)
    with a show ?thesis unfolding menu_item_def by (simp add: p1 f1)
  qed
  have "menu_ok e m" using w(3) item km unfolding menu_ok_def by (simp add: f1)
  then have "typeahead_shape w e m p"
    using w lt ne pk item unfolding typeahead_shape_def by (simp add: f1 km p1)
  moreover have "active_items e m = active_items d m" by (simp add: active_items_def km f1)
  moreover have "typeahead_show J (w, d) = (w\<lparr>ta_shown := True\<rparr>, e)"
    using J w(1,4) ne by (simp add: typeahead_show_def tl e_def Let_def jq)
  ultimately show ?thesis using f1 km by (simp add: one_marked_def p1)
qed

text \<open>One lemma per operation.\<close>

lemma shape_widget [simp]:
  "typeahead_shape (w\<lparr>ta_shown := b\<rparr>) = typeahead_shape w"
  "typeahead_shape (w\<lparr>ta_query := q\<rparr>) = typeahead_shape w"
  "typeahead_shape (w\<lparr>ta_focused := b\<rparr>) = typeahead_shape w"
  "typeahead_shape (w\<lparr>ta_mousedover := b\<rparr>) = typeahead_shape w"
  "typeahead_shape (w\<lparr>ta_suppressKeyPressRepeat := b\<rparr>) = typeahead_shape w"
  by (simp_all add: fun_eq_iff typeahead_shape_def)

lemma typeahead_invI:
  "typeahead_shape w d m p \<Longrightarrow> one_marked d m \<Longrightarrow> ta_shown w = displayed d m \<Longrightarrow> typeahead_inv (w, d)"
  unfolding typeahead_inv_def by blast

lemma inv_widget:
  assumes "typeahead_inv (w, d)"
  shows "typeahead_inv (w\<lparr>ta_query := q\<rparr>, d)" "typeahead_inv (w\<lparr>ta_focused := b\<rparr>, d)"
    "typeahead_inv (w\<lparr>ta_mousedover := b\<rparr>, d)" "typeahead_inv (w\<lparr>ta_suppressKeyPressRepeat := b\<rparr>, d)"
  using assms by (simp_all add: typeahead_inv_def)

lemma typeahead_hide_inv: "jquery_ok J \<Longrightarrow> typeahead_inv s \<Longrightarrow> typeahead_inv (typeahead_hide J s)"
proof -
  assume J: "jquery_ok J" and i: "typeahead_inv s"
  obtain w d where s: "s = (w, d)" by (cases s)
  obtain m p where sh: "typeahead_shape w d m p" "one_marked d m" using i by (auto simp: s typeahead_inv_def)
  let ?e = "d\<lparr>displayed := upd_nodes [m] (\<lambda>_. False) (displayed d)\<rparr>"
  have "typeahead_shape w ?e m p" "one_marked ?e m = one_marked d m" using shape_cong [OF sh(1), of ?e w] by simp_all
  then show ?thesis using J sh unfolding typeahead_inv_def s typeahead_hide_def
    by (auto simp: jq typeahead_shape_def upd_nodes_def)
qed

lemma typeahead_hide_if_shown_inv: "jquery_ok J \<Longrightarrow> typeahead_inv s \<Longrightarrow> typeahead_inv (typeahead_hide_if_shown J s)"
  by (simp add: typeahead_hide_if_shown_def typeahead_hide_inv)

lemma typeahead_show_inv:
  assumes "jquery_ok J" "typeahead_shape w d m p" "one_marked d m"
  shows "typeahead_inv (typeahead_show J (w, d))"
proof -
  obtain e where e: "typeahead_show J (w, d) = (w\<lparr>ta_shown := True\<rparr>, e)" "typeahead_shape w e m p" "displayed e m"
      "one_marked e m = one_marked d m"
    using shape_show [OF assms(1,2)] by blast
  have "typeahead_inv (w\<lparr>ta_shown := True\<rparr>, e)"
    by (rule typeahead_invI [of _ _ m p]) (use e assms(3) in simp_all)
  then show ?thesis by (simp add: e(1))
qed

lemma typeahead_select_inv:
  assumes "jquery_ok J" "quiet J" "typeahead_inv s"
  shows "typeahead_inv (typeahead_select J s)"
proof -
  obtain w d where s: "s = (w, d)" by (cases s)
  obtain m p where sh: "typeahead_shape w d m p" "one_marked d m" "ta_shown w \<longleftrightarrow> displayed d m"
    using assms(3) by (auto simp: s typeahead_inv_def)
  let ?e = "\<lambda>u. jq_set_val J [ta_element w] u d"
  have "typeahead_shape w (?e u) m p" "one_marked (?e u) m" "displayed (?e u) = displayed d" for u
    using shape_cong [OF sh(1), of "?e u" w] sh(2) assms(1) by (simp_all add: jq)
  then have "typeahead_inv (w, ?e u)" for u using sh(3) unfolding typeahead_inv_def by auto
  then show ?thesis using assms(1,2) typeahead_hide_inv by (simp add: typeahead_select_def s Let_def)
qed

lemma one_marked_take1: "active_items d m = take 1 (kids d m) \<Longrightarrow> one_marked d m"
  by (cases "kids d m") (simp_all add: one_marked_def)

lemma typeahead_process_inv:
  assumes "jquery_ok J" "typeahead_inv s"
  shows "typeahead_inv (typeahead_process J items s)"
proof -
  obtain w d where s: "s = (w, d)" by (cases s)
  obtain m p where sh: "typeahead_shape w d m p" using assms(2) by (auto simp: s typeahead_inv_def)
  have "typeahead_inv (typeahead_show J (typeahead_render J xs s))" for xs
  proof -
    obtain e where "typeahead_render J xs (w, d) = (w, e)" "typeahead_shape w e m p" "active_items e m = take 1 (kids e m)"
      using shape_render [OF assms(1) sh, of xs] by blast
    then show ?thesis using typeahead_show_inv [OF assms(1)] one_marked_take1 by (simp add: s)
  qed
  then show ?thesis using typeahead_hide_if_shown_inv [OF assms] by (simp add: typeahead_process_def Let_def)
qed

lemma typeahead_lookup_inv:
  assumes "jquery_ok J" "typeahead_inv s"
  shows "typeahead_inv (typeahead_lookup J s)"
proof -
  obtain w d where s: "s = (w, d)" by (cases s)
  have "typeahead_inv (w\<lparr>ta_query := q\<rparr>, d)" for q using inv_widget(1) assms(2) by (simp add: s)
  then show ?thesis using typeahead_process_inv [OF assms(1)] typeahead_hide_if_shown_inv [OF assms(1)]
    by (simp add: typeahead_lookup_def s Let_def split: typeahead_source.split option.split)
qed

text \<open>Moving the mark, to the next or previous item or to the one under the mouse.\<close>

lemma mark_inv:
  assumes "typeahead_inv (w, d)" "ta_menu w = [m]" "x \<in> set (kids d m)" "S = active_items d m"
  shows "typeahead_inv (w, dom_addClass [x] ''active'' (dom_removeClass S ''active'' d))"
proof -
  obtain p where sh: "typeahead_shape w d m p" "ta_shown w \<longleftrightarrow> displayed d m"
    using assms(1,2) by (auto simp: typeahead_inv_def typeahead_shape_def)
  from shape_mark [OF sh(1) assms(3) assms(4) [symmetric] refl] show ?thesis
    by (rule typeahead_invI) (use sh(2) in \<open>simp add: dom_addClass_def dom_removeClass_def\<close>)
qed

lemma typeahead_next_empty:
  assumes "jquery_ok J" "ta_menu w = [m]" "menu_ok d m" "kids d m = []"
  shows "typeahead_next J (w, d) = (w, d)" "typeahead_prev J (w, d) = (w, d)"
  using assms menu_find [OF assms(1,3)]
  by (simp_all add: typeahead_next_def typeahead_prev_def jq active_items_def Let_def)

lemma inv_cases:
  assumes "typeahead_inv (w, d)"
  obtains m where "ta_menu w = [m]" "menu_ok d m" "kids d m = []"
  | m i where "ta_menu w = [m]" "menu_ok d m" "i < length (kids d m)" "active_items d m = [kids d m ! i]"
proof -
  obtain m p where m: "typeahead_shape w d m p" "one_marked d m" using assms by (auto simp: typeahead_inv_def)
  then have "ta_menu w = [m]" "menu_ok d m" by (simp_all add: typeahead_shape_def)
  then show thesis using that m(2) unfolding one_marked_def by (metis in_set_conv_nth)
qed

lemma typeahead_next_inv:
  assumes J: "jquery_ok J" and i: "typeahead_inv s"
  shows "typeahead_inv (typeahead_next J s)" "typeahead_inv (typeahead_prev J s)"
proof -
  obtain w d where s: "s = (w, d)" by (cases s)
  have iw: "typeahead_inv (w, d)" using i by (simp add: s)
  have "typeahead_inv (typeahead_next J (w, d)) \<and> typeahead_inv (typeahead_prev J (w, d))"
    using iw
  proof (cases rule: inv_cases)
    case (1 m)
    then show ?thesis using typeahead_next_empty [OF J 1] iw by simp
  next
    case (2 m k)
    then have "0 < length (kids d m)" by linarith
    then have "Suc k mod length (kids d m) < length (kids d m)" "(k + length (kids d m) - 1) mod length (kids d m) < length (kids d m)"
      by (rule mod_less_divisor)+
    then show ?thesis
      using typeahead_next_eq [OF J 2(1,2,4,3)] typeahead_prev_eq [OF J 2(1,2,4,3)] mark_inv [OF iw 2(1)] 2(4)
      by simp
  qed
  then show "typeahead_inv (typeahead_next J s)" "typeahead_inv (typeahead_prev J s)" by (simp_all add: s)
qed

lemma typeahead_move_inv: "jquery_ok J \<Longrightarrow> typeahead_inv s \<Longrightarrow> typeahead_inv (snd (typeahead_move J k s))"
  by (simp add: typeahead_move_def typeahead_next_inv)

lemma typeahead_focus_inv: "typeahead_inv s \<Longrightarrow> typeahead_inv (typeahead_focus s)"
  by (cases s) (simp add: typeahead_focus_def inv_widget)

lemma jq_focus_inv:
  assumes "jquery_ok J" "typeahead_inv (w, d)"
  shows "typeahead_inv (w, jq_focus J [ta_element w] d)"
proof -
  obtain m p where sh: "typeahead_shape w d m p" "one_marked d m" "ta_shown w \<longleftrightarrow> displayed d m"
    using assms(2) by (auto simp: typeahead_inv_def)
  from shape_cong [OF sh(1), of "d\<lparr>focused := Some (ta_element w)\<rparr>" w] sh show ?thesis
    using assms(1) typeahead_invI [of w "d\<lparr>focused := Some (ta_element w)\<rparr>" m p] by (simp add: jq)
qed

lemma typeahead_click_inv:
  assumes "jquery_ok J" "quiet J" "typeahead_inv s"
  shows "typeahead_inv (snd (typeahead_click J s))"
proof -
  obtain w d where s: "typeahead_select J s = (w, d)" by (cases "typeahead_select J s")
  have "typeahead_inv (w, jq_focus J [ta_element w] d)"
    using jq_focus_inv [OF assms(1)] typeahead_select_inv [OF assms] by (simp add: s)
  then show ?thesis using typeahead_focus_inv by (simp add: typeahead_click_def s)
qed

lemma typeahead_mouseenter_inv:
  assumes J: "jquery_ok J" and i: "typeahead_inv (w, d)" and n: "n \<in> set (jq_find J d (ta_menu w) ''li'')"
  shows "typeahead_inv (typeahead_mouseenter J n (w, d))"
proof -
  obtain m where m: "ta_menu w = [m]" "menu_ok d m" using i by (auto simp: typeahead_inv_def typeahead_shape_def)
  have "n \<in> set (kids d m)" using n menu_find(2) [OF J m(2)] m(1) by simp
  from mark_inv [OF i m(1) this refl] show ?thesis
    using menu_find(1) [OF J m(2)] J m(1) inv_widget(3) by (simp add: typeahead_mouseenter_def Let_def jq)
qed

lemma typeahead_step_inv:
  assumes J: "jquery_ok J" "quiet J" and i: "typeahead_inv s"
  shows "typeahead_inv (typeahead_step J e s)"
proof -
  obtain w d where s: "s = (w, d)" by (cases s)
  note w = inv_widget [OF i [unfolded s]]
  note ops = typeahead_move_inv [OF J(1)] typeahead_hide_inv [OF J(1)] typeahead_select_inv [OF J]
  show ?thesis
  proof (cases e)
    case Ta_focus then show ?thesis using typeahead_focus_inv [OF i] by simp
  next
    case Ta_blur then show ?thesis using ops(2) w(2) by (simp add: s typeahead_blur_def Let_def)
  next
    case (Ta_keypress k) then show ?thesis using ops(1) i by (simp add: typeahead_keypress_def)
  next
    case (Ta_keyup k) then show ?thesis using ops i typeahead_lookup_inv [OF J(1) i] by (simp add: typeahead_keyup_def)
  next
    case (Ta_keydown k) then show ?thesis using ops(1) w(4) by (simp add: s typeahead_keydown_def)
  next
    case Ta_click then show ?thesis using typeahead_click_inv [OF J i] by simp
  next
    case (Ta_mouseenter n) then show ?thesis using typeahead_mouseenter_inv [OF J(1), of w d n] i by (simp add: s)
  next
    case (Ta_mouseleave n) then show ?thesis using ops(2) w(3) i by (simp add: s typeahead_mouseleave_def Let_def)
  next
    case (Source_answer items) then show ?thesis using typeahead_process_inv [OF J(1) i] by simp
  qed
qed

lemma typeahead_run_inv:
  "jquery_ok J \<Longrightarrow> quiet J \<Longrightarrow> typeahead_inv s \<Longrightarrow> typeahead_inv (typeahead_run J es s)"
proof (induction es arbitrary: s)
  case (Cons e es)
  from Cons.IH [OF Cons.prems(1,2) typeahead_step_inv [OF Cons.prems]] show ?case by (simp add: typeahead_run_def)
qed (simp add: typeahead_run_def)

text \<open>A new box over an element of the document.\<close>

lemma typeahead_new_inv:
  assumes J: "jquery_ok J" and o: "opt_menu opts = menu_markup" "opt_item opts = item_markup"
    and el: "element < fresh_node d" "parent_of d element = Some p" "p < fresh_node d"
    and n: "typeahead_new J element opts d = (None, s)"
  shows "typeahead_inv s"
proof -
  let ?m = "fresh_node d"
  have "s = (\<lparr>ta_element = element, ta_menu = [?m], ta_options = opts, ta_query = [], ta_shown = False,
      ta_focused = False, ta_mousedover = False, ta_suppressKeyPressRepeat = False\<rparr>, snd (create_menu d))"
    using n J o by (auto simp: typeahead_new_def jq create_menu_def Let_def split: sum.splits)
  then show ?thesis
    using o el by (auto simp: typeahead_shape_def menu_ok_def one_marked_def create_menu_def Let_def intro!: typeahead_invI [of _ _ ?m p])
qed

section \<open>Lemmas on marking\<close>

text \<open>The marked text is the item cut into parts, some of them marked; a marked part is the query, up to case.\<close>

definition render_parts :: "(bool \<times> string) list \<Rightarrow> string" where
  "render_parts ps = concat (map (\<lambda>(m, s). if m then mark_match s else s) ps)"

lemma replace_steps:
  assumes "q \<noteq> []"
  shows "replace_all_ci q f [] = []"
    and "prefix (toLowerCase q) (toLowerCase (c # t)) \<Longrightarrow>
      replace_all_ci q f (c # t) = f (take (length q) (c # t)) @ replace_all_ci q f (drop (length q) (c # t))"
    and "\<not> prefix (toLowerCase q) (toLowerCase (c # t)) \<Longrightarrow> replace_all_ci q f (c # t) = c # replace_all_ci q f t"
  using assms by (subst replace_all_ci.simps; simp)+

text \<open>The parts cover the matches: a marked part equals the query up to case, and in an unmarked part no occurrence of the query
starts, also none that reaches into the parts behind it.\<close>

fun matches_marked :: "string \<Rightarrow> (bool \<times> string) list \<Rightarrow> bool" where
  "matches_marked q [] = True"
| "matches_marked q ((m, t) # ps) \<longleftrightarrow> matches_marked q ps \<and>
     (if m then toLowerCase t = toLowerCase q
      else \<forall>j < length t. \<not> prefix (toLowerCase q) (toLowerCase (drop j t @ concat (map snd ps))))"

lemma matches_marked_append: "matches_marked q (us @ ps) \<Longrightarrow> matches_marked q ps"
  by (induction us) auto

lemma matches_marked_part:
  "matches_marked q (us @ (m, t) # vs) \<Longrightarrow>
     (if m then toLowerCase t = toLowerCase q
      else \<forall>j < length t. \<not> prefix (toLowerCase q) (toLowerCase (drop j t @ concat (map snd vs))))"
  by (drule matches_marked_append) (unfold matches_marked.simps, erule conjunct2)

lemma matches_marked_some:
  assumes "matches_marked q ps" "q \<noteq> []"
  shows "(\<exists>t. (True, t) \<in> set ps) \<longleftrightarrow> sublist (toLowerCase q) (toLowerCase (concat (map snd ps)))"
proof
  assume "\<exists>t. (True, t) \<in> set ps"
  then obtain t us vs where "ps = us @ (True, t) # vs" by (meson split_list)
  then show "sublist (toLowerCase q) (toLowerCase (concat (map snd ps)))"
    using matches_marked_part [of q us True t vs] assms(1) by (auto simp: sublist_def simp del: toLowerCase_simps(2))
next
  assume "sublist (toLowerCase q) (toLowerCase (concat (map snd ps)))"
  then show "\<exists>t. (True, t) \<in> set ps" using assms
  proof (induction ps)
    case (Cons p ps)
    obtain m t where p: "p = (m, t)" by (cases p)
    show ?case
    proof (cases m)
      case False
      let ?r = "toLowerCase (concat (map snd ps))"
      from Cons.prems(1) obtain us vs where uv: "toLowerCase t @ ?r = us @ toLowerCase q @ vs"
        unfolding p sublist_def by auto
      have "length t \<le> length us"
      proof (rule ccontr)
        assume "\<not> length t \<le> length us"
        then have "\<not> prefix (toLowerCase q) (toLowerCase (drop (length us) t @ concat (map snd ps)))"
          using Cons.prems(2) False by (simp add: p)
        moreover have "toLowerCase (drop (length us) t @ concat (map snd ps)) = toLowerCase q @ vs"
          using arg_cong [OF uv, of "drop (length us)"] \<open>\<not> length t \<le> length us\<close> by simp
        ultimately show False by simp
      qed
      then have "?r = drop (length t) us @ toLowerCase q @ vs"
        using arg_cong [OF uv, of "drop (length t)"] by simp
      then have "sublist (toLowerCase q) ?r" unfolding sublist_def by blast
      then show ?thesis using Cons by (auto simp: p)
    qed (auto simp: p)
  qed (simp add: sublist_Nil_right)
qed

lemma replace_parts:
  "q \<noteq> [] \<Longrightarrow> \<exists>ps. replace_all_ci q mark_match s = render_parts ps \<and> concat (map snd ps) = s \<and> matches_marked q ps"
proof (induction q "mark_match" s rule: replace_all_ci.induct)
  case (1 q s)
  note q = 1(3)
  show ?case
  proof (cases s)
    case Nil
    then show ?thesis using replace_steps(1) [OF q] by (intro exI [of _ "[]"]) (simp add: render_parts_def)
  next
    case (Cons c t)
    show ?thesis
    proof (cases "prefix (toLowerCase q) (toLowerCase (c # t))")
      case True
      with Cons obtain ps where ps: "replace_all_ci q mark_match (drop (length q) (c # t)) = render_parts ps"
          "concat (map snd ps) = drop (length q) (c # t)" "matches_marked q ps"
        using 1(1) [OF q Cons _ q] by blast
      have "toLowerCase (take (length q) (c # t)) = toLowerCase q"
        using True by (auto simp: prefix_def simp del: toLowerCase_simps(2))
      moreover have "replace_all_ci q mark_match (c # t) = render_parts ((True, take (length q) (c # t)) # ps)"
        using replace_steps(2) [OF q True] ps(1) by (simp add: render_parts_def)
      moreover have "concat (map snd ((True, take (length q) (c # t)) # ps)) = c # t"
        using ps(2) by (simp del: take_Cons_numeral)
      ultimately show ?thesis using ps(3) unfolding Cons by (intro exI [of _ "(True, take (length q) (c # t)) # ps"]) simp
    next
      case False
      with Cons obtain ps where ps: "replace_all_ci q mark_match t = render_parts ps"
          "concat (map snd ps) = t" "matches_marked q ps"
        using 1(2) [OF q Cons _ q] by blast
      have "replace_all_ci q mark_match (c # t) = render_parts ((False, [c]) # ps)"
        using replace_steps(3) [OF q False] ps(1) by (simp add: render_parts_def)
      then show ?thesis using ps(2,3) False unfolding Cons by (intro exI [of _ "(False, [c]) # ps"]) simp
    qed
  qed
qed

section \<open>An example\<close>

definition example_page :: dom where
  "example_page = empty_dom\<lparr>fresh_node := 2, kids := (\<lambda>n. if n = 0 then [1] else []),
     parent_of := [1 \<mapsto> 0], val_of := (\<lambda>_. ''Fo'')\<rparr>"

definition example_box :: typeahead_page where
  "example_box = snd (typeahead_new (jquery_instance None (\<lambda>_ _ _. False)) 1
     (typeahead_defaults\<lparr>opt_source := Source_array [''bar'', ''a foo'', ''Food'']\<rparr>) example_page)"

lemma example_box_inv: "typeahead_inv example_box"
proof -
  let ?J = "jquery_instance None (\<lambda>_ _ _. False)"
  have "eventSupported ?J ''keydown'' = Inr True" by (simp add: eventSupported_def jquery_instance_def)
  then have "typeahead_new ?J 1 (typeahead_defaults\<lparr>opt_source := Source_array [''bar'', ''a foo'', ''Food'']\<rparr>) example_page = (None, example_box)"
    unfolding example_box_def by (simp add: typeahead_new_def typeahead_listen_def split_beta)
  then show ?thesis
    by (rule typeahead_new_inv [where p = 0, rotated 6]) (simp_all add: typeahead_defaults_def example_page_def)
qed

section \<open>Properties\<close>

text \<open>The suggestions: an answer of the source fills the menu with the first of the sorted matches, in order, marks the first and shows the menu.\<close>

theorem typeahead_process_shows:
  assumes "jquery_ok J" "typeahead_inv (w, d)" "the_sorter w (filter (the_matcher w) items) \<noteq> []"
  shows "\<exists>e m. typeahead_process J items (w, d) = (w\<lparr>ta_shown := True\<rparr>, e) \<and> ta_menu w = [m] \<and> displayed e m \<and>
     map (\<lambda>n. attrs e n ''data-value'') (kids e m) =
       map Some (slice0 (opt_items (ta_options w)) (the_sorter w (filter (the_matcher w) items))) \<and>
     active_items e m = take 1 (kids e m)"
proof -
  let ?xs = "slice0 (opt_items (ta_options w)) (the_sorter w (filter (the_matcher w) items))"
  obtain m p where sh: "typeahead_shape w d m p" using assms(2) by (auto simp: typeahead_inv_def)
  then have m: "ta_menu w = [m]" by (simp add: typeahead_shape_def)
  obtain e1 where e1: "typeahead_render J ?xs (w, d) = (w, e1)" "typeahead_shape w e1 m p"
      "map (\<lambda>n. attrs e1 n ''data-value'') (kids e1 m) = map Some ?xs" "active_items e1 m = take 1 (kids e1 m)"
    using shape_render [OF assms(1) sh, of ?xs] by blast
  obtain e where e: "typeahead_show J (w, e1) = (w\<lparr>ta_shown := True\<rparr>, e)" "displayed e m" "kids e m = kids e1 m"
      "active_items e m = active_items e1 m" "attrs e = attrs e1"
    using shape_show [OF assms(1) e1(2)] by blast
  have "typeahead_process J items (w, d) = (w\<lparr>ta_shown := True\<rparr>, e)"
    using assms(3) e1(1) e(1) by (simp add: typeahead_process_def Let_def)
  with m e e1 show ?thesis by (intro exI [of _ e] exI [of _ m]) simp
qed

lemma example_box_matches:
  "the_sorter (fst example_box\<lparr>ta_query := ''fo''\<rparr>) (filter (the_matcher (fst example_box\<lparr>ta_query := ''fo''\<rparr>)) [''bar'', ''a foo'', ''Food''])
     = [''Food'', ''a foo'']"
  by (simp add: the_sorter_def the_matcher_def example_box_def typeahead_new_def typeahead_listen_def eventSupported_def
      jquery_instance_def typeahead_defaults_def split_beta del: filter.simps) code_simp

lemma example_box_items: "opt_items (ta_options (fst example_box)) = 8"
  by (simp add: example_box_def typeahead_new_def typeahead_listen_def eventSupported_def
      jquery_instance_def typeahead_defaults_def split_beta)

theorem typeahead_process_shows_witness:
  "\<exists>e m. typeahead_process (jquery_instance None (\<lambda>_ _ _. False)) [''bar'', ''a foo'', ''Food'']
       (fst example_box\<lparr>ta_query := ''fo''\<rparr>, snd example_box) = (fst example_box\<lparr>ta_query := ''fo'', ta_shown := True\<rparr>, e) \<and>
     map (\<lambda>n. attrs e n ''data-value'') (kids e m) = [Some ''Food'', Some ''a foo''] \<and> displayed e m"
proof -
  let ?w = "fst example_box\<lparr>ta_query := ''fo''\<rparr>"
  have i: "typeahead_inv (?w, snd example_box)"
    using inv_widget(1) [of "fst example_box" "snd example_box"] example_box_inv by simp
  have "the_sorter ?w (filter (the_matcher ?w) [''bar'', ''a foo'', ''Food'']) \<noteq> []"
    unfolding example_box_matches by simp
  from typeahead_process_shows [OF jquery_instance_ok i this] obtain e m where
    "typeahead_process (jquery_instance None (\<lambda>_ _ _. False)) [''bar'', ''a foo'', ''Food''] (?w, snd example_box) = (?w\<lparr>ta_shown := True\<rparr>, e)"
    "displayed e m" "map (\<lambda>n. attrs e n ''data-value'') (kids e m) = map Some (slice0 (opt_items (ta_options ?w)) [''Food'', ''a foo''])"
    unfolding example_box_matches by blast
  then show ?thesis by (intro exI [of _ e] exI [of _ m]) (simp add: example_box_items slice0_def)
qed

text \<open>C25. The order of the suggestions: for a query, the default sorter keeps every match, first those that begin with the query up to case, then those that contain it as written, then the others, each group in the order of the source.\<close>

theorem typeahead_orders:
  assumes "query \<noteq> []"
  shows "let xs = filter (typeahead_matcher query) items in
     typeahead_sorter query xs = filter (begins_with query) xs @
       filter (\<lambda>x. \<not> begins_with query x \<and> has_exactly query x) xs @
       filter (\<lambda>x. \<not> begins_with query x \<and> \<not> has_exactly query x) xs \<and>
     mset (typeahead_sorter query xs) = mset xs"
proof -
  have ne: "[] \<notin> set (filter (typeahead_matcher query) items)" using matched_nonempty [OF assms] by auto
  show ?thesis unfolding Let_def using typeahead_sorter_eq [OF ne] mset_typeahead_sorter [OF ne] by blast
qed

theorem typeahead_orders_witness:
  "mset (typeahead_sorter ''fo'' (filter (typeahead_matcher ''fo'') [''a foo'', ''x'', ''FOO''])) = {#''FOO'', ''a foo''#}"
proof -
  have "filter (typeahead_matcher ''fo'') [''a foo'', ''x'', ''FOO''] = [''a foo'', ''FOO'']" by code_simp
  with typeahead_orders [of "''fo''" "[''a foo'', ''x'', ''FOO'']"] show ?thesis by (simp add: Let_def)
qed

text \<open>C26. The marked text of a suggestion is the suggestion itself, cut into parts. A part between marks equals the query up to case;
in a part without marks no occurrence of the query (up to case) starts, not even one that reaches into the next parts, so that the matches
from left to right are all marked; and something is marked exactly when the query occurs in the suggestion. This holds whatever characters the
query has: the escaping keeps them from being read as a regular expression.\<close>

theorem typeahead_highlights:
  assumes "query \<noteq> []"
  shows "\<exists>ps. typeahead_highlighter query item = render_parts ps \<and> concat (map snd ps) = item \<and>
     (\<forall>us t vs. ps = us @ (True, t) # vs \<longrightarrow> toLowerCase t = toLowerCase query) \<and>
     (\<forall>us t vs j. ps = us @ (False, t) # vs \<and> j < length t \<longrightarrow>
        \<not> prefix (toLowerCase query) (toLowerCase (drop j t @ concat (map snd vs)))) \<and>
     ((\<exists>t. (True, t) \<in> set ps) \<longleftrightarrow> sublist (toLowerCase query) (toLowerCase item))"
proof -
  obtain ps where ps: "typeahead_highlighter query item = render_parts ps" "concat (map snd ps) = item" "matches_marked query ps"
    unfolding typeahead_highlighter_eq using replace_parts [OF assms] by blast
  then show ?thesis
    using matches_marked_some [OF ps(3) assms] matches_marked_part [of query _ True] matches_marked_part [of query _ False]
    by (intro exI [of _ ps]) auto
qed

theorem typeahead_highlights_witness:
  "(\<exists>ps t. typeahead_highlighter ''(b.'' ''a (B.c (b.'' = render_parts ps \<and> concat (map snd ps) = ''a (B.c (b.'' \<and> (True, t) \<in> set ps) \<and>
   typeahead_highlighter ''(b.'' ''a (B.c (b.'' = ''a <strong>(B.</strong>c <strong>(b.</strong>''"
proof
  have "sublist (toLowerCase ''(b.'') (toLowerCase ''a (B.c (b.'')" by code_simp
  then show "\<exists>ps t. typeahead_highlighter ''(b.'' ''a (B.c (b.'' = render_parts ps \<and> concat (map snd ps) = ''a (B.c (b.'' \<and> (True, t) \<in> set ps"
    using typeahead_highlights [of "''(b.''" "''a (B.c (b.''"] by blast
  show "typeahead_highlighter ''(b.'' ''a (B.c (b.'' = ''a <strong>(B.</strong>c <strong>(b.</strong>''" by code_simp
qed

text \<open>The arrow keys: in a menu whose item i is marked, down marks the next item and up the previous one, around the ends, and up undoes down.\<close>

theorem typeahead_arrows:
  assumes "jquery_ok J" "ta_shown w" "ta_menu w = [m]" "menu_ok d m" "i < length (kids d m)" "active_items d m = [kids d m ! i]"
  shows "\<exists>e f g. typeahead_move J 40 (w, d) = ((True, True), w, e) \<and> active_items e m = [kids d m ! (Suc i mod length (kids d m))] \<and>
     typeahead_move J 38 (w, d) = ((True, True), w, f) \<and>
       active_items f m = [kids d m ! ((i + length (kids d m) - 1) mod length (kids d m))] \<and>
     typeahead_move J 38 (w, e) = ((True, True), w, g) \<and> active_items g m = [kids d m ! i]"
proof -
  let ?ns = "kids d m"
  let ?j = "Suc i mod length ?ns" and ?k = "(i + length ?ns - 1) mod length ?ns"
  have "0 < length ?ns" using assms(5) by linarith
  then have j: "?j < length ?ns" "?k < length ?ns" by (rule mod_less_divisor)+
  have S: "set [?ns ! i] \<subseteq> set ?ns" using assms(5) by simp
  let ?e = "dom_addClass [?ns ! ?j] ''active'' (dom_removeClass [?ns ! i] ''active'' d)"
  let ?f = "dom_addClass [?ns ! ?k] ''active'' (dom_removeClass [?ns ! i] ''active'' d)"
  have e: "menu_ok ?e m" "active_items ?e m = [?ns ! ?j]" "kids ?e m = ?ns"
    using menu_mark [OF assms(4) nth_mem [OF j(1)] S assms(6) refl] by simp_all
  have f: "active_items ?f m = [?ns ! ?k]" using menu_mark [OF assms(4) nth_mem [OF j(2)] S assms(6) refl] by simp
  let ?l = "(?j + length ?ns - 1) mod length ?ns"
  have l: "?l = i" using mod_next [OF assms(5)] mod_prev [OF j(1)] assms(5) by (cases "Suc i < length ?ns") simp_all
  let ?g = "dom_addClass [?ns ! i] ''active'' (dom_removeClass [?ns ! ?j] ''active'' ?e)"
  have S': "set [?ns ! ?j] \<subseteq> set (kids ?e m)" "?ns ! i \<in> set (kids ?e m)" using j assms(5) e(3) by simp_all
  have g: "active_items ?g m = [?ns ! i]" using menu_mark [OF e(1) S'(2) S'(1) e(2) refl] by simp
  have "typeahead_next J (w, d) = (w, ?e)" by (rule typeahead_next_eq [OF assms(1,3,4,6,5)])
  moreover have "typeahead_prev J (w, d) = (w, ?f)" by (rule typeahead_prev_eq [OF assms(1,3,4,6,5)])
  moreover have "typeahead_prev J (w, ?e) = (w, ?g)"
    using typeahead_prev_eq [OF assms(1,3) e(1), of ?j] e(2,3) j(1) unfolding e(3) l by simp
  ultimately show ?thesis using assms(2) e(2) f g by (auto simp: typeahead_move_def)
qed

text \<open>A page with a menu of two items, the second of which is marked.\<close>

definition example_menu :: dom where
  "example_menu = example_page\<lparr>fresh_node := 7,
     tag_of := (\<lambda>n. if n \<in> {3, 5} then ''li'' else if n \<in> {4, 6} then ''a'' else []),
     classes := (\<lambda>n. if n = 5 then {''active''} else {}),
     attrs := (\<lambda>n. if n = 3 then [''data-value'' \<mapsto> ''x''] else if n = 5 then [''data-value'' \<mapsto> ''y''] else Map.empty),
     kids := (\<lambda>n. if n = 0 then [1, 2] else if n = 2 then [3, 5] else if n = 3 then [4] else if n = 5 then [6] else []),
     parent_of := [1 \<mapsto> 0, 2 \<mapsto> 0, 3 \<mapsto> 2, 4 \<mapsto> 3, 5 \<mapsto> 2, 6 \<mapsto> 5], displayed := (\<lambda>_. True)\<rparr>"

abbreviation shown_box :: typeahead where
  "shown_box \<equiv> fst example_box\<lparr>ta_shown := True\<rparr>"

lemma example_menu_simps:
  "kids example_menu 2 = [3, 5]" "active_items example_menu 2 = [5]" "menu_ok example_menu 2"
  by (simp_all add: example_menu_def active_items_def menu_ok_def menu_item_def)

lemma example_box_parts: "ta_menu (fst example_box) = [2]" "ta_element (fst example_box) = 1"
    "ta_options (fst example_box) = typeahead_defaults\<lparr>opt_source := Source_array [''bar'', ''a foo'', ''Food'']\<rparr>"
  by (simp_all add: example_box_def typeahead_new_def typeahead_listen_def eventSupported_def
      jquery_instance_def typeahead_defaults_def split_beta create_menu_def example_page_def Let_def)

lemma example_menu_inv: "typeahead_inv (shown_box, example_menu)"
  by (rule typeahead_invI [of _ _ 2 0])
    (simp_all add: typeahead_shape_def example_box_parts typeahead_defaults_def one_marked_def example_menu_simps,
     simp_all add: example_menu_def)

theorem typeahead_arrows_witness:
  "\<exists>e. typeahead_move (jquery_instance None (\<lambda>_ _ _. False)) 40 (shown_box, example_menu) = ((True, True), shown_box, e) \<and>
     active_items e 2 = [3]"
proof -
  have "active_items example_menu 2 = [kids example_menu 2 ! 1]" "(1::nat) < length (kids example_menu 2)"
    by (simp_all add: example_menu_simps)
  from typeahead_arrows [OF jquery_instance_ok _ _ example_menu_simps(3) this(2,1), of shown_box] show ?thesis
    by (auto simp: example_box_parts example_menu_simps)
qed

text \<open>Choosing: the release of the enter or tab key over a shown menu writes the value of the marked item, as the updater returns it, into the input and hides the menu.\<close>

theorem typeahead_chooses:
  assumes "jquery_ok J" "quiet J" "ta_shown w" "ta_menu w = [m]" "menu_ok d m" "active_items d m = [n]" "keyCode \<in> {9, 13}"
  shows "\<exists>e. typeahead_keyup J keyCode (w, d) = ((True, True), w\<lparr>ta_shown := False\<rparr>, e) \<and> \<not> displayed e m \<and>
     val_of e (ta_element w) = (case the_updater w (attrs d n ''data-value'') of None \<Rightarrow> [] | Some v \<Rightarrow> v)"
  using assms menu_find(1) [OF assms(1,5)]
  by (auto simp: typeahead_keyup_def typeahead_select_def typeahead_hide_def jq Let_def upd_nodes_def)

theorem typeahead_chooses_witness:
  "\<exists>e. typeahead_keyup (jquery_instance None (\<lambda>_ _ _. False)) 13 (shown_box, example_menu) = ((True, True), shown_box\<lparr>ta_shown := False\<rparr>, e) \<and>
     val_of e 1 = ''y''"
proof -
  have "the_updater shown_box (attrs example_menu 5 ''data-value'') = Some ''y''"
    by (simp add: the_updater_def typeahead_updater_def example_box_parts typeahead_defaults_def example_menu_def)
  then show ?thesis
    using typeahead_chooses [OF jquery_instance_ok jquery_instance_quiet, of shown_box 2 example_menu 5 13]
    by (auto simp: example_box_parts example_menu_simps)
qed

text \<open>C24. The box as a state machine: after any events, in any order, the menu is displayed exactly when the box holds itself shown, and a menu with items has exactly one marked.\<close>

theorem typeahead_invariant:
  assumes "jquery_ok J" "quiet J" "opt_menu opts = menu_markup" "opt_item opts = item_markup"
    "element < fresh_node d" "parent_of d element = Some p" "p < fresh_node d" "typeahead_new J element opts d = (None, s)"
  shows "\<exists>w e m. typeahead_run J es s = (w, e) \<and> ta_menu w = [m] \<and> (ta_shown w \<longleftrightarrow> displayed e m) \<and>
     (kids e m = [] \<or> (\<exists>n \<in> set (kids e m). filter (\<lambda>k. ''active'' \<in> classes e k) (kids e m) = [n]))"
proof -
  obtain w e where s: "typeahead_run J es s = (w, e)" by (cases "typeahead_run J es s")
  have "typeahead_inv (w, e)"
    using typeahead_run_inv [OF assms(1,2) typeahead_new_inv [OF assms(1,3-8)], of es] by (simp add: s)
  then obtain m p where "typeahead_shape w e m p" "one_marked e m" "ta_shown w \<longleftrightarrow> displayed e m"
    by (auto simp: typeahead_inv_def)
  then show ?thesis using s by (auto simp: typeahead_shape_def one_marked_def active_items_def)
qed

theorem typeahead_invariant_witness:
  "\<exists>w e m. typeahead_run (jquery_instance None (\<lambda>_ _ _. False)) [Ta_focus, Ta_keyup 70, Ta_keydown 40, Ta_keyup 13]
     (snd (typeahead_new (jquery_instance None (\<lambda>_ _ _. False)) 1 typeahead_defaults example_page)) = (w, e) \<and>
     ta_menu w = [m] \<and> (ta_shown w \<longleftrightarrow> displayed e m)"
proof -
  let ?J = "jquery_instance None (\<lambda>_ _ _. False)"
  have "typeahead_new ?J 1 typeahead_defaults example_page = (None, snd (typeahead_new ?J 1 typeahead_defaults example_page))"
    by (simp add: typeahead_new_def typeahead_listen_def eventSupported_def jquery_instance_def split_beta)
  from typeahead_invariant [OF jquery_instance_ok jquery_instance_quiet _ _ _ _ _ this, of 0] show ?thesis
    by (simp add: typeahead_defaults_def example_page_def) blast
qed

text \<open>A browser-side fallback that cannot work: on an event the jQuery object has no member for, the test of support throws, so that no box is made.\<close>

theorem eventSupported_throws:
  assumes "\<not> jq_has_member J ''keydown''"
  shows "fst (typeahead_new J element opts d) = Some TypeError \<and> fst (snd (typeahead_plugin1 J Arg_none n (Map.empty, d))) = Map.empty"
  using assms by (simp_all add: typeahead_new_def typeahead_listen_def eventSupported_def typeahead_plugin1_def js_then_def split_beta)

theorem eventSupported_throws_witness:
  "fst (typeahead_new (jquery_instance None (\<lambda>_ _ _. False)\<lparr>jq_has_member := (\<lambda>_. False)\<rparr>) 1 typeahead_defaults example_page) = Some TypeError"
  by (rule eventSupported_throws [THEN conjunct1]) simp

end
