(* ===== verification/ScrollSpy.thy ===== *)
theory ScrollSpy
  imports Jquery
begin

text \<open>The scroll spy (\<open>bootstrap.js\<close>): which link of a navigation is the one of the part of the page on the screen.
What the browser measures at a call is a record of whole pixels.\<close>

section \<open>State\<close>

record spy_view =
  sv_scrollTop :: int
  sv_scrollHeight :: int
  sv_bodyScrollHeight :: int
  sv_height :: int

record spy_options =
  spy_target :: "string option"
  spy_offset :: int

definition spy_defaults :: spy_options where
  "spy_defaults = \<lparr>spy_target = None, spy_offset = 10\<rparr>"

text \<open>\<open>spy_window\<close>: the element that scrolls is the window, because the spy is on the body.\<close>

record scrollspy =
  spy_window :: bool
  spy_opts :: spy_options
  spy_selector :: string
  spy_body :: "node list"
  spy_offsets :: "int list"
  spy_targets :: "string list"
  spy_active :: "string option"

type_synonym spy_page = "scrollspy \<times> dom"

section \<open>Operations\<close>

text \<open>\<open>/^#\w/\<close>.\<close>

fun is_fragment :: "string \<Rightarrow> bool" where
  "is_fragment (h # c # s) \<longleftrightarrow> h = CHR ''#'' \<and> is_word_unit c"
| "is_fragment _ \<longleftrightarrow> False"

text \<open>The link's target: its \<open>data-target\<close>, or its \<open>href\<close>.\<close>

definition link_href :: "jquery \<Rightarrow> dom \<Rightarrow> node \<Rightarrow> string option" where
  "link_href J d n = (case jq_attr J d [n] ''data-target'' of
     Some (c # s) \<Rightarrow> Some (c # s) | _ \<Rightarrow> jq_attr J d [n] ''href'')"

text \<open>What a link contributes: the position of the element it points to, relative to what scrolls.\<close>

definition link_entry :: "jquery \<Rightarrow> spy_view \<Rightarrow> scrollspy \<Rightarrow> dom \<Rightarrow> node \<Rightarrow> (int \<times> string) option" where
  "link_entry J v w d n = (case link_href J d n of
     None \<Rightarrow> None
   | Some href \<Rightarrow>
       if \<not> is_fragment href \<or> jq_select J d href = [] then None
       else Some (fst (jq_position J d (jq_select J d href)) + (if spy_window w then 0 else sv_scrollTop v), href))"

definition spy_refresh :: "jquery \<Rightarrow> spy_view \<Rightarrow> spy_page \<Rightarrow> spy_page" where
  "spy_refresh J v = (\<lambda>(w, d).
     let entries = sort_key fst (List.map_filter (link_entry J v w d) (jq_find J d (spy_body w) (spy_selector w)))
     in (w\<lparr>spy_offsets := map fst entries, spy_targets := map snd entries\<rparr>, d))"

text \<open>A missing target is spelled \<open>undefined\<close>.\<close>

definition target_text :: "string option \<Rightarrow> string" where
  "target_text t = (case t of None \<Rightarrow> ''undefined'' | Some s \<Rightarrow> s)"

definition target_selector :: "string \<Rightarrow> string option \<Rightarrow> string" where
  "target_selector sel t = sel @ ''[data-target=\"'' @ target_text t @ ''\"],'' @ sel @ ''[href=\"'' @ target_text t @ ''\"]''"

definition spy_activate :: "jquery \<Rightarrow> string option \<Rightarrow> spy_page \<Rightarrow> spy_page" where
  "spy_activate J target = (\<lambda>(w, d).
     let d1 = jq_removeClass J (jq_parent_sel J d (jq_select J d (spy_selector w)) ''.active'') ''active'' d;
         active = jq_parent_sel J d1 (jq_select J d1 (target_selector (spy_selector w) target)) ''li'';
         d2 = jq_addClass J active ''active'' d1;
         dropdown = (jq_parent_sel J d2 active ''.dropdown-menu'' \<noteq> []);
         active' = (if dropdown then jq_closest J d2 active ''li.dropdown'' else active);
         d3 = (if dropdown then jq_addClass J active' ''active'' d2 else d2)
     in (w\<lparr>spy_active := target\<rparr>, snd (jq_trigger J ''activate'' active' d3)))"

text \<open>The loop over the offsets, from the last one down; \<open>activeTarget\<close> is the target at its start. An offset that is
missing or zero is no bound.\<close>

definition below_next :: "int list \<Rightarrow> nat \<Rightarrow> int \<Rightarrow> bool" where
  "below_next offsets i scrollTop \<longleftrightarrow>
     (if Suc i < length offsets then offsets ! Suc i = 0 \<or> scrollTop \<le> offsets ! Suc i else True)"

fun spy_loop :: "jquery \<Rightarrow> int \<Rightarrow> string option \<Rightarrow> nat \<Rightarrow> spy_page \<Rightarrow> spy_page" where
  "spy_loop J scrollTop activeTarget 0 s = s"
| "spy_loop J scrollTop activeTarget (Suc i) s =
     spy_loop J scrollTop activeTarget i
       (if activeTarget \<noteq> Some (spy_targets (fst s) ! i) \<and> scrollTop \<ge> spy_offsets (fst s) ! i \<and>
           below_next (spy_offsets (fst s)) i scrollTop
        then spy_activate J (Some (spy_targets (fst s) ! i)) s else s)"

definition max_scroll :: "spy_view \<Rightarrow> int" where
  "max_scroll v = (if sv_scrollHeight v = 0 then sv_bodyScrollHeight v else sv_scrollHeight v) - sv_height v"

definition last_target :: "string list \<Rightarrow> string option" where
  "last_target ts = (if ts = [] then None else Some (last ts))"

definition spy_process :: "jquery \<Rightarrow> spy_view \<Rightarrow> spy_page \<Rightarrow> spy_page" where
  "spy_process J v s =
     (let scrollTop = sv_scrollTop v + spy_offset (spy_opts (fst s)) in
      if scrollTop \<ge> max_scroll v then
        let i = last_target (spy_targets (fst s)) in
        if spy_active (fst s) \<noteq> i then spy_activate J i s else s
      else spy_loop J scrollTop (spy_active (fst s)) (length (spy_offsets (fst s))) s)"

text \<open>The constructor: the links are those below the element that the options or the link of the element name.\<close>

definition spy_new :: "jquery \<Rightarrow> spy_view \<Rightarrow> node \<Rightarrow> spy_options \<Rightarrow> dom \<Rightarrow> spy_page" where
  "spy_new J v n opts d =
     (let truthy = (\<lambda>s. case s of Some (c # t) \<Rightarrow> Some (c # t) | _ \<Rightarrow> None);
          base = (case truthy (spy_target opts) of Some t \<Rightarrow> t
                  | None \<Rightarrow> (case truthy (jq_attr J d [n] ''href'') of Some h \<Rightarrow> strip_ie7 True h | None \<Rightarrow> []));
          w = \<lparr>spy_window = jq_is J d [n] ''body'', spy_opts = opts, spy_selector = base @ '' .nav li > a'',
               spy_body = jq_select J d ''body'', spy_offsets = [], spy_targets = [], spy_active = None\<rparr>
      in spy_process J v (spy_refresh J v (w, d)))"

text \<open>The plugin. An object of options stands for what it overwrites in the defaults; a method called by name gets no
argument.\<close>

type_synonym spy_insts = "(node \<Rightarrow> scrollspy option) \<times> dom"

definition spy_method :: "jquery \<Rightarrow> spy_view \<Rightarrow> string \<Rightarrow> spy_page \<Rightarrow> spy_page js_result" where
  "spy_method J v name s =
     (if name = ''refresh'' then (None, spy_refresh J v s)
      else if name = ''process'' then (None, spy_process J v s)
      else if name = ''activate'' then (None, spy_activate J None s)
      else (Some TypeError, s))"

definition spy_plugin1 :: "jquery \<Rightarrow> (node \<Rightarrow> spy_view) \<Rightarrow> (spy_options \<Rightarrow> spy_options) plugin_arg \<Rightarrow> node \<Rightarrow> spy_insts \<Rightarrow> spy_insts js_result" where
  "spy_plugin1 J view arg n = (\<lambda>(insts, d).
     let (w, d1) = (case insts n of Some w \<Rightarrow> (w, d)
           | None \<Rightarrow> spy_new J (view n) n (case arg_object arg of None \<Rightarrow> spy_defaults | Some f \<Rightarrow> f spy_defaults) d);
         (r, w', d2) = (case arg of Arg_name name \<Rightarrow> spy_method J (view n) name (w, d1) | _ \<Rightarrow> (None, w, d1))
     in (r, insts(n \<mapsto> w'), d2))"

definition spy_plugin :: "jquery \<Rightarrow> (node \<Rightarrow> spy_view) \<Rightarrow> (spy_options \<Rightarrow> spy_options) plugin_arg \<Rightarrow> node list \<Rightarrow> spy_insts \<Rightarrow> spy_insts js_result" where
  "spy_plugin J view arg S = jq_each (spy_plugin1 J view arg) S"

definition spy_load :: "jquery \<Rightarrow> (node \<Rightarrow> spy_view) \<Rightarrow> (node \<Rightarrow> spy_options \<Rightarrow> spy_options) \<Rightarrow> spy_insts \<Rightarrow> spy_insts js_result" where
  "spy_load J view data s = jq_each (\<lambda>n. spy_plugin J view (Arg_object (data n)) [n])
     (jq_select J (snd s) ''[data-spy=\"scroll\"]'') s"

section \<open>Lemmas\<close>

lemma spy_activate_simps [simp]:
  "spy_active (fst (spy_activate J t s)) = t" "spy_offsets (fst (spy_activate J t s)) = spy_offsets (fst s)"
  "spy_targets (fst (spy_activate J t s)) = spy_targets (fst s)" "spy_opts (fst (spy_activate J t s)) = spy_opts (fst s)"
  by (simp_all add: spy_activate_def split_beta Let_def)

text \<open>The index whose interval a position lies in.\<close>

definition hit :: "scrollspy \<Rightarrow> int \<Rightarrow> nat \<Rightarrow> bool" where
  "hit w y i \<longleftrightarrow> y \<ge> spy_offsets w ! i \<and> below_next (spy_offsets w) i y"

lemma spy_loop_cong:
  "spy_targets (fst (spy_loop J y a i s)) = spy_targets (fst s)" "spy_offsets (fst (spy_loop J y a i s)) = spy_offsets (fst s)"
  by (induction J y a i s rule: spy_loop.induct) simp_all

text \<open>Without a hit nothing changes; with hits, the lowest one that is not the target at the start is the last one
activated.\<close>

lemma spy_loop_none: "\<forall>j < i. \<not> hit (fst s) y j \<or> a = Some (spy_targets (fst s) ! j) \<Longrightarrow> spy_loop J y a i s = s"
  by (induction J y a i s rule: spy_loop.induct) (auto simp: hit_def)

lemma spy_loop_hit:
  "k < i \<Longrightarrow> hit (fst s) y k \<Longrightarrow> a \<noteq> Some (spy_targets (fst s) ! k) \<Longrightarrow>
   \<forall>j < k. \<not> hit (fst s) y j \<or> a = Some (spy_targets (fst s) ! j) \<Longrightarrow>
   spy_active (fst (spy_loop J y a i s)) = Some (spy_targets (fst s) ! k)"
proof (induction J y a i s rule: spy_loop.induct)
  case (2 J y a i s)
  let ?s = "if a \<noteq> Some (spy_targets (fst s) ! i) \<and> y \<ge> spy_offsets (fst s) ! i \<and> below_next (spy_offsets (fst s)) i y
        then spy_activate J (Some (spy_targets (fst s) ! i)) s else s"
  have same: "spy_targets (fst ?s) = spy_targets (fst s)" "hit (fst ?s) = hit (fst s)"
    by (simp_all add: hit_def fun_eq_iff)
  show ?case
  proof (cases "k = i")
    case True
    then have "spy_loop J y a i ?s = ?s" using 2(5) same by (intro spy_loop_none) auto
    then show ?thesis using True 2(3,4) by (simp add: hit_def)
  next
    case False
    with 2(2) have "k < i" by simp
    then show ?thesis using 2(1) 2(3-5) same by simp
  qed
qed simp

lemma hit_unique:
  assumes "sorted_wrt (<) (spy_offsets w)" "\<forall>z \<in> set (spy_offsets w). z > 0" "i < length (spy_offsets w)" "j < length (spy_offsets w)"
    "hit w y i" "hit w y j" "i < j"
  shows "j = Suc i \<and> y = spy_offsets w ! j"
proof -
  have "spy_offsets w ! Suc i > 0" using assms(2,4,7) by (simp add: Suc_lessI)
  moreover have "Suc i < length (spy_offsets w)" using assms(4,7) by simp
  ultimately have "y \<le> spy_offsets w ! Suc i" using assms(5) by (simp add: hit_def below_next_def)
  moreover have "spy_offsets w ! j \<le> y" using assms(6) by (simp add: hit_def)
  moreover have "Suc i < j \<Longrightarrow> spy_offsets w ! Suc i < spy_offsets w ! j"
    using sorted_wrt_nth_less [OF assms(1)] assms(4) by simp
  ultimately show ?thesis using assms(7) by (cases "Suc i = j") auto
qed

text \<open>A scroll position in the interval of index \<open>i\<close>.\<close>

definition offsets_ok :: "scrollspy \<Rightarrow> bool" where
  "offsets_ok w \<longleftrightarrow> sorted_wrt (<) (spy_offsets w) \<and> (\<forall>z \<in> set (spy_offsets w). z > 0) \<and>
     length (spy_targets w) = length (spy_offsets w)"

lemma hit_only:
  assumes "offsets_ok w" "i < length (spy_offsets w)" "spy_offsets w ! i < y"
    "Suc i < length (spy_offsets w) \<longrightarrow> y < spy_offsets w ! Suc i" "j < length (spy_offsets w)"
  shows "hit w y j \<longleftrightarrow> j = i"
proof -
  have "hit w y i" using assms(3,4) by (auto simp: hit_def below_next_def)
  moreover have "\<not> hit w y j" if ne: "j \<noteq> i"
  proof
    assume h: "hit w y j"
    consider "i < j" | "j < i" using ne by linarith
    then show False
    proof cases
      case 1
      then have "j = Suc i \<and> y = spy_offsets w ! j"
        using hit_unique [of w i j y] assms(1,2,5) h \<open>hit w y i\<close> by (simp add: offsets_ok_def)
      then show False using assms(4,5) by auto
    next
      case 2
      then have "i = Suc j \<and> y = spy_offsets w ! i"
        using hit_unique [of w j i y] assms(1,2,5) h \<open>hit w y i\<close> by (simp add: offsets_ok_def)
      then show False using assms(3) by simp
    qed
  qed
  ultimately show ?thesis by blast
qed

section \<open>Properties\<close>

text \<open>Refreshing keeps, for every link that points to an element of the page, its position and its target, in the order of the positions; links of equal position stay in the order of the page.\<close>

theorem spy_refresh_sorted:
  shows "\<exists>w'. spy_refresh J v (w, d) = (w', d) \<and> sorted (spy_offsets w') \<and> length (spy_targets w') = length (spy_offsets w') \<and>
     mset (zip (spy_offsets w') (spy_targets w')) =
       mset (List.map_filter (link_entry J v w d) (jq_find J d (spy_body w) (spy_selector w))) \<and>
     filter (\<lambda>p. fst p = y) (zip (spy_offsets w') (spy_targets w')) =
       filter (\<lambda>p. fst p = y) (List.map_filter (link_entry J v w d) (jq_find J d (spy_body w) (spy_selector w)))"
proof -
  let ?E = "List.map_filter (link_entry J v w d) (jq_find J d (spy_body w) (spy_selector w))"
  let ?S = "sort_key fst ?E"
  have z: "zip (map fst ?S) (map snd ?S) = ?S" by (rule zip_map_fst_snd)
  have "filter (\<lambda>p. fst p = y) ?S = filter (\<lambda>p. fst p = y) ?E"
    using sort_key_stable [of fst y ?E] by simp
  then show ?thesis using z by (simp add: spy_refresh_def Let_def)
qed

text \<open>C28. The part on the screen: above the end of the page, with distinct offsets below zero excluded, a position strictly inside the interval of an offset makes that offset's target the active one, whichever was active before.\<close>

theorem spy_process_activates:
  assumes "offsets_ok w" "y = sv_scrollTop v + spy_offset (spy_opts w)" "y < max_scroll v"
    "i < length (spy_offsets w)" "spy_offsets w ! i < y" "Suc i < length (spy_offsets w) \<longrightarrow> y < spy_offsets w ! Suc i"
  shows "spy_active (fst (spy_process J v (w, d))) = Some (spy_targets w ! i)"
proof -
  have p: "spy_process J v (w, d) = spy_loop J y (spy_active w) (length (spy_offsets w)) (w, d)"
    using assms(2,3) by (simp add: spy_process_def Let_def)
  have h: "j < length (spy_offsets w) \<Longrightarrow> hit w y j \<longleftrightarrow> j = i" for j by (rule hit_only [OF assms(1,4,5,6)])
  show ?thesis
  proof (cases "spy_active w = Some (spy_targets w ! i)")
    case True
    then have "spy_loop J y (spy_active w) (length (spy_offsets w)) (w, d) = (w, d)"
      using h by (intro spy_loop_none) auto
    then show ?thesis using True p by simp
  next
    case False
    have "\<forall>j < i. \<not> hit w y j" using h assms(4) by auto
    then show ?thesis unfolding p using spy_loop_hit [of i _ "(w, d)" y] h assms(4) False by simp
  qed
qed

definition example_spy :: scrollspy where
  "example_spy = \<lparr>spy_window = True, spy_opts = spy_defaults, spy_selector = '' .nav li > a'', spy_body = [0],
     spy_offsets = [100, 200, 300], spy_targets = [''#a'', ''#b'', ''#c''], spy_active = Some ''#a''\<rparr>"

definition example_spy_view :: "int \<Rightarrow> spy_view" where
  "example_spy_view y = \<lparr>sv_scrollTop = y, sv_scrollHeight = 0, sv_bodyScrollHeight = 1000, sv_height = 400\<rparr>"

theorem spy_process_activates_witness:
  "spy_active (fst (spy_process (jquery_instance None (\<lambda>_ _ _. False)) (example_spy_view 250) (example_spy, empty_dom))) = Some ''#b''"
proof -
  have "offsets_ok example_spy" by (simp add: offsets_ok_def example_spy_def)
  from spy_process_activates [OF this refl, of "example_spy_view 250" 1] show ?thesis
    by (simp add: example_spy_def example_spy_view_def spy_defaults_def max_scroll_def)
qed

text \<open>At the end of the page the last target is the active one.\<close>

theorem spy_process_end:
  assumes "sv_scrollTop v + spy_offset (spy_opts w) \<ge> max_scroll v"
  shows "spy_active (fst (spy_process J v (w, d))) = last_target (spy_targets w)"
  using assms by (simp add: spy_process_def Let_def)

theorem spy_process_end_witness:
  "spy_active (fst (spy_process (jquery_instance None (\<lambda>_ _ _. False)) (example_spy_view 600) (example_spy, empty_dom))) = Some ''#c''"
  using spy_process_end [of "example_spy_view 600" example_spy]
  by (simp add: example_spy_view_def example_spy_def spy_defaults_def max_scroll_def last_target_def)

text \<open>A position that equals an offset belongs to two intervals: each call activates the one that was not active, so that repeated scroll events at that position alternate between the two targets.\<close>

theorem spy_boundary_alternates:
  assumes "offsets_ok w" "y = sv_scrollTop v + spy_offset (spy_opts w)" "y < max_scroll v"
    "Suc i < length (spy_offsets w)" "y = spy_offsets w ! Suc i" "distinct (spy_targets w)"
  shows "(spy_active w = Some (spy_targets w ! i) \<longrightarrow> spy_active (fst (spy_process J v (w, d))) = Some (spy_targets w ! Suc i)) \<and>
    (spy_active w = Some (spy_targets w ! Suc i) \<longrightarrow> spy_active (fst (spy_process J v (w, d))) = Some (spy_targets w ! i))"
proof -
  have p: "spy_process J v (w, d) = spy_loop J y (spy_active w) (length (spy_offsets w)) (w, d)"
    using assms(2,3) by (simp add: spy_process_def Let_def)
  have srt: "spy_offsets w ! j < spy_offsets w ! k" if "j < k" "k < length (spy_offsets w)" for j k
    using assms(1) that by (auto simp: offsets_ok_def sorted_wrt_iff_nth_less)
  have pos: "spy_offsets w ! k > 0" if "k < length (spy_offsets w)" for k
    using assms(1) that by (simp add: offsets_ok_def)
  have hi: "hit w y i" using assms(4,5) srt [of i "Suc i"] by (simp add: hit_def below_next_def)
  have hs: "hit w y (Suc i)" using assms(4,5) srt [of "Suc i" "Suc (Suc i)"] by (auto simp: hit_def below_next_def)
  have low: "\<not> hit w y j" if "j < i" for j
  proof
    assume "hit w y j"
    then have "y \<le> spy_offsets w ! Suc j" using that assms(4) pos [of "Suc j"] by (simp add: hit_def below_next_def)
    moreover have "spy_offsets w ! Suc j < y" using srt [of "Suc j" "Suc i"] that assms(4,5) by simp
    ultimately show False by simp
  qed
  have ne: "spy_targets w ! i \<noteq> spy_targets w ! Suc i"
    using assms(1,4,6) by (simp add: offsets_ok_def nth_eq_iff_index_eq)
  have "spy_active w = Some (spy_targets w ! i) \<longrightarrow> spy_active (fst (spy_process J v (w, d))) = Some (spy_targets w ! Suc i)"
    unfolding p using spy_loop_hit [of "Suc i" _ "(w, d)" y] hs assms(4) low ne by (auto simp: less_Suc_eq)
  moreover have "spy_active w = Some (spy_targets w ! Suc i) \<longrightarrow> spy_active (fst (spy_process J v (w, d))) = Some (spy_targets w ! i)"
    unfolding p using spy_loop_hit [of i _ "(w, d)" y] hi assms(4) low ne by simp
  ultimately show ?thesis by blast
qed

theorem spy_boundary_alternates_witness:
  "spy_active (fst (spy_process (jquery_instance None (\<lambda>_ _ _. False)) (example_spy_view 190) (example_spy, empty_dom))) = Some ''#b''"
proof -
  have "offsets_ok example_spy" by (simp add: offsets_ok_def example_spy_def)
  from spy_boundary_alternates [OF this refl, of "example_spy_view 190" 0] show ?thesis
    by (simp add: example_spy_def example_spy_view_def spy_defaults_def max_scroll_def)
qed

end
