(* ===== verification/Carousel.thy ===== *)
theory Carousel
  imports Jquery
begin

text \<open>The carousel (\<open>bootstrap.js\<close>): slides that change on a timer, on request and under the mouse. Timers, handlers of
one event that wait for it, and delayed events are part of the state; their firing is a step.\<close>

section \<open>State\<close>

text \<open>An interval of 0 stands for \<open>false\<close>; \<open>car_slide\<close> is the method that the options name.\<close>

record carousel_options =
  car_opt_interval :: int
  car_opt_pause :: string
  car_opt_slide :: "string option"

definition carousel_defaults :: carousel_options where
  "carousel_defaults = \<lparr>car_opt_interval = 5000, car_opt_pause = ''hover'', car_opt_slide = None\<rparr>"

text \<open>What waits for the event \<open>slid\<close>: a call of \<open>to\<close>, and the marking of the indicator. What waits for the end of a
transition: the type and the direction of a slide, the next and the active element. A position is \<open>None\<close> when it is not
a number.\<close>

datatype slid_handler = Slid_to "int option" | Slid_indicator

record transition_handler =
  th_type :: string
  th_direction :: string
  th_next :: "node list"
  th_active :: "node list"

record carousel =
  car_element :: node
  car_indicators :: "node list"
  car_options :: carousel_options
  car_paused :: bool
  car_sliding :: bool
  car_interval :: "nat option"
  car_items :: "node list"
  car_timers :: "nat list"
  car_next_timer :: nat
  car_slid :: "slid_handler list"
  car_trans :: "transition_handler list"
  car_slid_timeouts :: nat

type_synonym carousel_page = "carousel \<times> dom"

text \<open>What a method returns: the carousel itself, something else, or an exception.\<close>

datatype js_return = Ret_this | Ret_other | Throws js_error

type_synonym carousel_result = "js_return \<times> carousel_page"

definition car_then :: "carousel_result \<Rightarrow> (carousel_page \<Rightarrow> carousel_result) \<Rightarrow> carousel_result" where
  "car_then r f = (case r of (Throws e, s) \<Rightarrow> (Throws e, s) | (_, s) \<Rightarrow> f s)"

definition car_outcome :: "carousel_result \<Rightarrow> carousel_page js_result" where
  "car_outcome r = (case r of (Throws e, s) \<Rightarrow> (Some e, s) | (_, s) \<Rightarrow> (None, s))"

section \<open>Operations\<close>

definition carousel_new :: "jquery \<Rightarrow> node \<Rightarrow> carousel_options \<Rightarrow> dom \<Rightarrow> carousel" where
  "carousel_new J n opts d = \<lparr>car_element = n, car_indicators = jq_find J d [n] ''.carousel-indicators'', car_options = opts,
     car_paused = False, car_sliding = False, car_interval = None, car_items = [], car_timers = [], car_next_timer = 1,
     car_slid = [], car_trans = [], car_slid_timeouts = 0\<rparr>"

definition clear_interval :: "nat option \<Rightarrow> carousel \<Rightarrow> carousel" where
  "clear_interval t w = (case t of None \<Rightarrow> w | Some i \<Rightarrow> w\<lparr>car_timers := removeAll i (car_timers w)\<rparr>)"

text \<open>The argument says whether an event was passed.\<close>

definition carousel_cycle :: "bool \<Rightarrow> carousel_page \<Rightarrow> carousel_page" where
  "carousel_cycle e = (\<lambda>(w, d).
     let w1 = (if e then w else w\<lparr>car_paused := False\<rparr>);
         w2 = clear_interval (car_interval w1) w1
     in (if car_opt_interval (car_options w2) \<noteq> 0 \<and> \<not> car_paused w2
         then w2\<lparr>car_interval := Some (car_next_timer w2), car_timers := car_next_timer w2 # car_timers w2,
                car_next_timer := Suc (car_next_timer w2)\<rparr>
         else w2, d))"

definition getActiveIndex :: "jquery \<Rightarrow> carousel_page \<Rightarrow> int \<times> carousel_page" where
  "getActiveIndex J = (\<lambda>(w, d).
     let active = jq_find J d [car_element w] ''.item.active'';
         items = jq_children J d (jq_parent J d active)
     in (jq_index J d items active, w\<lparr>car_items := items\<rparr>, d))"

text \<open>The handler of the end of a transition.\<close>

definition run_transition :: "jquery \<Rightarrow> carousel_page \<Rightarrow> transition_handler \<Rightarrow> carousel_page" where
  "run_transition J = (\<lambda>(w, d) h.
     let d1 = jq_addClass J (th_next h) ''active'' (jq_removeClass J (th_next h) (th_type h @ '' '' @ th_direction h) d);
         d2 = jq_removeClass J (th_active h) (''active '' @ th_direction h) d1
     in (w\<lparr>car_sliding := False, car_slid_timeouts := Suc (car_slid_timeouts w)\<rparr>, d2))"

definition fire_transition_end :: "jquery \<Rightarrow> carousel_page \<Rightarrow> carousel_page" where
  "fire_transition_end J = (\<lambda>(w, d). foldl (run_transition J) (w\<lparr>car_trans := []\<rparr>, d) (car_trans w))"

text \<open>\<open>$.support.transition.end\<close> is read without a test of \<open>$.support.transition\<close>.\<close>

definition carousel_pause :: "jquery \<Rightarrow> bool \<Rightarrow> carousel_page \<Rightarrow> carousel_result" where
  "carousel_pause J e = (\<lambda>(w, d).
     let w1 = (if e then w else w\<lparr>car_paused := True\<rparr>);
         stop = (\<lambda>(w, d). (Ret_this, (clear_interval (car_interval w) w)\<lparr>car_interval := None\<rparr>, d))
     in if jq_find J d [car_element w] ''.next, .prev'' = [] then stop (w1, d)
        else case transition_end J of
          None \<Rightarrow> (Throws TypeError, w1, d)
        | Some ev \<Rightarrow> stop (carousel_cycle True (fire_transition_end J (w1, snd (jq_trigger J ev [car_element w] d)))))"

text \<open>A slide. The rest of the model of \<open>slid\<close> is an argument: \<open>fire\<close> runs its handlers.\<close>

definition slide_direction :: "string \<Rightarrow> string" where
  "slide_direction type = (if type = ''next'' then ''left'' else ''right'')"

definition slide_fallback :: "string \<Rightarrow> node list \<Rightarrow> node list" where
  "slide_fallback type items = (if type = ''next'' then take 1 items else take 1 (rev items))"

definition slide_move :: "(carousel_page \<Rightarrow> carousel_page js_result) \<Rightarrow> jquery \<Rightarrow> string \<Rightarrow> node list \<Rightarrow> node list \<Rightarrow> bool \<Rightarrow>
    carousel_page \<Rightarrow> carousel_result" where
  "slide_move fire J type next active isCycling = (\<lambda>(w, d).
     let direction = slide_direction type;
         finish = (\<lambda>s. (Ret_this, if isCycling then carousel_cycle False s else s));
         (prevented, d1) = jq_trigger J ''slide'' [car_element w] d
     in if has_transition J \<and> jq_hasClass J d [car_element w] ''slide'' then
          if prevented then (Ret_other, w, d1)
          else if next = [] then (Throws TypeError, w, d1)
          else finish (w\<lparr>car_trans := car_trans w @ [\<lparr>th_type = type, th_direction = direction, th_next = next, th_active = active\<rparr>]\<rparr>,
                 jq_addClass J next direction (jq_addClass J active direction (jq_addClass J next type d1)))
        else
          if prevented then (Ret_other, w, d1)
          else (case fire (w\<lparr>car_sliding := False\<rparr>, jq_addClass J next ''active'' (jq_removeClass J active ''active'' d1)) of
                  (Some e, s) \<Rightarrow> (Throws e, s)
                | (None, s) \<Rightarrow> finish s))"

definition slide_with :: "(carousel_page \<Rightarrow> carousel_page js_result) \<Rightarrow> jquery \<Rightarrow> string \<Rightarrow> node list option \<Rightarrow> carousel_page \<Rightarrow> carousel_result" where
  "slide_with fire J type nextArg = (\<lambda>(w, d).
     let active = jq_find J d [car_element w] ''.item.active'';
         next0 = (case nextArg of Some ns \<Rightarrow> ns | None \<Rightarrow> if type = ''next'' then jq_next J d active else jq_prev J d active);
         isCycling = (car_interval w \<noteq> None);
         w1 = w\<lparr>car_sliding := True\<rparr>
     in car_then (if isCycling then carousel_pause J False (w1, d) else (Ret_this, w1, d)) (\<lambda>(w2, d2).
        let next = (if next0 \<noteq> [] then next0 else slide_fallback type (jq_find J d2 [car_element w2] ''.item''))
        in if jq_hasClass J d2 next ''active'' then (Ret_other, w2, d2)
           else if car_indicators w2 \<noteq> [] then
             slide_move fire J type next active isCycling
               (w2\<lparr>car_slid := car_slid w2 @ [Slid_indicator]\<rparr>,
                jq_removeClass J (jq_find J d2 (car_indicators w2) ''.active'') ''active'' d2)
           else slide_move fire J type next active isCycling (w2, d2)))"

text \<open>\<open>pos > length - 1 || pos < 0\<close> and \<open>activeIndex == pos\<close> do not hold of what is not a number.\<close>

definition to_with :: "(carousel_page \<Rightarrow> carousel_page js_result) \<Rightarrow> jquery \<Rightarrow> int option \<Rightarrow> carousel_page \<Rightarrow> carousel_result" where
  "to_with fire J pos s =
     (let (activeIndex, w, d) = getActiveIndex J s; items = car_items w in
      if (case pos of None \<Rightarrow> False | Some i \<Rightarrow> i > int (length items) - 1 \<or> i < 0) then (Ret_other, w, d)
      else if car_sliding w then (Ret_other, w\<lparr>car_slid := car_slid w @ [Slid_to pos]\<rparr>, d)
      else if pos = Some activeIndex then
        car_then (carousel_pause J False (w, d)) (\<lambda>s. (Ret_this, carousel_cycle False s))
      else slide_with fire J (if (case pos of None \<Rightarrow> False | Some i \<Rightarrow> i > activeIndex) then ''next'' else ''prev'')
             (Some (case pos of None \<Rightarrow> [] | Some i \<Rightarrow> [items ! nat i])) (w, d))"

definition run_slid :: "(carousel_page \<Rightarrow> carousel_page js_result) \<Rightarrow> jquery \<Rightarrow> slid_handler \<Rightarrow> carousel_page \<Rightarrow> carousel_page js_result" where
  "run_slid fire J h = (\<lambda>(w, d).
     let s = (w\<lparr>car_slid := remove1 h (car_slid w)\<rparr>, d) in
     case h of
       Slid_to pos \<Rightarrow> car_outcome (to_with fire J pos s)
     | Slid_indicator \<Rightarrow>
         (let (i, w1, d1) = getActiveIndex J s; cs = jq_children J d1 (car_indicators w1)
          in (None, w1, jq_addClass J (if 0 \<le> i \<and> nat i < length cs then [cs ! nat i] else []) ''active'' d1)))"

text \<open>The event \<open>slid\<close>: first the handlers of the page, then those that wait for it, each once. A handler may slide at
once and fire the event again, hence the fuel; as many steps as there are handlers, and one, are enough.\<close>

primrec fire_slid :: "nat \<Rightarrow> jquery \<Rightarrow> carousel_page \<Rightarrow> carousel_page js_result" where
  "fire_slid 0 J s = (None, s)"
| "fire_slid (Suc k) J s =
     jq_each (run_slid (fire_slid k J) J) (car_slid (fst s))
       (fst s, snd (jq_trigger J ''slid'' [car_element (fst s)] (snd s)))"

definition carousel_fire :: "jquery \<Rightarrow> carousel_page \<Rightarrow> carousel_page js_result" where
  "carousel_fire J s = fire_slid (Suc (length (car_slid (fst s)))) J s"

definition carousel_slide :: "jquery \<Rightarrow> string \<Rightarrow> node list option \<Rightarrow> carousel_page \<Rightarrow> carousel_result" where
  "carousel_slide J = slide_with (carousel_fire J) J"

definition carousel_to :: "jquery \<Rightarrow> int option \<Rightarrow> carousel_page \<Rightarrow> carousel_result" where
  "carousel_to J = to_with (carousel_fire J) J"

definition carousel_next :: "jquery \<Rightarrow> carousel_page \<Rightarrow> carousel_result" where
  "carousel_next J s = (if car_sliding (fst s) then (Ret_other, s) else carousel_slide J ''next'' None s)"

definition carousel_prev :: "jquery \<Rightarrow> carousel_page \<Rightarrow> carousel_result" where
  "carousel_prev J s = (if car_sliding (fst s) then (Ret_other, s) else carousel_slide J ''prev'' None s)"

section \<open>Events\<close>

text \<open>The calls of the page, the mouse (over a carousel that pauses on hover), a timer, the end of a transition, and the
delayed \<open>slid\<close>.\<close>

datatype carousel_event = Car_cycle | Car_pause | Car_next | Car_prev | Car_to "int option"
  | Car_mouseenter | Car_mouseleave | Car_tick nat | Car_transition_end | Car_slid_timeout

fun carousel_step :: "jquery \<Rightarrow> carousel_event \<Rightarrow> carousel_page \<Rightarrow> carousel_page js_result" where
  "carousel_step J Car_cycle s = (None, carousel_cycle False s)"
| "carousel_step J Car_pause s = car_outcome (carousel_pause J False s)"
| "carousel_step J Car_next s = car_outcome (carousel_next J s)"
| "carousel_step J Car_prev s = car_outcome (carousel_prev J s)"
| "carousel_step J (Car_to pos) s = car_outcome (carousel_to J pos s)"
| "carousel_step J Car_mouseenter s =
     (if car_opt_pause (car_options (fst s)) = ''hover'' then car_outcome (carousel_pause J True s) else (None, s))"
| "carousel_step J Car_mouseleave s =
     (if car_opt_pause (car_options (fst s)) = ''hover'' then (None, carousel_cycle True s) else (None, s))"
| "carousel_step J (Car_tick i) s = (if i \<in> set (car_timers (fst s)) then car_outcome (carousel_next J s) else (None, s))"
| "carousel_step J Car_transition_end s = (None, fire_transition_end J s)"
| "carousel_step J Car_slid_timeout s = (if car_slid_timeouts (fst s) = 0 then (None, s)
     else carousel_fire J ((fst s)\<lparr>car_slid_timeouts := car_slid_timeouts (fst s) - 1\<rparr>, snd s))"

definition carousel_run :: "jquery \<Rightarrow> carousel_event list \<Rightarrow> carousel_page \<Rightarrow> carousel_page" where
  "carousel_run J es s = foldl (\<lambda>s e. snd (carousel_step J e s)) s es"

section \<open>The plugin\<close>

type_synonym carousel_insts = "(node \<Rightarrow> carousel option) \<times> dom"

text \<open>A method called by name gets no argument: \<open>to\<close> takes it for a position that is not a number, \<open>slide\<close> for the name
of a method of jQuery that does not exist.\<close>

definition carousel_method :: "jquery \<Rightarrow> string \<Rightarrow> carousel_page \<Rightarrow> carousel_page js_result" where
  "carousel_method J name s =
     (if name = ''cycle'' then (None, carousel_cycle False s)
      else if name = ''pause'' then car_outcome (carousel_pause J False s)
      else if name = ''next'' then car_outcome (carousel_next J s)
      else if name = ''prev'' then car_outcome (carousel_prev J s)
      else if name = ''to'' then car_outcome (carousel_to J None s)
      else if name = ''getActiveIndex'' then (None, snd (getActiveIndex J s))
      else (Some TypeError, s))"

definition carousel_pause_cycle :: "jquery \<Rightarrow> carousel_page \<Rightarrow> carousel_page js_result" where
  "carousel_pause_cycle J s = car_outcome (car_then (carousel_pause J False s) (\<lambda>s. (Ret_this, carousel_cycle False s)))"

definition carousel_plugin1 :: "jquery \<Rightarrow> (carousel_options \<Rightarrow> carousel_options) plugin_arg \<Rightarrow> node \<Rightarrow> carousel_insts \<Rightarrow> carousel_insts js_result" where
  "carousel_plugin1 J arg n = (\<lambda>(insts, d).
     let opts = (case arg_object arg of None \<Rightarrow> carousel_defaults | Some f \<Rightarrow> f carousel_defaults);
         action = (case arg of Arg_name name \<Rightarrow> Some name | _ \<Rightarrow> car_opt_slide opts);
         w = (case insts n of Some w \<Rightarrow> w | None \<Rightarrow> carousel_new J n opts d);
         (r, w', d') = (case arg of Arg_number i \<Rightarrow> car_outcome (carousel_to J (Some i) (w, d))
           | _ \<Rightarrow> (case action of Some name \<Rightarrow> carousel_method J name (w, d)
               | None \<Rightarrow> if car_opt_interval opts \<noteq> 0 then carousel_pause_cycle J (w, d) else (None, w, d)))
     in (r, insts(n \<mapsto> w'), d'))"

definition carousel_plugin :: "jquery \<Rightarrow> (carousel_options \<Rightarrow> carousel_options) plugin_arg \<Rightarrow> node list \<Rightarrow> carousel_insts \<Rightarrow> carousel_insts js_result" where
  "carousel_plugin J arg S = jq_each (carousel_plugin1 J arg) S"

text \<open>A click on a control: its target gets the options of both; with \<open>data-slide-to\<close>, the position is gone to, and
what that returns is asked to \<open>cycle\<close>. The flag says whether the click is prevented from following the link.\<close>

definition control_target :: "jquery \<Rightarrow> dom \<Rightarrow> node \<Rightarrow> node list" where
  "control_target J d n = (case jq_attr J d [n] ''data-target'' of
     Some (c # t) \<Rightarrow> jq_select J d (c # t)
   | _ \<Rightarrow> (case jq_attr J d [n] ''href'' of Some (c # h) \<Rightarrow> jq_select J d (strip_ie7 True (c # h)) | _ \<Rightarrow> []))"

definition slide_to_then_cycle :: "jquery \<Rightarrow> int option \<Rightarrow> carousel_page \<Rightarrow> carousel_page js_result" where
  "slide_to_then_cycle J pos s = car_outcome (car_then (carousel_pause J False s) (\<lambda>s.
     case carousel_to J pos s of
       (Ret_this, s') \<Rightarrow> (Ret_this, carousel_cycle False s')
     | (Ret_other, s') \<Rightarrow> (Throws TypeError, s')
     | (Throws e, s') \<Rightarrow> (Throws e, s')))"

definition carousel_click :: "jquery \<Rightarrow> (node \<Rightarrow> carousel_options \<Rightarrow> carousel_options) \<Rightarrow> (string \<Rightarrow> int option) \<Rightarrow> node \<Rightarrow>
    carousel_insts \<Rightarrow> bool \<times> carousel_insts js_result" where
  "carousel_click J data parse_int n = (\<lambda>(insts, d).
     let target = control_target J d n;
         opts = (case target of [] \<Rightarrow> data n | t # _ \<Rightarrow> data n \<circ> data t);
         r = js_then (carousel_plugin J (Arg_object opts) target (insts, d)) (\<lambda>(insts, d).
           case jq_attr J d [n] ''data-slide-to'' of
             Some (c # t) \<Rightarrow> (case target of [] \<Rightarrow> (Some TypeError, insts, d)
               | m # _ \<Rightarrow> (case insts m of None \<Rightarrow> (Some TypeError, insts, d)
                   | Some w \<Rightarrow> (case slide_to_then_cycle J (parse_int (c # t)) (w, d) of (r, w', d') \<Rightarrow> (r, insts(m \<mapsto> w'), d'))))
           | _ \<Rightarrow> (None, insts, d))
     in (fst r = None, r))"

section \<open>The invariant\<close>

text \<open>At most one timer runs, and it is the one the carousel knows.\<close>

definition timer_ok :: "carousel \<Rightarrow> bool" where
  "timer_ok w \<longleftrightarrow> (car_timers w = [] \<or> (\<exists>i. car_interval w = Some i \<and> car_timers w = [i]))"

text \<open>The items are the elements of class \<open>item\<close> in the carousel and the children of one element; the indicators lie
elsewhere.\<close>

definition carousel_struct :: "carousel \<Rightarrow> dom \<Rightarrow> node list \<Rightarrow> node \<Rightarrow> bool" where
  "carousel_struct w d its p \<longleftrightarrow> its \<noteq> [] \<and> distinct its \<and> kids d p = its \<and> (\<forall>n \<in> set its. parent_of d n = Some p) \<and>
     filter (\<lambda>n. ''item'' \<in> classes d n) (descendants d (car_element w)) = its \<and>
     (car_indicators w = [] \<or> (\<exists>i. car_indicators w = [i] \<and> set (descendants d i) \<inter> set its = {} \<and> set (kids d i) \<inter> set its = {}))"

definition the_active :: "dom \<Rightarrow> node list \<Rightarrow> node list" where
  "the_active d its = filter (\<lambda>n. ''active'' \<in> classes d n) its"

text \<open>A slide under way: between two items, the first of which is the active one.\<close>

definition handler_ok :: "dom \<Rightarrow> node list \<Rightarrow> transition_handler \<Rightarrow> bool" where
  "handler_ok d its h \<longleftrightarrow> (\<exists>n a. th_next h = [n] \<and> th_active h = [a] \<and> n \<in> set its \<and> a \<in> set its \<and> n \<noteq> a \<and>
     the_active d its = [a] \<and> th_type h \<in> {''next'', ''prev''} \<and> th_direction h = slide_direction (th_type h))"

definition carousel_inv :: "node list \<Rightarrow> node \<Rightarrow> carousel_page \<Rightarrow> bool" where
  "carousel_inv its p = (\<lambda>(w, d). timer_ok w \<and> carousel_struct w d its p \<and> (\<exists>a \<in> set its. the_active d its = [a]) \<and>
     (car_trans w = [] \<or> car_sliding w \<and> (\<exists>h. car_trans w = [h] \<and> handler_ok d its h)))"

text \<open>Updates that the invariant does not see.\<close>

lemma struct_cong:
  assumes "carousel_struct w d its p" "kids e = kids d" "parent_of e = parent_of d" "fresh_node e = fresh_node d"
    "\<And>n. (''item'' \<in> classes e n) = (''item'' \<in> classes d n)" "car_element v = car_element w" "car_indicators v = car_indicators w"
  shows "carousel_struct v e its p"
  using assms by (simp add: carousel_struct_def descendants_cong [of e d])

lemma carousel_inv_widget [simp]:
  "carousel_inv its p (w\<lparr>car_paused := b\<rparr>, d) = carousel_inv its p (w, d)"
  "carousel_inv its p (w\<lparr>car_slid := hs\<rparr>, d) = carousel_inv its p (w, d)"
  "carousel_inv its p (w\<lparr>car_items := S\<rparr>, d) = carousel_inv its p (w, d)"
  "carousel_inv its p (w\<lparr>car_slid_timeouts := k\<rparr>, d) = carousel_inv its p (w, d)"
  by (simp_all add: carousel_inv_def timer_ok_def carousel_struct_def)

lemma carousel_inv_sliding: "carousel_inv its p (w, d) \<Longrightarrow> carousel_inv its p (w\<lparr>car_sliding := True\<rparr>, d)"
  by (auto simp: carousel_inv_def timer_ok_def carousel_struct_def)

lemma timer_ok_clear: "timer_ok w \<Longrightarrow> car_timers (clear_interval (car_interval w) w) = []"
  by (auto simp: timer_ok_def clear_interval_def split: option.split)

lemma clear_interval_simps [simp]:
  "car_interval (clear_interval t w) = car_interval w" "car_trans (clear_interval t w) = car_trans w"
  "car_sliding (clear_interval t w) = car_sliding w" "car_element (clear_interval t w) = car_element w"
  "car_indicators (clear_interval t w) = car_indicators w" "car_paused (clear_interval t w) = car_paused w"
  "car_options (clear_interval t w) = car_options w" "car_next_timer (clear_interval t w) = car_next_timer w"
  "car_slid (clear_interval t w) = car_slid w"
  by (simp_all add: clear_interval_def split: option.split)

lemma carousel_cycle_timer: "timer_ok w \<Longrightarrow> timer_ok (fst (carousel_cycle e (w, d)))"
  using timer_ok_clear [of w] timer_ok_clear [of "w\<lparr>car_paused := False\<rparr>"]
  by (auto simp: carousel_cycle_def timer_ok_def Let_def)

lemma carousel_cycle_fields [simp]:
  "snd (carousel_cycle e s) = snd s" "car_trans (fst (carousel_cycle e s)) = car_trans (fst s)"
  "car_sliding (fst (carousel_cycle e s)) = car_sliding (fst s)" "car_element (fst (carousel_cycle e s)) = car_element (fst s)"
  "car_indicators (fst (carousel_cycle e s)) = car_indicators (fst s)" "car_slid (fst (carousel_cycle e s)) = car_slid (fst s)"
  "car_options (fst (carousel_cycle e s)) = car_options (fst s)"
  by (simp_all add: carousel_cycle_def split_beta Let_def)

lemma carousel_cycle_inv: "carousel_inv its p s \<Longrightarrow> carousel_inv its p (carousel_cycle e s)"
proof -
  assume i: "carousel_inv its p s"
  obtain w d where s: "s = (w, d)" by (cases s)
  define w' where "w' = fst (carousel_cycle e s)"
  have c: "carousel_cycle e s = (w', d)" using carousel_cycle_fields(1) [of e s] by (simp add: prod_eq_iff s w'_def)
  have "timer_ok w'" using carousel_cycle_timer [of w e d] i c by (simp add: s carousel_inv_def)
  moreover have "car_trans w' = car_trans w" "car_sliding w' = car_sliding w" "car_element w' = car_element w" "car_indicators w' = car_indicators w"
    by (simp_all add: w'_def s)
  ultimately show ?thesis using i unfolding c by (simp add: s carousel_inv_def carousel_struct_def)
qed

text \<open>The end of a transition makes the next item the active one.\<close>

lemma fire_transition_inv:
  assumes J: "jquery_ok J" and i: "carousel_inv its p s"
  shows "carousel_inv its p (fire_transition_end J s)" "car_trans (fst (fire_transition_end J s)) = []"
    "car_interval (fst (fire_transition_end J s)) = car_interval (fst s)"
proof -
  obtain w d where s: "s = (w, d)" by (cases s)
  have "carousel_inv its p (fire_transition_end J s) \<and> car_trans (fst (fire_transition_end J s)) = [] \<and>
    car_interval (fst (fire_transition_end J s)) = car_interval (fst s)"
  proof (cases "car_trans w = []")
    case True
    then have "fire_transition_end J s = (w\<lparr>car_trans := []\<rparr>, d)" by (simp add: fire_transition_end_def s)
    then show ?thesis using i by (simp add: s carousel_inv_def timer_ok_def carousel_struct_def)
  next
    case False
    then obtain h where h: "car_trans w = [h]" "handler_ok d its h" using i by (auto simp: s carousel_inv_def)
    then obtain n a where na: "th_next h = [n]" "th_active h = [a]" "n \<in> set its" "a \<in> set its" "n \<noteq> a" "the_active d its = [a]"
        "th_type h \<in> {''next'', ''prev''}" "th_direction h = slide_direction (th_type h)" by (auto simp: handler_ok_def)
    let ?t = "th_type h @ '' '' @ th_direction h" and ?u = "''active '' @ th_direction h"
    have cn: "''item'' \<notin> set (class_names ?t)" "''active'' \<notin> set (class_names ?t)"
        "''item'' \<notin> set (class_names ?u)" "''active'' \<in> set (class_names ?u)"
      using na(7) unfolding na(8) slide_direction_def by auto
    define e where "e = dom_removeClass [a] ?u (dom_addClass [n] ''active'' (dom_removeClass [n] ?t d))"
    have f: "fire_transition_end J s = (w\<lparr>car_trans := [], car_sliding := False, car_slid_timeouts := Suc (car_slid_timeouts w)\<rparr>, e)"
      using J by (simp add: fire_transition_end_def s h(1) run_transition_def na(1,2) jq e_def)
    have "''active'' \<in> classes e m \<longleftrightarrow> m = n" if "m \<in> set its" for m
    proof -
      have "''active'' \<in> classes d m \<longleftrightarrow> m = a"
        using na(6) that by (auto simp: the_active_def filter_eq_Cons_iff dest!: arg_cong [of _ _ set])
      then show ?thesis using cn na(5) by (auto simp: e_def)
    qed
    then have "the_active e its = filter (\<lambda>m. m = n) its" unfolding the_active_def by (intro filter_cong) simp_all
    moreover have "distinct its" using i by (simp add: s carousel_inv_def carousel_struct_def)
    ultimately have "the_active e its = [n]" using filter_only na(3) by simp
    moreover have "carousel_struct w e its p"
      by (rule struct_cong [of w d]) (use i cn in \<open>auto simp: s carousel_inv_def e_def\<close>)
    ultimately show ?thesis using i na(3) unfolding f
      by (simp add: s carousel_inv_def timer_ok_def carousel_struct_def)
  qed
  then show "carousel_inv its p (fire_transition_end J s)" "car_trans (fst (fire_transition_end J s)) = []"
    "car_interval (fst (fire_transition_end J s)) = car_interval (fst s)" by simp_all
qed

lemma carousel_pause_inv:
  assumes J: "jquery_ok J" "quiet J" and i: "carousel_inv its p s"
  shows "carousel_inv its p (snd (carousel_pause J e s))"
    and "car_sliding (fst s) \<Longrightarrow> car_trans (fst s) = [] \<Longrightarrow>
       car_sliding (fst (snd (carousel_pause J e s))) \<and> car_trans (fst (snd (carousel_pause J e s))) = [] \<and> snd (snd (carousel_pause J e s)) = snd s"
    and "car_element (fst (snd (carousel_pause J e s))) = car_element (fst s)"
    and "car_indicators (fst (snd (carousel_pause J e s))) = car_indicators (fst s)"
proof -
  obtain w d where s: "s = (w, d)" by (cases s)
  define w1 where "w1 = (if e then w else w\<lparr>car_paused := True\<rparr>)"
  have w1: "carousel_inv its p (w1, d)" using i by (simp add: w1_def s)
  have w1s: "car_sliding w1 = car_sliding w" "car_trans w1 = car_trans w" "car_element w1 = car_element w" "car_indicators w1 = car_indicators w"
    by (simp_all add: w1_def)
  have stop: "carousel_inv its p ((clear_interval (car_interval v) v)\<lparr>car_interval := None\<rparr>, d')" if "carousel_inv its p (v, d')" for v d'
    using that timer_ok_clear [of v] by (auto simp: carousel_inv_def timer_ok_def carousel_struct_def)
  obtain v d' where v: "carousel_cycle True (fire_transition_end J (w1, d)) = (v, d')"
    by (cases "carousel_cycle True (fire_transition_end J (w1, d))")
  have iv: "carousel_inv its p (v, d')" using carousel_cycle_inv fire_transition_inv(1) [OF J(1) w1] v by metis
  have fe: "car_element (fst (fire_transition_end J (w1, d))) = car_element w1" "car_indicators (fst (fire_transition_end J (w1, d))) = car_indicators w1"
  proof -
    have "car_element (fst (foldl (run_transition J) t hs)) = car_element (fst t) \<and>
        car_indicators (fst (foldl (run_transition J) t hs)) = car_indicators (fst t)" for t hs
      by (induction hs arbitrary: t) (simp_all add: run_transition_def split_beta Let_def)
    then show "car_element (fst (fire_transition_end J (w1, d))) = car_element w1" "car_indicators (fst (fire_transition_end J (w1, d))) = car_indicators w1"
      by (simp_all add: fire_transition_end_def)
  qed
  have ve: "car_element v = car_element w" "car_indicators v = car_indicators w"
    using carousel_cycle_fields(4,5) [of True "fire_transition_end J (w1, d)"] fe w1s by (simp_all add: v)
  have p: "carousel_pause J e s =
     (if jq_find J d [car_element w1] ''.next, .prev'' = [] then (Ret_this, (clear_interval (car_interval w1) w1)\<lparr>car_interval := None\<rparr>, d)
      else case transition_end J of None \<Rightarrow> (Throws TypeError, w1, d)
        | Some ev \<Rightarrow> (Ret_this, (clear_interval (car_interval v) v)\<lparr>car_interval := None\<rparr>, d'))"
    using J(2) v unfolding w1_def by (cases e) (simp_all add: carousel_pause_def s Let_def split: option.split)
  show "carousel_inv its p (snd (carousel_pause J e s))"
    unfolding p using stop [OF w1] stop [OF iv] w1 by (simp split: option.split)
  show "car_element (fst (snd (carousel_pause J e s))) = car_element (fst s)"
    "car_indicators (fst (snd (carousel_pause J e s))) = car_indicators (fst s)"
    unfolding p using ve w1s by (simp_all add: s split: option.split)
  show "car_sliding (fst (snd (carousel_pause J e s))) \<and> car_trans (fst (snd (carousel_pause J e s))) = [] \<and> snd (snd (carousel_pause J e s)) = snd s"
    if "car_sliding (fst s)" "car_trans (fst s) = []"
  proof -
    have "fire_transition_end J (w1, d) = (w1\<lparr>car_trans := []\<rparr>, d)"
      using that w1s by (simp add: fire_transition_end_def s)
    then have cv: "carousel_cycle True (w1\<lparr>car_trans := []\<rparr>, d) = (v, d')" using v by simp
    have "car_sliding v" "car_trans v = []" "d' = d"
      using carousel_cycle_fields(1-3) [of True "(w1\<lparr>car_trans := []\<rparr>, d)"] w1s that unfolding cv by (simp_all add: s)
    then show ?thesis unfolding p using that w1s by (simp add: s split: option.split)
  qed
qed

text \<open>What a slide finds: the active item, and an item to slide to.\<close>

lemma carousel_find:
  assumes J: "jquery_ok J" and i: "carousel_inv its p (w, d)"
  shows "\<exists>a \<in> set its. the_active d its = [a] \<and> jq_find J d [car_element w] ''.item.active'' = [a]"
    and "jq_find J d [car_element w] ''.item'' = its"
proof -
  have st: "filter (\<lambda>n. ''item'' \<in> classes d n) (descendants d (car_element w)) = its" "\<exists>a \<in> set its. the_active d its = [a]"
    using i by (simp_all add: carousel_inv_def carousel_struct_def)
  have sel: "sel_matches d ''.item.active'' = (\<lambda>n. ''item'' \<in> classes d n \<and> ''active'' \<in> classes d n)" "simple_selector ''.item.active''"
      "sel_matches d ''.item'' = (\<lambda>n. ''item'' \<in> classes d n)" "simple_selector ''.item''"
    by (simp_all add: fun_eq_iff sel_matches_def simple_selector_def is_word_unit_def)
  show "jq_find J d [car_element w] ''.item'' = its" using jq_find_simple [OF J sel(4)] st(1) by (simp add: sel(3))
  have "jq_find J d [car_element w] ''.item.active'' = filter (\<lambda>n. ''active'' \<in> classes d n) (filter (\<lambda>n. ''item'' \<in> classes d n) (descendants d (car_element w)))"
    using jq_find_simple [OF J sel(2)] by (simp add: sel(1) conj_commute)
  then have "jq_find J d [car_element w] ''.item.active'' = the_active d its" unfolding st(1) the_active_def .
  then show "\<exists>a \<in> set its. the_active d its = [a] \<and> jq_find J d [car_element w] ''.item.active'' = [a]" using st(2) by auto
qed

lemma after_subset: "set (after n ns) \<subseteq> set ns" "length (after n ns) \<le> 1"
  by (induction n ns rule: after.induct) (auto dest: in_set_takeD)

lemma small_list: "length xs \<le> 1 \<Longrightarrow> xs \<noteq> [] \<Longrightarrow> \<exists>x. xs = [x]"
  by (cases xs) auto

lemma car_then_cases:
  "(\<And>e t. r = (Throws e, t) \<Longrightarrow> P t) \<Longrightarrow> (\<And>t. snd r = t \<Longrightarrow> P (snd (f t))) \<Longrightarrow> P (snd (car_then r f))"
  by (auto simp: car_then_def split: prod.split js_return.split)

lemma filter_only_iff: "filter Q its = [a] \<Longrightarrow> n \<in> set its \<Longrightarrow> Q n \<longleftrightarrow> n = a"
proof -
  assume f: "filter Q its = [a]" and n: "n \<in> set its"
  have "set (filter Q its) = {a}" using f by simp
  then show ?thesis using n by auto
qed

text \<open>The move of the marks, with any \<open>fire\<close> that keeps the invariant.\<close>

lemma slide_move_inv:
  assumes J: "jquery_ok J" "quiet J" and fire: "\<And>s. carousel_inv its p s \<Longrightarrow> carousel_inv its p (snd (fire s))"
    and i: "carousel_inv its p (w, d)" and sl: "car_sliding w" "car_trans w = []"
    and a: "the_active d its = [a]" "a \<in> set its" and n: "n \<in> set its" "n \<noteq> a" and t: "type \<in> {''next'', ''prev''}"
  shows "carousel_inv its p (snd (slide_move fire J type [n] [a] c (w, d)))"
proof -
  let ?dir = "slide_direction type"
  have dist: "distinct its" using i by (simp add: carousel_inv_def carousel_struct_def)
  have cn: "''item'' \<notin> set (class_names ?dir)" "''active'' \<notin> set (class_names ?dir)"
      "''item'' \<notin> set (class_names type)" "''active'' \<notin> set (class_names type)"
    using t by (auto simp: slide_direction_def)
  obtain pr where tr: "jq_trigger J ''slide'' [car_element w] d = (pr, d)"
    using quietD [OF J(2), of "''slide''" "[car_element w]" d] by (metis prod.collapse)
  define e1 where "e1 = dom_addClass [n] ?dir (dom_addClass [a] ?dir (dom_addClass [n] type d))"
  define h where "h = \<lparr>th_type = type, th_direction = ?dir, th_next = [n], th_active = [a]\<rparr>"
  have i1: "carousel_inv its p (w\<lparr>car_trans := [h]\<rparr>, e1)"
  proof -
    have "the_active e1 its = the_active d its" using cn by (auto simp: the_active_def e1_def intro!: filter_cong)
    moreover have "carousel_struct w e1 its p"
      by (rule struct_cong [of w d]) (use i cn in \<open>auto simp: carousel_inv_def e1_def\<close>)
    moreover have "handler_ok e1 its h" using calculation(1) a n t by (simp add: handler_ok_def h_def)
    ultimately show ?thesis using i sl a by (simp add: carousel_inv_def timer_ok_def carousel_struct_def)
  qed
  define e2 where "e2 = dom_addClass [n] ''active'' (dom_removeClass [a] ''active'' d)"
  have i2: "carousel_inv its p (w\<lparr>car_sliding := False\<rparr>, e2)"
  proof -
    have "''active'' \<in> classes e2 m \<longleftrightarrow> m = n" if "m \<in> set its" for m
      using filter_only_iff [OF a(1) [unfolded the_active_def] that] n(2) by (auto simp: e2_def)
    then have "the_active e2 its = filter (\<lambda>m. m = n) its" unfolding the_active_def by (intro filter_cong) simp_all
    then have "the_active e2 its = [n]" using filter_only [OF dist n(1)] by simp
    moreover have "carousel_struct w e2 its p"
      by (rule struct_cong [of w d]) (use i in \<open>auto simp: carousel_inv_def e2_def\<close>)
    ultimately show ?thesis using i sl n by (simp add: carousel_inv_def timer_ok_def carousel_struct_def)
  qed
  obtain r f where f: "fire (w\<lparr>car_sliding := False\<rparr>, e2) = (r, f)" by (cases "fire (w\<lparr>car_sliding := False\<rparr>, e2)")
  have "carousel_inv its p f" using fire [OF i2] f by simp
  then have fin: "carousel_inv its p f" "carousel_inv its p (carousel_cycle False f)"
      "carousel_inv its p (carousel_cycle False (w\<lparr>car_trans := [h]\<rparr>, e1))"
    using carousel_cycle_inv i1 by blast+
  have e12: "jq_addClass J [n] ?dir (jq_addClass J [a] ?dir (jq_addClass J [n] type d)) = e1"
      "jq_addClass J [n] ''active'' (jq_removeClass J [a] ''active'' d) = e2"
    using J(1) by (simp_all add: jq e1_def e2_def)
  show ?thesis
    using i i1 fin by (cases r) (simp_all add: slide_move_def tr Let_def e12 h_def [symmetric] sl(2) f)
qed

lemma slide_with_inv:
  assumes J: "jquery_ok J" "quiet J" and fire: "\<And>s. carousel_inv its p s \<Longrightarrow> carousel_inv its p (snd (fire s))"
    and i: "carousel_inv its p (w, d)" and sl: "\<not> car_sliding w" and t: "type \<in> {''next'', ''prev''}"
    and arg: "arg = None \<or> arg = Some [] \<or> (\<exists>x \<in> set its. arg = Some [x])"
  shows "carousel_inv its p (snd (slide_with fire J type arg (w, d)))"
proof -
  obtain a where a: "a \<in> set its" "the_active d its = [a]" "jq_find J d [car_element w] ''.item.active'' = [a]"
    using carousel_find(1) [OF J(1) i] by blast
  have st: "kids d p = its" "parent_of d a = Some p" "its \<noteq> []" and tr: "car_trans w = []"
    using i a(1) sl by (auto simp: carousel_inv_def carousel_struct_def)
  define next0 where "next0 = (case arg of Some ns \<Rightarrow> ns | None \<Rightarrow> if type = ''next'' then jq_next J d [a] else jq_prev J d [a])"
  have n0: "set next0 \<subseteq> set its" "length next0 \<le> 1"
    using arg after_subset [of a its] after_subset [of a "rev its"] J(1)
    by (auto simp: next0_def jq dom_next_def dom_prev_def st)
  let ?w1 = "w\<lparr>car_sliding := True\<rparr>"
  have i1: "carousel_inv its p (?w1, d)" using carousel_inv_sliding [OF i] .
  define r where "r = (if car_interval w \<noteq> None then carousel_pause J False (?w1, d) else (Ret_this, ?w1, d))"
  have r: "carousel_inv its p (snd r)" "car_sliding (fst (snd r))" "car_trans (fst (snd r)) = []" "snd (snd r) = d"
      "car_element (fst (snd r)) = car_element w" "car_indicators (fst (snd r)) = car_indicators w"
    using carousel_pause_inv [OF J i1, of False] i1 tr by (simp_all add: r_def)
  obtain w2 where w2: "snd r = (w2, d)" using r(4) by (metis prod.collapse)
  have iw2: "carousel_inv its p (w2, d)" "car_sliding w2" "car_trans w2 = []" using r w2 by simp_all
  define nxt where "nxt = (if next0 \<noteq> [] then next0 else slide_fallback type its)"
  obtain x where x: "nxt = [x]" "x \<in> set its"
  proof -
    have "set (slide_fallback type its) \<subseteq> set its" "length (slide_fallback type its) \<le> 1" "slide_fallback type its \<noteq> []"
      using st(3) by (auto simp: slide_fallback_def dest: in_set_takeD)
    then have "set nxt \<subseteq> set its" "length nxt \<le> 1" "nxt \<noteq> []" using n0 by (auto simp: nxt_def)
    then show thesis using that small_list by (metis list.set_intros(1) subset_iff)
  qed
  have move: "carousel_inv its p (snd (slide_move fire J type nxt [a] c (v, e)))"
    if "\<not> ''active'' \<in> classes d x" "carousel_inv its p (v, e)" "car_sliding v" "car_trans v = []" "the_active e its = [a]" for c v e
  proof -
    have "x \<noteq> a" using that(1) filter_only_iff [OF a(2) [unfolded the_active_def] a(1)] by auto
    then show ?thesis unfolding x(1) using slide_move_inv [where fire = fire, OF J fire that(2,3,4,5) a(1) x(2) _ t] by simp
  qed
  have ind: "carousel_inv its p (w2\<lparr>car_slid := hs\<rparr>, dom_removeClass (jq_find J d (car_indicators w2) ''.active'') ''active'' d) \<and>
      the_active (dom_removeClass (jq_find J d (car_indicators w2) ''.active'') ''active'' d) its = [a]"
    if ne: "car_indicators w2 \<noteq> []" for hs
  proof -
    let ?S = "jq_find J d (car_indicators w2) ''.active''"
    obtain k where k: "car_indicators w2 = [k]" "set (descendants d k) \<inter> set its = {}"
      using iw2(1) ne by (auto simp: carousel_inv_def carousel_struct_def)
    have "simple_selector ''.active''" by (simp add: simple_selector_def is_word_unit_def)
    from jq_find_simple [OF J(1) this] have "set ?S \<inter> set its = {}" using k by auto
    then have same: "the_active (dom_removeClass ?S ''active'' d) its = [a]"
      using a(2) by (auto simp: the_active_def intro!: trans [OF filter_cong a(2) [unfolded the_active_def]])
    moreover have "carousel_struct w2 (dom_removeClass ?S ''active'' d) its p"
      by (rule struct_cong [of w2 d]) (use iw2(1) in \<open>auto simp: carousel_inv_def\<close>)
    ultimately show ?thesis using iw2 a(1) by (simp add: carousel_inv_def timer_ok_def carousel_struct_def)
  qed
  have "slide_with fire J type arg (w, d) = car_then r (\<lambda>(w2, d2).
      let next = (if next0 \<noteq> [] then next0 else slide_fallback type (jq_find J d2 [car_element w2] ''.item''))
      in if jq_hasClass J d2 next ''active'' then (Ret_other, w2, d2)
         else if car_indicators w2 \<noteq> [] then
           slide_move fire J type next [a] (car_interval w \<noteq> None)
             (w2\<lparr>car_slid := car_slid w2 @ [Slid_indicator]\<rparr>, jq_removeClass J (jq_find J d2 (car_indicators w2) ''.active'') ''active'' d2)
         else slide_move fire J type next [a] (car_interval w \<noteq> None) (w2, d2))"
    by (simp only: slide_with_def prod.case Let_def a(3) next0_def r_def)
  moreover have "carousel_inv its p (snd (car_then r (\<lambda>(w2, d2).
      let next = (if next0 \<noteq> [] then next0 else slide_fallback type (jq_find J d2 [car_element w2] ''.item''))
      in if jq_hasClass J d2 next ''active'' then (Ret_other, w2, d2)
         else if car_indicators w2 \<noteq> [] then
           slide_move fire J type next [a] (car_interval w \<noteq> None)
             (w2\<lparr>car_slid := car_slid w2 @ [Slid_indicator]\<rparr>, jq_removeClass J (jq_find J d2 (car_indicators w2) ''.active'') ''active'' d2)
         else slide_move fire J type next [a] (car_interval w \<noteq> None) (w2, d2))))"
  proof (rule car_then_cases)
    show "carousel_inv its p t" if "r = (Throws e, t)" for e t using r(1) that by simp
    have nx: "(if next0 \<noteq> [] then next0 else slide_fallback type (jq_find J d [car_element w2] ''.item'')) = nxt"
      using carousel_find(2) [OF J(1) iw2(1)] by (simp add: nxt_def)
    have ac: "jq_hasClass J d nxt ''active'' \<longleftrightarrow> ''active'' \<in> classes d x" using J(1) by (simp add: x(1) jq)
    have c1: "\<not> ''active'' \<in> classes d x \<Longrightarrow> carousel_inv its p (snd (slide_move fire J type nxt [a] (car_interval w \<noteq> None) (w2, d)))"
      using move [OF _ iw2 a(2)] .
    have c2: "\<not> ''active'' \<in> classes d x \<Longrightarrow> car_indicators w2 \<noteq> [] \<Longrightarrow>
        carousel_inv its p (snd (slide_move fire J type nxt [a] (car_interval w \<noteq> None)
          (w2\<lparr>car_slid := car_slid w2 @ [Slid_indicator]\<rparr>, jq_removeClass J (jq_find J d (car_indicators w2) ''.active'') ''active'' d)))"
      using move ind iw2(2,3) J(1) by (simp add: jq)
    show "carousel_inv its p (snd (case t of (w2, d2) \<Rightarrow>
      let next = (if next0 \<noteq> [] then next0 else slide_fallback type (jq_find J d2 [car_element w2] ''.item''))
      in if jq_hasClass J d2 next ''active'' then (Ret_other, w2, d2)
         else if car_indicators w2 \<noteq> [] then
           slide_move fire J type next [a] (car_interval w \<noteq> None)
             (w2\<lparr>car_slid := car_slid w2 @ [Slid_indicator]\<rparr>, jq_removeClass J (jq_find J d2 (car_indicators w2) ''.active'') ''active'' d2)
         else slide_move fire J type next [a] (car_interval w \<noteq> None) (w2, d2)))" if "snd r = t" for t
    proof -
      have t: "t = (w2, d)" using that w2 by simp
      show ?thesis unfolding t prod.case Let_def nx ac using c1 c2 iw2(1) by (cases "''active'' \<in> classes d x"; cases "car_indicators w2") simp_all
    qed
  qed
  ultimately show ?thesis by simp
qed

section \<open>Lemmas on the operations\<close>

lemma getActiveIndex_eq:
  assumes J: "jquery_ok J" and i: "carousel_inv its p (w, d)" and k: "k < length its" "the_active d its = [its ! k]"
  shows "getActiveIndex J (w, d) = (int k, w\<lparr>car_items := its\<rparr>, d)"
proof -
  have st: "kids d p = its" "parent_of d (its ! k) = Some p" "distinct its"
    using i k(1) by (auto simp: carousel_inv_def carousel_struct_def)
  have "jq_find J d [car_element w] ''.item.active'' = [its ! k]" using carousel_find(1) [OF J i] k(2) by auto
  then show ?thesis using J k(1) st index_of_nth [OF k(1) st(3)] by (simp add: getActiveIndex_def jq Let_def)
qed

lemma inv_active:
  assumes "carousel_inv its p (w, d)"
  obtains k where "k < length its" "the_active d its = [its ! k]"
  using assms that unfolding carousel_inv_def by (auto simp: in_set_conv_nth)

lemma car_outcome_snd [simp]: "snd (car_outcome r) = snd r"
  by (simp add: car_outcome_def split: prod.split js_return.split)

lemma to_with_inv:
  assumes J: "jquery_ok J" "quiet J" and fire: "\<And>s. carousel_inv its p s \<Longrightarrow> carousel_inv its p (snd (fire s))"
    and i: "carousel_inv its p s"
  shows "carousel_inv its p (snd (to_with fire J pos s))"
proof -
  obtain w d where s: "s = (w, d)" by (cases s)
  obtain k where k: "k < length its" "the_active d its = [its ! k]" using inv_active i s by metis
  let ?w = "w\<lparr>car_items := its\<rparr>"
  have g: "getActiveIndex J s = (int k, ?w, d)" using getActiveIndex_eq [OF J(1) _ k] i by (simp add: s)
  have iw: "carousel_inv its p (?w, d)" using i by (simp add: s)
  have slide: "carousel_inv its p (snd (slide_with fire J t (Some ns) (?w, d)))"
    if "\<not> car_sliding w" "t \<in> {''next'', ''prev''}" "ns = [] \<or> (\<exists>x \<in> set its. ns = [x])" for t ns
    using slide_with_inv [where fire = fire, OF J fire iw _ that(2), where arg = "Some ns"] that by auto
  have pc: "carousel_inv its p (snd (car_then (carousel_pause J False (?w, d)) (\<lambda>s. (Ret_this, carousel_cycle False s))))"
    by (rule car_then_cases) (use carousel_pause_inv(1) [OF J iw, of False] carousel_cycle_inv in auto)
  show ?thesis
  proof (cases pos)
    case None
    then show ?thesis using slide iw unfolding to_with_def g by (simp add: Let_def)
  next
    case (Some j)
    have "its ! nat j \<in> set its" if "\<not> j < 0" "\<not> int (length its) - 1 < j" using that by (intro nth_mem) linarith
    then have sj: "carousel_inv its p (snd (slide_with fire J t (Some [its ! nat j]) (?w, d)))"
      if "\<not> car_sliding w" "t \<in> {''next'', ''prev''}" "\<not> j < 0" "\<not> int (length its) - 1 < j" for t
      using that slide by blast
    show ?thesis using Some sj iw pc unfolding to_with_def g by (auto simp: Let_def)
  qed
qed

lemma run_slid_inv:
  assumes J: "jquery_ok J" "quiet J" and fire: "\<And>s. carousel_inv its p s \<Longrightarrow> carousel_inv its p (snd (fire s))"
    and i: "carousel_inv its p s"
  shows "carousel_inv its p (snd (run_slid fire J h s))"
proof -
  obtain w d where s: "s = (w, d)" by (cases s)
  let ?w = "w\<lparr>car_slid := remove1 h (car_slid w)\<rparr>"
  have iw: "carousel_inv its p (?w, d)" using i by (simp add: s)
  show ?thesis
  proof (cases h)
    case (Slid_to pos)
    then show ?thesis using to_with_inv [where fire = fire, OF J fire iw] by (simp add: run_slid_def s Let_def)
  next
    case Slid_indicator
    obtain k where k: "k < length its" "the_active d its = [its ! k]" using inv_active iw by metis
    have g: "getActiveIndex J (?w, d) = (int k, ?w\<lparr>car_items := its\<rparr>, d)" using getActiveIndex_eq [OF J(1) iw k] .
    let ?S = "if k < length (jq_children J d (car_indicators w)) then [jq_children J d (car_indicators w) ! k] else []"
    have "set ?S \<inter> set its = {}"
    proof -
      have "car_indicators w = [] \<or> (\<exists>m. car_indicators w = [m] \<and> set (kids d m) \<inter> set its = {})"
        using i by (auto simp: s carousel_inv_def carousel_struct_def)
      then show ?thesis using J(1) by (auto simp: jq disjoint_iff)
    qed
    then have "the_active (dom_addClass ?S ''active'' d) its = the_active d its"
      unfolding the_active_def by (intro filter_cong) (auto split: if_splits)
    moreover have "carousel_struct w (dom_addClass ?S ''active'' d) its p"
      by (rule struct_cong [of w d]) (use i in \<open>auto simp: s carousel_inv_def\<close>)
    ultimately have "carousel_inv its p (w, dom_addClass ?S ''active'' d)"
      using i by (simp add: s carousel_inv_def handler_ok_def)
    then show ?thesis using J(1) Slid_indicator g
      by (cases "k < length (jq_children J d (car_indicators w))") (simp_all add: run_slid_def s Let_def jq_updates)
  qed
qed

lemma fire_slid_inv:
  "jquery_ok J \<Longrightarrow> quiet J \<Longrightarrow> carousel_inv its p s \<Longrightarrow> carousel_inv its p (snd (fire_slid k J s))"
proof (induction k arbitrary: s)
  case (Suc k)
  have "carousel_inv its p (snd (jq_each (run_slid (fire_slid k J) J) hs s))" for hs
    by (rule jq_each_invariant [where P = "carousel_inv its p"]) (use run_slid_inv Suc in auto)
  then show ?case using Suc.prems by (cases s) simp
qed simp

lemma carousel_fire_inv: "jquery_ok J \<Longrightarrow> quiet J \<Longrightarrow> carousel_inv its p s \<Longrightarrow> carousel_inv its p (snd (carousel_fire J s))"
  by (simp add: carousel_fire_def fire_slid_inv del: fire_slid.simps)

lemma carousel_step_inv:
  assumes J: "jquery_ok J" "quiet J" and i: "carousel_inv its p s"
  shows "carousel_inv its p (snd (carousel_step J e s))"
proof -
  obtain w d where s: "s = (w, d)" by (cases s)
  note fire = carousel_fire_inv [OF J]
  have sl: "carousel_inv its p (snd (carousel_slide J t None s))" if "\<not> car_sliding (fst s)" "t \<in> {''next'', ''prev''}" for t
    using slide_with_inv [where fire = "carousel_fire J", OF J fire _ _ that(2), where w = w and d = d and arg = None] that i by (simp add: carousel_slide_def s)
  have np: "carousel_inv its p (snd (carousel_next J s))" "carousel_inv its p (snd (carousel_prev J s))"
    using sl i by (auto simp: carousel_next_def carousel_prev_def)
  have to: "carousel_inv its p (snd (carousel_to J pos s))" for pos
    unfolding carousel_to_def using to_with_inv [where fire = "carousel_fire J", OF J fire i] .
  have ts: "carousel_inv its p (snd (carousel_fire J (w\<lparr>car_slid_timeouts := car_slid_timeouts w - 1\<rparr>, d)))"
    using fire i by (simp add: s)
  show ?thesis
    using np to ts i carousel_cycle_inv [OF i] carousel_pause_inv(1) [OF J i] fire_transition_inv(1) [OF J(1) i]
    by (cases e) (simp_all add: s)
qed

lemma carousel_run_inv:
  "jquery_ok J \<Longrightarrow> quiet J \<Longrightarrow> carousel_inv its p s \<Longrightarrow> carousel_inv its p (carousel_run J es s)"
proof (induction es arbitrary: s)
  case (Cons e es)
  from Cons.IH [OF Cons.prems(1,2) carousel_step_inv [OF Cons.prems]] show ?case by (simp add: carousel_run_def)
qed (simp add: carousel_run_def)

section \<open>The fuel\<close>

text \<open>The calls of \<open>to\<close> that wait. Each event \<open>slid\<close> inside another one has fewer of them left, unless the carousel is
sliding, in which case none is fired.\<close>

fun is_to :: "slid_handler \<Rightarrow> bool" where
  "is_to (Slid_to pos) = True"
| "is_to Slid_indicator = False"

definition waiting_to :: "carousel \<Rightarrow> nat" where
  "waiting_to w = length (filter is_to (car_slid w))"

definition at_most :: "nat \<Rightarrow> carousel_page \<Rightarrow> bool" where
  "at_most c s \<longleftrightarrow> car_sliding (fst s) \<or> waiting_to (fst s) \<le> c"

lemma waiting_to_fields [simp]:
  "waiting_to (fst (carousel_cycle e s)) = waiting_to (fst s)"
  "waiting_to (fst (fire_transition_end J s)) = waiting_to (fst s)"
proof -
  have "car_slid (fst (foldl (run_transition J) t hs)) = car_slid (fst t)" for t hs
    by (induction hs arbitrary: t) (simp_all add: run_transition_def split_beta Let_def)
  then show "waiting_to (fst (fire_transition_end J s)) = waiting_to (fst s)"
    by (simp add: waiting_to_def fire_transition_end_def split_beta)
qed (simp add: waiting_to_def)

lemma waiting_to_pause [simp]: "waiting_to (fst (snd (carousel_pause J e s))) = waiting_to (fst s)"
proof -
  have u: "waiting_to (v\<lparr>car_interval := t\<rparr>) = waiting_to v" "waiting_to (clear_interval t v) = waiting_to v"
      "waiting_to (v\<lparr>car_paused := b\<rparr>) = waiting_to v" for v t b
    by (simp_all add: waiting_to_def)
  show ?thesis by (simp add: carousel_pause_def split_beta Let_def u split: option.split)
qed

lemma waiting_to_remove: "waiting_to (w\<lparr>car_slid := remove1 h (car_slid w)\<rparr>) \<le> waiting_to w"
    "is_to h \<Longrightarrow> h \<in> set (car_slid w) \<Longrightarrow> waiting_to (w\<lparr>car_slid := remove1 h (car_slid w)\<rparr>) < waiting_to w"
proof -
  have "length (filter is_to (remove1 h hs)) \<le> length (filter is_to hs)" for hs
    by (induction hs) auto
  moreover have "is_to h \<Longrightarrow> h \<in> set hs \<Longrightarrow> length (filter is_to (remove1 h hs)) < length (filter is_to hs)" for hs
    by (induction hs) (auto simp: filter_empty_conv)
  ultimately show "waiting_to (w\<lparr>car_slid := remove1 h (car_slid w)\<rparr>) \<le> waiting_to w"
    "is_to h \<Longrightarrow> h \<in> set (car_slid w) \<Longrightarrow> waiting_to (w\<lparr>car_slid := remove1 h (car_slid w)\<rparr>) < waiting_to w"
    by (simp_all add: waiting_to_def)
qed

text \<open>What a slide needs of \<open>fire\<close>.\<close>

lemma slide_move_fire:
  assumes "\<And>t. waiting_to (fst t) = waiting_to w \<Longrightarrow> fire t = fire' t"
  shows "slide_move fire J type next active c (w, d) = slide_move fire' J type next active c (w, d)"
proof -
  have "waiting_to (w\<lparr>car_sliding := False\<rparr>) = waiting_to w" by (simp add: waiting_to_def)
  then show ?thesis using assms by (simp add: slide_move_def split_beta Let_def)
qed

lemma waiting_to_updates [simp]:
  "waiting_to (w\<lparr>car_sliding := b\<rparr>) = waiting_to w" "waiting_to (w\<lparr>car_items := ns\<rparr>) = waiting_to w"
  "waiting_to (w\<lparr>car_slid_timeouts := k\<rparr>) = waiting_to w" "waiting_to (w\<lparr>car_trans := ts\<rparr>) = waiting_to w"
  "waiting_to (w\<lparr>car_slid := hs @ [Slid_indicator]\<rparr>) = length (filter is_to hs)"
  by (simp_all add: waiting_to_def)

lemma car_then_cong: "f (snd r) = g (snd r) \<Longrightarrow> car_then r f = car_then r g"
  by (cases r; cases "fst r") (simp_all add: car_then_def)

lemma slide_with_fire:
  assumes f: "\<And>t. waiting_to (fst t) = waiting_to w \<Longrightarrow> fire t = fire' t"
  shows "slide_with fire J type arg (w, d) = slide_with fire' J type arg (w, d)"
proof -
  let ?w = "w\<lparr>car_sliding := True\<rparr>"
  define r where "r = (if car_interval w \<noteq> None then carousel_pause J False (?w, d) else (Ret_this, ?w, d))"
  have r: "waiting_to (fst (snd r)) = waiting_to w" by (simp add: r_def)
  have m: "slide_move fire J type nx active c (v, e) = slide_move fire' J type nx active c (v, e)"
    if "waiting_to v = waiting_to w" for nx active c v e
    by (rule slide_move_fire) (simp add: f that)
  have "waiting_to (v\<lparr>car_slid := car_slid v @ [Slid_indicator]\<rparr>) = waiting_to v" for v by (simp add: waiting_to_def)
  note m = m m [OF trans [OF this]]
  show ?thesis unfolding slide_with_def Let_def split r_def [symmetric]
    by (rule car_then_cong) (use r m in \<open>cases "snd r"; simp\<close>)
qed

text \<open>A slide ends sliding, or with no more calls waiting than the event it fires leaves.\<close>

lemma slide_move_at_most:
  assumes "\<And>t. waiting_to (fst t) = waiting_to w \<Longrightarrow> at_most c (snd (fire t))" "waiting_to w \<le> c"
  shows "at_most c (snd (slide_move fire J type next active b (w, d)))"
  using assms(1) [of "(w\<lparr>car_sliding := False\<rparr>, e)" for e] assms(2)
  by (auto simp: slide_move_def split_beta Let_def at_most_def split: option.split)

lemma slide_with_at_most:
  assumes f: "\<And>t. waiting_to (fst t) = waiting_to w \<Longrightarrow> at_most c (snd (fire t))" and c: "waiting_to w \<le> c"
  shows "at_most c (snd (slide_with fire J type arg (w, d)))"
proof -
  let ?w = "w\<lparr>car_sliding := True\<rparr>"
  define r where "r = (if car_interval w \<noteq> None then carousel_pause J False (?w, d) else (Ret_this, ?w, d))"
  have r: "waiting_to (fst (snd r)) = waiting_to w" by (simp add: r_def)
  have m: "at_most c (snd (slide_move fire J type nx active b (v, e)))" if "waiting_to v = waiting_to w" for nx active b v e
    by (rule slide_move_at_most) (use f c that in auto)
  have "waiting_to (v\<lparr>car_slid := car_slid v @ [Slid_indicator]\<rparr>) = waiting_to v" for v by (simp add: waiting_to_def)
  note m = m m [OF trans [OF this]]
  have k: "at_most c (snd (car_then r g))" if "at_most c (snd r)" "at_most c (snd (g (snd r)))" for g
    by (cases r; cases "fst r") (use that in \<open>simp_all add: car_then_def\<close>)
  have a: "at_most c (snd r)" using r c by (simp add: at_most_def)
  show ?thesis unfolding slide_with_def Let_def split r_def [symmetric]
    by (rule k [OF a]) (use a r m in \<open>cases "snd r"; simp\<close>)
qed

lemma getActiveIndex_waiting:
  "waiting_to (fst (snd (getActiveIndex J s))) = waiting_to (fst s)" "car_sliding (fst (snd (getActiveIndex J s))) = car_sliding (fst s)"
  by (simp_all add: getActiveIndex_def split_beta Let_def)

lemma to_with_at_most:
  assumes f: "\<And>t. at_most c t \<Longrightarrow> at_most c (snd (fire t))" and s: "at_most c s"
  shows "at_most c (snd (to_with fire J pos s))"
proof -
  obtain i w d where g: "getActiveIndex J s = (i, w, d)" by (cases "getActiveIndex J s") auto
  have wd: "at_most c (w, d)" using s getActiveIndex_waiting [of J s] by (simp add: g at_most_def)
  have sl: "\<not> car_sliding w \<Longrightarrow> at_most c (snd (slide_with fire J t a (w, d)))" for t a
    using slide_with_at_most [of w c fire] f wd by (auto simp: at_most_def)
  have pc: "\<not> car_sliding w \<Longrightarrow> at_most c (snd (car_then (carousel_pause J False (w, d)) (\<lambda>s. (Ret_this, carousel_cycle False s))))"
    by (rule car_then_cases) (use wd waiting_to_pause [of J False "(w, d)"] in \<open>auto simp: at_most_def\<close>)
  have ap: "car_sliding w \<Longrightarrow> at_most c (w\<lparr>car_slid := hs\<rparr>, d)" for hs by (simp add: at_most_def)
  show ?thesis using wd sl pc ap by (simp add: to_with_def g Let_def)
qed

lemma run_slid_at_most:
  assumes f: "\<And>t. at_most c t \<Longrightarrow> at_most c (snd (fire t))" and s: "at_most c (w\<lparr>car_slid := remove1 h (car_slid w)\<rparr>, d)"
  shows "at_most c (snd (run_slid fire J h (w, d)))"
proof -
  let ?s = "(w\<lparr>car_slid := remove1 h (car_slid w)\<rparr>, d)"
  have o: "snd (car_outcome r) = snd r" for r by (cases r; cases "fst r") (simp_all add: car_outcome_def)
  have "at_most c (snd (getActiveIndex J ?s))" using s getActiveIndex_waiting [of J ?s] by (simp add: at_most_def)
  then have "at_most c (fst (snd (getActiveIndex J ?s)), e)" for e by (simp add: at_most_def)
  then show ?thesis using to_with_at_most [of c fire, OF f s]
    by (cases h) (simp_all add: run_slid_def Let_def o split_beta)
qed

lemma at_most_remove: "at_most c (w, d) \<Longrightarrow> at_most c (w\<lparr>car_slid := remove1 h (car_slid w)\<rparr>, d)"
  using waiting_to_remove(1) [where w = w and h = h] by (auto simp: at_most_def)

lemma fire_slid_at_most: "at_most c s \<Longrightarrow> at_most c (snd (fire_slid k J s))"
proof (induction k arbitrary: s)
  case (Suc k)
  have "at_most c t \<Longrightarrow> at_most c (snd (run_slid (fire_slid k J) J h t))" for h t
    by (cases t) (simp add: run_slid_at_most Suc.IH at_most_remove)
  then have "at_most c t \<Longrightarrow> at_most c (snd (jq_each (run_slid (fire_slid k J) J) hs t))" for hs t
    by (rule jq_each_invariant)
  then show ?case using Suc.prems by (simp add: at_most_def)
qed simp

text \<open>The handlers still to be run, and whether a call of \<open>to\<close> among them is the first.\<close>

definition still :: "nat \<Rightarrow> slid_handler list \<Rightarrow> carousel_page \<Rightarrow> bool" where
  "still k hs s \<longleftrightarrow> car_sliding (fst s) \<or> waiting_to (fst s) < k \<or>
     waiting_to (fst s) \<le> k \<and> filter is_to (car_slid (fst s)) = filter is_to hs"

lemma to_with_fire:
  assumes f: "\<And>t. waiting_to (fst t) = waiting_to (fst s) \<Longrightarrow> fire t = fire' t"
  shows "to_with fire J pos s = to_with fire' J pos s"
proof -
  obtain i w d where g: "getActiveIndex J s = (i, w, d)" by (cases "getActiveIndex J s") auto
  have "waiting_to w = waiting_to (fst s)" using getActiveIndex_waiting(1) [of J s] by (simp add: g)
  then have "slide_with fire J t a (w, d) = slide_with fire' J t a (w, d)" for t a
    by (intro slide_with_fire) (simp add: f)
  then show ?thesis by (simp add: to_with_def g Let_def)
qed

lemma to_with_sliding:
  assumes "car_sliding (fst s)"
  shows "to_with fire J pos s = to_with fire' J pos s" "car_sliding (fst (snd (to_with fire J pos s)))"
proof -
  obtain i w d where g: "getActiveIndex J s = (i, w, d)" by (cases "getActiveIndex J s") auto
  have "car_sliding w" using getActiveIndex_waiting(2) [of J s] assms by (simp add: g)
  then show "to_with fire J pos s = to_with fire' J pos s" "car_sliding (fst (snd (to_with fire J pos s)))"
    by (auto simp: to_with_def g Let_def)
qed

lemma filter_remove_indicator: "filter is_to (remove1 Slid_indicator hs) = filter is_to hs"
  by (induction hs) auto

lemma run_slid_more:
  assumes IH: "\<And>t. waiting_to (fst t) < k \<Longrightarrow> fire_slid k J t = fire_slid (Suc k) J t" and st: "still k (h # hs) t"
  shows "run_slid (fire_slid k J) J h t = run_slid (fire_slid (Suc k) J) J h t"
    "still k hs (snd (run_slid (fire_slid k J) J h t))"
proof -
  obtain w d where t: "t = (w, d)" by (cases t)
  let ?s = "(w\<lparr>car_slid := remove1 h (car_slid w)\<rparr>, d)"
  have "run_slid (fire_slid k J) J h t = run_slid (fire_slid (Suc k) J) J h t \<and> still k hs (snd (run_slid (fire_slid k J) J h t))"
  proof (cases h)
    case Slid_indicator
    let ?g = "getActiveIndex J ?s"
    have "car_slid (fst (snd ?g)) = remove1 h (car_slid w)" by (simp add: getActiveIndex_def Let_def)
    then have "still k hs (fst (snd ?g), e)" for e
      using st getActiveIndex_waiting [of J ?s] waiting_to_remove(1) [where w = w and h = h]
      by (auto simp: still_def t Slid_indicator filter_remove_indicator)
    then show ?thesis by (simp add: run_slid_def t Slid_indicator split_beta Let_def)
  next
    case (Slid_to pos)
    show ?thesis
    proof (cases "car_sliding w")
      case True
      then show ?thesis using to_with_sliding(1) [where s = ?s and fire = "fire_slid k J" and J = J and pos = pos and fire' = "fire_slid (Suc k) J"]
          to_with_sliding(2) [where s = ?s and fire = "fire_slid k J" and J = J and pos = pos]
        by (simp add: run_slid_def t Slid_to still_def del: fire_slid.simps)
    next
      case False
      have "waiting_to (fst ?s) < k"
      proof (cases "waiting_to w < k")
        case True
        then show ?thesis using waiting_to_remove(1) [where w = w and h = h] by simp
      next
        case False
        then have l: "waiting_to w \<le> k" "filter is_to (car_slid w) = h # filter is_to hs"
          using st \<open>\<not> car_sliding w\<close> by (auto simp: still_def t Slid_to)
        have "h \<in> set (filter is_to (car_slid w))" unfolding l(2) by simp
        then show ?thesis using waiting_to_remove(2) [where w = w and h = h] l(1) by (simp add: Slid_to)
      qed
      then have w: "waiting_to (fst ?s) \<le> k - 1" "0 < k" by simp_all
      have e: "to_with (fire_slid k J) J pos ?s = to_with (fire_slid (Suc k) J) J pos ?s"
        by (rule to_with_fire) (rule IH, use \<open>waiting_to (fst ?s) < k\<close> in simp)
      have "at_most (k - 1) (snd (to_with (fire_slid k J) J pos ?s))"
        by (rule to_with_at_most [OF fire_slid_at_most]) (use w(1) in \<open>simp_all add: at_most_def\<close>)
      then have "still k hs (snd (to_with (fire_slid k J) J pos ?s))"
        using w(2) by (auto simp: still_def at_most_def)
      then show ?thesis using e by (simp add: run_slid_def t Slid_to del: fire_slid.simps)
    qed
  qed
  then show "run_slid (fire_slid k J) J h t = run_slid (fire_slid (Suc k) J) J h t"
    "still k hs (snd (run_slid (fire_slid k J) J h t))" by blast+
qed

lemma fire_slid_more: "waiting_to (fst s) < k \<or> car_sliding (fst s) \<and> 0 < k \<Longrightarrow> fire_slid k J s = fire_slid (Suc k) J s"
proof (induction k arbitrary: s)
  case (Suc k)
  note run = run_slid_more [OF Suc.IH, OF disjI1]
  have "still k hs t \<Longrightarrow> jq_each (run_slid (fire_slid k J) J) hs t = jq_each (run_slid (fire_slid (Suc k) J) J) hs t" for hs t
  proof (induction hs arbitrary: t)
    case (Cons h hs)
    from run(1) [OF _ Cons.prems] run(2) [OF _ Cons.prems] Cons.IH show ?case
      by (cases "run_slid (fire_slid (Suc k) J) J h t"; cases "fst (run_slid (fire_slid (Suc k) J) J h t)")
        (simp_all add: js_then_def del: fire_slid.simps)
  qed simp
  then show ?case using Suc.prems by (subst (1 2) fire_slid.simps(2)) (auto simp: still_def waiting_to_def simp del: fire_slid.simps)
qed simp

text \<open>C31. Every event \<open>slid\<close> comes to an end: with as many steps as handlers wait for it, and one, no run of the
handlers is cut short, so any greater number of steps gives the same page and the same outcome.\<close>

theorem carousel_fire_ends: "carousel_fire J s = fire_slid (Suc (length (car_slid (fst s))) + n) J s"
proof (induction n)
  case (Suc n)
  have "waiting_to (fst s) < Suc (length (car_slid (fst s))) + n"
    using le_imp_less_Suc [OF length_filter_le [of is_to "car_slid (fst s)"]] by (simp add: waiting_to_def trans_less_add1)
  then show ?case using fire_slid_more [of s "Suc (length (car_slid (fst s))) + n"] Suc by (simp del: fire_slid.simps)
qed (simp add: carousel_fire_def)

end
