(* ===== verification/Carousel_Behaviour.thy ===== *)
theory Carousel_Behaviour
  imports Carousel
begin

text \<open>What the carousel does: the invariant over all events, the moves of the active item, and the pages on which it
stops for good.\<close>

section \<open>An example\<close>

definition example_slides :: dom where
  "example_slides = empty_dom\<lparr>fresh_node := 5,
     classes := (\<lambda>n. if n = 2 then {''item'', ''active''} else if n \<in> {3, 4} then {''item''} else {}),
     kids := (\<lambda>n. if n = 0 then [1] else if n = 1 then [2, 3, 4] else []),
     parent_of := [1 \<mapsto> 0, 2 \<mapsto> 1, 3 \<mapsto> 1, 4 \<mapsto> 1]\<rparr>"

lemma example_descendants: "descendants example_slides 0 = [1, 2, 3, 4]" "descend 5 (kids example_slides) 0 = [1, 2, 3, 4]"
  by (simp_all add: example_slides_def descendants_def numeral_eq_Suc)

definition example_carousel :: "jquery \<Rightarrow> carousel" where
  "example_carousel J = carousel_new J 0 carousel_defaults example_slides"

lemma example_struct:
  assumes "jquery_ok J"
  shows "car_indicators (example_carousel J) = []" "carousel_struct (example_carousel J) example_slides [2, 3, 4] 1"
    "the_active example_slides [2, 3, 4] = [2]" "carousel_inv [2, 3, 4] 1 (example_carousel J, example_slides)"
proof -
  have "simple_selector ''.carousel-indicators''" "sel_matches d ''.carousel-indicators'' = (\<lambda>n. ''carousel-indicators'' \<in> classes d n)" for d
    by (simp_all add: simple_selector_def is_word_unit_def sel_matches_def fun_eq_iff)
  then show i: "car_indicators (example_carousel J) = []"
    using jq_find_simple [OF assms] by (simp add: example_carousel_def carousel_new_def example_descendants) (simp add: example_slides_def)
  show a: "the_active example_slides [2, 3, 4] = [2]" by (simp add: the_active_def example_slides_def)
  have "car_element (example_carousel J) = 0" by (simp add: example_carousel_def carousel_new_def)
  then show "carousel_struct (example_carousel J) example_slides [2, 3, 4] 1"
    using i by (simp add: carousel_struct_def example_descendants) (simp add: example_slides_def)
  then show "carousel_inv [2, 3, 4] 1 (example_carousel J, example_slides)"
    using a by (simp add: carousel_inv_def timer_ok_def example_carousel_def carousel_new_def)
qed

section \<open>The invariant\<close>

text \<open>C30. A carousel made on a page with one active item: after any calls, ticks, mouse events and ends of transitions, in
any order, exactly one item is active, and at most one timer runs, which is the one the carousel knows of.\<close>

theorem carousel_invariant:
  assumes "jquery_ok J" "quiet J" "carousel_struct (carousel_new J n opts d) d its p" "the_active d its = [a]"
    and "carousel_run J es (carousel_new J n opts d, d) = (w, e)"
  shows "(\<exists>b. the_active e its = [b]) \<and> length (car_timers w) \<le> 1 \<and> set (car_timers w) \<subseteq> set_option (car_interval w)"
proof -
  have "a \<in> set its" using assms(4) unfolding the_active_def by (metis filter_is_subset list.set_intros(1) subsetD)
  then have "carousel_inv its p (carousel_new J n opts d, d)"
    using assms(3,4) by (simp add: carousel_inv_def timer_ok_def carousel_new_def)
  from carousel_run_inv [OF assms(1,2) this, of es] show ?thesis
    unfolding assms(5) by (auto simp: carousel_inv_def timer_ok_def)
qed

theorem carousel_invariant_witness:
  "\<exists>w e b. carousel_run (jquery_instance None (\<lambda>_ _ _. False)) [Car_cycle, Car_next, Car_pause, Car_to (Some 2)]
     (example_carousel (jquery_instance None (\<lambda>_ _ _. False)), example_slides) = (w, e) \<and> the_active e [2, 3, 4] = [b]"
proof -
  let ?J = "jquery_instance None (\<lambda>_ _ _. False)"
  obtain w e where r: "carousel_run ?J [Car_cycle, Car_next, Car_pause, Car_to (Some 2)] (example_carousel ?J, example_slides) = (w, e)"
    by (metis prod.collapse)
  with carousel_invariant [OF jquery_instance_ok jquery_instance_quiet example_struct(2) [OF jquery_instance_ok, unfolded example_carousel_def]
      example_struct(3) [OF jquery_instance_ok [of None "\<lambda>_ _ _. False"]]] show ?thesis unfolding example_carousel_def by blast
qed

section \<open>Stuck\<close>

text \<open>Sliding with no transition whose end it waits for.\<close>

definition stuck :: "carousel_page \<Rightarrow> bool" where
  "stuck s \<longleftrightarrow> car_sliding (fst s) \<and> car_trans (fst s) = []"

lemma stuck_fst [simp]: "stuck (fst s, d) = stuck s"
  by (simp add: stuck_def)

lemma stuck_pause: "stuck s \<Longrightarrow> stuck (snd (carousel_pause J e s))"
proof -
  assume s: "stuck s"
  have c: "stuck (carousel_cycle b t) \<longleftrightarrow> stuck t" for b t by (simp add: stuck_def)
  have f: "stuck t \<Longrightarrow> stuck (fire_transition_end J t)" for t by (cases t) (simp add: stuck_def fire_transition_end_def)
  have g: "stuck (fire_transition_end J (w, d))" if "stuck (w, d')" for w d d' using that f by (simp add: stuck_def)
  obtain w d where wd: "s = (w, d)" by (cases s)
  have "stuck (v, e)" if "stuck (v, d)" for v e using that by (simp add: stuck_def)
  then show ?thesis using s unfolding wd carousel_pause_def
    using g [of w d] g [of "w\<lparr>car_paused := True\<rparr>" d] c
    by (auto simp: stuck_def Let_def split_beta split: option.split)
qed

lemma stuck_fire: "stuck s \<Longrightarrow> stuck (snd (fire_slid k J s))"
proof (induction k arbitrary: s)
  case (Suc k)
  have "stuck t \<Longrightarrow> stuck (snd (run_slid (fire_slid k J) J h t))" for h t
    by (cases h) (auto simp: stuck_def run_slid_def to_with_def getActiveIndex_def Let_def split_beta)
  then have "stuck t \<Longrightarrow> stuck (snd (jq_each (run_slid (fire_slid k J) J) hs t))" for hs t
    by (rule jq_each_invariant)
  then show ?case using Suc.prems by (simp add: stuck_def)
qed simp

lemma stuck_step: "stuck s \<Longrightarrow> stuck (snd (carousel_step J e s))"
proof -
  assume s: "stuck s"
  have "stuck (snd (carousel_to J pos s))" for pos
    using s by (auto simp: carousel_to_def stuck_def to_with_def getActiveIndex_def Let_def split_beta)
  moreover have "stuck (carousel_cycle b s)" for b using s by (simp add: stuck_def)
  moreover have "stuck (fire_transition_end J s)" using s by (simp add: stuck_def fire_transition_end_def split_beta)
  moreover have "stuck (snd (carousel_fire J ((fst s)\<lparr>car_slid_timeouts := k\<rparr>, snd s)))" for k
    unfolding carousel_fire_def by (rule stuck_fire) (use s in \<open>simp add: stuck_def\<close>)
  moreover have "stuck (snd (carousel_next J s))" "stuck (snd (carousel_prev J s))"
    using s by (simp_all add: stuck_def carousel_next_def carousel_prev_def)
  ultimately show ?thesis using stuck_pause [OF s] s by (cases e) simp_all
qed

lemma stuck_run: "stuck s \<Longrightarrow> stuck (carousel_run J es s)"
  by (induction es arbitrary: s) (simp_all add: carousel_run_def stuck_step)

lemma pause_element:
  "car_element (fst (snd (carousel_pause J e s))) = car_element (fst s)"
  "car_indicators (fst (snd (carousel_pause J e s))) = car_indicators (fst s)"
proof -
  have "car_element (fst (foldl (run_transition J) t hs)) = car_element (fst t) \<and>
      car_indicators (fst (foldl (run_transition J) t hs)) = car_indicators (fst t)" for t hs
    by (induction hs arbitrary: t) (simp_all add: run_transition_def split_beta Let_def)
  then have "car_element (fst (fire_transition_end J t)) = car_element (fst t)"
      "car_indicators (fst (fire_transition_end J t)) = car_indicators (fst t)" for t
    by (simp_all add: fire_transition_end_def split_beta)
  then show "car_element (fst (snd (carousel_pause J e s))) = car_element (fst s)"
      "car_indicators (fst (snd (carousel_pause J e s))) = car_indicators (fst s)"
    by (simp_all add: carousel_pause_def split_beta Let_def split: option.split)
qed

lemma stuck_pause_page:
  assumes "quiet J" "stuck s"
  shows "snd (snd (carousel_pause J e s)) = snd s"
proof -
  obtain w d where s: "s = (w, d)" by (cases s)
  have "snd (fire_transition_end J (v, d)) = d" if "car_trans v = []" for v
    using that by (simp add: fire_transition_end_def)
  then have "snd (fire_transition_end J (if e then w else w\<lparr>car_paused := True\<rparr>, d)) = d"
    using assms(2) by (simp add: s stuck_def)
  then show ?thesis
    unfolding s carousel_pause_def using assms(1) by (cases e) (simp_all add: Let_def split_beta split: option.split)
qed

lemma car_then_inv: "P (snd r) \<Longrightarrow> P (snd (f (snd r))) \<Longrightarrow> P (snd (car_then r f))"
  by (rule car_then_cases) auto

text \<open>Stuck, with the classes of the items as they are in \<open>cs\<close>.\<close>

definition held :: "node list \<Rightarrow> node \<Rightarrow> string set list \<Rightarrow> carousel_page \<Rightarrow> bool" where
  "held its p cs s \<longleftrightarrow> stuck s \<and> carousel_struct (fst s) (snd s) its p \<and> map (classes (snd s)) its = cs"

lemma held_cong:
  assumes "held its p cs s" "stuck t" "snd t = snd s" "car_element (fst t) = car_element (fst s)" "car_indicators (fst t) = car_indicators (fst s)"
  shows "held its p cs t"
  using assms by (simp add: held_def carousel_struct_def)

text \<open>Marking or unmarking indicators leaves the items as they are.\<close>

lemma held_indicators:
  assumes "held its p cs s" "set S \<inter> set its = {}"
  shows "held its p cs (fst s, dom_addClass S ''active'' (snd s))" "held its p cs (fst s, dom_removeClass S ''active'' (snd s))"
proof -
  have o: "stuck s" "carousel_struct (fst s) (snd s) its p" "map (classes (snd s)) its = cs" using assms(1) by (simp_all add: held_def)
  have "carousel_struct (fst s) (dom_addClass S ''active'' (snd s)) its p" "carousel_struct (fst s) (dom_removeClass S ''active'' (snd s)) its p"
    by (rule struct_cong [OF o(2)]; simp)+
  moreover have "map (classes (dom_addClass S ''active'' (snd s))) its = cs" "map (classes (dom_removeClass S ''active'' (snd s))) its = cs"
    unfolding o(3) [symmetric] using assms(2) by auto
  ultimately show "held its p cs (fst s, dom_addClass S ''active'' (snd s))" "held its p cs (fst s, dom_removeClass S ''active'' (snd s))"
    using o(1) by (simp_all add: held_def stuck_def)
qed

lemma held_pause: "quiet J \<Longrightarrow> held its p cs s \<Longrightarrow> held its p cs (snd (carousel_pause J e s))"
  by (rule held_cong) (simp_all add: held_def stuck_pause stuck_pause_page pause_element)

lemma held_cycle: "held its p cs s \<Longrightarrow> held its p cs (carousel_cycle b s)"
  by (rule held_cong) (simp_all add: held_def stuck_def)

lemma held_to: "held its p cs s \<Longrightarrow> held its p cs (snd (to_with fire J pos s))"
  by (rule held_cong [of its p cs s]) (auto simp: held_def stuck_def to_with_def getActiveIndex_def Let_def split_beta)

lemma held_fire: "jquery_ok J \<Longrightarrow> quiet J \<Longrightarrow> held its p cs s \<Longrightarrow> held its p cs (snd (fire_slid k J s))"
proof (induction k arbitrary: s)
  case (Suc k)
  have "held its p cs (snd (run_slid (fire_slid k J) J h t))" if t: "held its p cs t" for h t
  proof -
    let ?u = "((fst t)\<lparr>car_slid := remove1 h (car_slid (fst t))\<rparr>, snd t)"
    have u: "held its p cs ?u" using t by (rule held_cong) (use t in \<open>simp_all add: held_def stuck_def\<close>)
    show ?thesis
    proof (cases h)
      case (Slid_to pos)
      then show ?thesis using held_to [OF u] by (simp add: run_slid_def split_beta)
    next
      case Slid_indicator
      obtain i v e where g: "getActiveIndex J ?u = (i, v, e)" by (metis prod.collapse)
      have v: "held its p cs (v, e)" "e = snd t" "car_indicators v = car_indicators (fst t)"
      proof -
        show "e = snd t" "car_indicators v = car_indicators (fst t)" using g by (auto simp: getActiveIndex_def Let_def)
        show "held its p cs (v, e)" using u by (rule held_cong) (use g t in \<open>auto simp: getActiveIndex_def Let_def held_def stuck_def\<close>)
      qed
      let ?cs = "jq_children J e (car_indicators v)"
      have "set ?cs \<inter> set its = {}" using v(1) Suc.prems(1) by (auto simp: held_def carousel_struct_def jq)
      then have "set (if 0 \<le> i \<and> nat i < length ?cs then [?cs ! nat i] else []) \<inter> set its = {}" by (auto simp: disjoint_iff)
      from held_indicators(1) [OF v(1) this] show ?thesis
        using Suc.prems(1) Slid_indicator g v(1)
        by (auto simp: run_slid_def split_beta Let_def jq_updates split: if_splits)
    qed
  qed
  then have "held its p cs (snd (jq_each (run_slid (fire_slid k J) J) hs t))" if "held its p cs t" for hs t
    using that by (rule jq_each_invariant)
  then show ?case using Suc.prems by simp
qed simp

lemma held_step: "jquery_ok J \<Longrightarrow> quiet J \<Longrightarrow> held its p cs s \<Longrightarrow> held its p cs (snd (carousel_step J e s))"
proof -
  assume J: "jquery_ok J" "quiet J" and h: "held its p cs s"
  have "held its p cs (fire_transition_end J s)"
    using h by (rule held_cong) (use h in \<open>simp_all add: held_def stuck_def fire_transition_end_def split_beta\<close>)
  moreover have "held its p cs ((fst s)\<lparr>car_slid_timeouts := k\<rparr>, snd s)" for k
    using h by (rule held_cong) (use h in \<open>simp_all add: held_def stuck_def\<close>)
  then have "held its p cs (snd (carousel_fire J ((fst s)\<lparr>car_slid_timeouts := k\<rparr>, snd s)))" for k
    unfolding carousel_fire_def using held_fire [OF J] by blast
  moreover have "carousel_next J s = (Ret_other, s)" "carousel_prev J s = (Ret_other, s)"
    using h by (simp_all add: held_def stuck_def carousel_next_def carousel_prev_def)
  ultimately show ?thesis
    using h held_pause [OF J(2) h] held_cycle [OF h] held_to [OF h, of "carousel_fire J" J] by (cases e) (simp_all add: carousel_to_def)
qed

lemma held_run: "jquery_ok J \<Longrightarrow> quiet J \<Longrightarrow> held its p cs s \<Longrightarrow> held its p cs (carousel_run J es s)"
  by (induction es arbitrary: s) (simp_all add: carousel_run_def held_step)

lemma slide_held:
  assumes J: "jquery_ok J" "quiet J" and p: "\<And>d. fst (jq_trigger J ''slide'' [car_element w] d)"
    and w: "car_trans w = []" "carousel_struct w d its p"
  shows "held its p (map (classes d) its) (snd (slide_with fire J type arg (w, d)))"
proof -
  let ?w = "w\<lparr>car_sliding := True\<rparr>" and ?cs = "map (classes d) its"
  define r where "r = (if car_interval w \<noteq> None then carousel_pause J False (?w, d) else (Ret_this, ?w, d))"
  have "held its p ?cs (?w, d)" using w by (simp add: held_def stuck_def carousel_struct_def)
  then have r: "held its p ?cs (snd r)" using held_pause [OF J(2), of its p ?cs "(?w, d)" False] by (simp add: r_def)
  obtain w2 d2 where w2: "snd r = (w2, d2)" by (cases "snd r")
  have e: "car_element w2 = car_element w" using pause_element(1) [of J False "(?w, d)"] w2 by (auto simp: r_def split: if_splits)
  have tr: "jq_trigger J ''slide'' [car_element w] e = (True, e)" for e
    using quietD [OF J(2)] p by (metis prod.collapse)
  have m: "snd (slide_move fire J type nx active c (v, e)) = (v, e)" if "car_element v = car_element w" for nx active c v e
    using that by (simp add: slide_move_def Let_def tr)
  have i: "held its p ?cs (w2\<lparr>car_slid := hs\<rparr>, dom_removeClass (jq_find J d2 (car_indicators w2) ''.active'') ''active'' d2)"
    if ne: "car_indicators w2 \<noteq> []" for hs
  proof -
    have "simple_selector ''.active''" by (simp add: simple_selector_def is_word_unit_def)
    from jq_find_simple [OF J(1) this] have "set (jq_find J d2 (car_indicators w2) ''.active'') \<inter> set its = {}"
      using r ne by (auto simp: w2 held_def carousel_struct_def)
    from held_indicators(2) [OF r [unfolded w2] this] show ?thesis
      by (rule held_cong) (use r in \<open>simp_all add: w2 held_def stuck_def\<close>)
  qed
  then show ?thesis unfolding slide_with_def Let_def split r_def [symmetric]
    by (intro car_then_inv [where P = "held its p ?cs", OF r]) (use r m e i J(1) in \<open>simp add: w2 jq_updates\<close>)
qed

text \<open>C32. A page may prevent a slide, in the handler of its event: that of a call of \<open>next\<close> or \<open>prev\<close> on a carousel that is not sliding. The flag \<open>sliding\<close> is then never cleared, and the carousel
stays where it is: after any further calls (also of \<open>to\<close>), ticks, mouse events, ends of transitions and delayed events, in any order, and also
where the page no longer prevents anything, every item has the classes that it had before, so that the same item is active; \<open>next\<close> and \<open>prev\<close> do
nothing. The items and indicators are those of a carousel, and handlers of the page do not change the page themselves.\<close>

theorem carousel_prevented_stuck:
  assumes "jquery_ok J" "quiet J" "\<And>d. fst (jq_trigger J ''slide'' [car_element (fst s)] d)"
    and "\<not> car_sliding (fst s)" "car_trans (fst s) = []" "carousel_struct (fst s) (snd s) its p"
    and "e \<in> {Car_next, Car_prev}" "jquery_ok J'" "quiet J'"
  shows "let t = carousel_run J' es (snd (carousel_step J e s)) in
     map (classes (snd t)) its = map (classes (snd s)) its \<and> the_active (snd t) its = the_active (snd s) its \<and>
     car_sliding (fst t) \<and> carousel_next J' t = (Ret_other, t) \<and> carousel_prev J' t = (Ret_other, t)"
proof -
  obtain w d where s: "s = (w, d)" by (cases s)
  have "held its p (map (classes d) its) (snd (carousel_step J e s))"
    using assms(4,7) slide_held [OF assms(1,2), of w d its p "carousel_fire J" _ None] assms(3,5,6)
    by (auto simp: s carousel_next_def carousel_prev_def carousel_slide_def)
  from held_run [OF assms(8,9) this, of es] show ?thesis
    by (auto simp: s held_def stuck_def the_active_def Let_def carousel_next_def carousel_prev_def intro!: filter_cong)
qed

theorem carousel_prevented_stuck_witness:
  "let J = jquery_instance (Some ''transitionend'') (\<lambda>e _ _. e = ''slide'');
       t = carousel_run (jquery_instance (Some ''transitionend'') (\<lambda>_ _ _. False)) [Car_cycle, Car_tick 1, Car_transition_end, Car_to (Some 2), Car_slid_timeout]
         (snd (carousel_step J Car_next (example_carousel J, example_slides)))
   in the_active (snd t) [2, 3, 4] = [2] \<and> car_sliding (fst t)"
proof -
  let ?J = "jquery_instance (Some ''transitionend'') (\<lambda>e _ _. e = ''slide'')"
  have p: "fst (jq_trigger ?J ''slide'' [car_element (fst (example_carousel ?J, example_slides))] d)" for d
    by (simp add: jquery_instance_def)
  show ?thesis
    using carousel_prevented_stuck [where s = "(example_carousel ?J, example_slides)" and e = Car_next and its = "[2, 3, 4]" and p = 1,
        OF jquery_instance_ok jquery_instance_quiet p _ _ _ _ jquery_instance_ok jquery_instance_quiet]
      example_struct(2,3) [of ?J]
    by (simp add: Let_def example_carousel_def carousel_new_def)
qed

text \<open>A call of the plugin keeps a stuck carousel stuck.\<close>

lemma stuck_page:
  assumes "quiet J" "stuck s"
  shows "snd (snd (carousel_method J name s)) = snd s"
proof -
  have "snd (snd (getActiveIndex J s)) = snd s" by (simp add: getActiveIndex_def Let_def split_beta)
  moreover have "snd (snd (carousel_to J None s)) = snd s"
    using assms(2) by (auto simp: stuck_def carousel_to_def to_with_def getActiveIndex_def Let_def split_beta)
  ultimately show ?thesis
    using stuck_pause_page [OF assms] assms(2) by (simp add: carousel_method_def stuck_def carousel_next_def carousel_prev_def)
qed

lemma stuck_method: "stuck s \<Longrightarrow> stuck (snd (carousel_method J name s))"
proof -
  assume s: "stuck s"
  have "stuck (snd (getActiveIndex J s))" using s by (simp add: stuck_def getActiveIndex_def Let_def split_beta)
  moreover have "stuck (snd (carousel_to J None s))" "stuck (carousel_cycle False s)" "stuck (snd (carousel_next J s))" "stuck (snd (carousel_prev J s))"
      "stuck (snd (carousel_pause J False s))"
    using stuck_step [OF s, of J "Car_to None"] stuck_step [OF s, of J Car_cycle] stuck_step [OF s, of J Car_next]
      stuck_step [OF s, of J Car_prev] stuck_step [OF s, of J Car_pause] by simp_all
  ultimately show ?thesis using s by (simp add: carousel_method_def)
qed

lemma stuck_plugin1:
  assumes "quiet J" "insts n = Some w" "stuck (w, d)" "carousel_plugin1 J (Arg_object f) n (insts, d) = (r, insts', d')"
  shows "d' = d \<and> (\<exists>w'. insts' n = Some w' \<and> stuck (w', d'))"
proof -
  have "stuck (snd (carousel_pause_cycle J (w, d))) \<and> snd (snd (carousel_pause_cycle J (w, d))) = d"
    unfolding carousel_pause_cycle_def car_outcome_snd
    by (rule car_then_inv [where P = "\<lambda>s. stuck s \<and> snd s = d"])
      (use stuck_pause [OF assms(3)] stuck_pause_page [OF assms(1,3)] in \<open>simp_all add: stuck_def\<close>)
  then show ?thesis using assms stuck_method [OF assms(3), of J] stuck_page [OF assms(1,3)]
    by (auto simp: carousel_plugin1_def Let_def split_beta split: option.splits if_splits)
qed

lemma stuck_slide_to:
  assumes "stuck s"
  shows "fst (slide_to_then_cycle J pos s) = Some TypeError"
proof -
  obtain r t where p: "carousel_pause J False s = (r, t)" by (cases "carousel_pause J False s")
  have "stuck t" using stuck_pause [OF assms, of J False] p by simp
  then have o: "fst (carousel_to J pos t) = Ret_other"
    by (auto simp: stuck_def carousel_to_def to_with_def getActiveIndex_def Let_def split_beta)
  show ?thesis
  proof (cases r)
    case (Throws e)
    then show ?thesis by (cases e) (simp add: slide_to_then_cycle_def p car_then_def car_outcome_def)
  qed (use o in \<open>cases "carousel_to J pos t"; simp add: slide_to_then_cycle_def p car_then_def car_outcome_def\<close>)+
qed

text \<open>A click on an indicator of a carousel that is stuck: the chain of calls asks what \<open>to\<close> returns, a jQuery set
and not the carousel, for its \<open>cycle\<close>. The handler throws, before it prevents the default action of the click.\<close>

theorem carousel_click_throws:
  assumes "quiet J" "control_target J d n = [m]" "jq_attr J d [n] ''data-slide-to'' = Some (c # t)"
    and "insts m = Some w" "stuck (w, d)"
  shows "fst (carousel_click J data parse_int n (insts, d)) = False \<and>
    fst (snd (carousel_click J data parse_int n (insts, d))) = Some TypeError"
proof -
  obtain r insts' d' where p: "carousel_plugin1 J (Arg_object (data n \<circ> data m)) m (insts, d) = (r, insts', d')"
    by (metis prod.collapse)
  then obtain w' where w: "d' = d" "insts' m = Some w'" "stuck (w', d')" using stuck_plugin1 [where insts = insts and n = m, OF assms(1,4,5)] by blast
  have "fst (snd (carousel_click J data parse_int n (insts, d))) = Some TypeError"
  proof (cases r)
    case None
    then show ?thesis using assms(2,3) w(1,2) stuck_slide_to [OF w(3), of J "parse_int (c # t)"]
      by (simp add: carousel_click_def carousel_plugin_def p Let_def split_beta)
  next
    case (Some e)
    then show ?thesis using assms(2) by (cases e) (simp add: carousel_click_def carousel_plugin_def p Let_def)
  qed
  then show ?thesis by (simp add: carousel_click_def Let_def)
qed

theorem carousel_click_throws_witness:
  "let J = jquery_instance None (\<lambda>_ _ _. False)\<lparr>jq_select := (\<lambda>_ _. [0])\<rparr>;
       d = example_slides\<lparr>attrs := (\<lambda>n a. if a = ''data-slide-to'' then Some ''1'' else if a = ''href'' then Some ''#c'' else None)\<rparr>
   in fst (carousel_click J (\<lambda>_. id) (\<lambda>_. Some 1) 9 ([0 \<mapsto> (example_carousel J)\<lparr>car_sliding := True\<rparr>], d)) = False"
proof -
  let ?J = "jquery_instance None (\<lambda>_ _ _. False)\<lparr>jq_select := (\<lambda>_ _. [0])\<rparr>"
  let ?d = "example_slides\<lparr>attrs := (\<lambda>n a. if a = ''data-slide-to'' then Some ''1'' else if a = ''href'' then Some ''#c'' else None)\<rparr>"
  have "quiet ?J" "control_target ?J ?d 9 = [0]" "jq_attr ?J ?d [9] ''data-slide-to'' = Some ''1''"
      "stuck ((example_carousel ?J)\<lparr>car_sliding := True\<rparr>, ?d)"
    by (simp_all add: quiet_def jquery_instance_def control_target_def stuck_def example_carousel_def carousel_new_def)
  from carousel_click_throws [OF this(1-3) _ this(4), of "[0 \<mapsto> (example_carousel ?J)\<lparr>car_sliding := True\<rparr>]" "\<lambda>_. id" "\<lambda>_. Some 1"]
  show ?thesis by (simp add: Let_def)
qed

section \<open>Moves\<close>

text \<open>The position that a slide of a type leads to.\<close>

definition slide_target :: "string \<Rightarrow> nat \<Rightarrow> nat \<Rightarrow> nat" where
  "slide_target type n k = (if type = ''next'' then Suc k mod n else (k + n - 1) mod n)"

lemma slide_target_less:
  assumes "k < n" "1 < n"
  shows "slide_target type n k < n" "slide_target type n k \<noteq> k"
proof -
  have "Suc k mod n = (if Suc k = n then 0 else Suc k)" using assms(1) by simp
  moreover have "(k + n - 1) mod n = (if k = 0 then n - 1 else k - 1)" using assms by (cases k) auto
  ultimately show "slide_target type n k < n" "slide_target type n k \<noteq> k"
    using assms by (auto simp: slide_target_def)
qed

lemma slide_to_nth:
  assumes "distinct its" "k < length its" "type \<in> {''next'', ''prev''}"
  shows "(let next0 = (if type = ''next'' then after (its ! k) its else after (its ! k) (rev its))
     in if next0 \<noteq> [] then next0 else slide_fallback type its) = [its ! slide_target type (length its) k]"
proof -
  have ne: "its \<noteq> []" using assms(2) by auto
  then have f: "take 1 its = [its ! 0]" "take 1 (rev its) = [its ! (length its - 1)]"
    by (simp_all add: take_Suc hd_conv_nth hd_rev last_conv_nth)
  show ?thesis
  proof (cases "type = ''next''")
    case True
    then show ?thesis using assms(2) f(1) after_nth [OF assms(1,2)]
      by (auto simp: slide_target_def slide_fallback_def dest: Suc_lessI)
  next
    case False
    then show ?thesis using assms(2) f(2) before_nth [OF assms(1,2)]
      by (cases k) (auto simp: slide_target_def slide_fallback_def)
  qed
qed

lemma slide_with_eq:
  assumes J: "jquery_ok J" and i: "carousel_inv its p (w, d)" and w: "car_interval w = None" "car_indicators w = []"
    and k: "the_active d its = [its ! k]" "k < length its" "1 < length its" and t: "type \<in> {''next'', ''prev''}"
  shows "slide_with fire J type None (w, d) =
     slide_move fire J type [its ! slide_target type (length its) k] [its ! k] False (w\<lparr>car_sliding := True\<rparr>, d)"
proof -
  have st: "kids d p = its" "parent_of d (its ! k) = Some p" "distinct its"
    using i k(2) by (auto simp: carousel_inv_def carousel_struct_def)
  have f: "jq_find J d [car_element w] ''.item.active'' = [its ! k]" "jq_find J d [car_element w] ''.item'' = its"
    using carousel_find [OF J i] k(1) by auto
  let ?j = "slide_target type (length its) k"
  have j: "?j < length its" "?j \<noteq> k" using slide_target_less [OF k(2,3)] by blast+
  then have "its ! ?j \<noteq> its ! k" using st(3) k(2) by (simp add: nth_eq_iff_index_eq)
  then have a: "\<not> jq_hasClass J d [its ! ?j] ''active''"
    using filter_only_iff [OF k(1) [unfolded the_active_def] nth_mem [OF j(1)]] J by (simp add: jq)
  let ?w = "w\<lparr>car_sliding := True\<rparr>"
  have u: "car_element ?w = car_element w" "car_indicators ?w = car_indicators w" by simp_all
  have nx: "jq_next J d [its ! k] = after (its ! k) its" "jq_prev J d [its ! k] = after (its ! k) (rev its)"
    using J by (simp_all add: jq dom_next_def dom_prev_def st(1,2))
  have n: "(if (if type = ''next'' then jq_next J d [its ! k] else jq_prev J d [its ! k]) \<noteq> []
      then (if type = ''next'' then jq_next J d [its ! k] else jq_prev J d [its ! k]) else slide_fallback type its) = [its ! ?j]"
    using slide_to_nth [OF st(3) k(2) t] unfolding nx Let_def .
  show ?thesis
    unfolding slide_with_def by (simp only: prod.case Let_def option.case w u f n a car_then_def js_return.case if_False simp_thms)
qed

lemma active_only:
  assumes "distinct its" "n \<in> set its" "\<And>m. m \<in> set its \<Longrightarrow> (''active'' \<in> classes e m) = (m = n)"
  shows "the_active e its = [n]"
proof -
  have "the_active e its = filter (\<lambda>m. m = n) its" unfolding the_active_def by (rule filter_cong) (simp_all add: assms(3))
  then show ?thesis using filter_only [OF assms(1,2)] by simp
qed

lemma slide_move_active:
  assumes J: "jquery_ok J" "quiet J" and p: "\<not> fst (jq_trigger J ''slide'' [car_element w] d)" and w: "car_trans w = []" "car_slid w = []"
    and a: "the_active d its = [a]" and its: "distinct its" "n \<in> set its" "a \<in> set its" "n \<noteq> a" and t: "type \<in> {''next'', ''prev''}"
  shows "\<exists>v e. (case slide_move (carousel_fire J) J type [n] [a] False (w, d) of (_, s) \<Rightarrow>
      if has_transition J \<and> ''slide'' \<in> classes d (car_element w) then fire_transition_end J s else s) = (v, e) \<and>
     the_active e its = [n] \<and> \<not> car_sliding v"
proof -
  let ?dir = "slide_direction type"
  have old: "(''active'' \<in> classes d m) = (m = a)" if "m \<in> set its" for m
    using filter_only_iff [OF a [unfolded the_active_def] that] .
  have cn: "class_names ?dir = [?dir]" "class_names type = [type]" "class_names (type @ '' '' @ ?dir) = [type, ?dir]"
      "class_names (''active '' @ ?dir) = [''active'', ?dir]" "?dir \<noteq> ''active''" "type \<noteq> ''active''"
    using t by (auto simp: slide_direction_def)
  have tr: "jq_trigger J ''slide'' [car_element w] d = (False, d)" using quietD [OF J(2)] p by (metis prod.collapse)
  have hc: "jq_hasClass J d [car_element w] ''slide'' \<longleftrightarrow> ''slide'' \<in> classes d (car_element w)" using J(1) by (simp add: jq)
  show ?thesis
  proof (cases "has_transition J \<and> ''slide'' \<in> classes d (car_element w)")
    case True
    define e1 where "e1 = dom_addClass [n] ?dir (dom_addClass [a] ?dir (dom_addClass [n] type d))"
    define e2 where "e2 = dom_removeClass [a] (''active '' @ ?dir) (dom_addClass [n] ''active'' (dom_removeClass [n] (type @ '' '' @ ?dir) e1))"
    have "the_active e2 its = [n]"
      by (rule active_only) (use its old cn in \<open>auto simp: e1_def e2_def\<close>)
    moreover have "jq_addClass J [n] ?dir (jq_addClass J [a] ?dir (jq_addClass J [n] type d)) = e1"
        "jq_removeClass J [a] (''active '' @ ?dir) (jq_addClass J [n] ''active'' (jq_removeClass J [n] (type @ '' '' @ ?dir) e1)) = e2"
      using J(1) by (simp_all only: jq_updates e1_def e2_def)
    ultimately show ?thesis using True
      by (simp add: slide_move_def tr hc fire_transition_end_def run_transition_def w(1) split_beta Let_def)
  next
    case False
    define e2 where "e2 = dom_addClass [n] ''active'' (dom_removeClass [a] ''active'' d)"
    have "the_active e2 its = [n]"
      by (rule active_only) (use its old in \<open>auto simp: e2_def\<close>)
    moreover have "carousel_fire J (w\<lparr>car_sliding := False\<rparr>, e2) = (None, w\<lparr>car_sliding := False\<rparr>, e2)"
      using J(2) w(2) by (simp add: carousel_fire_def)
    moreover have "jq_addClass J [n] ''active'' (jq_removeClass J [a] ''active'' d) = e2"
      using J(1) by (simp only: jq_updates e2_def)
    ultimately show ?thesis using False by (auto simp: slide_move_def tr hc)
  qed
qed

text \<open>The moves: where nothing prevents it, next and previous make the item behind or before the active one the only
active item, around the ends, at once or, in a browser with transitions, when the transition ends; then the carousel is
ready for the next move.\<close>

theorem carousel_moves:
  assumes "jquery_ok J" "quiet J" "carousel_inv its p (w, d)" "\<not> car_sliding w" "car_interval w = None"
    and "car_indicators w = []" "car_slid w = []" "\<not> fst (jq_trigger J ''slide'' [car_element w] d)"
    and "the_active d its = [its ! k]" "k < length its" "1 < length its" "type \<in> {''next'', ''prev''}"
  shows "\<exists>v e. carousel_run J ((if type = ''next'' then Car_next else Car_prev) #
       (if has_transition J \<and> ''slide'' \<in> classes d (car_element w) then [Car_transition_end] else [])) (w, d) = (v, e) \<and>
     the_active e its = [its ! slide_target type (length its) k] \<and> \<not> car_sliding v"
proof -
  let ?n = "its ! slide_target type (length its) k"
  have its: "distinct its" "car_trans w = []" using assms(3,4) by (auto simp: carousel_inv_def carousel_struct_def)
  have n: "?n \<in> set its" "its ! k \<in> set its" "?n \<noteq> its ! k"
    using slide_target_less [OF assms(10,11), of type] assms(10) its(1) by (simp_all add: nth_eq_iff_index_eq)
  have e: "snd (carousel_step J (if type = ''next'' then Car_next else Car_prev) (w, d)) =
     snd (slide_move (carousel_fire J) J type [?n] [its ! k] False (w\<lparr>car_sliding := True\<rparr>, d))"
    using assms(4,12) slide_with_eq [OF assms(1,3,5,6,9,10,11), where fire = "carousel_fire J"]
    by (auto simp: carousel_next_def carousel_prev_def carousel_slide_def)
  have "\<not> fst (jq_trigger J ''slide'' [car_element (w\<lparr>car_sliding := True\<rparr>)] d)" using assms(8) by simp
  from slide_move_active [OF assms(1,2) this _ _ assms(9) its(1) n assms(12)] its(2) assms(7) show ?thesis
    by (cases "has_transition J \<and> ''slide'' \<in> classes d (car_element w)") (auto simp: carousel_run_def e split_beta)
qed

theorem carousel_moves_witness:
  "\<exists>v e. carousel_run (jquery_instance (Some ''transitionend'') (\<lambda>_ _ _. False)) [Car_prev]
     (example_carousel (jquery_instance (Some ''transitionend'') (\<lambda>_ _ _. False)), example_slides) = (v, e) \<and>
     the_active e [2, 3, 4] = [4]"
proof -
  let ?J = "jquery_instance (Some ''transitionend'') (\<lambda>_ _ _. False)"
  let ?w = "example_carousel ?J"
  have s: "slide_target ''prev'' (Suc (Suc (Suc 0))) 0 = 2" by (simp add: slide_target_def)
  have "\<not> car_sliding ?w" "car_interval ?w = None" "car_slid ?w = []" "car_element ?w = 0" "\<not> fst (jq_trigger ?J ''slide'' [0] example_slides)"
      "''slide'' \<notin> classes example_slides 0"
    by (simp_all add: example_carousel_def carousel_new_def jquery_instance_def example_slides_def)
  with carousel_moves [where J = ?J and type = "''prev''" and k = 0,
      OF jquery_instance_ok jquery_instance_quiet example_struct(4) [OF jquery_instance_ok [of "Some ''transitionend''" "\<lambda>_ _ _. False"]]]
    example_struct(1,3) [of ?J] show ?thesis
    by (simp add: s) blast
qed

end
