(* ===== verification/Collapse.thy ===== *)
theory Collapse
  imports Jquery
begin

text \<open>The collapse widget (\<open>bootstrap.js\<close>): elements that open and close, alone or as the groups of an accordion. The
state is the instance of each element and the page; handlers that wait for the end of a transition are part of the
instance.\<close>

section \<open>State\<close>

record collapse_options =
  col_opt_toggle :: bool
  col_opt_parent :: "string option"

definition collapse_defaults :: collapse_options where
  "collapse_defaults = \<lparr>col_opt_toggle = True, col_opt_parent = None\<rparr>"

text \<open>The two runs of \<open>transition\<close>: their start event, complete event and method.\<close>

datatype col_run = Col_showing | Col_hiding

record collapse =
  col_parent :: "node list option"
  col_transitioning :: bool
  col_waiting :: "col_run list"

text \<open>The instance of each element, as \<open>data('collapse')\<close> has it; the waiting handlers of instances that were dropped
from their element; and the page.\<close>

record collapse_page =
  col_insts :: "node \<Rightarrow> collapse option"
  col_orphans :: "node \<Rightarrow> col_run list"
  col_page :: dom

text \<open>The argument of \<open>reset\<close>.\<close>

datatype js_size = Size_undefined | Size_null | Size int

section \<open>Operations\<close>

definition col_update :: "node \<Rightarrow> (collapse \<Rightarrow> collapse) \<Rightarrow> collapse_page \<Rightarrow> collapse_page" where
  "col_update n f s = s\<lparr>col_insts := (col_insts s)(n := map_option f (col_insts s n))\<rparr>"

definition col_dom :: "(dom \<Rightarrow> dom) \<Rightarrow> collapse_page \<Rightarrow> collapse_page" where
  "col_dom f s = s\<lparr>col_page := f (col_page s)\<rparr>"

definition col_busy :: "collapse_page \<Rightarrow> node \<Rightarrow> bool" where
  "col_busy s n \<longleftrightarrow> (case col_insts s n of None \<Rightarrow> False | Some w \<Rightarrow> col_transitioning w)"

text \<open>\<open>actives.data('collapse', null)\<close>.\<close>

definition col_drop :: "node list \<Rightarrow> collapse_page \<Rightarrow> collapse_page" where
  "col_drop S s = s\<lparr>col_insts := (\<lambda>m. if m \<in> set S then None else col_insts s m),
     col_orphans := (\<lambda>m. if m \<in> set S then col_orphans s m @ (case col_insts s m of None \<Rightarrow> [] | Some w \<Rightarrow> col_waiting w)
       else col_orphans s m)\<rparr>"

definition collapse_dimension :: "jquery \<Rightarrow> dom \<Rightarrow> node \<Rightarrow> string" where
  "collapse_dimension J d n = (if jq_hasClass J d [n] ''width'' then ''width'' else ''height'')"

text \<open>\<open>$.camelCase(['scroll', dimension].join('-'))\<close>.\<close>

definition scroll_property :: "string \<Rightarrow> string" where
  "scroll_property dimension = (if dimension = ''width'' then ''scrollWidth'' else ''scrollHeight'')"

definition collapse_reset :: "jquery \<Rightarrow> js_size \<Rightarrow> node \<Rightarrow> dom \<Rightarrow> dom" where
  "collapse_reset J sz n d =
     (let dimension = collapse_dimension J d n;
          d1 = jq_removeClass J [n] ''collapse'' d;
          d2 = jq_css J [n] dimension (case sz of Size i \<Rightarrow> if i = 0 then Css ''auto'' else Px i | _ \<Rightarrow> Css ''auto'') d1
      in if sz \<noteq> Size_null then jq_addClass J [n] ''collapse'' d2 else jq_removeClass J [n] ''collapse'' d2)"

definition run_event :: "col_run \<Rightarrow> string" where
  "run_event r = (case r of Col_showing \<Rightarrow> ''show'' | Col_hiding \<Rightarrow> ''hide'')"

definition run_complete_event :: "col_run \<Rightarrow> string" where
  "run_complete_event r = (case r of Col_showing \<Rightarrow> ''shown'' | Col_hiding \<Rightarrow> ''hidden'')"

definition transition_complete :: "jquery \<Rightarrow> node \<Rightarrow> col_run \<Rightarrow> collapse_page \<Rightarrow> collapse_page" where
  "transition_complete J n r s =
     (let s1 = (if r = Col_showing then col_dom (collapse_reset J Size_undefined n) s else s);
          s2 = col_update n (\<lambda>w. w\<lparr>col_transitioning := False\<rparr>) s1
      in col_dom (\<lambda>d. snd (jq_trigger J (run_complete_event r) [n] d)) s2)"

definition collapse_transition :: "jquery \<Rightarrow> node \<Rightarrow> col_run \<Rightarrow> collapse_page \<Rightarrow> collapse_page" where
  "collapse_transition J n r s =
     (let (prevented, d1) = jq_trigger J (run_event r) [n] (col_page s); s0 = s\<lparr>col_page := d1\<rparr> in
     if prevented then s0
     else
       let s1 = col_update n (\<lambda>w. w\<lparr>col_transitioning := True\<rparr>) s0;
           s2 = col_dom (case r of Col_showing \<Rightarrow> jq_addClass J [n] ''in'' | Col_hiding \<Rightarrow> jq_removeClass J [n] ''in'') s1
       in if has_transition J \<and> jq_hasClass J (col_page s2) [n] ''collapse''
          then col_update n (\<lambda>w. w\<lparr>col_waiting := col_waiting w @ [r]\<rparr>) s2
          else transition_complete J n r s2)"

definition collapse_hide :: "jquery \<Rightarrow> node \<Rightarrow> collapse_page \<Rightarrow> collapse_page" where
  "collapse_hide J n s =
     (if col_busy s n \<or> \<not> jq_hasClass J (col_page s) [n] ''in'' then s
      else
        let dimension = collapse_dimension J (col_page s) n;
            s1 = col_dom (collapse_reset J (Size (jq_size J (col_page s) [n] dimension)) n) s;
            s2 = collapse_transition J n Col_hiding s1
        in col_dom (jq_css J [n] dimension (Px 0)) s2)"

text \<open>\<open>show\<close>, with the call \<open>actives.collapse('hide')\<close> as an argument.\<close>

definition show_with :: "(node list \<Rightarrow> collapse_page \<Rightarrow> collapse_page) \<Rightarrow> jquery \<Rightarrow> node \<Rightarrow> collapse_page \<Rightarrow> collapse_page" where
  "show_with hide_all J n s =
     (if col_busy s n \<or> jq_hasClass J (col_page s) [n] ''in'' then s
      else
        let dimension = collapse_dimension J (col_page s) n;
            actives = (case col_insts s n of None \<Rightarrow> [] | Some w \<Rightarrow>
              (case col_parent w of None \<Rightarrow> [] | Some ps \<Rightarrow> jq_find J (col_page s) ps ''> .accordion-group > .in''));
            hasData = (actives \<noteq> [] \<and> col_insts s (hd actives) \<noteq> None)
        in if hasData \<and> col_busy s (hd actives) then s
           else
             let s1 = (if actives = [] then s
                  else let s' = hide_all actives s
                       in if hasData then s' else col_drop actives s');
                 s2 = col_dom (jq_css J [n] dimension (Px 0)) s1;
                 s3 = collapse_transition J n Col_showing s2
             in if has_transition J
                then col_dom (\<lambda>d. jq_css J [n] dimension (Px (jq_scroll_size J d [n] (scroll_property dimension))) d) s3
                else s3)"

text \<open>The constructor keeps the parent and toggles. (The instance is stored when the constructor returns; until then
nothing else looks for it.)\<close>

definition create_with :: "(node \<Rightarrow> collapse_page \<Rightarrow> collapse_page) \<Rightarrow> jquery \<Rightarrow> collapse_options \<Rightarrow> node \<Rightarrow> collapse_page \<Rightarrow> collapse_page" where
  "create_with show J opts n s =
     (let par = (case col_opt_parent opts of Some (c # t) \<Rightarrow> Some (jq_select J (col_page s) (c # t)) | _ \<Rightarrow> None);
          s1 = s\<lparr>col_insts := (col_insts s)(n \<mapsto> \<lparr>col_parent = par, col_transitioning = False, col_waiting = []\<rparr>)\<rparr>
      in if col_opt_toggle opts then (if jq_hasClass J (col_page s1) [n] ''in'' then collapse_hide J n s1 else show n s1) else s1)"

text \<open>Hiding through the plugin makes an instance of an element that has none, which toggles, and could show again, hence
the fuel; as the elements hidden are open ones, toggling hides them, and one step is enough (\<open>show_fuel_enough\<close>). \<open>data\<close> is what the attributes of an element
overwrite in the defaults.\<close>

type_synonym collapse_data = "node \<Rightarrow> collapse_options \<Rightarrow> collapse_options"

definition hide_call :: "(node \<Rightarrow> collapse_page \<Rightarrow> collapse_page) \<Rightarrow> jquery \<Rightarrow> collapse_data \<Rightarrow> node \<Rightarrow> collapse_page \<Rightarrow> collapse_page" where
  "hide_call show J data m s =
     collapse_hide J m (if col_insts s m = None then create_with show J (data m collapse_defaults) m s else s)"

primrec show_fuel :: "nat \<Rightarrow> jquery \<Rightarrow> collapse_data \<Rightarrow> node \<Rightarrow> collapse_page \<Rightarrow> collapse_page" where
  "show_fuel 0 J data n s = s"
| "show_fuel (Suc k) J data n s = show_with (fold (hide_call (show_fuel k J data) J data)) J n s"

definition collapse_show :: "jquery \<Rightarrow> collapse_data \<Rightarrow> node \<Rightarrow> collapse_page \<Rightarrow> collapse_page" where
  "collapse_show J data n s = show_fuel (Suc (fresh_node (col_page s))) J data n s"

definition collapse_toggle :: "jquery \<Rightarrow> collapse_data \<Rightarrow> node \<Rightarrow> collapse_page \<Rightarrow> collapse_page" where
  "collapse_toggle J data n s =
     (if jq_hasClass J (col_page s) [n] ''in'' then collapse_hide J n s else collapse_show J data n s)"

definition collapse_new :: "jquery \<Rightarrow> collapse_data \<Rightarrow> collapse_options \<Rightarrow> node \<Rightarrow> collapse_page \<Rightarrow> collapse_page" where
  "collapse_new J data = create_with (collapse_show J data) J"

text \<open>The end of a transition runs what waits for it on the element, once. A dropped instance completes unseen.\<close>

definition orphan_complete :: "jquery \<Rightarrow> node \<Rightarrow> col_run \<Rightarrow> collapse_page \<Rightarrow> collapse_page" where
  "orphan_complete J n r s =
     col_dom (\<lambda>d. snd (jq_trigger J (run_complete_event r) [n] d))
       (if r = Col_showing then col_dom (collapse_reset J Size_undefined n) s else s)"

definition collapse_transition_end :: "jquery \<Rightarrow> node \<Rightarrow> collapse_page \<Rightarrow> collapse_page" where
  "collapse_transition_end J n s =
     (let waiting = (case col_insts s n of None \<Rightarrow> [] | Some w \<Rightarrow> col_waiting w);
          s1 = (col_update n (\<lambda>w. w\<lparr>col_waiting := []\<rparr>) s)\<lparr>col_orphans := (col_orphans s)(n := [])\<rparr>
      in fold (transition_complete J n) waiting (fold (orphan_complete J n) (col_orphans s n) s1))"

section \<open>The plugin\<close>

text \<open>Methods called by name get no argument; \<open>transition\<close> throws without its event.\<close>

definition collapse_method :: "jquery \<Rightarrow> collapse_data \<Rightarrow> string \<Rightarrow> node \<Rightarrow> collapse_page \<Rightarrow> collapse_page js_result" where
  "collapse_method J data name n s =
     (if name = ''show'' then (None, collapse_show J data n s)
      else if name = ''hide'' then (None, collapse_hide J n s)
      else if name = ''toggle'' then (None, collapse_toggle J data n s)
      else if name = ''reset'' then (None, col_dom (collapse_reset J Size_undefined n) s)
      else if name = ''dimension'' then (None, s)
      else (Some TypeError, s))"

definition collapse_plugin1 :: "jquery \<Rightarrow> collapse_data \<Rightarrow> (collapse_options \<Rightarrow> collapse_options) plugin_arg \<Rightarrow> node \<Rightarrow>
    collapse_page \<Rightarrow> collapse_page js_result" where
  "collapse_plugin1 J data arg n s =
     (let opts = (case arg_object arg of None \<Rightarrow> id | Some f \<Rightarrow> f) (data n collapse_defaults);
          s1 = (if col_insts s n = None then collapse_new J data opts n s else s)
      in case arg of Arg_name name \<Rightarrow> collapse_method J data name n s1 | _ \<Rightarrow> (None, s1))"

definition collapse_plugin :: "jquery \<Rightarrow> collapse_data \<Rightarrow> (collapse_options \<Rightarrow> collapse_options) plugin_arg \<Rightarrow> node list \<Rightarrow>
    collapse_page \<Rightarrow> collapse_page js_result" where
  "collapse_plugin J data arg S = jq_each (collapse_plugin1 J data arg) S"

text \<open>A click on a control. The flag says whether the default action is prevented.\<close>

definition collapse_click :: "jquery \<Rightarrow> collapse_data \<Rightarrow> node \<Rightarrow> collapse_page \<Rightarrow> bool \<times> collapse_page js_result" where
  "collapse_click J data n s =
     (let d = col_page s;
          prevent = (case jq_attr J d [n] ''data-target'' of Some (c # t) \<Rightarrow> False | _ \<Rightarrow> True);
          target = (case jq_attr J d [n] ''data-target'' of Some (c # t) \<Rightarrow> jq_select J d (c # t)
            | _ \<Rightarrow> (case jq_attr J d [n] ''href'' of Some (c # h) \<Rightarrow> jq_select J d (strip_ie7 True (c # h)) | _ \<Rightarrow> []));
          option = (if target \<noteq> [] \<and> col_insts s (hd target) \<noteq> None then Arg_name ''toggle'' else Arg_object (data n));
          s1 = col_dom (if jq_hasClass J d target ''in'' then jq_addClass J [n] ''collapsed'' else jq_removeClass J [n] ''collapsed'') s
      in (prevent, collapse_plugin J data option target s1))"

section \<open>Events\<close>

text \<open>What happens to the elements of a page: calls of the plugin, clicks on controls, and ends of transitions.\<close>

datatype collapse_event = Col_call "(collapse_options \<Rightarrow> collapse_options) plugin_arg" "node list" | Col_click node
  | Col_transition_end node

fun collapse_step :: "jquery \<Rightarrow> collapse_data \<Rightarrow> collapse_event \<Rightarrow> collapse_page \<Rightarrow> collapse_page" where
  "collapse_step J data (Col_call arg S) s = snd (collapse_plugin J data arg S s)"
| "collapse_step J data (Col_click n) s = snd (snd (collapse_click J data n s))"
| "collapse_step J data (Col_transition_end n) s = collapse_transition_end J n s"

definition collapse_run :: "jquery \<Rightarrow> collapse_data \<Rightarrow> collapse_event list \<Rightarrow> collapse_page \<Rightarrow> collapse_page" where
  "collapse_run J data es s = foldl (\<lambda>s e. collapse_step J data e s) s es"

text \<open>The page before any plugin call.\<close>

definition collapse_start :: "dom \<Rightarrow> collapse_page" where
  "collapse_start d = \<lparr>col_insts = Map.empty, col_orphans = (\<lambda>_. []), col_page = d\<rparr>"

section \<open>Facts\<close>

lemma col_update_simps [simp]:
  "col_page (col_update n f s) = col_page s" "col_orphans (col_update n f s) = col_orphans s"
  "col_insts (col_update n f s) m = (if m = n then map_option f (col_insts s n) else col_insts s m)"
  "col_page (col_dom g s) = g (col_page s)" "col_insts (col_dom g s) = col_insts s" "col_orphans (col_dom g s) = col_orphans s"
  by (simp_all add: col_update_def col_dom_def)

lemma transition_insts:
  "m \<noteq> n \<Longrightarrow> col_insts (collapse_transition J n r s) m = col_insts s m"
  "col_insts (collapse_transition J n r s) n = None \<longleftrightarrow> col_insts s n = None"
  "m \<noteq> n \<Longrightarrow> col_insts (collapse_hide J n s) m = col_insts s m"
  "col_insts (collapse_hide J n s) m = None \<longleftrightarrow> col_insts s m = None"
  by (auto simp: collapse_hide_def collapse_transition_def transition_complete_def Let_def split_beta)

lemma reset_page [simp]:
  assumes "jquery_ok J"
  shows "(''in'' \<in> classes (collapse_reset J sz n d) m) = (''in'' \<in> classes d m)"
    "m \<noteq> n \<Longrightarrow> classes (collapse_reset J sz n d) m = classes d m"
    "m \<noteq> n \<Longrightarrow> css_of (collapse_reset J sz n d) m = css_of d m"
  using assms by (auto simp: collapse_reset_def jq Let_def upd_nodes_def)

lemma hide_in:
  assumes "jquery_ok J" "quiet J" "permissive J"
  shows "(''in'' \<in> classes (col_page (collapse_hide J n s)) m) =
     (''in'' \<in> classes (col_page s) m \<and> \<not> (m = n \<and> \<not> col_busy s n))"
  using assms
  by (auto simp: collapse_hide_def collapse_transition_def transition_complete_def Let_def permissive_trigger jq_updates)

lemma showing_in:
  assumes "jquery_ok J" "quiet J" "permissive J"
  shows "(''in'' \<in> classes (col_page (collapse_transition J n Col_showing s)) m) = (m = n \<or> ''in'' \<in> classes (col_page s) m)"
  using assms by (auto simp: collapse_transition_def transition_complete_def Let_def permissive_trigger jq_updates)

text \<open>The elements that a show hides.\<close>

lemma hide_all_in:
  assumes J: "jquery_ok J" "quiet J" "permissive J"
  shows "\<forall>m \<in> set A. col_insts s m \<noteq> None \<and> (col_busy s m \<longrightarrow> ''in'' \<notin> classes (col_page s) m) \<Longrightarrow>
    (''in'' \<in> classes (col_page (fold (hide_call show J data) A s)) x) = (''in'' \<in> classes (col_page s) x \<and> x \<notin> set A)"
proof (induction A arbitrary: s)
  case (Cons m A)
  let ?s = "collapse_hide J m s"
  have h: "hide_call show J data m s = ?s" using Cons.prems by (auto simp: hide_call_def)
  have b: "y \<noteq> m \<Longrightarrow> col_busy ?s y = col_busy s y" for y by (simp add: col_busy_def transition_insts)
  have "\<forall>y \<in> set A. col_insts ?s y \<noteq> None \<and> (col_busy ?s y \<longrightarrow> ''in'' \<notin> classes (col_page ?s) y)"
  proof
    fix y assume "y \<in> set A"
    then show "col_insts ?s y \<noteq> None \<and> (col_busy ?s y \<longrightarrow> ''in'' \<notin> classes (col_page ?s) y)"
      using Cons.prems b [of y] hide_in [OF J, of m s y] transition_insts(4) [of J m s y] by (cases "y = m") auto
  qed
  from Cons.IH [OF this] show ?case
    using Cons.prems hide_in [OF J, of m s x] by (auto simp: h)
qed simp

lemma hide_all_insts: "\<forall>m \<in> set A. col_insts s m \<noteq> None \<Longrightarrow>
    (col_insts (fold (hide_call show J data) A s) x = None) = (col_insts s x = None)"
proof (induction A arbitrary: s)
  case (Cons m A)
  have "hide_call show J data m s = collapse_hide J m s" using Cons.prems by (auto simp: hide_call_def)
  then show ?case using Cons.IH [of "collapse_hide J m s"] Cons.prems transition_insts(4) by (auto simp: transition_insts)
qed simp

text \<open>C33. The accordion: showing a group that is closed opens it and closes every other group of its accordion, with or
without transitions, when no group is in the middle of one.\<close>

theorem accordion_exclusive:
  assumes J: "jquery_ok J" "quiet J" "permissive J" and n: "n \<in> set groups" "''in'' \<notin> classes (col_page s) n"
    and ps: "map_option col_parent (col_insts s n) = Some (Some ps)"
    and find: "jq_find J (col_page s) ps ''> .accordion-group > .in'' = filter (\<lambda>m. ''in'' \<in> classes (col_page s) m) groups"
    and insts: "\<forall>m \<in> set groups. col_insts s m \<noteq> None \<and> \<not> col_busy s m"
  shows "filter (\<lambda>m. ''in'' \<in> classes (col_page (collapse_show J data n s)) m) groups = filter (\<lambda>m. m = n) groups"
proof -
  define A where "A = filter (\<lambda>m. ''in'' \<in> classes (col_page s) m) groups"
  obtain w where w: "col_insts s n = Some w" "col_parent w = Some ps" using ps by auto
  define hide where "hide = fold (hide_call (show_fuel (fresh_node (col_page s)) J data) J data)"
  define dim where "dim = collapse_dimension J (col_page s) n"
  define s1 where "s1 = (if A = [] then s else hide A s)"
  have h: "(''in'' \<in> classes (col_page (hide A s)) x) = (''in'' \<in> classes (col_page s) x \<and> x \<notin> set A)" for x
    unfolding hide_def by (rule hide_all_in [OF J]) (use insts in \<open>auto simp: A_def\<close>)
  have has: "\<not> jq_hasClass J (col_page s) [n] ''in''" "\<not> col_busy s n" using n insts J(1) by (simp_all add: jq)
  have hdA: "\<exists>v. col_insts s (hd A) = Some v" "\<not> col_busy s (hd A)" if "A \<noteq> []"
    using hd_in_set [OF that] insts unfolding A_def by auto
  have find: "jq_find J (col_page s) ps ''> .accordion-group > .in'' = A" using find by (simp add: A_def)
  have e: "collapse_show J data n s = (let s3 = collapse_transition J n Col_showing (col_dom (jq_css J [n] dim (Px 0)) s1) in
      if has_transition J then col_dom (\<lambda>d. jq_css J [n] dim (Px (jq_scroll_size J d [n] (scroll_property dim))) d) s3 else s3)"
    unfolding collapse_show_def show_fuel.simps show_with_def hide_def [symmetric] dim_def [symmetric]
    using hdA by (cases "A = []") (auto simp: has w find s1_def Let_def)
  have "(''in'' \<in> classes (col_page s1) m) = False" if "m \<in> set groups" for m
    using h [of m] that by (auto simp: s1_def A_def filter_empty_conv)
  then have "(''in'' \<in> classes (col_page (collapse_show J data n s)) m) = (m = n)" if "m \<in> set groups" for m
    unfolding e using that J showing_in [OF J, of n "col_dom (jq_css J [n] dim (Px 0)) s1" m] by (simp add: Let_def jq_updates)
  then show ?thesis by (intro filter_cong) simp_all
qed

text \<open>jQuery with its answer for the groups of an accordion.\<close>

definition accordion_jquery :: "string option \<Rightarrow> node list \<Rightarrow> jquery" where
  "accordion_jquery tr groups = (let J = jquery_instance tr (\<lambda>_ _ _. False) in
     J\<lparr>jq_find := (\<lambda>d S sel. if sel = ''> .accordion-group > .in''
        then (if S = [] then [] else filter (\<lambda>m. ''in'' \<in> classes d m) groups) else jq_find J d S sel)\<rparr>)"

lemma accordion_jquery_ok: "jquery_ok (accordion_jquery tr groups)" "quiet (accordion_jquery tr groups)" "permissive (accordion_jquery tr groups)"
proof -
  have "\<not> simple_selector ''> .accordion-group > .in''" by (simp add: simple_selector_def is_word_unit_def)
  then show "jquery_ok (accordion_jquery tr groups)"
    unfolding accordion_jquery_def Let_def by (intro jquery_ok_find) simp_all
  show "quiet (accordion_jquery tr groups)" "permissive (accordion_jquery tr groups)" by (simp_all add: accordion_jquery_def Let_def)
qed

definition example_groups :: collapse_page where
  "example_groups = (collapse_start (empty_dom\<lparr>fresh_node := 4, classes := (\<lambda>n. if n = 2 then {''in'', ''collapse''} else {''collapse''})\<rparr>))
     \<lparr>col_insts := (\<lambda>_. Some \<lparr>col_parent = Some [0], col_transitioning = False, col_waiting = []\<rparr>)\<rparr>"

theorem accordion_exclusive_witness:
  "filter (\<lambda>m. ''in'' \<in> classes (col_page (collapse_show (accordion_jquery (Some ''transitionend'') [1, 2, 3]) (\<lambda>_. id) 3 example_groups)) m) [1, 2, 3] = [3]"
proof -
  let ?J = "accordion_jquery (Some ''transitionend'') [1, 2, 3]"
  have "jq_find ?J (col_page example_groups) [0] ''> .accordion-group > .in'' = filter (\<lambda>m. ''in'' \<in> classes (col_page example_groups) m) [1, 2, 3]"
    by (simp add: accordion_jquery_def Let_def)
  from accordion_exclusive [OF accordion_jquery_ok _ _ _ this, of 3] show ?thesis
    by (simp add: example_groups_def collapse_start_def col_busy_def)
qed

section \<open>No element waits for ever\<close>

definition col_live :: "collapse_page \<Rightarrow> bool" where
  "col_live s \<longleftrightarrow> (\<forall>n w. col_insts s n = Some w \<longrightarrow> col_transitioning w \<longrightarrow> col_waiting w \<noteq> [])"

lemma col_live_dom [simp]: "col_live (col_dom f s) = col_live s" "col_live (s\<lparr>col_page := d\<rparr>) = col_live s"
    "col_live (s\<lparr>col_orphans := g\<rparr>) = col_live s"
  by (simp_all add: col_live_def)

lemma col_live_update:
  assumes "col_live s" "\<And>w. col_insts s n = Some w \<Longrightarrow> col_transitioning (f w) \<longrightarrow> col_waiting (f w) \<noteq> []"
  shows "col_live (col_update n f s)"
  using assms by (auto simp: col_live_def)

lemma transition_live: "col_live s \<Longrightarrow> col_live (collapse_transition J n r s)"
proof -
  assume s: "col_live s"
  have c: "col_live (transition_complete J n r (col_dom g (col_update n f (s\<lparr>col_page := d\<rparr>))))" for g f d
    using s by (auto simp: transition_complete_def Let_def col_live_def)
  have "col_live (col_update n (\<lambda>w. w\<lparr>col_waiting := col_waiting w @ [r]\<rparr>) (col_dom g (col_update n f (s\<lparr>col_page := d\<rparr>))))" for g f d
    using s by (auto simp: col_live_def)
  with c s show ?thesis by (simp add: collapse_transition_def Let_def split_beta)
qed

lemma hide_live: "col_live s \<Longrightarrow> col_live (collapse_hide J n s)"
  by (simp add: collapse_hide_def Let_def transition_live)

lemma show_with_live: "(\<And>A s. col_live s \<Longrightarrow> col_live (hide A s)) \<Longrightarrow> col_live s \<Longrightarrow> col_live (show_with hide J n s)"
proof -
  assume h: "\<And>A s. col_live s \<Longrightarrow> col_live (hide A s)" and s: "col_live s"
  have "col_live t \<Longrightarrow> col_live (col_drop A t)" for A t by (auto simp: col_live_def col_drop_def)
  then show ?thesis using h s by (simp add: show_with_def Let_def transition_live split: option.split)
qed

lemma create_live:
  assumes "\<And>n s. col_live s \<Longrightarrow> col_live (show n s)" "col_live s"
  shows "col_live (create_with show J opts n s)"
proof -
  have "col_live (s\<lparr>col_insts := (col_insts s)(n \<mapsto> \<lparr>col_parent = p, col_transitioning = False, col_waiting = []\<rparr>)\<rparr>)" for p
    using assms(2) by (simp add: col_live_def)
  then show ?thesis using assms(1) hide_live by (simp add: create_with_def Let_def)
qed

lemma show_fuel_live: "col_live s \<Longrightarrow> col_live (show_fuel k J data n s)"
proof (induction k arbitrary: n s)
  case (Suc k)
  have "col_live t \<Longrightarrow> col_live (hide_call (show_fuel k J data) J data m t)" for m t
    using Suc.IH by (simp add: hide_call_def hide_live create_live)
  then have "col_live t \<Longrightarrow> col_live (fold (hide_call (show_fuel k J data) J data) A t)" for A t
    by (induction A arbitrary: t) simp_all
  then show ?case using show_with_live [OF _ Suc.prems] by simp
qed simp

lemma transition_end_insts:
  "col_insts (collapse_transition_end J n s) = (col_insts s)(n := map_option (\<lambda>w. w\<lparr>col_waiting := [],
     col_transitioning := col_transitioning w \<and> col_waiting w = []\<rparr>) (col_insts s n))"
proof -
  have c: "col_insts (transition_complete J n r t) = (col_insts t)(n := map_option (\<lambda>w. w\<lparr>col_transitioning := False\<rparr>) (col_insts t n))" for r t
    by (auto simp: transition_complete_def Let_def)
  have f: "rs \<noteq> [] \<Longrightarrow> col_insts (fold (transition_complete J n) rs t) =
      (col_insts t)(n := map_option (\<lambda>w. w\<lparr>col_transitioning := False\<rparr>) (col_insts t n))" for rs t
  proof (induction rs arbitrary: t)
    case (Cons r rs)
    then show ?case by (cases "rs = []"; cases "col_insts t n") (simp_all add: c fun_eq_iff)
  qed simp
  have g: "col_insts (fold (orphan_complete J n) rs t) = col_insts t" for rs t
    by (induction rs arbitrary: t) (simp_all add: orphan_complete_def)
  have "col_insts (collapse_transition_end J n s) m = (if m = n then map_option (\<lambda>w. w\<lparr>col_waiting := [],
     col_transitioning := col_transitioning w \<and> col_waiting w = []\<rparr>) (col_insts s n) else col_insts s m)" for m
  proof (cases "col_insts s n")
    case (Some w)
    then show ?thesis
      by (cases w; cases "col_waiting w = []") (simp_all add: collapse_transition_end_def Let_def f g)
  qed (simp add: collapse_transition_end_def Let_def g)
  then show ?thesis by (simp add: fun_eq_iff)
qed

lemma transition_end_live:
  assumes "col_live s"
  shows "col_live (collapse_transition_end J n s)" "\<not> col_busy (collapse_transition_end J n s) n"
  using assms by (auto simp: col_live_def col_busy_def transition_end_insts split: option.split)

lemma collapse_step_live: "col_live s \<Longrightarrow> col_live (collapse_step J data e s)"
proof -
  assume s: "col_live s"
  have sh: "col_live t \<Longrightarrow> col_live (collapse_show J data n t)" for n t by (simp add: collapse_show_def show_fuel_live del: show_fuel.simps)
  then have m: "col_live t \<Longrightarrow> col_live (snd (collapse_method J data name n t))" for name n t
    by (simp add: collapse_method_def collapse_toggle_def hide_live)
  have "col_live t \<Longrightarrow> col_live (snd (collapse_plugin1 J data arg n t))" for arg n t
    using m create_live [OF sh, where s = t]
    by (auto simp: collapse_plugin1_def collapse_new_def Let_def split: plugin_arg.split)
  then have p: "col_live t \<Longrightarrow> col_live (snd (collapse_plugin J data arg S t))" for arg S t
    unfolding collapse_plugin_def by (rule jq_each_invariant)
  show ?thesis using p s transition_end_live(1) [OF s] by (cases e) (simp_all add: collapse_click_def Let_def)
qed

lemma collapse_run_live: "col_live s \<Longrightarrow> col_live (collapse_run J data es s)"
  by (induction es arbitrary: s) (simp_all add: collapse_run_def collapse_step_live)

text \<open>C34. No element stays in a transition for ever: after any events on any elements, whatever the handlers of the page do,
an element in the middle of a transition has a handler that waits for its end, so that the end of the transition frees it.\<close>

theorem collapse_never_stuck:
  "\<not> col_busy (collapse_transition_end J n (collapse_run J data es (collapse_start d))) n"
proof -
  have "col_live (collapse_start d)" by (simp add: col_live_def collapse_start_def)
  from transition_end_live(2) [OF collapse_run_live [OF this]] show ?thesis .
qed

section \<open>Opening and closing\<close>

text \<open>Closing an open element that is in no transition: unless the page prevents it, the element loses its class
\<open>in\<close>; its size is 0 in either case, so that where the page did prevent it the element stays open by its class, and
disappears.\<close>

theorem collapse_hide_prevented:
  assumes "jquery_ok J" "quiet J" "\<not> col_busy s n" "''in'' \<in> classes (col_page s) n"
  shows "let dim = collapse_dimension J (col_page s) n; e = col_page (collapse_hide J n s) in
    css_of e n dim = Px 0 \<and> (''in'' \<in> classes e n \<longleftrightarrow>
      fst (jq_trigger J ''hide'' [n] (collapse_reset J (Size (jq_size J (col_page s) [n] dim)) n (col_page s))))"
  using assms
  by (auto simp: collapse_hide_def collapse_transition_def transition_complete_def Let_def jq_updates run_event_def upd_nodes_def split_beta)

theorem collapse_hide_prevented_witness:
  "let J = jquery_instance None (\<lambda>e _ _. e = ''hide''); e = col_page (collapse_hide J 2 example_groups) in
     css_of e 2 ''height'' = Px 0 \<and> ''in'' \<in> classes e 2"
proof -
  let ?J = "jquery_instance None (\<lambda>e _ _. e = ''hide'')"
  have "\<not> col_busy example_groups 2" "''in'' \<in> classes (col_page example_groups) 2" "collapse_dimension ?J (col_page example_groups) 2 = ''height''"
    by (simp_all add: example_groups_def collapse_start_def col_busy_def collapse_dimension_def jquery_instance_def)
  with collapse_hide_prevented [OF jquery_instance_ok jquery_instance_quiet, of example_groups 2 None "\<lambda>e _ _. e = ''hide''"]
  show ?thesis by (simp add: Let_def) (simp add: jquery_instance_def)
qed

section \<open>The fuel\<close>

lemma hide_other:
  "jquery_ok J \<Longrightarrow> quiet J \<Longrightarrow> m \<noteq> n \<Longrightarrow> (''in'' \<in> classes (col_page (collapse_hide J n s)) m) = (''in'' \<in> classes (col_page s) m)"
  by (auto simp: collapse_hide_def collapse_transition_def transition_complete_def Let_def jq_updates split_beta)

lemma hide_call_open:
  assumes "jquery_ok J" "quiet J" "''in'' \<in> classes (col_page s) m"
  shows "hide_call f J data m s = hide_call g J data m s"
    "x \<noteq> m \<Longrightarrow> (''in'' \<in> classes (col_page (hide_call f J data m s)) x) = (''in'' \<in> classes (col_page s) x)"
  using assms hide_other [OF assms(1,2)] by (simp_all add: hide_call_def create_with_def Let_def jq)

text \<open>C35. Showing ends: an element shown hides the open groups of its accordion, and hiding an open group, made into a
collapsible element on the way or not, never shows another, so that one level of calls is enough, and any more give the same.\<close>

theorem show_fuel_enough:
  assumes J: "jquery_ok J" "quiet J"
    and find: "\<And>d S. distinct (jq_find J d S ''> .accordion-group > .in'') \<and> (\<forall>m \<in> set (jq_find J d S ''> .accordion-group > .in''). ''in'' \<in> classes d m)"
  shows "collapse_show J data n s = show_fuel (Suc k) J data n s"
proof -
  have fold: "distinct A \<Longrightarrow> \<forall>m \<in> set A. ''in'' \<in> classes (col_page t) m \<Longrightarrow>
      fold (hide_call f J data) A t = fold (hide_call g J data) A t" for A t f g
  proof (induction A arbitrary: t)
    case (Cons m A)
    have "\<forall>x \<in> set A. ''in'' \<in> classes (col_page (hide_call g J data m t)) x"
      using Cons.prems hide_call_open(2) [OF J, of t m _ g data] by fastforce
    then show ?case using Cons hide_call_open(1) [OF J, of t m f data g] by simp
  qed simp
  have "show_with (fold (hide_call f J data)) J n s = show_with (fold (hide_call g J data)) J n s" (is "?show") for f g
  proof -
    have e: "fold (hide_call f J data) (jq_find J (col_page s) ps ''> .accordion-group > .in'') s =
        fold (hide_call g J data) (jq_find J (col_page s) ps ''> .accordion-group > .in'') s" for ps
      using find fold by blast
    show ?show
  proof (cases "col_insts s n")
    case (Some w)
    then show ?thesis by (cases "col_parent w") (simp_all add: show_with_def Let_def e)
  qed (simp add: show_with_def)
  qed
  then show ?thesis by (simp add: collapse_show_def)
qed

theorem show_fuel_enough_witness:
  "collapse_show (accordion_jquery None [1, 2, 3]) (\<lambda>_. id) 3 example_groups = show_fuel 1 (accordion_jquery None [1, 2, 3]) (\<lambda>_. id) 3 example_groups"
proof -
  have "jq_find (jquery_instance None (\<lambda>_ _ _. False)) d [] sel = []" for d sel by (simp add: jquery_instance_def)
  then have "distinct (jq_find (accordion_jquery None [1, 2, 3]) d S ''> .accordion-group > .in'') \<and>
     (\<forall>m \<in> set (jq_find (accordion_jquery None [1, 2, 3]) d S ''> .accordion-group > .in''). ''in'' \<in> classes d m)" for d S
    by (simp add: accordion_jquery_def Let_def)
  from show_fuel_enough [OF accordion_jquery_ok(1,2) this, of "\<lambda>_. id" 3 example_groups 0] show ?thesis by simp
qed

end
