(* ===== verification/Modal.thy ===== *)
theory Modal
  imports Jquery
begin

text \<open>The modal dialog (\<open>bootstrap.js\<close>). The handlers it attaches to itself, to its backdrop and to the document, and its
timers, are part of its state; the events that run them are steps.\<close>

section \<open>State\<close>

datatype backdrop_option = Backdrop_false | Backdrop_true | Backdrop_static

record modal_options =
  md_opt_backdrop :: backdrop_option
  md_opt_keyboard :: bool
  md_opt_show :: bool
  md_opt_remote :: "string option"

definition modal_defaults :: modal_options where
  "modal_defaults = \<lparr>md_opt_backdrop = Backdrop_true, md_opt_keyboard = True, md_opt_show = True, md_opt_remote = None\<rparr>"

text \<open>What waits for the end of a transition of the element: the second half of \<open>show\<close>, or of \<open>hideWithTransition\<close>
with its timer. What waits for that of a backdrop, and is the callback of \<open>backdrop\<close>: of \<open>show\<close> or of \<open>hideModal\<close>.\<close>

datatype element_handler = Shown_focus | Hide_modal nat

datatype backdrop_callback = Callback_show | Callback_hidden

text \<open>\<open>md_refocus\<close>: the controls that wait for the next event \<open>hide\<close> to get the focus. \<open>md_focusin\<close> and \<open>md_keyup\<close>: how
often the handler of the document's \<open>focusin\<close> and of the element's \<open>keyup\<close> is attached. \<open>md_clickers\<close>: the backdrops
that listen to clicks, with what a click does.\<close>

record modal =
  md_element :: node
  md_options :: modal_options
  md_isShown :: bool
  md_backdrop :: "node list option"
  md_focusin :: nat
  md_keyup :: nat
  md_clickers :: "(node list \<times> bool) list"
  md_element_waiting :: "element_handler list"
  md_backdrop_waiting :: "(node list \<times> backdrop_callback) list"
  md_timeouts :: "nat list"
  md_next_timeout :: nat
  md_refocus :: "node list"

type_synonym modal_page = "modal \<times> dom"

section \<open>Operations\<close>

definition modal_new :: "jquery \<Rightarrow> node \<Rightarrow> modal_options \<Rightarrow> dom \<Rightarrow> modal_page" where
  "modal_new J n opts d =
     (\<lparr>md_element = n, md_options = opts, md_isShown = False, md_backdrop = None, md_focusin = 0, md_keyup = 0, md_clickers = [],
       md_element_waiting = [], md_backdrop_waiting = [], md_timeouts = [], md_next_timeout = 0, md_refocus = []\<rparr>,
      case md_opt_remote opts of Some (c # t) \<Rightarrow> jq_load J (jq_find J d [n] ''.modal-body'') (c # t) d | _ \<Rightarrow> d)"

definition modal_fades :: "jquery \<Rightarrow> modal_page \<Rightarrow> bool" where
  "modal_fades J = (\<lambda>(w, d). has_transition J \<and> jq_hasClass J d [md_element w] ''fade'')"

definition modal_escape :: "modal \<Rightarrow> modal" where
  "modal_escape w =
     (if md_isShown w \<and> md_opt_keyboard (md_options w) then w\<lparr>md_keyup := Suc (md_keyup w)\<rparr>
      else if \<not> md_isShown w then w\<lparr>md_keyup := 0\<rparr> else w)"

definition modal_enforceFocus :: "modal \<Rightarrow> modal" where
  "modal_enforceFocus w = w\<lparr>md_focusin := Suc (md_focusin w)\<rparr>"

text \<open>Removing the backdrop takes its handlers.\<close>

definition modal_removeBackdrop :: "jquery \<Rightarrow> modal_page \<Rightarrow> modal_page" where
  "modal_removeBackdrop J = (\<lambda>(w, d). case md_backdrop w of
       None \<Rightarrow> (w, d)
     | Some b \<Rightarrow> (w\<lparr>md_backdrop := None, md_clickers := filter (\<lambda>(c, _). c \<noteq> b) (md_clickers w),
           md_backdrop_waiting := filter (\<lambda>(c, _). c \<noteq> b) (md_backdrop_waiting w)\<rparr>, jq_remove J b d))"

definition focus_shown :: "jquery \<Rightarrow> modal_page \<Rightarrow> modal_page" where
  "focus_shown J = (\<lambda>(w, d). (w, snd (jq_trigger J ''shown'' [md_element w] (jq_focus J [md_element w] d))))"

definition modal_callback :: "jquery \<Rightarrow> backdrop_callback \<Rightarrow> modal_page \<Rightarrow> modal_page" where
  "modal_callback J cb s = (case cb of
     Callback_show \<Rightarrow>
       (let (w, d) = s; el = [md_element w];
            transition = modal_fades J s;
            d1 = (if jq_parent J d el = [] then jq_appendTo_body J el d else d);
            d2 = jq_set_attr J el ''aria-hidden'' ''false'' (jq_addClass J el ''in'' (jq_show J el d1));
            w1 = modal_enforceFocus w
        in if transition then (w1\<lparr>md_element_waiting := md_element_waiting w1 @ [Shown_focus]\<rparr>, d2)
           else focus_shown J (w1, d2))
   | Callback_hidden \<Rightarrow>
       (let (w, d) = modal_removeBackdrop J s in (w, snd (jq_trigger J ''hidden'' [md_element w] d))))"

definition backdrop_markup :: "string \<Rightarrow> string" where
  "backdrop_markup animate = ''<div class=\"modal-backdrop '' @ animate @ ''\" />''"

definition modal_show_backdrop :: "jquery \<Rightarrow> backdrop_callback \<Rightarrow> modal_page \<Rightarrow> modal_page" where
  "modal_show_backdrop J callback s =
     (let (w, d) = s; doAnimate = modal_fades J s;
          (b, d1) = jq_create J (backdrop_markup (if jq_hasClass J d [md_element w] ''fade'' then ''fade'' else [])) d;
          d2 = jq_addClass J b ''in'' (jq_appendTo_body J b d1);
          w1 = w\<lparr>md_backdrop := Some b, md_clickers := md_clickers w @ [(b, md_opt_backdrop (md_options w) = Backdrop_static)]\<rparr>
      in if doAnimate then (w1\<lparr>md_backdrop_waiting := md_backdrop_waiting w1 @ [(b, callback)]\<rparr>, d2)
         else modal_callback J callback (w1, d2))"

definition modal_backdrop :: "jquery \<Rightarrow> backdrop_callback \<Rightarrow> modal_page \<Rightarrow> modal_page" where
  "modal_backdrop J callback = (\<lambda>(w, d).
     if md_isShown w \<and> md_opt_backdrop (md_options w) \<noteq> Backdrop_false then modal_show_backdrop J callback (w, d)
     else case (if md_isShown w then None else md_backdrop w) of
       Some b \<Rightarrow>
         (let d1 = jq_removeClass J b ''in'' d in
          if modal_fades J (w, d1) then (w\<lparr>md_backdrop_waiting := md_backdrop_waiting w @ [(b, callback)]\<rparr>, d1)
          else modal_callback J callback (w, d1))
     | None \<Rightarrow> modal_callback J callback (w, d))"

definition modal_hideModal :: "jquery \<Rightarrow> modal_page \<Rightarrow> modal_page" where
  "modal_hideModal J = (\<lambda>(w, d). modal_backdrop J Callback_hidden (w, jq_hide J [md_element w] d))"

definition modal_hideWithTransition :: "modal \<Rightarrow> modal" where
  "modal_hideWithTransition w =
     w\<lparr>md_timeouts := md_next_timeout w # md_timeouts w, md_next_timeout := Suc (md_next_timeout w),
       md_element_waiting := md_element_waiting w @ [Hide_modal (md_next_timeout w)]\<rparr>"

definition modal_show :: "jquery \<Rightarrow> modal_page \<Rightarrow> modal_page" where
  "modal_show J = (\<lambda>(w, d).
     let (prevented, d1) = jq_trigger J ''show'' [md_element w] d in
     if md_isShown w \<or> prevented then (w, d1)
     else modal_backdrop J Callback_show (modal_escape (w\<lparr>md_isShown := True\<rparr>), d1))"

text \<open>The event \<open>hide\<close> gives the focus to the controls that wait for it.\<close>

definition modal_hide :: "jquery \<Rightarrow> modal_page \<Rightarrow> modal_page" where
  "modal_hide J = (\<lambda>(w, d).
     let (prevented, d1) = jq_trigger J ''hide'' [md_element w] d;
         d2 = fold (\<lambda>n. jq_focus J [n]) (md_refocus w) d1;
         w1 = w\<lparr>md_refocus := []\<rparr>
     in if \<not> md_isShown w1 \<or> prevented then (w1, d2)
        else
          let w2 = (modal_escape (w1\<lparr>md_isShown := False\<rparr>))\<lparr>md_focusin := 0\<rparr>;
              d3 = jq_set_attr J [md_element w] ''aria-hidden'' ''true'' (jq_removeClass J [md_element w] ''in'' d2)
          in if modal_fades J (w2, d3) then (modal_hideWithTransition w2, d3) else modal_hideModal J (w2, d3))"

definition modal_toggle :: "jquery \<Rightarrow> modal_page \<Rightarrow> modal_page" where
  "modal_toggle J s = (if md_isShown (fst s) then modal_hide J s else modal_show J s)"

section \<open>Events\<close>

definition run_element_handler :: "jquery \<Rightarrow> element_handler \<Rightarrow> modal_page \<Rightarrow> modal_page" where
  "run_element_handler J h s = (case h of
     Shown_focus \<Rightarrow> focus_shown J s
   | Hide_modal t \<Rightarrow> modal_hideModal J ((fst s)\<lparr>md_timeouts := removeAll t (md_timeouts (fst s))\<rparr>, snd s))"

definition modal_element_transition_end :: "jquery \<Rightarrow> modal_page \<Rightarrow> modal_page" where
  "modal_element_transition_end J = (\<lambda>(w, d).
     fold (run_element_handler J) (md_element_waiting w) (w\<lparr>md_element_waiting := []\<rparr>, d))"

definition modal_backdrop_transition_end :: "jquery \<Rightarrow> node list \<Rightarrow> modal_page \<Rightarrow> modal_page" where
  "modal_backdrop_transition_end J b = (\<lambda>(w, d).
     fold (\<lambda>(_, cb). modal_callback J cb) (filter (\<lambda>(c, _). c = b) (md_backdrop_waiting w))
       (w\<lparr>md_backdrop_waiting := filter (\<lambda>(c, _). c \<noteq> b) (md_backdrop_waiting w)\<rparr>, d))"

text \<open>The timer of \<open>hideWithTransition\<close> takes all handlers of the transition off the element. (Started by name in a
browser without transitions, it throws at the name of their event.)\<close>

definition modal_timeout :: "jquery \<Rightarrow> nat \<Rightarrow> modal_page \<Rightarrow> modal_page" where
  "modal_timeout J t = (\<lambda>(w, d).
     if t \<notin> set (md_timeouts w) then (w, d)
     else if \<not> has_transition J then (w\<lparr>md_timeouts := removeAll t (md_timeouts w)\<rparr>, d)
     else modal_hideModal J (w\<lparr>md_timeouts := removeAll t (md_timeouts w), md_element_waiting := []\<rparr>, d))"

text \<open>The document's \<open>focusin\<close>: the focus is held inside the dialog. The key is tested once per handler attached.\<close>

definition modal_focusin :: "jquery \<Rightarrow> node \<Rightarrow> modal_page \<Rightarrow> modal_page" where
  "modal_focusin J target = (\<lambda>(w, d).
     (w, if md_focusin w > 0 \<and> target \<noteq> md_element w \<and> target \<notin> set (descendants d (md_element w))
         then (jq_focus J [md_element w] ^^ md_focusin w) d else d))"

definition modal_keyup :: "jquery \<Rightarrow> int \<Rightarrow> modal_page \<Rightarrow> modal_page" where
  "modal_keyup J which s = (if which = 27 then (modal_hide J ^^ md_keyup (fst s)) s else s)"

definition modal_backdrop_click :: "jquery \<Rightarrow> node list \<Rightarrow> modal_page \<Rightarrow> modal_page" where
  "modal_backdrop_click J b s =
     fold (\<lambda>(_, static) s. if static then (fst s, jq_focus J [md_element (fst s)] (snd s)) else modal_hide J s)
       (filter (\<lambda>(c, _). c = b) (md_clickers (fst s))) s"

datatype modal_event = Modal_show | Modal_hide | Modal_toggle | Modal_dismiss | Modal_focusin node | Modal_keyup int
  | Modal_backdrop_click "node list" | Modal_element_end | Modal_backdrop_end "node list" | Modal_timeout nat

fun modal_step :: "jquery \<Rightarrow> modal_event \<Rightarrow> modal_page \<Rightarrow> modal_page" where
  "modal_step J Modal_show s = modal_show J s"
| "modal_step J Modal_hide s = modal_hide J s"
| "modal_step J Modal_toggle s = modal_toggle J s"
| "modal_step J Modal_dismiss s = modal_hide J s"
| "modal_step J (Modal_focusin t) s = modal_focusin J t s"
| "modal_step J (Modal_keyup k) s = modal_keyup J k s"
| "modal_step J (Modal_backdrop_click b) s = modal_backdrop_click J b s"
| "modal_step J Modal_element_end s = modal_element_transition_end J s"
| "modal_step J (Modal_backdrop_end b) s = modal_backdrop_transition_end J b s"
| "modal_step J (Modal_timeout t) s = modal_timeout J t s"

definition modal_run :: "jquery \<Rightarrow> modal_event list \<Rightarrow> modal_page \<Rightarrow> modal_page" where
  "modal_run J es s = foldl (\<lambda>s e. modal_step J e s) s es"

section \<open>The plugin\<close>

type_synonym modal_insts = "(node \<Rightarrow> modal option) \<times> dom"

text \<open>A method called by name gets no argument. (\<open>backdrop\<close> without its callback, and \<open>constructor\<close>, are not modelled.)\<close>

definition modal_method :: "jquery \<Rightarrow> string \<Rightarrow> modal_page \<Rightarrow> modal_page js_result" where
  "modal_method J name s =
     (if name = ''toggle'' then (None, modal_toggle J s)
      else if name = ''show'' then (None, modal_show J s)
      else if name = ''hide'' then (None, modal_hide J s)
      else if name = ''enforceFocus'' then (None, modal_enforceFocus (fst s), snd s)
      else if name = ''escape'' then (None, modal_escape (fst s), snd s)
      else if name = ''hideWithTransition'' then
        (if has_transition J then (None, modal_hideWithTransition (fst s), snd s)
         else (Some TypeError, (fst s)\<lparr>md_timeouts := md_next_timeout (fst s) # md_timeouts (fst s),
                 md_next_timeout := Suc (md_next_timeout (fst s))\<rparr>, snd s))
      else if name = ''hideModal'' then (None, modal_hideModal J s)
      else if name = ''removeBackdrop'' then (None, modal_removeBackdrop J s)
      else (Some TypeError, s))"

definition modal_plugin1 :: "jquery \<Rightarrow> (node \<Rightarrow> modal_options \<Rightarrow> modal_options) \<Rightarrow> (modal_options \<Rightarrow> modal_options) plugin_arg \<Rightarrow>
    node \<Rightarrow> modal_insts \<Rightarrow> modal_insts js_result" where
  "modal_plugin1 J data arg n = (\<lambda>(insts, d).
     let opts = (case arg_object arg of None \<Rightarrow> id | Some f \<Rightarrow> f) (data n modal_defaults);
         s = (case insts n of Some w \<Rightarrow> (w, d) | None \<Rightarrow> modal_new J n opts d);
         (r, w, d') = (case arg of Arg_name name \<Rightarrow> modal_method J name s
           | _ \<Rightarrow> (None, if md_opt_show opts then modal_show J s else s))
     in (r, insts(n \<mapsto> w), d'))"

definition modal_plugin :: "jquery \<Rightarrow> (node \<Rightarrow> modal_options \<Rightarrow> modal_options) \<Rightarrow> (modal_options \<Rightarrow> modal_options) plugin_arg \<Rightarrow>
    node list \<Rightarrow> modal_insts \<Rightarrow> modal_insts js_result" where
  "modal_plugin J data arg S = jq_each (modal_plugin1 J data arg) S"

text \<open>A click on a control: the dialog toggles, or is made and shown; its next \<open>hide\<close> gives the focus back. A link
without a fragment is what the new dialog loads.\<close>

definition link_remote :: "string option \<Rightarrow> string option" where
  "link_remote href = (case href of Some h \<Rightarrow> if CHR ''#'' \<in> set h then None else Some h | None \<Rightarrow> None)"

definition modal_click :: "jquery \<Rightarrow> (node \<Rightarrow> modal_options \<Rightarrow> modal_options) \<Rightarrow> node \<Rightarrow> modal_insts \<Rightarrow> modal_insts js_result" where
  "modal_click J data n = (\<lambda>(insts, d).
     let href = jq_attr J d [n] ''href'';
         target = (case jq_attr J d [n] ''data-target'' of Some (c # t) \<Rightarrow> jq_select J d (c # t)
           | _ \<Rightarrow> (case href of Some (c # h) \<Rightarrow> jq_select J d (strip_ie7 True (c # h)) | _ \<Rightarrow> []));
         arg = (if target \<noteq> [] \<and> insts (hd target) \<noteq> None then Arg_name ''toggle''
                else Arg_object (\<lambda>opts. data n ((case target of [] \<Rightarrow> id | t # _ \<Rightarrow> data t) (opts\<lparr>md_opt_remote := link_remote href\<rparr>))))
     in js_then (modal_plugin J data arg target (insts, d))
          (\<lambda>(insts, d). (None, (\<lambda>m. if m \<in> set target then map_option (\<lambda>w. w\<lparr>md_refocus := md_refocus w @ [n]\<rparr>) (insts m) else insts m), d)))"

section \<open>Without transitions\<close>

text \<open>What the dialog relies on beyond \<open>jquery_ok\<close>: markup makes new elements, and an element that is appended to the body
keeps its classes.\<close>

definition creates_new :: "jquery \<Rightarrow> bool" where
  "creates_new J \<longleftrightarrow> (\<forall>markup d. fresh_node d \<le> fresh_node (snd (jq_create J markup d)) \<and>
     (\<forall>n < fresh_node d. n \<notin> set (fst (jq_create J markup d)) \<and> classes (snd (jq_create J markup d)) n = classes d n \<and>
        displayed (snd (jq_create J markup d)) n = displayed d n)) \<and>
     (\<forall>S d. classes (jq_appendTo_body J S d) = classes d \<and> displayed (jq_appendTo_body J S d) = displayed d \<and>
        fresh_node (jq_appendTo_body J S d) = fresh_node d)"

lemma creates_new_instance: "creates_new (jquery_instance tr prevented)"
  by (simp add: creates_new_def jquery_instance_def create_menu_def create_item_def Let_def)

text \<open>Shown and hidden: what is attached to the document and the element, what is on the page.\<close>

definition modal_inv :: "modal_page \<Rightarrow> bool" where
  "modal_inv = (\<lambda>(w, d). md_element_waiting w = [] \<and> md_backdrop_waiting w = [] \<and> md_timeouts w = [] \<and>
     md_element w < fresh_node d \<and>
     md_focusin w = (if md_isShown w then 1 else 0) \<and>
     md_keyup w = (if md_isShown w \<and> md_opt_keyboard (md_options w) then 1 else 0) \<and>
     displayed d (md_element w) = md_isShown w \<and> (''in'' \<in> classes d (md_element w)) = md_isShown w \<and>
     (md_backdrop w \<noteq> None) = (md_isShown w \<and> md_opt_backdrop (md_options w) \<noteq> Backdrop_false) \<and>
     md_clickers w = (case md_backdrop w of None \<Rightarrow> [] | Some b \<Rightarrow> [(b, md_opt_backdrop (md_options w) = Backdrop_static)]) \<and>
     (case md_backdrop w of None \<Rightarrow> True | Some b \<Rightarrow> md_element w \<notin> set b))"

lemma modal_inv_focus [simp]: "jquery_ok J \<Longrightarrow> modal_inv (w, jq_focus J [n] d) = modal_inv (w, d)"
  by (simp add: modal_inv_def jq)

lemma modal_inv_refocus: "jquery_ok J \<Longrightarrow> modal_inv (w, fold (\<lambda>n. jq_focus J [n]) ns d) = modal_inv (w, d)"
  by (induction ns arbitrary: d) simp_all

lemma modal_inv_refocus_field [simp]: "modal_inv (w\<lparr>md_refocus := ns\<rparr>, d) = modal_inv (w, d)"
  by (cases "md_backdrop w") (simp_all add: modal_inv_def)

lemma modal_show_inv:
  assumes J: "jquery_ok J" "quiet J" "creates_new J" "\<not> has_transition J" and i: "modal_inv (w, d)"
  shows "modal_inv (modal_show J (w, d))"
proof (cases "md_isShown w \<or> fst (jq_trigger J ''show'' [md_element w] d)")
  case True
  then show ?thesis using i J(2) by (simp add: modal_show_def Let_def split_beta)
next
  case False
  let ?el = "[md_element w]"
  define v where "v = modal_escape (w\<lparr>md_isShown := True\<rparr>)"
  have v: "md_element v = md_element w" "md_options v = md_options w" "md_isShown v" "md_focusin v = 0"
      "md_keyup v = (if md_opt_keyboard (md_options w) then 1 else 0)" "md_clickers v = []" "md_backdrop v = None"
      "md_element_waiting v = []" "md_backdrop_waiting v = []" "md_timeouts v = []"
    using i False by (auto simp: v_def modal_escape_def modal_inv_def split: option.splits)
  have el: "md_element w < fresh_node d" using i by (simp add: modal_inv_def)
  have fades: "\<not> modal_fades J s" for s using J(4) by (simp add: modal_fades_def split_beta)
  have trig: "snd (jq_trigger J ev S e) = e" for ev S e using J(2) by simp
  have app: "classes (jq_appendTo_body J S e) = classes e" "displayed (jq_appendTo_body J S e) = displayed e"
      "fresh_node (jq_appendTo_body J S e) = fresh_node e" for S e
    using J(3) by (simp_all add: creates_new_def)
  have callback: "modal_inv (modal_callback J Callback_show (u, e))"
    if "md_element u = md_element w" "md_options u = md_options w" "md_isShown u" "md_focusin u = 0" "md_keyup u = md_keyup v"
      "md_element_waiting u = []" "md_backdrop_waiting u = []" "md_timeouts u = []" "md_element w < fresh_node e"
      "md_clickers u = (case md_backdrop u of None \<Rightarrow> [] | Some b \<Rightarrow> [(b, md_opt_backdrop (md_options w) = Backdrop_static)])"
      "(md_backdrop u \<noteq> None) = (md_opt_backdrop (md_options w) \<noteq> Backdrop_false)"
      "case md_backdrop u of None \<Rightarrow> True | Some b \<Rightarrow> md_element w \<notin> set b" for u e
    using that v(5) J(1) by (cases "md_backdrop u") (simp_all add: modal_callback_def Let_def fades focus_shown_def trig modal_inv_def modal_enforceFocus_def
        jq_updates upd_nodes_def app)
  have "modal_inv (modal_backdrop J Callback_show (v, d))"
  proof (cases "md_opt_backdrop (md_options w) = Backdrop_false")
    case True
    then show ?thesis using v callback [OF v(1-4) refl v(8-10) el] by (simp add: modal_backdrop_def)
  next
    case False
    define m where "m = backdrop_markup (if jq_hasClass J d ?el ''fade'' then ''fade'' else [])"
    define b where "b = fst (jq_create J m d)"
    define e where "e = jq_addClass J b ''in'' (jq_appendTo_body J b (snd (jq_create J m d)))"
    have c: "jq_create J m d = (b, snd (jq_create J m d))" by (simp add: b_def)
    have b: "md_element w \<notin> set b" "md_element w < fresh_node e"
      using J(1,3) el by (auto simp: b_def e_def creates_new_def jq_updates app intro: less_le_trans)
    let ?u = "v\<lparr>md_backdrop := Some b, md_clickers := [(b, md_opt_backdrop (md_options w) = Backdrop_static)]\<rparr>"
    have "modal_inv (modal_callback J Callback_show (?u, e))"
      by (rule callback) (use v b False in simp_all)
    then show ?thesis using False v by (simp add: modal_backdrop_def modal_show_backdrop_def Let_def fades m_def [symmetric] split_beta b_def e_def)
  qed
  then show ?thesis using False trig by (simp add: modal_show_def Let_def split_beta v_def)
qed

lemma modal_hide_inv:
  assumes J: "jquery_ok J" "quiet J" "\<not> has_transition J" and i: "modal_inv s"
  shows "modal_inv (modal_hide J s)"
proof -
  obtain w d where s: "s = (w, d)" by (cases s)
  define d2 where "d2 = fold (\<lambda>n. jq_focus J [n]) (md_refocus w) d"
  have i2: "modal_inv (w, d2)" using i modal_inv_refocus [OF J(1)] by (simp add: s d2_def)
  have fades: "\<not> modal_fades J s" for s using J(3) by (simp add: modal_fades_def split_beta)
  have trig: "snd (jq_trigger J ev S e) = e" for ev S e using J(2) by simp
  show ?thesis
  proof (cases "\<not> md_isShown w \<or> fst (jq_trigger J ''hide'' [md_element w] d)")
    case True
    then show ?thesis using i2 by (simp add: modal_hide_def s Let_def split_beta trig d2_def)
  next
    case False
    then show ?thesis using i2 J(1)
      by (cases "md_backdrop w") (auto simp: modal_hide_def s Let_def split_beta trig d2_def [symmetric] fades modal_hideModal_def modal_backdrop_def
        modal_escape_def modal_callback_def modal_removeBackdrop_def modal_inv_def jq_updates upd_nodes_def dom_detach_def)
  qed
qed

lemma iterate_inv: "(\<And>s. P s \<Longrightarrow> P (f s)) \<Longrightarrow> P s \<Longrightarrow> P ((f ^^ k) s)"
  by (induction k) simp_all

lemma modal_step_inv:
  assumes J: "jquery_ok J" "quiet J" "creates_new J" "\<not> has_transition J" and i: "modal_inv s"
  shows "modal_inv (modal_step J e s)"
proof -
  obtain w d where s: "s = (w, d)" by (cases s)
  have t: "md_timeouts w = []" using i by (simp add: s modal_inv_def)
  have sh: "modal_inv (modal_show J s)" using modal_show_inv [OF J] i by (simp add: s)
  have hd: "modal_inv (modal_hide J t)" if "modal_inv t" for t using modal_hide_inv [OF J(1,2,4) that] .
  have fo: "modal_inv (v, (jq_focus J [n] ^^ k) f) = modal_inv (v, f)" for v n k f
    using J(1) by (induction k) simp_all
  show ?thesis
  proof (cases e)
    case (Modal_keyup k)
    then show ?thesis using i iterate_inv [where P = modal_inv and f = "modal_hide J", OF hd] by (simp add: modal_keyup_def)
  next
    case (Modal_backdrop_click b)
    have "modal_inv t \<Longrightarrow> modal_inv (fold (\<lambda>(_, static) s. if static then (fst s, jq_focus J [md_element (fst s)] (snd s)) else modal_hide J s) cs t)" for cs t
      by (induction cs arbitrary: t) (use hd J(1) in \<open>auto split: prod.split\<close>)
    then show ?thesis using i Modal_backdrop_click by (simp add: modal_backdrop_click_def)
  next
    case Modal_element_end
    then show ?thesis using i by (auto simp: s modal_inv_def modal_element_transition_end_def split: option.splits)
  next
    case (Modal_backdrop_end b)
    then show ?thesis using i by (auto simp: s modal_inv_def modal_backdrop_transition_end_def split: option.splits)
  qed (use i sh hd fo t in \<open>simp_all add: s modal_toggle_def modal_focusin_def modal_timeout_def\<close>)
qed

text \<open>C36. A browser without transitions: after any calls, clicks, keys and changes of the focus, the dialog is on view exactly
when it holds itself shown; then it has its backdrop, unless the options forbid one, and the document's focus and the
key are watched by one handler each, and otherwise nothing of all that is left.\<close>

theorem modal_invariant:
  assumes "jquery_ok J" "quiet J" "creates_new J" "\<not> has_transition J" "md_opt_remote opts = None"
    and "n < fresh_node d" "\<not> displayed d n" "''in'' \<notin> classes d n"
  shows "case modal_run J es (modal_new J n opts d) of (w, e) \<Rightarrow>
     displayed e (md_element w) = md_isShown w \<and> (''in'' \<in> classes e (md_element w)) = md_isShown w \<and>
     (md_backdrop w \<noteq> None) = (md_isShown w \<and> md_opt_backdrop (md_options w) \<noteq> Backdrop_false) \<and>
     md_focusin w = (if md_isShown w then 1 else 0) \<and>
     md_keyup w = (if md_isShown w \<and> md_opt_keyboard (md_options w) then 1 else 0)"
proof -
  have "modal_inv (modal_new J n opts d)" using assms(5-8) by (simp add: modal_new_def modal_inv_def)
  then have "modal_inv (modal_run J es (modal_new J n opts d))"
    unfolding modal_run_def by (induction es arbitrary: n rule: rev_induct) (simp_all add: modal_step_inv [OF assms(1-4)])
  then show ?thesis by (cases "modal_run J es (modal_new J n opts d)") (simp add: modal_inv_def)
qed

definition example_dialog :: dom where
  "example_dialog = empty_dom\<lparr>fresh_node := 2, classes := (\<lambda>n. if n = 1 then {''modal'', ''fade''} else {})\<rparr>"

theorem modal_invariant_witness:
  "case modal_run (jquery_instance None (\<lambda>_ _ _. False)) [Modal_show, Modal_keyup 27, Modal_toggle]
      (modal_new (jquery_instance None (\<lambda>_ _ _. False)) 1 modal_defaults example_dialog) of (w, e) \<Rightarrow>
     displayed e (md_element w) = md_isShown w"
proof -
  let ?J = "jquery_instance None (\<lambda>_ _ _. False)"
  have "\<not> has_transition ?J" by (simp add: jquery_instance_def)
  from modal_invariant [OF jquery_instance_ok jquery_instance_quiet creates_new_instance this,
      of modal_defaults 1 example_dialog "[Modal_show, Modal_keyup 27, Modal_toggle]"]
  show ?thesis by (auto simp: example_dialog_def empty_dom_def modal_defaults_def split: prod.splits)
qed

section \<open>With transitions\<close>

text \<open>Elements that are made leave those that are there as they are.\<close>

lemma creates_newD:
  assumes "creates_new J" "n < fresh_node d"
  shows "n < fresh_node (snd (jq_create J markup d))" "classes (snd (jq_create J markup d)) n = classes d n"
    "displayed (snd (jq_create J markup d)) n = displayed d n" "n \<notin> set (fst (jq_create J markup d))"
  using assms by (auto simp: creates_new_def intro: less_le_trans)

lemma appendTo_body_page:
  assumes "creates_new J"
  shows "classes (jq_appendTo_body J S d) = classes d" "displayed (jq_appendTo_body J S d) = displayed d"
    "fresh_node (jq_appendTo_body J S d) = fresh_node d"
  using assms by (simp_all add: creates_new_def)

text \<open>A dialog that fades, in a browser with transitions.\<close>

definition fading :: "modal_page \<Rightarrow> bool" where
  "fading s \<longleftrightarrow> md_element (fst s) < fresh_node (snd s) \<and> ''fade'' \<in> classes (snd s) (md_element (fst s))"

definition on_view :: "modal_page \<Rightarrow> bool" where
  "on_view s \<longleftrightarrow> displayed (snd s) (md_element (fst s))"

lemma fading_fades: "jquery_ok J \<Longrightarrow> has_transition J \<Longrightarrow> fading (w, d) \<Longrightarrow> modal_fades J (w, d)"
  by (simp add: fading_def modal_fades_def jq_updates)

lemma refocus_page:
  assumes "jquery_ok J"
  shows "classes (fold (\<lambda>n. jq_focus J [n]) ns d) = classes d \<and> fresh_node (fold (\<lambda>n. jq_focus J [n]) ns d) = fresh_node d"
  by (induction ns arbitrary: d) (simp_all add: jq_updates [OF assms])

lemma fading_show_backdrop:
  assumes J: "jquery_ok J" "creates_new J" "has_transition J" and f: "fading (w, d)"
  shows "\<exists>b e. modal_show_backdrop J cb (w, d) = (w\<lparr>md_backdrop := Some b, md_clickers := md_clickers w @ [(b, md_opt_backdrop (md_options w) = Backdrop_static)],
      md_backdrop_waiting := md_backdrop_waiting w @ [(b, cb)]\<rparr>, e) \<and>
    fading (w, e) \<and> on_view (w, e) = on_view (w, d)"
proof -
  define m where "m = backdrop_markup (if jq_hasClass J d [md_element w] ''fade'' then ''fade'' else [])"
  obtain b d1 where c: "jq_create J m d = (b, d1)" by (cases "jq_create J m d")
  note n = creates_newD [OF J(2), of "md_element w" d m, unfolded c fst_conv snd_conv]
  let ?e = "jq_addClass J b ''in'' (jq_appendTo_body J b d1)"
  have "md_element w < fresh_node d" "''fade'' \<in> classes d (md_element w)" using f by (simp_all add: fading_def)
  then have "fading (w, ?e)" "on_view (w, ?e) = on_view (w, d)"
    using n by (simp_all add: fading_def on_view_def jq_updates [OF J(1)] appendTo_body_page [OF J(2)] upd_nodes_def dom_addClass_def)
  then show ?thesis using fading_fades [OF J(1,3) f] c by (auto simp: modal_show_backdrop_def m_def Let_def)
qed

lemma fading_callback_show:
  assumes J: "jquery_ok J" "quiet J" "creates_new J" "has_transition J" and f: "fading (w, d)"
  shows "\<exists>e. modal_callback J Callback_show (w, d) =
      (w\<lparr>md_focusin := Suc (md_focusin w), md_element_waiting := md_element_waiting w @ [Shown_focus]\<rparr>, e) \<and> fading (w, e)"
  using f fading_fades [OF J(1,4) f]
  by (auto simp: modal_callback_def Let_def modal_enforceFocus_def fading_def jq_updates [OF J(1)] appendTo_body_page [OF J(3)] upd_nodes_def dom_addClass_def)

text \<open>Hiding the element of a dialog that holds itself shown.\<close>

lemma fading_hideModal:
  assumes J: "jquery_ok J" "quiet J" "creates_new J" "has_transition J" and f: "fading (w, d)" "md_isShown w"
  shows "\<exists>v e. modal_hideModal J (w, d) = (v, e) \<and> md_isShown v \<and> md_element v = md_element w \<and> \<not> on_view (v, e)"
proof -
  let ?d = "jq_hide J [md_element w] d"
  have h: "fading (w, ?d)" "\<not> on_view (w, ?d)" using f(1) by (simp_all add: fading_def on_view_def jq_updates [OF J(1)] upd_nodes_def)
  show ?thesis
  proof (cases "md_opt_backdrop (md_options w) = Backdrop_false")
    case True
    then show ?thesis using h f(2) J(2)
      by (cases "md_backdrop w") (auto simp: modal_hideModal_def modal_backdrop_def modal_callback_def modal_removeBackdrop_def on_view_def
        jq_updates [OF J(1)] dom_detach_def)
  next
    case False
    then show ?thesis using fading_show_backdrop [OF J(1,3,4) h(1), of Callback_hidden] h(2) f(2)
      by (auto simp: modal_hideModal_def modal_backdrop_def on_view_def)
  qed
qed

text \<open>Hidden, and shown again, before the dialog has faded out: the second half of the hiding waits for the transition, with its timer, and
the first half of the showing for its backdrop, unless the options forbid one.\<close>

lemma race_begins:
  assumes J: "jquery_ok J" "quiet J" "permissive J" "creates_new J" "has_transition J" and f: "fading (w, d)"
    and w: "md_isShown w" "md_element_waiting w = []" "md_backdrop_waiting w = []"
  shows "\<exists>v e. modal_run J [Modal_hide, Modal_show] (w, d) = (v, e) \<and> md_isShown v \<and> md_element v = md_element w \<and> fading (v, e) \<and>
    md_next_timeout w \<in> set (md_timeouts v) \<and>
    (if md_opt_backdrop (md_options w) = Backdrop_false
     then md_backdrop_waiting v = [] \<and> md_element_waiting v = [Hide_modal (md_next_timeout w), Shown_focus]
     else \<exists>b. md_backdrop v = Some b \<and> md_backdrop_waiting v = [(b, Callback_show)] \<and> md_element_waiting v = [Hide_modal (md_next_timeout w)])"
proof -
  have cn: "class_names ''in'' = [''in'']" by simp
  define d1 where "d1 = jq_set_attr J [md_element w] ''aria-hidden'' ''true'' (jq_removeClass J [md_element w] ''in''
      (fold (\<lambda>n. jq_focus J [n]) (md_refocus w) d))"
  define w1 where "w1 = modal_hideWithTransition ((modal_escape (w\<lparr>md_refocus := [], md_isShown := False\<rparr>))\<lparr>md_focusin := 0\<rparr>)"
  have w1: "md_element w1 = md_element w" "\<not> md_isShown w1" "md_options w1 = md_options w" "md_backdrop_waiting w1 = []"
      "md_element_waiting w1 = [Hide_modal (md_next_timeout w)]" "md_next_timeout w \<in> set (md_timeouts w1)"
    using w by (simp_all add: w1_def modal_hideWithTransition_def modal_escape_def)
  have f1: "fading (v, d1)" if "md_element v = md_element w" for v
    using f cn that by (simp add: d1_def fading_def jq_updates [OF J(1)] refocus_page [OF J(1)] upd_nodes_def dom_removeClass_def)
  have hide: "modal_hide J (w, d) = (w1, d1)"
    using w(1) fading_fades [OF J(1,5) f1] by (simp add: modal_hide_def permissive_trigger [OF J(3,2)] Let_def d1_def w1_def modal_escape_def)
  define w2 where "w2 = modal_escape (w1\<lparr>md_isShown := True\<rparr>)"
  have w2: "md_element w2 = md_element w" "md_isShown w2" "md_options w2 = md_options w" "md_backdrop_waiting w2 = []"
      "md_element_waiting w2 = [Hide_modal (md_next_timeout w)]" "md_next_timeout w \<in> set (md_timeouts w2)"
    using w1 by (simp_all add: w2_def modal_escape_def)
  have showing: "modal_show J (w1, d1) = modal_backdrop J Callback_show (w2, d1)"
    using w1(2) by (simp add: modal_show_def permissive_trigger [OF J(3,2)] w2_def)
  have run: "modal_run J [Modal_hide, Modal_show] (w, d) = modal_backdrop J Callback_show (w2, d1)"
    by (simp add: modal_run_def hide showing)
  show ?thesis
  proof (cases "md_opt_backdrop (md_options w) = Backdrop_false")
    case True
    with w2 fading_callback_show [OF J(1,2,4,5) f1 [OF w2(1)]] show ?thesis
      unfolding run by (auto simp: modal_backdrop_def fading_def)
  next
    case False
    with w2 fading_show_backdrop [OF J(1,4,5) f1 [OF w2(1)], of Callback_show] show ?thesis
      unfolding run by (auto simp: modal_backdrop_def fading_def)
  qed
qed

lemma race_backdrop_end:
  assumes J: "jquery_ok J" "quiet J" "creates_new J" "has_transition J"
    and v: "md_isShown v" "fading (v, e)" "k \<in> set (md_timeouts v)"
      "if md_opt_backdrop opts = Backdrop_false
       then md_backdrop_waiting v = [] \<and> md_element_waiting v = [Hide_modal k, Shown_focus]
       else \<exists>b. md_backdrop v = Some b \<and> md_backdrop_waiting v = [(b, Callback_show)] \<and> md_element_waiting v = [Hide_modal k]"
    and b: "b = (case md_backdrop v of None \<Rightarrow> [] | Some b \<Rightarrow> b)"
  shows "\<exists>u f. modal_step J (Modal_backdrop_end b) (v, e) = (u, f) \<and> md_isShown u \<and> md_element u = md_element v \<and> fading (u, f) \<and>
    k \<in> set (md_timeouts u) \<and> md_element_waiting u = [Hide_modal k, Shown_focus]"
proof (cases "md_opt_backdrop opts = Backdrop_false")
  case True
  then show ?thesis using v by (auto simp: modal_backdrop_transition_end_def fading_def)
next
  case False
  let ?v = "v\<lparr>md_backdrop_waiting := []\<rparr>"
  have "fading (?v, e)" using v(2) by (simp add: fading_def)
  from fading_callback_show [OF J this] show ?thesis using False v b
    by (auto simp: modal_backdrop_transition_end_def fading_def)
qed

lemma race_ends:
  assumes J: "jquery_ok J" "quiet J" "creates_new J" "has_transition J"
    and u: "md_isShown u" "fading (u, f)" "k \<in> set (md_timeouts u)" "md_element_waiting u = [Hide_modal k, Shown_focus]"
    and x: "x \<in> {Modal_element_end, Modal_timeout k}"
  shows "\<exists>v e. modal_step J x (u, f) = (v, e) \<and> md_isShown v \<and> md_element v = md_element u \<and> \<not> on_view (v, e)"
proof -
  have fade: "fading (u\<lparr>md_element_waiting := [], md_timeouts := ts\<rparr>, f)" for ts using u(2) by (simp add: fading_def)
  have foc: "focus_shown J (v, e) = (v, e\<lparr>focused := Some (md_element v)\<rparr>)" for v e
    using J(2) by (simp add: focus_shown_def jq_updates [OF J(1)])
  have c: "u\<lparr>md_element_waiting := [], md_timeouts := ts\<rparr> = u\<lparr>md_timeouts := ts, md_element_waiting := []\<rparr>" for ts by simp
  note h = fading_hideModal [OF J fade, of "removeAll k (md_timeouts u)"]
  show ?thesis
  proof (cases "x = Modal_element_end")
    case True
    then show ?thesis using h u(1,4)
      by (auto simp: modal_element_transition_end_def run_element_handler_def foc on_view_def)
  next
    case False
    then show ?thesis using h u(1,3) x J(4) by (auto simp: modal_timeout_def c)
  qed
qed

text \<open>C37. A race, whatever the option \<open>backdrop\<close>, in a browser with transitions and where the page prevents nothing: a dialog that fades, shown and with no transition
under way, is hidden, and shown again before it has faded out. Its backdrop, if it has one, ends its transition first, and shows the element; then the transition of
the element ends, or the timer that stands for it runs out. The handler that waits for this belongs to the hiding, and hides the element all the
same: the dialog then holds itself shown, so that \<open>show\<close> does nothing any more, while its element is not on view.\<close>

theorem modal_race:
  assumes J: "jquery_ok J" "quiet J" "permissive J" "creates_new J" "has_transition J"
    and w: "md_element w < fresh_node d" "''fade'' \<in> classes d (md_element w)"
      "md_isShown w" "md_element_waiting w = []" "md_backdrop_waiting w = []"
    and x: "x \<in> {Modal_element_end, Modal_timeout (md_next_timeout w)}"
  shows "case modal_run J [Modal_hide, Modal_show] (w, d) of (v, e) \<Rightarrow>
     let b = (case md_backdrop v of None \<Rightarrow> [] | Some b \<Rightarrow> b);
         (u, f) = modal_run J [Modal_backdrop_end b, x] (v, e)
     in md_isShown u \<and> md_element u = md_element w \<and> \<not> displayed f (md_element u) \<and> modal_show J (u, f) = (u, f)"
proof -
  have f: "fading (w, d)" using w(1,2) by (simp add: fading_def)
  obtain v e where v: "modal_run J [Modal_hide, Modal_show] (w, d) = (v, e)" "md_isShown v" "md_element v = md_element w" "fading (v, e)"
      "md_next_timeout w \<in> set (md_timeouts v)"
      "if md_opt_backdrop (md_options w) = Backdrop_false
       then md_backdrop_waiting v = [] \<and> md_element_waiting v = [Hide_modal (md_next_timeout w), Shown_focus]
       else \<exists>b. md_backdrop v = Some b \<and> md_backdrop_waiting v = [(b, Callback_show)] \<and> md_element_waiting v = [Hide_modal (md_next_timeout w)]"
    using race_begins [OF J f w(3-5)] by blast
  obtain u f where u: "modal_step J (Modal_backdrop_end (case md_backdrop v of None \<Rightarrow> [] | Some b \<Rightarrow> b)) (v, e) = (u, f)" "md_isShown u"
      "md_element u = md_element v" "fading (u, f)" "md_next_timeout w \<in> set (md_timeouts u)" "md_element_waiting u = [Hide_modal (md_next_timeout w), Shown_focus]"
    using race_backdrop_end [OF J(1,2,4,5) v(2,4,5,6) refl] by blast
  obtain t g where "modal_step J x (u, f) = (t, g)" "md_isShown t" "md_element t = md_element u" "\<not> on_view (t, g)"
    using race_ends [OF J(1,2,4,5) u(2,4,5,6) x] by blast
  moreover from this have "modal_show J (t, g) = (t, g)" by (simp add: modal_show_def permissive_trigger [OF J(3,2)])
  ultimately show ?thesis unfolding v(1) using u(1,3) v(3) by (simp add: modal_run_def on_view_def Let_def)
qed

text \<open>A dialog with the options it has by default, shown, after its backdrop (2) and then its element have ended their transitions.\<close>

definition shown_dialog :: modal_page where
  "shown_dialog = (let J = jquery_instance (Some ''transitionend'') (\<lambda>_ _ _. False) in
     modal_run J [Modal_show, Modal_backdrop_end [2], Modal_element_end] (modal_new J 1 modal_defaults example_dialog))"

lemma shown_dialog:
  "\<exists>w d. shown_dialog = (w, d) \<and> md_element w = 1 \<and> md_isShown w \<and> displayed d 1 \<and> 1 < fresh_node d \<and> ''fade'' \<in> classes d 1 \<and>
     md_element_waiting w = [] \<and> md_backdrop_waiting w = [] \<and> md_backdrop w = Some [2]"
proof -
  let ?J = "jquery_instance (Some ''transitionend'') (\<lambda>_ _ _. False)"
  note J = jquery_instance_ok [of "Some ''transitionend''" "\<lambda>_ _ _. False"] jquery_instance_quiet [of "Some ''transitionend''" "\<lambda>_ _ _. False"]
    jquery_instance_permissive [of "Some ''transitionend''"] creates_new_instance [of "Some ''transitionend''" "\<lambda>_ _ _. False"]
  have c: "jq_create ?J (backdrop_markup x) d = create_item d" "jq_parent ?J d [1] = (case parent_of d 1 of None \<Rightarrow> [] | Some p \<Rightarrow> [p])" "has_transition ?J"
      "jq_appendTo_body ?J S d = d" for x d S
    by (simp_all add: jquery_instance_def backdrop_markup_def menu_markup_def)
  show ?thesis
    by (simp add: shown_dialog_def Let_def modal_new_def modal_defaults_def modal_run_def modal_show_def permissive_trigger [OF J(3,2)] modal_escape_def
      modal_backdrop_def modal_show_backdrop_def modal_fades_def c jq_updates [OF J(1)] create_item_def example_dialog_def empty_dom_def upd_nodes_def dom_addClass_def
      modal_backdrop_transition_end_def modal_callback_def modal_enforceFocus_def modal_element_transition_end_def run_element_handler_def focus_shown_def)
qed

theorem modal_race_witness:
  "let J = jquery_instance (Some ''transitionend'') (\<lambda>_ _ _. False) in
   case modal_run J [Modal_hide, Modal_show] shown_dialog of (v, e) \<Rightarrow>
     let b = (case md_backdrop v of None \<Rightarrow> [] | Some b \<Rightarrow> b); (u, f) = modal_run J [Modal_backdrop_end b, Modal_element_end] (v, e)
     in md_isShown u \<and> md_element u = 1 \<and> \<not> displayed f (md_element u) \<and> modal_show J (u, f) = (u, f)"
proof -
  have "has_transition (jquery_instance (Some ''transitionend'') (\<lambda>_ _ _. False))" by (simp add: jquery_instance_def)
  moreover obtain w d where w: "shown_dialog = (w, d)" "md_element w = 1" "md_element w < fresh_node d" "''fade'' \<in> classes d (md_element w)" "md_isShown w"
      "md_element_waiting w = []" "md_backdrop_waiting w = []"
    using shown_dialog by auto
  ultimately show ?thesis
    using modal_race [OF jquery_instance_ok jquery_instance_quiet jquery_instance_permissive creates_new_instance _ w(3-7), of _ Modal_element_end]
    unfolding Let_def w(1,2) by simp
qed

end
