(* ===== verification/Dropdown.thy ===== *)
theory Dropdown
  imports Jquery
begin

text \<open>The dropdown menus (\<open>bootstrap.js\<close>). A dropdown keeps no state of its own: a menu is open when the parent of its
control has the class \<open>open\<close>.\<close>

definition dropdown_selector :: string where
  "dropdown_selector = ''[data-toggle=dropdown]''"

section \<open>Operations\<close>

definition dropdown_link :: "jquery \<Rightarrow> dom \<Rightarrow> node \<Rightarrow> string option" where
  "dropdown_link J d n = (case jq_attr J d [n] ''data-target'' of
     Some (c # t) \<Rightarrow> Some (c # t)
   | _ \<Rightarrow> (case jq_attr J d [n] ''href'' of
       Some h \<Rightarrow> if CHR ''#'' \<in> set h then Some (strip_ie7 False h) else None
     | None \<Rightarrow> None))"

definition getParent :: "jquery \<Rightarrow> dom \<Rightarrow> node \<Rightarrow> node list" where
  "getParent J d n = (case dropdown_link J d n of
     Some sel \<Rightarrow> if sel = [] \<or> jq_select J d sel = [] then jq_parent J d [n] else jq_select J d sel
   | None \<Rightarrow> jq_parent J d [n])"

definition clearMenus :: "jquery \<Rightarrow> dom \<Rightarrow> dom" where
  "clearMenus J d = fold (\<lambda>n d. jq_removeClass J (getParent J d n) ''open'' d) (jq_select J d dropdown_selector) d"

text \<open>The handler of a click on a control. The flag says that it returned \<open>false\<close>, which prevents the default action
and stops the event.\<close>

definition dropdown_toggle :: "jquery \<Rightarrow> node \<Rightarrow> dom \<Rightarrow> bool \<times> dom" where
  "dropdown_toggle J n d =
     (if jq_is J d [n] ''.disabled, :disabled'' then (False, d)
      else
        let parent = getParent J d n;
            isActive = jq_hasClass J d parent ''open'';
            d1 = clearMenus J d;
            d2 = (if isActive then d1 else jq_toggleClass J parent ''open'' d1)
        in (True, jq_focus J [n] d2))"

text \<open>A click at an element, as it rises through the page: the handler of its own instance, those of the instances on
the root element, the delegated handler of the document and the document's own. \<open>insts\<close> are the controls with an
instance.\<close>

definition dropdown_click :: "jquery \<Rightarrow> node list \<Rightarrow> node \<Rightarrow> dom \<Rightarrow> dom" where
  "dropdown_click J insts n d =
     (let (stop, d1) = (if n \<in> set insts then dropdown_toggle J n d else (False, d)) in
      if stop then d1
      else
        let d2 = fold (\<lambda>m d. jq_removeClass J (jq_parent J d [m]) ''open'' d) insts d1;
            (stop', d3) = (if n \<in> set (jq_select J d2 dropdown_selector) then dropdown_toggle J n d2 else (False, d2))
        in if stop' then d3 else clearMenus J d3)"

text \<open>\<open>/(38|40|27)/.test(e.keyCode)\<close> looks for the digits anywhere in the number.\<close>

fun key_digits :: "nat \<Rightarrow> nat list" where
  "key_digits keyCode = (let q = keyCode div 10; r = keyCode mod 10 in if q = 0 then [r] else key_digits q @ [r])"

declare key_digits.simps [simp del]

definition dropdown_key :: "nat \<Rightarrow> bool" where
  "dropdown_key keyCode \<longleftrightarrow> list_ex (\<lambda>p. sublist p (key_digits keyCode)) [[3, 8], [4, 0], [2, 7]]"

definition next_index :: "nat \<Rightarrow> int \<Rightarrow> int \<Rightarrow> int" where
  "next_index keyCode len index =
     (let i1 = (if keyCode = 38 \<and> index > 0 then index - 1 else index);
          i2 = (if keyCode = 40 \<and> i1 < len - 1 then i1 + 1 else i1)
      in if i2 = -1 then 0 else i2)"

text \<open>A key on a control or in a menu. The flag says whether the event is prevented and stopped.\<close>

definition dropdown_keydown :: "jquery \<Rightarrow> node list \<Rightarrow> nat \<Rightarrow> node \<Rightarrow> dom \<Rightarrow> bool \<times> dom" where
  "dropdown_keydown J insts keyCode n d =
     (if \<not> dropdown_key keyCode then (False, d)
      else if jq_is J d [n] ''.disabled, :disabled'' then (True, d)
      else
        let parent = getParent J d n; isActive = jq_hasClass J d parent ''open'' in
        if \<not> isActive \<or> isActive \<and> keyCode = 27 then
          let d1 = (if keyCode = 27 then jq_focus J (jq_find J d parent dropdown_selector) d else d)
          in (True, dropdown_click J insts n d1)
        else
          let items = jq_find J d parent ''[role=menu] li:not(.divider):visible a'' in
          if items = [] then (True, d)
          else
            let index = next_index keyCode (int (length items)) (jq_index J d items (jq_filter J d items '':focus''))
            in (True, jq_focus J (if index < int (length items) then [items ! nat index] else []) d))"

section \<open>The plugin\<close>

text \<open>The instances are the controls that the plugin was called on. A method called by name runs on the control:
\<open>toggle\<close> without an event, \<open>keydown\<close> throws without one.\<close>

type_synonym dropdown_page = "node list \<times> dom"

definition dropdown_plugin1 :: "jquery \<Rightarrow> unit plugin_arg \<Rightarrow> node \<Rightarrow> dropdown_page \<Rightarrow> dropdown_page js_result" where
  "dropdown_plugin1 J arg n = (\<lambda>(insts, d).
     let insts' = (if n \<in> set insts then insts else insts @ [n]) in
     case arg of
       Arg_name name \<Rightarrow> if name = ''toggle'' then (None, insts', snd (dropdown_toggle J n d)) else (Some TypeError, insts', d)
     | _ \<Rightarrow> (None, insts', d))"

definition dropdown_plugin :: "jquery \<Rightarrow> unit plugin_arg \<Rightarrow> node list \<Rightarrow> dropdown_page \<Rightarrow> dropdown_page js_result" where
  "dropdown_plugin J arg S = jq_each (dropdown_plugin1 J arg) S"

text \<open>The handlers of the document. A click inside a form of a dropdown is stopped before it reaches the document's own
handlers; keys are delegated to the controls and to the menus.\<close>

datatype dropdown_event = Dropdown_click node | Dropdown_form_click | Dropdown_keydown nat node

fun dropdown_step :: "jquery \<Rightarrow> dropdown_event \<Rightarrow> dropdown_page \<Rightarrow> dropdown_page" where
  "dropdown_step J (Dropdown_click n) (insts, d) = (insts, dropdown_click J insts n d)"
| "dropdown_step J Dropdown_form_click (insts, d) =
     (insts, fold (\<lambda>m d. jq_removeClass J (jq_parent J d [m]) ''open'' d) insts d)"
| "dropdown_step J (Dropdown_keydown k n) (insts, d) =
     (if n \<in> set (jq_select J d (dropdown_selector @ '', [role=menu]'')) then (insts, snd (dropdown_keydown J insts k n d))
      else (insts, d))"

section \<open>Properties\<close>

lemma fold_removeClass:
  assumes "jquery_ok J" "\<And>C m. m \<in> set cs \<Longrightarrow> getParent J (d\<lparr>classes := C\<rparr>) m = [p m]"
  shows "\<exists>C. fold (\<lambda>n d. jq_removeClass J (getParent J d n) ''open'' d) cs (d\<lparr>classes := D\<rparr>) = d\<lparr>classes := C\<rparr> \<and>
     (\<forall>x. ''open'' \<in> C x \<longleftrightarrow> ''open'' \<in> D x \<and> x \<notin> p ` set cs)"
  using assms(2)
proof (induction cs arbitrary: D)
  case (Cons m cs)
  define E where "E = upd_nodes [p m] (\<lambda>C. C - {''open''}) D"
  have E: "jq_removeClass J (getParent J (d\<lparr>classes := D\<rparr>) m) ''open'' (d\<lparr>classes := D\<rparr>) = d\<lparr>classes := E\<rparr>"
    using Cons.prems assms(1) by (simp add: jq_updates dom_removeClass_def E_def)
  have Eo: "''open'' \<in> E x \<longleftrightarrow> ''open'' \<in> D x \<and> x \<noteq> p m" for x by (simp add: E_def upd_nodes_def)
  obtain C where "fold (\<lambda>n d. jq_removeClass J (getParent J d n) ''open'' d) cs (d\<lparr>classes := E\<rparr>) = d\<lparr>classes := C\<rparr>"
      "\<forall>x. ''open'' \<in> C x \<longleftrightarrow> ''open'' \<in> E x \<and> x \<notin> p ` set cs"
    using Cons.IH [of E] Cons.prems by auto
  then show ?case using E Eo by (intro exI [of _ C]) simp
next
  case Nil
  show ?case by (intro exI [of _ D]) simp
qed

text \<open>C38. A click on the control of a menu opens its menu, or closes it if it was open, and in either case closes the menus of
all other controls: at most one menu is open.\<close>

theorem dropdown_toggle_opens:
  assumes J: "jquery_ok J" and sel: "jq_select J d dropdown_selector = cs"
    and par: "\<And>C m. m \<in> set cs \<Longrightarrow> getParent J (d\<lparr>classes := C\<rparr>) m = [p m]"
    and n: "n \<in> set cs" "\<not> jq_is J d [n] ''.disabled, :disabled''"
  shows "\<exists>e. dropdown_toggle J n d = (True, e) \<and> focused e = Some n \<and>
     (\<forall>m \<in> set cs. ''open'' \<in> classes e (p m) \<longleftrightarrow> p m = p n \<and> ''open'' \<notin> classes d (p n))"
proof -
  have d: "d = d\<lparr>classes := classes d\<rparr>" by (cases d) simp
  obtain C where C: "clearMenus J d = d\<lparr>classes := C\<rparr>" "\<forall>x. ''open'' \<in> C x \<longleftrightarrow> ''open'' \<in> classes d x \<and> x \<notin> p ` set cs"
    using fold_removeClass [OF J par, where D = "classes d"] unfolding clearMenus_def sel d [symmetric] by blast
  have g: "getParent J d n = [p n]" using par [OF n(1), of "classes d"] by simp
  have "dropdown_toggle J n d = (True, jq_focus J [n] (if ''open'' \<in> classes d (p n) then d\<lparr>classes := C\<rparr>
      else dom_toggleClass [p n] ''open'' (d\<lparr>classes := C\<rparr>)))"
    using n(2) J by (simp add: dropdown_toggle_def g C(1) Let_def jq_updates)
  then show ?thesis using C(2) n(1) J by (auto simp: jq_updates)
qed

text \<open>A page with two menus.\<close>

definition example_menus :: dom where
  "example_menus = empty_dom\<lparr>fresh_node := 4, tag_of := (\<lambda>n. if n < 2 then ''[data-toggle=dropdown]'' else []),
     classes := (\<lambda>n. if n = 2 then {''open''} else {}), parent_of := [0 \<mapsto> 2, 1 \<mapsto> 3]\<rparr>"

theorem dropdown_toggle_opens_witness:
  "\<exists>e. dropdown_toggle (jquery_instance None (\<lambda>_ _ _. False)) 1 example_menus = (True, e) \<and>
     ''open'' \<in> classes e 3 \<and> ''open'' \<notin> classes e 2"
proof -
  let ?J = "jquery_instance None (\<lambda>_ _ _. False)"
  have c: "classes example_menus 3 = {}" by (simp add: example_menus_def)
  have "jq_select ?J example_menus dropdown_selector = [0, 1]"
    by (simp add: jquery_instance_def example_menus_def sel_matches_def dropdown_selector_def numeral_eq_Suc)
  moreover have "getParent ?J (example_menus\<lparr>classes := C\<rparr>) m = [if m = 0 then 2 else 3]" if "m \<in> set [0, 1]" for C m
    using that by (auto simp: getParent_def dropdown_link_def jquery_instance_def example_menus_def empty_dom_def)
  moreover have "\<not> jq_is ?J example_menus [1] ''.disabled, :disabled''"
    by (simp add: jquery_instance_def sel_matches_def example_menus_def)
  ultimately obtain e where "dropdown_toggle ?J 1 example_menus = (True, e)"
      "\<forall>m \<in> set [0, 1 :: nat]. ''open'' \<in> classes e (if m = 0 then 2 else 3) \<longleftrightarrow>
        (if m = 0 then 2 else 3) = (if (1::nat) = 0 then 2 else 3 :: nat) \<and> ''open'' \<notin> classes example_menus (if (1::nat) = 0 then 2 else 3)"
    using dropdown_toggle_opens [OF jquery_instance_ok, of None "\<lambda>_ _ _. False" example_menus "[0, 1]" "\<lambda>m. if m = 0 then 2 else 3" 1] c
    by auto
  then show ?thesis by (intro exI [of _ e]) (simp add: c)
qed

text \<open>The arrow keys in an open menu move the focus by one item and stop at the ends; when no item has the focus,
either of them gives it to the first.\<close>

theorem dropdown_arrows:
  assumes J: "jquery_ok J" and k: "keyCode \<in> {38, 40}" and dis: "\<not> jq_is J d [n] ''.disabled, :disabled''"
    and "open": "jq_hasClass J d (getParent J d n) ''open''"
    and items: "jq_find J d (getParent J d n) ''[role=menu] li:not(.divider):visible a'' = items" "distinct items" "items \<noteq> []"
    and focus: "jq_filter J d items '':focus'' = (case i of None \<Rightarrow> [] | Some j \<Rightarrow> [items ! j])" "\<forall>j. i = Some j \<longrightarrow> j < length items"
  shows "dropdown_keydown J insts keyCode n d = (True, d\<lparr>focused := Some (items ! (case i of None \<Rightarrow> 0
     | Some j \<Rightarrow> if keyCode = 38 then j - 1 else min (Suc j) (length items - 1)))\<rparr>)"
proof -
  have key: "dropdown_key keyCode" using k by (auto simp: dropdown_key_def key_digits.simps)
  define r where "r = (case i of None \<Rightarrow> 0 | Some j \<Rightarrow> if keyCode = 38 then j - 1 else min (Suc j) (length items - 1))"
  have "next_index keyCode (int (length items)) (jq_index J d items (jq_filter J d items '':focus'')) = int r \<and> r < length items"
  proof (cases i)
    case None
    then show ?thesis using items(3) J k by (auto simp: focus(1) jq next_index_def Let_def r_def)
  next
    case (Some j)
    then have "j < length items" "j = length items - 1 \<or> Suc j < length items" using focus(2) by auto
    moreover have "length items = Suc 0 \<or> Suc 0 < length items" using items(3) by (cases items) auto
    ultimately show ?thesis using Some J k index_of_nth [OF _ items(2), of j] by (auto simp: focus(1) jq next_index_def Let_def r_def min_def)
  qed
  then have "int r < int (length items)" "next_index keyCode (int (length items)) (jq_index J d items (jq_filter J d items '':focus'')) = int r"
    by simp_all
  moreover have "keyCode \<noteq> 27" using k by auto
  ultimately show ?thesis unfolding r_def [symmetric] using J key dis "open" items(1,3)
    by (simp add: dropdown_keydown_def Let_def jq)
qed

definition menu_jquery :: jquery where
  "menu_jquery = (let J = jquery_instance None (\<lambda>_ _ _. False) in
     J\<lparr>jq_find := (\<lambda>d S sel. if sel = ''[role=menu] li:not(.divider):visible a'' then (if S = [] then [] else [5, 6, 7]) else jq_find J d S sel),
       jq_filter := (\<lambda>d S sel. filter (\<lambda>n. focused d = Some n) S)\<rparr>)"

theorem dropdown_arrows_witness:
  "dropdown_keydown menu_jquery [] 40 0 (example_menus\<lparr>focused := Some 6\<rparr>) = (True, example_menus\<lparr>focused := Some 7\<rparr>)"
proof -
  let ?d = "example_menus\<lparr>focused := Some 6\<rparr>"
  have "\<not> simple_selector ''[role=menu] li:not(.divider):visible a''" by (simp add: simple_selector_def is_word_unit_def)
  then have ok: "jquery_ok menu_jquery" unfolding menu_jquery_def Let_def by (simp add: jquery_ok_find)
  have m: "getParent menu_jquery ?d 0 = [2]"
    by (simp add: getParent_def dropdown_link_def menu_jquery_def Let_def example_menus_def) (simp add: jquery_instance_def empty_dom_def)
  have f: "jq_find menu_jquery ?d [2] ''[role=menu] li:not(.divider):visible a'' = [5, 6, 7]"
      "jq_filter menu_jquery ?d [5, 6, 7] '':focus'' = [6]"
      "jq_hasClass menu_jquery ?d [2] ''open''" "\<not> jq_is menu_jquery ?d [0] ''.disabled, :disabled''"
    by (simp_all add: menu_jquery_def Let_def) (simp_all add: jquery_instance_def example_menus_def sel_matches_def)
  show ?thesis
    using dropdown_arrows [OF ok _ f(4), where keyCode = 40 and items = "[5, 6, 7]" and i = "Some 1" and insts = "[]", unfolded m, OF _ f(3,1)] f(2)
    by simp
qed

end
