(* ===== verification/Tab.thy ===== *)
theory Tab
  imports Jquery
begin

text \<open>The tabs (\<open>bootstrap.js\<close>), and with them the alerts, the buttons and the test of the browser for transitions.\<close>

section \<open>Transitions\<close>

text \<open>The loop over the names of the style property, in the order of the object; the first that the browser has decides
the name of the event.\<close>

definition transEndEventNames :: "(string \<times> string) list" where
  "transEndEventNames =
     [(''WebkitTransition'', ''webkitTransitionEnd''), (''MozTransition'', ''transitionend''),
      (''OTransition'', ''oTransitionEnd otransitionend''), (''transition'', ''transitionend'')]"

fun transition_loop :: "(string \<Rightarrow> bool) \<Rightarrow> (string \<times> string) list \<Rightarrow> string option" where
  "transition_loop has_style [] = None"
| "transition_loop has_style ((name, ev) # names) = (if has_style name then Some ev else transition_loop has_style names)"

definition support_transition :: "(string \<Rightarrow> bool) \<Rightarrow> string option" where
  "support_transition has_style = transition_loop has_style transEndEventNames"

section \<open>Tabs\<close>

text \<open>A second half of \<open>activate\<close> that waits for the end of the transition of the active element: the active elements,
the element, and what the callback triggers on the link.\<close>

record tab_waiting =
  tw_active :: "node list"
  tw_element :: "node list"
  tw_link :: "node list"

type_synonym tab_page = "tab_waiting list \<times> dom"

text \<open>\<open>next\<close>, with \<open>transition\<close> and the link of the callback. A set of elements is true, even when it is empty.\<close>

definition tab_next :: "jquery \<Rightarrow> bool \<Rightarrow> node list \<Rightarrow> node list \<Rightarrow> node list option \<Rightarrow> dom \<Rightarrow> dom" where
  "tab_next J transition active element link d =
     (let d1 = jq_removeClass J active ''active'' d;
          d2 = jq_removeClass J (jq_find J d1 active ''> .dropdown-menu > .active'') ''active'' d1;
          d3 = jq_addClass J element ''active'' d2;
          d4 = (if transition then jq_addClass J element ''in'' d3 else jq_removeClass J element ''fade'' d3);
          d5 = jq_addClass J (jq_closest J d4 element ''li.dropdown'') ''active'' d4
      in case link of None \<Rightarrow> d5 | Some l \<Rightarrow> snd (jq_trigger J ''shown'' l d5))"

definition tab_activate :: "jquery \<Rightarrow> node list \<Rightarrow> node list \<Rightarrow> node list option \<Rightarrow> tab_page \<Rightarrow> tab_page" where
  "tab_activate J element container link = (\<lambda>(waiting, d).
     let active = jq_find J d container ''> .active'';
         transition = (link \<noteq> None \<and> has_transition J \<and> jq_hasClass J d active ''fade'');
         s = (if transition then (waiting @ [\<lparr>tw_active = active, tw_element = element, tw_link = the link\<rparr>], d)
              else (waiting, tab_next J False active element link d))
     in (fst s, jq_removeClass J active ''in'' (snd s)))"

definition tab_selector :: "jquery \<Rightarrow> dom \<Rightarrow> node \<Rightarrow> string option" where
  "tab_selector J d n = (case jq_attr J d [n] ''data-target'' of
     Some (c # t) \<Rightarrow> Some (c # t)
   | _ \<Rightarrow> (case jq_attr J d [n] ''href'' of Some (c # h) \<Rightarrow> Some (strip_ie7 False (c # h)) | h \<Rightarrow> h))"

definition tab_show :: "jquery \<Rightarrow> node \<Rightarrow> tab_page \<Rightarrow> tab_page" where
  "tab_show J n = (\<lambda>(waiting, d).
     let ul = jq_closest J d [n] ''ul:not(.dropdown-menu)'';
         selector = tab_selector J d n
     in if jq_hasClass J d (jq_parent_sel J d [n] ''li'') ''active'' then (waiting, d)
        else
          let (prevented, d1) = jq_trigger J ''show'' [n] d in
          if prevented then (waiting, d1)
          else
            let target = (case selector of Some (c # t) \<Rightarrow> jq_select J d1 (c # t) | _ \<Rightarrow> []);
                s1 = tab_activate J (jq_parent_sel J d1 [n] ''li'') ul None (waiting, d1)
            in tab_activate J target (jq_parent J (snd s1) target) (Some [n]) s1)"


definition tab_plugin1 :: "jquery \<Rightarrow> unit plugin_arg \<Rightarrow> node \<Rightarrow> tab_page \<Rightarrow> tab_page js_result" where
  "tab_plugin1 J arg n s = (case arg of
     Arg_name name \<Rightarrow> if name = ''show'' then (None, tab_show J n s) else (Some TypeError, s)
   | _ \<Rightarrow> (None, s))"

definition tab_plugin :: "jquery \<Rightarrow> unit plugin_arg \<Rightarrow> node list \<Rightarrow> tab_page \<Rightarrow> tab_page js_result" where
  "tab_plugin J arg S = jq_each (tab_plugin1 J arg) S"

definition tab_click :: "jquery \<Rightarrow> node \<Rightarrow> tab_page \<Rightarrow> bool \<times> tab_page js_result" where
  "tab_click J n s = (True, tab_plugin J (Arg_name ''show'') [n] s)"

section \<open>Alerts\<close>

text \<open>Alerts that wait for the end of their transition, and the page.\<close>

type_synonym alert_page = "node list list \<times> dom"

definition alert_target :: "jquery \<Rightarrow> dom \<Rightarrow> node \<Rightarrow> node list" where
  "alert_target J d n =
     (let selector = (case jq_attr J d [n] ''data-target'' of
            Some (c # t) \<Rightarrow> Some (c # t)
          | _ \<Rightarrow> (case jq_attr J d [n] ''href'' of Some (c # h) \<Rightarrow> Some (strip_ie7 False (c # h)) | h \<Rightarrow> h));
          parent = (case selector of Some (c # t) \<Rightarrow> jq_select J d (c # t) | _ \<Rightarrow> [])
      in if parent \<noteq> [] then parent else if jq_hasClass J d [n] ''alert'' then [n] else jq_parent J d [n])"

definition removeElement :: "jquery \<Rightarrow> node list \<Rightarrow> dom \<Rightarrow> dom" where
  "removeElement J parent d = jq_remove J parent (snd (jq_trigger J ''closed'' parent d))"

definition alert_close :: "jquery \<Rightarrow> node \<Rightarrow> alert_page \<Rightarrow> alert_page" where
  "alert_close J n = (\<lambda>(waiting, d).
     let parent = alert_target J d n; (prevented, d1) = jq_trigger J ''close'' parent d in
     if prevented then (waiting, d1)
     else
       let d2 = jq_removeClass J parent ''in'' d1 in
       if has_transition J \<and> jq_hasClass J d2 parent ''fade'' then (waiting @ [parent], d2)
       else (waiting, removeElement J parent d2))"

text \<open>The end of a transition of the element \<open>n\<close>. Removing an element takes its handlers.\<close>

definition alert_transition_end :: "jquery \<Rightarrow> node \<Rightarrow> alert_page \<Rightarrow> alert_page" where
  "alert_transition_end J n = (\<lambda>(waiting, d).
     (filter (\<lambda>p. n \<notin> set p) waiting, fold (removeElement J) (filter (\<lambda>p. n \<in> set p) waiting) d))"

definition alert_plugin1 :: "jquery \<Rightarrow> unit plugin_arg \<Rightarrow> node \<Rightarrow> alert_page \<Rightarrow> alert_page js_result" where
  "alert_plugin1 J arg n s = (case arg of
     Arg_name name \<Rightarrow> if name = ''close'' then (None, alert_close J n s) else (Some TypeError, s)
   | _ \<Rightarrow> (None, s))"

definition alert_plugin :: "jquery \<Rightarrow> unit plugin_arg \<Rightarrow> node list \<Rightarrow> alert_page \<Rightarrow> alert_page js_result" where
  "alert_plugin J arg S = jq_each (alert_plugin1 J arg) S"

section \<open>Buttons\<close>

text \<open>The texts of a button by the name of its state, from its data and from its options, and the delayed changes of
its state.\<close>

record button_page =
  bt_data :: "node \<Rightarrow> string \<Rightarrow> string option"
  bt_options :: "node \<Rightarrow> (string \<Rightarrow> string option) option"
  bt_timeouts :: "(node \<times> bool) list"
  bt_dom :: dom

definition button_defaults :: "string \<Rightarrow> string option" where
  "button_defaults = [''loadingText'' \<mapsto> ''loading...'']"

definition truthy :: "string option \<Rightarrow> string option" where
  "truthy t = (case t of Some (c # s) \<Rightarrow> Some (c # s) | _ \<Rightarrow> None)"

text \<open>\<open>val\<close> of an input, \<open>html\<close> of another element. A missing text is no argument to be set: it leaves the text.\<close>

definition button_text :: "jquery \<Rightarrow> node \<Rightarrow> dom \<Rightarrow> string" where
  "button_text J n d = (if jq_is J d [n] ''input'' then jq_val J d [n] else jq_html J d [n])"

definition button_set_text :: "jquery \<Rightarrow> node \<Rightarrow> string option \<Rightarrow> dom \<Rightarrow> dom" where
  "button_set_text J n t d =
     (if jq_is J d [n] ''input'' then jq_set_val J [n] t d
      else case t of None \<Rightarrow> d | Some s \<Rightarrow> jq_set_html J [n] s d)"

definition button_setState :: "jquery \<Rightarrow> string \<Rightarrow> node \<Rightarrow> button_page \<Rightarrow> button_page" where
  "button_setState J st n s =
     (let state = st @ ''Text'';
          data = (if truthy (bt_data s n ''resetText'') = None
                  then (bt_data s n)(''resetText'' \<mapsto> button_text J n (bt_dom s)) else bt_data s n);
          opts = (case bt_options s n of None \<Rightarrow> Map.empty | Some m \<Rightarrow> m);
          text = (case truthy (data state) of Some t \<Rightarrow> Some t | None \<Rightarrow> opts state)
      in s\<lparr>bt_data := (bt_data s)(n := data), bt_dom := button_set_text J n text (bt_dom s),
           bt_timeouts := bt_timeouts s @ [(n, state = ''loadingText'')]\<rparr>)"

definition button_timeout :: "jquery \<Rightarrow> button_page \<Rightarrow> button_page" where
  "button_timeout J s = (case bt_timeouts s of [] \<Rightarrow> s
     | (n, loading) # ts \<Rightarrow> s\<lparr>bt_timeouts := ts, bt_dom :=
         (if loading then jq_set_attr J [n] ''disabled'' ''disabled'' (jq_addClass J [n] ''disabled'' (bt_dom s))
          else jq_removeAttr J [n] ''disabled'' (jq_removeClass J [n] ''disabled'' (bt_dom s)))\<rparr>)"

definition button_toggle :: "jquery \<Rightarrow> node \<Rightarrow> dom \<Rightarrow> dom" where
  "button_toggle J n d =
     (let parent = jq_closest J d [n] ''[data-toggle=\"buttons-radio\"]'' in
      jq_toggleClass J [n] ''active'' (jq_removeClass J (jq_find J d parent ''.active'') ''active'' d))"

text \<open>The option \<open>toggle\<close> toggles, another name sets the state; an object is made a string of.\<close>

definition button_plugin1 :: "jquery \<Rightarrow> (string \<Rightarrow> string option) plugin_arg \<Rightarrow> node \<Rightarrow> button_page \<Rightarrow> button_page js_result" where
  "button_plugin1 J arg n s =
     (let s1 = (if bt_options s n = None
            then s\<lparr>bt_options := (bt_options s)(n \<mapsto> (case arg_object arg of None \<Rightarrow> button_defaults | Some m \<Rightarrow> button_defaults ++ m))\<rparr>
            else s)
      in (None, case arg of
           Arg_name name \<Rightarrow> if name = ''toggle'' then s1\<lparr>bt_dom := button_toggle J n (bt_dom s1)\<rparr>
             else if name \<noteq> [] then button_setState J name n s1 else s1
         | Arg_object m \<Rightarrow> button_setState J ''[object Object]'' n s1
         | _ \<Rightarrow> s1))"

definition button_plugin :: "jquery \<Rightarrow> (string \<Rightarrow> string option) plugin_arg \<Rightarrow> node list \<Rightarrow> button_page \<Rightarrow> button_page js_result" where
  "button_plugin J arg S = jq_each (button_plugin1 J arg) S"

definition button_click :: "jquery \<Rightarrow> node \<Rightarrow> button_page \<Rightarrow> button_page js_result" where
  "button_click J target s = button_plugin J (Arg_name ''toggle'')
     (if jq_hasClass J (bt_dom s) [target] ''btn'' then [target] else jq_closest J (bt_dom s) [target] ''.btn'') s"

section \<open>What the tabs show\<close>













section \<open>What a button shows\<close>

text \<open>The loading state: the text of a button that is not empty comes back when the state is reset, and the button, disabled
in between, is enabled again. (A button without text keeps the text of the loading state: its own, empty, is no text to
be set.)\<close>

theorem button_loading_reset:
  assumes J: "jquery_ok J" and inp: "\<And>e. \<not> jq_is J e [n] ''input''"
    and s: "bt_data s n = Map.empty" "bt_options s n = Some button_defaults" "bt_timeouts s = []" "''disabled'' \<notin> classes (bt_dom s) n"
  shows "let t = button_timeout J (button_setState J ''loading'' n s); u = button_timeout J (button_setState J ''reset'' n t) in
     html_of (bt_dom t) n = ''loading...'' \<and> ''disabled'' \<in> classes (bt_dom t) n \<and> attrs (bt_dom t) n ''disabled'' = Some ''disabled'' \<and>
     html_of (bt_dom u) n = (if html_of (bt_dom s) n = [] then ''loading...'' else html_of (bt_dom s) n) \<and>
     ''disabled'' \<notin> classes (bt_dom u) n \<and> attrs (bt_dom u) n ''disabled'' = None"
proof -
  have r: "''loading'' @ ''Text'' = ''loadingText''" "''reset'' @ ''Text'' = ''resetText''" by simp_all
  show ?thesis
    using J inp s by (cases "html_of (bt_dom s) n")
      (simp_all add: button_setState_def button_timeout_def button_set_text_def button_text_def button_defaults_def Let_def truthy_def jq_updates upd_nodes_def)
qed

theorem button_loading_reset_witness:
  "let J = (jquery_instance None (\<lambda>_ _ _. False))\<lparr>jq_is := (\<lambda>_ _ _. False)\<rparr>;
       s = \<lparr>bt_data = (\<lambda>_. Map.empty), bt_options = (\<lambda>_. Some button_defaults), bt_timeouts = [], bt_dom = empty_dom\<lparr>html_of := (\<lambda>_. ''Send'')\<rparr>\<rparr>;
       u = button_timeout J (button_setState J ''reset'' 0 (button_timeout J (button_setState J ''loading'' 0 s)))
   in html_of (bt_dom u) 0 = ''Send''"
proof -
  let ?J = "(jquery_instance None (\<lambda>_ _ _. False))\<lparr>jq_is := (\<lambda>_ _ _. False)\<rparr>"
  let ?s = "\<lparr>bt_data = (\<lambda>_. Map.empty), bt_options = (\<lambda>_. Some button_defaults), bt_timeouts = [], bt_dom = empty_dom\<lparr>html_of := (\<lambda>_. ''Send'')\<rparr>\<rparr>"
  have "jquery_ok ?J" "\<And>e. \<not> jq_is ?J e [0] ''input''" by simp_all
  from button_loading_reset [OF this, of ?s] show ?thesis by (simp add: Let_def empty_dom_def)
qed

end
