(* ===== verification/Tooltip.thy ===== *)
theory Tooltip
  imports Complex_Main Jquery
begin

text \<open>Tooltips and popovers (\<open>bootstrap.js\<close>): one prototype, of which a popover overrides some methods. An object
outlives the element it was made for, because timers and handlers keep it; the objects are a list, and elements, timers and
handlers refer to positions in it. Coordinates are rational numbers (the source halves sizes).\<close>

section \<open>State\<close>

datatype tip_type = Type_tooltip | Type_popover

datatype tip_delay = Delay_number int | Delay_pair int int

text \<open>A title, content or placement is a string, or a function of the page and the element.\<close>

datatype tip_text = Text string | Text_fun "dom \<Rightarrow> node \<Rightarrow> string"

fun text_of :: "tip_text \<Rightarrow> dom \<Rightarrow> node \<Rightarrow> string" where
  "text_of (Text s) d n = s"
| "text_of (Text_fun f) d n = f d n"

record tip_options =
  to_animation :: bool
  to_placement :: tip_text
  to_selector :: string
  to_template :: string
  to_trigger :: string
  to_title :: tip_text
  to_content :: tip_text
  to_delay :: tip_delay
  to_html :: bool
  to_container :: string

definition tooltip_template :: string where
  "tooltip_template = ''<div class=\"tooltip\"><div class=\"tooltip-arrow\"></div><div class=\"tooltip-inner\"></div></div>''"

definition popover_template :: string where
  "popover_template = ''<div class=\"popover\"><div class=\"arrow\"></div><h3 class=\"popover-title\"></h3><div class=\"popover-content\"></div></div>''"

text \<open>\<open>false\<close> for the selector and the container is the empty string. (Only popovers have a content.)\<close>

definition tooltip_defaults :: tip_options where
  "tooltip_defaults = \<lparr>to_animation = True, to_placement = Text ''top'', to_selector = [], to_template = tooltip_template,
     to_trigger = ''hover focus'', to_title = Text [], to_content = Text [], to_delay = Delay_number 0, to_html = False, to_container = []\<rparr>"

definition popover_defaults :: tip_options where
  "popover_defaults = tooltip_defaults\<lparr>to_placement := Text ''right'', to_trigger := ''click'', to_content := Text [],
     to_template := popover_template\<rparr>"

definition tip_defaults :: "tip_type \<Rightarrow> tip_options" where
  "tip_defaults T = (case T of Type_tooltip \<Rightarrow> tooltip_defaults | Type_popover \<Rightarrow> popover_defaults)"

text \<open>An object; \<open>tt_sub\<close> is \<open>_options\<close>. \<open>validate\<close> sets the element and the options to \<open>null\<close>.\<close>

record tooltip =
  tt_element :: "node option"
  tt_options :: "tip_options option"
  tt_enabled :: bool
  tt_sub :: "tip_options option"
  tt_tip :: "node list option"
  tt_arrow :: "node list option"
  tt_hover :: string
  tt_timeout :: "nat option"

text \<open>What an event does with the object whose handler it is; what a timer does: show or hide an object that is still
in the given hover state, or detach a tip.\<close>

datatype tip_action = Act_enter | Act_leave | Act_toggle

datatype tip_timer = Timer_hover nat string | Timer_detach "node list"

record tip_page =
  tp_objs :: "tooltip list"
  tp_data :: "node \<Rightarrow> nat option"
  tp_handlers :: "(node \<times> string \<times> tip_action \<times> nat) list"
  tp_timers :: "(nat \<times> tip_timer) list"
  tp_next :: nat
  tp_waiting :: "(node list \<times> nat) list"
  tp_offset :: "node \<Rightarrow> (rat \<times> rat) option"
  tp_arrow_css :: "node \<Rightarrow> string \<Rightarrow> rat option"
  tp_dom :: dom

text \<open>What the browser lays out: the rectangle of an element (top, left, width, height), and the width and height of a
tip, which depend on where it is put. Appending to a container, and \<open>text\<close>, are functions of jQuery.\<close>

record tip_view =
  tv_position :: "dom \<Rightarrow> node \<Rightarrow> rat \<times> rat \<times> rat \<times> rat"
  tv_size :: "dom \<Rightarrow> (node \<Rightarrow> (rat \<times> rat) option) \<Rightarrow> node list \<Rightarrow> rat \<times> rat"
  tv_append :: "string \<Rightarrow> node list \<Rightarrow> dom \<Rightarrow> dom"
  tv_text :: "node list \<Rightarrow> string \<Rightarrow> dom \<Rightarrow> dom"

definition tip_obj :: "tip_page \<Rightarrow> nat \<Rightarrow> tooltip" where
  "tip_obj s i = tp_objs s ! i"

definition tip_update :: "nat \<Rightarrow> (tooltip \<Rightarrow> tooltip) \<Rightarrow> tip_page \<Rightarrow> tip_page" where
  "tip_update i f s = s\<lparr>tp_objs := (tp_objs s)[i := f (tip_obj s i)]\<rparr>"

definition tip_change :: "(dom \<Rightarrow> dom) \<Rightarrow> tip_page \<Rightarrow> tip_page" where
  "tip_change f s = s\<lparr>tp_dom := f (tp_dom s)\<rparr>"

definition tip_trigger :: "jquery \<Rightarrow> string \<Rightarrow> node \<Rightarrow> tip_page \<Rightarrow> bool \<times> tip_page" where
  "tip_trigger J ev n s = (let (prevented, d) = jq_trigger J ev [n] (tp_dom s) in (prevented, s\<lparr>tp_dom := d\<rparr>))"

definition clear_timer :: "nat option \<Rightarrow> tip_page \<Rightarrow> tip_page" where
  "clear_timer t s = (case t of None \<Rightarrow> s | Some k \<Rightarrow> s\<lparr>tp_timers := filter (\<lambda>(j, _). j \<noteq> k) (tp_timers s)\<rparr>)"

definition set_timer :: "tip_timer \<Rightarrow> tip_page \<Rightarrow> nat \<times> tip_page" where
  "set_timer t s = (tp_next s, s\<lparr>tp_timers := tp_timers s @ [(tp_next s, t)], tp_next := Suc (tp_next s)\<rparr>)"

section \<open>The tip and its content\<close>

definition tip_tip :: "jquery \<Rightarrow> nat \<Rightarrow> tip_page \<Rightarrow> node list \<times> tip_page" where
  "tip_tip J i s = (case tt_tip (tip_obj s i) of
     Some t \<Rightarrow> (t, s)
   | None \<Rightarrow>
       (let (t, d) = jq_create J (case tt_options (tip_obj s i) of None \<Rightarrow> [] | Some opts \<Rightarrow> to_template opts) (tp_dom s)
        in (t, tip_update i (\<lambda>w. w\<lparr>tt_tip := Some t\<rparr>) (s\<lparr>tp_dom := d\<rparr>))))"

text \<open>A popover inherits the method: its own arrow has another class.\<close>

definition tip_arrow :: "jquery \<Rightarrow> nat \<Rightarrow> tip_page \<Rightarrow> node list \<times> tip_page" where
  "tip_arrow J i s = (case tt_arrow (tip_obj s i) of
     Some a \<Rightarrow> (a, s)
   | None \<Rightarrow>
       (let (t, s1) = tip_tip J i s; a = jq_find J (tp_dom s1) t ''.tooltip-arrow''
        in (a, tip_update i (\<lambda>w. w\<lparr>tt_arrow := Some a\<rparr>) s1)))"

definition getTitle :: "jquery \<Rightarrow> tip_options \<Rightarrow> dom \<Rightarrow> node \<Rightarrow> string" where
  "getTitle J opts d n = (case jq_attr J d [n] ''data-original-title'' of
     Some (c # t) \<Rightarrow> c # t
   | _ \<Rightarrow> text_of (to_title opts) d n)"

definition getContent :: "jquery \<Rightarrow> tip_options \<Rightarrow> dom \<Rightarrow> node \<Rightarrow> string option" where
  "getContent J opts d n = (case text_of (to_content opts) d n of
     c # t \<Rightarrow> Some (c # t)
   | [] \<Rightarrow> jq_attr J d [n] ''data-content'')"

definition popover_hasContent :: "jquery \<Rightarrow> tip_options \<Rightarrow> dom \<Rightarrow> node \<Rightarrow> bool" where
  "popover_hasContent J opts d n \<longleftrightarrow> getTitle J opts d n \<noteq> [] \<or> getContent J opts d n \<notin> {None, Some []}"

definition hasContent :: "jquery \<Rightarrow> tip_type \<Rightarrow> tip_options \<Rightarrow> dom \<Rightarrow> node \<Rightarrow> bool" where
  "hasContent J T opts d n = (case T of
     Type_tooltip \<Rightarrow> getTitle J opts d n \<noteq> []
   | Type_popover \<Rightarrow> popover_hasContent J opts d n)"

text \<open>A text that is missing is not set.\<close>

definition tip_fill :: "jquery \<Rightarrow> tip_view \<Rightarrow> bool \<Rightarrow> node list \<Rightarrow> string option \<Rightarrow> dom \<Rightarrow> dom" where
  "tip_fill J V html S t d = (case t of None \<Rightarrow> d | Some t \<Rightarrow> if html then jq_set_html J S t d else tv_text V S t d)"

definition popover_setContent :: "jquery \<Rightarrow> tip_view \<Rightarrow> tip_options \<Rightarrow> node list \<Rightarrow> node \<Rightarrow> dom \<Rightarrow> dom" where
  "popover_setContent J V opts tip n d =
     (let title = getTitle J opts d n; content = getContent J opts d n;
          d1 = tip_fill J V (to_html opts) (jq_find J d tip ''.popover-title'') (Some title) d;
          d2 = tip_fill J V (to_html opts) (jq_find J d1 tip ''.popover-content'') content d1
      in jq_removeClass J tip ''fade top bottom left right in'' d2)"

definition setContent :: "jquery \<Rightarrow> tip_view \<Rightarrow> tip_type \<Rightarrow> tip_options \<Rightarrow> node list \<Rightarrow> node \<Rightarrow> dom \<Rightarrow> dom" where
  "setContent J V T opts tip n d = (case T of
     Type_tooltip \<Rightarrow>
       jq_removeClass J tip ''fade in top bottom left right''
         (tip_fill J V (to_html opts) (jq_find J d tip ''.tooltip-inner'') (Some (getTitle J opts d n)) d)
   | Type_popover \<Rightarrow> popover_setContent J V opts tip n d)"

section \<open>Placement\<close>

text \<open>The corner (top, left) where a tip of a size goes, for the rectangle of its element.\<close>

definition tip_target :: "string \<Rightarrow> rat \<times> rat \<times> rat \<times> rat \<Rightarrow> rat \<times> rat \<Rightarrow> (rat \<times> rat) option" where
  "tip_target placement pos dims = (case pos of (y, x, width, height) \<Rightarrow> case dims of (actualWidth, actualHeight) \<Rightarrow>
     if placement = ''bottom'' then Some (y + height, x + width / 2 - actualWidth / 2)
     else if placement = ''top'' then Some (y - actualHeight, x + width / 2 - actualWidth / 2)
     else if placement = ''left'' then Some (y + height / 2 - actualHeight / 2, x - actualWidth)
     else if placement = ''right'' then Some (y + height / 2 - actualHeight / 2, x + width)
     else None)"

definition set_offset :: "node list \<Rightarrow> (rat \<times> rat) option \<Rightarrow> tip_page \<Rightarrow> tip_page" where
  "set_offset tip p s = (case p of None \<Rightarrow> s | Some q \<Rightarrow> s\<lparr>tp_offset := upd_nodes tip (\<lambda>_. Some q) (tp_offset s)\<rparr>)"

definition tip_size :: "tip_view \<Rightarrow> node list \<Rightarrow> tip_page \<Rightarrow> rat \<times> rat" where
  "tip_size V tip s = tv_size V (tp_dom s) (tp_offset s) tip"

text \<open>A percentage that is not a number is no value of the property, which keeps its value.\<close>

definition replaceArrow :: "jquery \<Rightarrow> nat \<Rightarrow> rat \<Rightarrow> rat \<Rightarrow> string \<Rightarrow> tip_page \<Rightarrow> tip_page" where
  "replaceArrow J i delta dimension position s =
     (let (arrow, s1) = tip_arrow J i s in
      if delta = 0 then s1\<lparr>tp_arrow_css := upd_nodes arrow (\<lambda>m. m(position := None)) (tp_arrow_css s1)\<rparr>
      else if dimension = 0 then s1
      else s1\<lparr>tp_arrow_css := upd_nodes arrow (\<lambda>m. m(position := Some (50 * (1 - delta / dimension)))) (tp_arrow_css s1)\<rparr>)"

definition applyPlacement :: "jquery \<Rightarrow> tip_view \<Rightarrow> nat \<Rightarrow> (rat \<times> rat) option \<Rightarrow> string \<Rightarrow> tip_page \<Rightarrow> tip_page" where
  "applyPlacement J V i offset placement s =
     (let (tip, s) = tip_tip J i s;
          (width, height) = tip_size V tip s;
          s = tip_change (\<lambda>d. jq_addClass J tip ''in'' (jq_addClass J tip placement d)) (set_offset tip offset s);
          (actualWidth, actualHeight) = tip_size V tip s;
          replace = (placement = ''top'' \<and> actualHeight \<noteq> height);
          offset = (if replace then map_option (\<lambda>(y, x). (y + height - actualHeight, x)) offset else offset)
      in if placement \<in> {''bottom'', ''top''} then
           let left = (case offset of None \<Rightarrow> 0 | Some (_, x) \<Rightarrow> x);
               delta = (if left < 0 then left * -2 else 0);
               offset = (if left < 0 then map_option (\<lambda>(y, _). (y, 0)) offset else offset);
               s = (if left < 0 then set_offset tip offset s else s);
               (actualWidth, actualHeight) = (if left < 0 then tip_size V tip s else (actualWidth, actualHeight));
               s = replaceArrow J i (delta - width + actualWidth) actualWidth ''left'' s
           in if replace then set_offset tip offset s else s
         else replaceArrow J i (actualHeight - height) actualHeight ''top'' s)"

section \<open>Showing and hiding\<close>

definition tip_show :: "jquery \<Rightarrow> tip_view \<Rightarrow> tip_type \<Rightarrow> nat \<Rightarrow> tip_page \<Rightarrow> tip_page js_result" where
  "tip_show J V T i s = (case (tt_element (tip_obj s i), tt_options (tip_obj s i)) of
     (Some n, Some opts) \<Rightarrow>
       if \<not> (hasContent J T opts (tp_dom s) n \<and> tt_enabled (tip_obj s i)) then (None, s)
       else
         let (prevented, s) = tip_trigger J ''show'' n s in
         if prevented then (None, s)
         else
           let (tip, s) = tip_tip J i s;
               s = tip_change (setContent J V T opts tip n) s;
               s = (if to_animation opts then tip_change (jq_addClass J tip ''fade'') s else s);
               placement = text_of (to_placement opts) (tp_dom s) n;
               s = tip_change (\<lambda>d. jq_css J tip ''display'' (Css ''block'') (jq_css J tip ''left'' (Px 0) (jq_css J tip ''top'' (Px 0) (jq_remove J tip d)))) s;
               s = tip_change (if to_container opts \<noteq> [] then tv_append V (to_container opts) tip else jq_insertAfter J tip [n])
                     (s\<lparr>tp_offset := upd_nodes tip (\<lambda>_. None) (tp_offset s)\<rparr>);
               s = applyPlacement J V i (tip_target placement (tv_position V (tp_dom s) n) (tip_size V tip s)) placement s
           in (None, snd (tip_trigger J ''shown'' n s))
   | _ \<Rightarrow> (Some TypeError, s))"

definition removeWithAnimation :: "node list \<Rightarrow> tip_page \<Rightarrow> tip_page" where
  "removeWithAnimation tip s = (let (t, s) = set_timer (Timer_detach tip) s in s\<lparr>tp_waiting := tp_waiting s @ [(tip, t)]\<rparr>)"

text \<open>The flag says whether the object itself is returned; a prevented call returns nothing.\<close>

definition tip_hide :: "jquery \<Rightarrow> nat \<Rightarrow> tip_page \<Rightarrow> bool \<times> tip_page js_result" where
  "tip_hide J i s =
     (let (tip, s) = tip_tip J i s in
      case tt_element (tip_obj s i) of
        None \<Rightarrow> (False, Some TypeError, s)
      | Some n \<Rightarrow>
          (let (prevented, s) = tip_trigger J ''hide'' n s in
           if prevented then (False, None, s)
           else
             let s = tip_change (jq_removeClass J tip ''in'') s;
                 s = (if has_transition J \<and> jq_hasClass J (tp_dom s) tip ''fade'' then removeWithAnimation tip s
                      else tip_change (jq_remove J tip) s)
             in (True, None, snd (tip_trigger J ''hidden'' n s))))"

definition tip_toggle :: "jquery \<Rightarrow> tip_view \<Rightarrow> tip_type \<Rightarrow> nat \<Rightarrow> tip_page \<Rightarrow> tip_page js_result" where
  "tip_toggle J V T i s =
     (let (tip, s) = tip_tip J i s in
      if jq_hasClass J (tp_dom s) tip ''in'' then snd (tip_hide J i s) else tip_show J V T i s)"

definition tip_validate :: "jquery \<Rightarrow> nat \<Rightarrow> tip_page \<Rightarrow> tip_page js_result" where
  "tip_validate J i s = (case tt_element (tip_obj s i) of
     None \<Rightarrow> (Some TypeError, s)
   | Some n \<Rightarrow>
       if parent_of (tp_dom s) n \<noteq> None then (None, s)
       else js_then (snd (tip_hide J i s)) (\<lambda>s. (None, tip_update i (\<lambda>w. w\<lparr>tt_element := None, tt_options := None\<rparr>) s)))"

text \<open>\<open>off\<close> takes the handlers of the element, and the element forgets its object.\<close>

definition tip_destroy :: "jquery \<Rightarrow> nat \<Rightarrow> tip_page \<Rightarrow> tip_page js_result" where
  "tip_destroy J i s = (case tip_hide J i s of
     (_, Some e, s) \<Rightarrow> (Some e, s)
   | (False, None, s) \<Rightarrow> (Some TypeError, s)
   | (True, None, s) \<Rightarrow> (case tt_element (tip_obj s i) of
       None \<Rightarrow> (Some TypeError, s)
     | Some n \<Rightarrow> (None, s\<lparr>tp_handlers := filter (\<lambda>(m, _). m \<noteq> n) (tp_handlers s), tp_data := (tp_data s)(n := None)\<rparr>)))"

section \<open>Making an object\<close>

definition fixTitle :: "jquery \<Rightarrow> node \<Rightarrow> dom \<Rightarrow> dom" where
  "fixTitle J n d =
     (let title = jq_attr J d [n] ''title'' in
      if title \<notin> {None, Some []} \<or> jq_attr J d [n] ''data-original-title'' = None
      then jq_set_attr J [n] ''title'' []
             (jq_set_attr J [n] ''data-original-title'' (case title of None \<Rightarrow> [] | Some t \<Rightarrow> t) d)
      else d)"

definition getOptions :: "tip_type \<Rightarrow> (node \<Rightarrow> tip_options \<Rightarrow> tip_options) \<Rightarrow> (tip_options \<Rightarrow> tip_options) \<Rightarrow> node \<Rightarrow> tip_options" where
  "getOptions T data options n =
     (let opts = options (data n (tip_defaults T)) in
      case to_delay opts of
        Delay_number k \<Rightarrow> if k = 0 then opts else opts\<lparr>to_delay := Delay_pair k k\<rparr>
      | Delay_pair a b \<Rightarrow> opts)"

text \<open>The handlers of one trigger, and of all of them, the last first.\<close>

definition trigger_handlers :: "node \<Rightarrow> nat \<Rightarrow> string \<Rightarrow> (node \<times> string \<times> tip_action \<times> nat) list" where
  "trigger_handlers n i trigger =
     (if trigger = ''click'' then [(n, ''click'', Act_toggle, i)]
      else if trigger = ''manual'' then []
      else if trigger = ''hover'' then [(n, ''mouseenter'', Act_enter, i), (n, ''mouseleave'', Act_leave, i)]
      else [(n, ''focus'', Act_enter, i), (n, ''blur'', Act_leave, i)])"

definition tip_init :: "jquery \<Rightarrow> tip_type \<Rightarrow> (node \<Rightarrow> tip_options \<Rightarrow> tip_options) \<Rightarrow> (tip_options \<Rightarrow> tip_options) \<Rightarrow> node \<Rightarrow>
    tip_page \<Rightarrow> nat \<times> tip_page" where
  "tip_init J T data options n s =
     (let opts = getOptions T data options n;
          i = length (tp_objs s);
          delegated = (to_selector opts \<noteq> []);
          w = \<lparr>tt_element = Some n, tt_options = Some opts, tt_enabled = True,
               tt_sub = (if delegated then Some (opts\<lparr>to_trigger := ''manual'', to_selector := []\<rparr>) else None),
               tt_tip = None, tt_arrow = None, tt_hover = [], tt_timeout = None\<rparr>;
          s = s\<lparr>tp_objs := tp_objs s @ [w], tp_handlers := tp_handlers s @
                 concat (map (trigger_handlers n i) (rev (split_units (CHR '' '') (to_trigger opts))))\<rparr>
      in (i, if delegated then s else tip_change (fixTitle J n) s))"

text \<open>The plugin as far as it finds or makes the object of an element.\<close>

definition tip_make :: "jquery \<Rightarrow> tip_type \<Rightarrow> (node \<Rightarrow> tip_options \<Rightarrow> tip_options) \<Rightarrow> (tip_options \<Rightarrow> tip_options) \<Rightarrow> node \<Rightarrow>
    tip_page \<Rightarrow> nat \<times> tip_page" where
  "tip_make J T data options n s = (case tp_data s n of
     Some i \<Rightarrow> (i, s)
   | None \<Rightarrow> (let (i, s) = tip_init J T data options n s in (i, s\<lparr>tp_data := (tp_data s)(n \<mapsto> i)\<rparr>)))"

section \<open>The mouse and the focus\<close>

text \<open>The options of the delegating object that differ from the defaults.\<close>

definition changed_options :: "tip_type \<Rightarrow> tip_options \<Rightarrow> tip_options \<Rightarrow> tip_options" where
  "changed_options T sub opts =
     (let df = tip_defaults T in
      \<lparr>to_animation = (if to_animation sub \<noteq> to_animation df then to_animation sub else to_animation opts),
       to_placement = (if to_placement sub \<noteq> to_placement df then to_placement sub else to_placement opts),
       to_selector = (if to_selector sub \<noteq> to_selector df then to_selector sub else to_selector opts),
       to_template = (if to_template sub \<noteq> to_template df then to_template sub else to_template opts),
       to_trigger = (if to_trigger sub \<noteq> to_trigger df then to_trigger sub else to_trigger opts),
       to_title = (if to_title sub \<noteq> to_title df then to_title sub else to_title opts),
       to_content = (if to_content sub \<noteq> to_content df then to_content sub else to_content opts),
       to_delay = (if to_delay sub \<noteq> to_delay df then to_delay sub else to_delay opts),
       to_html = (if to_html sub \<noteq> to_html df then to_html sub else to_html opts),
       to_container = (if to_container sub \<noteq> to_container df then to_container sub else to_container opts)\<rparr>)"

definition delay_show :: "tip_delay \<Rightarrow> int" where
  "delay_show delay = (case delay of Delay_number k \<Rightarrow> 0 | Delay_pair a b \<Rightarrow> a)"

definition delay_hide :: "tip_delay \<Rightarrow> int" where
  "delay_hide delay = (case delay of Delay_number k \<Rightarrow> 0 | Delay_pair a b \<Rightarrow> b)"

text \<open>\<open>i\<close> is the object whose handler runs, \<open>j\<close> that of the element at which it runs. The timer is kept by the former,
the state of the hovering by the latter.\<close>

definition tip_delayed :: "nat \<Rightarrow> nat \<Rightarrow> string \<Rightarrow> tip_page \<Rightarrow> tip_page" where
  "tip_delayed i j hover s =
     (let s = clear_timer (tt_timeout (tip_obj s i)) s;
          s = tip_update j (\<lambda>w. w\<lparr>tt_hover := hover\<rparr>) s;
          (t, s) = set_timer (Timer_hover j hover) s
      in tip_update i (\<lambda>w. w\<lparr>tt_timeout := Some t\<rparr>) s)"

definition tip_enter :: "jquery \<Rightarrow> tip_view \<Rightarrow> tip_type \<Rightarrow> (node \<Rightarrow> tip_options \<Rightarrow> tip_options) \<Rightarrow> nat \<Rightarrow> node \<Rightarrow> tip_page \<Rightarrow> tip_page js_result" where
  "tip_enter J V T data i target s =
     (let options = (case tt_sub (tip_obj s i) of None \<Rightarrow> id | Some sub \<Rightarrow> changed_options T sub);
          (j, s) = tip_make J T data options target s
      in case tt_options (tip_obj s j) of
           None \<Rightarrow> (Some TypeError, s)
         | Some opts \<Rightarrow> if delay_show (to_delay opts) = 0 then tip_show J V T j s else (None, tip_delayed i j ''in'' s))"

definition tip_leave :: "jquery \<Rightarrow> tip_type \<Rightarrow> (node \<Rightarrow> tip_options \<Rightarrow> tip_options) \<Rightarrow> nat \<Rightarrow> node \<Rightarrow> tip_page \<Rightarrow> tip_page js_result" where
  "tip_leave J T data i target s =
     (let options = (case tt_sub (tip_obj s i) of None \<Rightarrow> id | Some sub \<Rightarrow> (\<lambda>_. sub));
          (j, s) = tip_make J T data options target s;
          s = clear_timer (tt_timeout (tip_obj s i)) s
      in case tt_options (tip_obj s j) of
           None \<Rightarrow> (Some TypeError, s)
         | Some opts \<Rightarrow> if delay_hide (to_delay opts) = 0 then snd (tip_hide J j s) else (None, tip_delayed i j ''out'' s))"

definition tip_click :: "jquery \<Rightarrow> tip_view \<Rightarrow> tip_type \<Rightarrow> (node \<Rightarrow> tip_options \<Rightarrow> tip_options) \<Rightarrow> nat \<Rightarrow> node \<Rightarrow> tip_page \<Rightarrow> tip_page js_result" where
  "tip_click J V T data i target s =
     (let options = (case tt_sub (tip_obj s i) of None \<Rightarrow> id | Some sub \<Rightarrow> (\<lambda>_. sub));
          (j, s) = tip_make J T data options target s
      in tip_toggle J V T j s)"

section \<open>Events\<close>

text \<open>Methods called by name get no argument: those of the mouse and the focus throw at the event that is missing.
(\<open>constructor\<close>, \<open>init\<close>, \<open>getOptions\<close>, \<open>applyPlacement\<close> and \<open>replaceArrow\<close>, which need arguments, are not modelled here.)\<close>

definition tip_method :: "jquery \<Rightarrow> tip_view \<Rightarrow> tip_type \<Rightarrow> string \<Rightarrow> nat \<Rightarrow> tip_page \<Rightarrow> tip_page js_result" where
  "tip_method J V T name i s =
     (if name = ''show'' then tip_show J V T i s
      else if name = ''hide'' then snd (tip_hide J i s)
      else if name = ''toggle'' then tip_toggle J V T i s
      else if name = ''enable'' then (None, tip_update i (\<lambda>w. w\<lparr>tt_enabled := True\<rparr>) s)
      else if name = ''disable'' then (None, tip_update i (\<lambda>w. w\<lparr>tt_enabled := False\<rparr>) s)
      else if name = ''toggleEnabled'' then (None, tip_update i (\<lambda>w. w\<lparr>tt_enabled := \<not> tt_enabled w\<rparr>) s)
      else if name = ''validate'' then tip_validate J i s
      else if name = ''destroy'' then tip_destroy J i s
      else if name = ''tip'' then (None, snd (tip_tip J i s))
      else if name = ''arrow'' then (None, snd (tip_arrow J i s))
      else case (tt_element (tip_obj s i), tt_options (tip_obj s i)) of
        (Some n, Some opts) \<Rightarrow>
          if name \<in> {''hasContent'', ''getTitle'', ''getPosition''} then (None, s)
          else if name = ''getContent'' \<and> T = Type_popover then (None, s)
          else if name = ''fixTitle'' then (None, tip_change (fixTitle J n) s)
          else if name = ''setContent'' then
            (let (tip, s) = tip_tip J i s in (None, tip_change (setContent J V T opts tip n) s))
          else (Some TypeError, s)
      | _ \<Rightarrow> (Some TypeError, s))"

definition tip_plugin1 :: "jquery \<Rightarrow> tip_view \<Rightarrow> tip_type \<Rightarrow> (node \<Rightarrow> tip_options \<Rightarrow> tip_options) \<Rightarrow>
    (tip_options \<Rightarrow> tip_options) plugin_arg \<Rightarrow> node \<Rightarrow> tip_page \<Rightarrow> tip_page js_result" where
  "tip_plugin1 J V T data arg n s =
     (let (i, s) = tip_make J T data (case arg_object arg of None \<Rightarrow> id | Some f \<Rightarrow> f) n s
      in case arg of Arg_name name \<Rightarrow> tip_method J V T name i s | _ \<Rightarrow> (None, s))"

definition tip_plugin :: "jquery \<Rightarrow> tip_view \<Rightarrow> tip_type \<Rightarrow> (node \<Rightarrow> tip_options \<Rightarrow> tip_options) \<Rightarrow>
    (tip_options \<Rightarrow> tip_options) plugin_arg \<Rightarrow> node list \<Rightarrow> tip_page \<Rightarrow> tip_page js_result" where
  "tip_plugin J V T data arg S = jq_each (tip_plugin1 J V T data arg) S"

definition tooltip_plugin :: "jquery \<Rightarrow> tip_view \<Rightarrow> (node \<Rightarrow> tip_options \<Rightarrow> tip_options) \<Rightarrow>
    (tip_options \<Rightarrow> tip_options) plugin_arg \<Rightarrow> node list \<Rightarrow> tip_page \<Rightarrow> tip_page js_result" where
  "tooltip_plugin J V = tip_plugin J V Type_tooltip"

definition popover_plugin :: "jquery \<Rightarrow> tip_view \<Rightarrow> (node \<Rightarrow> tip_options \<Rightarrow> tip_options) \<Rightarrow>
    (tip_options \<Rightarrow> tip_options) plugin_arg \<Rightarrow> node list \<Rightarrow> tip_page \<Rightarrow> tip_page js_result" where
  "popover_plugin J V = tip_plugin J V Type_popover"

text \<open>An event of the document that reaches the handlers of an element, at the element itself or, delegated, at one below;
a timer; and the end of the transition of a tip.\<close>

datatype tip_event = Tip_call "(tip_options \<Rightarrow> tip_options) plugin_arg" "node list" | Tip_event string node node
  | Tip_timeout nat | Tip_transition_end "node list"

definition tip_handler :: "jquery \<Rightarrow> tip_view \<Rightarrow> tip_type \<Rightarrow> (node \<Rightarrow> tip_options \<Rightarrow> tip_options) \<Rightarrow> node \<Rightarrow> tip_action \<times> nat \<Rightarrow>
    tip_page \<Rightarrow> tip_page js_result" where
  "tip_handler J V T data target h = (case h of
     (Act_enter, i) \<Rightarrow> tip_enter J V T data i target
   | (Act_leave, i) \<Rightarrow> tip_leave J T data i target
   | (Act_toggle, i) \<Rightarrow> tip_click J V T data i target)"

definition tip_timeout :: "jquery \<Rightarrow> tip_view \<Rightarrow> tip_type \<Rightarrow> nat \<Rightarrow> tip_page \<Rightarrow> tip_page js_result" where
  "tip_timeout J V T t s = (case map_of (tp_timers s) t of
     None \<Rightarrow> (None, s)
   | Some (Timer_hover j hover) \<Rightarrow>
       (let s = clear_timer (Some t) s in
        if tt_hover (tip_obj s j) \<noteq> hover then (None, s)
        else if hover = ''in'' then tip_show J V T j s else snd (tip_hide J j s))
   | Some (Timer_detach tip) \<Rightarrow>
       (let s = clear_timer (Some t) s
        in (None, tip_change (jq_remove J tip) (s\<lparr>tp_waiting := filter (\<lambda>(u, _). u \<noteq> tip) (tp_waiting s)\<rparr>))))"

definition tip_transition_end :: "jquery \<Rightarrow> node list \<Rightarrow> tip_page \<Rightarrow> tip_page" where
  "tip_transition_end J tip s =
     fold (\<lambda>(u, t) s. tip_change (jq_remove J u) (clear_timer (Some t) s)) (filter (\<lambda>(u, _). u = tip) (tp_waiting s))
       (s\<lparr>tp_waiting := filter (\<lambda>(u, _). u \<noteq> tip) (tp_waiting s)\<rparr>)"

fun tip_step :: "jquery \<Rightarrow> tip_view \<Rightarrow> tip_type \<Rightarrow> (node \<Rightarrow> tip_options \<Rightarrow> tip_options) \<Rightarrow> tip_event \<Rightarrow> tip_page \<Rightarrow> tip_page js_result" where
  "tip_step J V T data (Tip_call arg S) s = tip_plugin J V T data arg S s"
| "tip_step J V T data (Tip_event ev n target) s = jq_each (tip_handler J V T data target)
     (map (\<lambda>(_, _, a, i). (a, i)) (filter (\<lambda>(m, e, _). m = n \<and> e = ev) (tp_handlers s))) s"
| "tip_step J V T data (Tip_timeout t) s = tip_timeout J V T t s"
| "tip_step J V T data (Tip_transition_end tip) s = (None, tip_transition_end J tip s)"

definition tip_run :: "jquery \<Rightarrow> tip_view \<Rightarrow> tip_type \<Rightarrow> (node \<Rightarrow> tip_options \<Rightarrow> tip_options) \<Rightarrow> tip_event list \<Rightarrow> tip_page \<Rightarrow> tip_page" where
  "tip_run J V T data es s = foldl (\<lambda>s e. snd (tip_step J V T data e s)) s es"

end
