(* ===== verification/Tooltip_Behaviour.thy ===== *)
theory Tooltip_Behaviour
  imports Tooltip
begin

text \<open>What tooltips and popovers do: where the tip is put and where its arrow points, what a call shows, and objects that
outlive their element.\<close>

section \<open>Facts\<close>

lemma tip_update_simps [simp]:
  "tp_dom (tip_update i f s) = tp_dom s" "tp_data (tip_update i f s) = tp_data s" "tp_handlers (tip_update i f s) = tp_handlers s"
  "tp_timers (tip_update i f s) = tp_timers s" "tp_offset (tip_update i f s) = tp_offset s"
  "tp_arrow_css (tip_update i f s) = tp_arrow_css s" "tp_waiting (tip_update i f s) = tp_waiting s" "tp_next (tip_update i f s) = tp_next s"
  "length (tp_objs (tip_update i f s)) = length (tp_objs s)"
  "i < length (tp_objs s) \<Longrightarrow> tip_obj (tip_update i f s) i = f (tip_obj s i)"
  "i \<noteq> j \<Longrightarrow> tip_obj (tip_update i f s) j = tip_obj s j"
  by (simp_all add: tip_update_def tip_obj_def)

lemma tip_change_simps [simp]:
  "tp_dom (tip_change g s) = g (tp_dom s)" "tp_data (tip_change g s) = tp_data s" "tp_handlers (tip_change g s) = tp_handlers s"
  "tp_timers (tip_change g s) = tp_timers s" "tp_offset (tip_change g s) = tp_offset s" "tp_objs (tip_change g s) = tp_objs s"
  "tp_arrow_css (tip_change g s) = tp_arrow_css s" "tp_waiting (tip_change g s) = tp_waiting s" "tp_next (tip_change g s) = tp_next s"
  "tip_obj (tip_change g s) i = tip_obj s i"
  by (simp_all add: tip_change_def tip_obj_def)

lemma set_offset_simps [simp]:
  "tp_dom (set_offset tip q s) = tp_dom s" "tp_data (set_offset tip q s) = tp_data s" "tp_handlers (set_offset tip q s) = tp_handlers s"
  "tp_timers (set_offset tip q s) = tp_timers s" "tp_objs (set_offset tip q s) = tp_objs s" "tip_obj (set_offset tip q s) i = tip_obj s i"
  "tp_arrow_css (set_offset tip q s) = tp_arrow_css s"
  "tp_offset (set_offset tip (Some z) s) = upd_nodes tip (\<lambda>_. Some z) (tp_offset s)"
  by (simp_all add: set_offset_def tip_obj_def split: option.split)

lemma tip_obj_fields [simp]:
  "tip_obj (s\<lparr>tp_dom := d\<rparr>) i = tip_obj s i" "tip_obj (s\<lparr>tp_offset := g\<rparr>) i = tip_obj s i" "tip_obj (s\<lparr>tp_arrow_css := h\<rparr>) i = tip_obj s i"
  "tip_obj (s\<lparr>tp_timers := ts\<rparr>) i = tip_obj s i" "tip_obj (s\<lparr>tp_next := k\<rparr>) i = tip_obj s i"
  by (simp_all add: tip_obj_def)

lemma tip_tip_known [simp]: "tt_tip (tip_obj s i) = Some tip \<Longrightarrow> tip_tip J i s = (tip, s)"
  by (simp add: tip_tip_def)

text \<open>What changes no object but \<open>i\<close>, no timer and no handler.\<close>

definition only_object :: "nat \<Rightarrow> tip_page \<Rightarrow> tip_page \<Rightarrow> bool" where
  "only_object i s u \<longleftrightarrow> tp_handlers u = tp_handlers s \<and> tp_timers u = tp_timers s \<and> tp_waiting u = tp_waiting s \<and>
     length (tp_objs u) = length (tp_objs s) \<and> (\<forall>j. j \<noteq> i \<longrightarrow> tip_obj u j = tip_obj s j)"

lemma only_object_refl: "only_object i s s"
  by (simp add: only_object_def)

lemma only_object_trans: "only_object i s t \<Longrightarrow> only_object i t u \<Longrightarrow> only_object i s u"
  by (simp add: only_object_def)

lemma replaceArrow_keeps [simp]:
  assumes "tt_tip (tip_obj s i) = Some tip"
  shows "tp_dom (replaceArrow J i delta dm pos s) = tp_dom s" "tp_data (replaceArrow J i delta dm pos s) = tp_data s"
    "tp_offset (replaceArrow J i delta dm pos s) = tp_offset s" "only_object i s (replaceArrow J i delta dm pos s)"
  using assms by (simp_all add: replaceArrow_def tip_arrow_def Let_def only_object_def split: option.split)

lemma only_object_set_offset [simp]: "only_object i s (set_offset tip q u) = only_object i s u"
  by (simp add: only_object_def set_offset_def tip_obj_def split: option.split)

lemma applyPlacement_page:
  assumes "tt_tip (tip_obj s i) = Some tip"
  shows "tp_dom (applyPlacement J V i offset placement s) = jq_addClass J tip ''in'' (jq_addClass J tip placement (tp_dom s))"
    "tp_data (applyPlacement J V i offset placement s) = tp_data s" "only_object i s (applyPlacement J V i offset placement s)"
proof -
  define x where "x = tip_change (\<lambda>d. jq_addClass J tip ''in'' (jq_addClass J tip placement d)) (set_offset tip offset s)"
  have x: "tt_tip (tip_obj x i) = Some tip" "tp_dom x = jq_addClass J tip ''in'' (jq_addClass J tip placement (tp_dom s))" "tp_data x = tp_data s"
    using assms by (simp_all add: x_def)
  have sx: "only_object i s x" by (simp add: x_def tip_change_def set_offset_def only_object_def tip_obj_def split: option.split)
  have r: "only_object i s (replaceArrow J i delta dm pos (if b then set_offset tip q x else x))" for delta dm pos b q
  proof -
    let ?y = "if b then set_offset tip q x else x"
    have "only_object i x ?y" "tt_tip (tip_obj ?y i) = Some tip" using x(1) by (simp_all add: only_object_refl)
    then show ?thesis by (intro only_object_trans [OF sx only_object_trans [OF _ replaceArrow_keeps(4)]])
  qed
  obtain w h where sz: "tip_size V tip s = (w, h)" by (cases "tip_size V tip s")
  obtain aw ah where sx: "tip_size V tip x = (aw, ah)" by (cases "tip_size V tip x")
  show "tp_dom (applyPlacement J V i offset placement s) = jq_addClass J tip ''in'' (jq_addClass J tip placement (tp_dom s))"
    "tp_data (applyPlacement J V i offset placement s) = tp_data s" "only_object i s (applyPlacement J V i offset placement s)"
    unfolding applyPlacement_def tip_tip_known [OF assms] Let_def prod.case sz x_def [symmetric] sx
    using x r [of _ _ _ True] r [of _ _ _ False] by (simp_all add: split_beta)
qed

section \<open>The arrow\<close>

text \<open>A tip above or below its element, which keeps its size wherever it is put: it is moved into the page when it would begin
left of it, and its arrow, at the percentage of the width that the property says or else in the middle, points at the middle of
the element all the same.\<close>

theorem tooltip_arrow_points:
  assumes "jquery_ok J" and V: "\<And>d g. tv_size V d g [m] = (w, h)" "w > 0"
    and tip: "tt_tip (tip_obj s i) = Some [m]" "tt_arrow (tip_obj s i) = Some [a]"
    and placement: "placement \<in> {''top'', ''bottom''}"
  shows "let u = applyPlacement J V i (tip_target placement (y, x, width, height) (w, h)) placement s in
    \<exists>l. tp_offset u m = Some (if placement = ''top'' then y - h else y + height, l) \<and> l \<ge> 0 \<and>
      l + w * (case tp_arrow_css u a ''left'' of None \<Rightarrow> 50 | Some c \<Rightarrow> c) / 100 = x + width / 2"
proof -
  let ?l = "x + width / 2 - w / 2"
  let ?t = "if placement = ''top'' then y - h else y + height"
  have t: "tip_target placement (y, x, width, height) (w, h) = Some (?t, ?l)"
    using placement by (auto simp: tip_target_def)
  have size: "tip_size V [m] z = (w, h)" for z by (simp add: tip_size_def V(1))
  define u where "u = applyPlacement J V i (Some (?t, ?l)) placement s"
  have "tp_offset u m = Some (?t, if ?l < 0 then 0 else ?l) \<and>
      tp_arrow_css u a ''left'' = (if ?l < 0 then Some (50 * (1 - (?l * -2) / w)) else None)"
    using placement V(2) tip
    by (auto simp: u_def applyPlacement_def Let_def size replaceArrow_def tip_arrow_def upd_nodes_def)
  then show ?thesis unfolding t u_def [symmetric] Let_def using V(2)
    by (intro exI [of _ "if ?l < 0 then 0 else ?l"]) (simp add: field_simps)
qed

text \<open>A browser, and an element 1 of a body 0 with its tip 2 and the arrow 3 of the tip.\<close>

definition example_layout :: tip_view where
  "example_layout = \<lparr>tv_position = (\<lambda>_ _. (100, 10, 20, 10)), tv_size = (\<lambda>_ _ _. (80, 30)), tv_append = (\<lambda>_ _ d. d), tv_text = (\<lambda>_ _ d. d)\<rparr>"

definition example_tip :: tip_page where
  "example_tip = \<lparr>tp_objs = [\<lparr>tt_element = Some 1, tt_options = Some (tooltip_defaults\<lparr>to_title := Text ''Hi'', to_delay := Delay_pair 500 100\<rparr>),
       tt_enabled = True, tt_sub = None, tt_tip = Some [2], tt_arrow = Some [3], tt_hover = [], tt_timeout = None\<rparr>],
     tp_data = [1 \<mapsto> 0], tp_handlers = [(1, ''mouseenter'', Act_enter, 0), (1, ''mouseleave'', Act_leave, 0)], tp_timers = [], tp_next = 0,
     tp_waiting = [], tp_offset = (\<lambda>_. None), tp_arrow_css = (\<lambda>_ _. None),
     tp_dom = empty_dom\<lparr>fresh_node := 4, kids := (\<lambda>n. if n = 0 then [1] else if n = 2 then [3] else []), parent_of := [1 \<mapsto> 0, 3 \<mapsto> 2]\<rparr>\<rparr>"

theorem tooltip_arrow_points_witness:
  "let u = applyPlacement (jquery_instance None (\<lambda>_ _ _. False)) example_layout 0 (tip_target ''bottom'' (100, 10, 20, 10) (80, 30)) ''bottom'' example_tip in
     \<exists>l. tp_offset u 2 = Some (110, l) \<and> l \<ge> 0 \<and> l + 80 * (case tp_arrow_css u 3 ''left'' of None \<Rightarrow> 50 | Some c \<Rightarrow> c) / 100 = 20"
  using tooltip_arrow_points [OF jquery_instance_ok, where V = example_layout and m = 2 and a = 3 and w = 80 and h = 30 and s = example_tip
      and i = 0 and placement = "''bottom''" and y = 100 and x = 10 and width = 20 and height = 10]
  by (simp add: example_layout_def example_tip_def tip_obj_def)

section \<open>Showing\<close>

text \<open>Setting a text changes the content of elements.\<close>

definition text_ok :: "tip_view \<Rightarrow> bool" where
  "text_ok V \<longleftrightarrow> (\<forall>S t d. \<exists>h. tv_text V S t d = d\<lparr>html_of := h\<rparr>)"

lemma tip_fill_page:
  assumes "jquery_ok J" "text_ok V"
  shows "\<exists>h. tip_fill J V b S t d = d\<lparr>html_of := h\<rparr>"
proof (cases t)
  case None
  then show ?thesis by (intro exI [of _ "html_of d"]) (cases d, simp add: tip_fill_def)
next
  case (Some x)
  then show ?thesis using assms by (cases b) (auto simp: tip_fill_def jq_updates text_ok_def)
qed

lemma setContent_page:
  assumes "jquery_ok J" "text_ok V"
  shows "\<exists>h. setContent J V T opts tip n d = dom_removeClass tip (case T of Type_tooltip \<Rightarrow> ''fade in top bottom left right''
     | Type_popover \<Rightarrow> ''fade top bottom left right in'') (d\<lparr>html_of := h\<rparr>)"
proof (cases T)
  case Type_tooltip
  obtain h where "tip_fill J V (to_html opts) (jq_find J d tip ''.tooltip-inner'') (Some (getTitle J opts d n)) d = d\<lparr>html_of := h\<rparr>"
    using tip_fill_page [OF assms] by blast
  then show ?thesis using assms(1) Type_tooltip by (auto simp: setContent_def jq_updates)
next
  case Type_popover
  obtain g where g: "tip_fill J V (to_html opts) (jq_find J d tip ''.popover-title'') (Some (getTitle J opts d n)) d = d\<lparr>html_of := g\<rparr>"
    using tip_fill_page [OF assms] by blast
  obtain h where "tip_fill J V (to_html opts) (jq_find J (d\<lparr>html_of := g\<rparr>) tip ''.popover-content'') (getContent J opts d n) (d\<lparr>html_of := g\<rparr>) =
      d\<lparr>html_of := g\<rparr>\<lparr>html_of := h\<rparr>"
    using tip_fill_page [OF assms] by blast
  then have "setContent J V T opts tip n d = dom_removeClass tip ''fade top bottom left right in'' (d\<lparr>html_of := h\<rparr>)"
    using assms(1) Type_popover g by (simp add: setContent_def popover_setContent_def jq_updates Let_def)
  then show ?thesis using Type_popover by auto
qed

text \<open>A tip shown is behind its element, in view.\<close>

lemma tip_show_page:
  assumes J: "jquery_ok J" "quiet J" "permissive J" and V: "text_ok V"
    and w: "tt_element (tip_obj s i) = Some n" "tt_options (tip_obj s i) = Some opts" "tt_enabled (tip_obj s i)" "tt_tip (tip_obj s i) = Some [m]"
    and c: "hasContent J T opts (tp_dom s) n" "to_container opts = []" "parent_of (tp_dom s) n = Some p" "n \<noteq> m"
  shows "\<exists>u. tip_show J V T i s = (None, u) \<and> tp_data u = tp_data s \<and> ''in'' \<in> classes (tp_dom u) m \<and>
    (\<forall>k. k \<noteq> m \<longrightarrow> classes (tp_dom u) k = classes (tp_dom s) k) \<and> parent_of (tp_dom u) = (parent_of (tp_dom s))(m \<mapsto> p) \<and>
    attrs (tp_dom u) = attrs (tp_dom s) \<and> fresh_node (tp_dom u) = fresh_node (tp_dom s) \<and> only_object i s u"
proof -
  let ?d = "tp_dom s"
  have trig: "tip_trigger J ev k z = (False, z)" for ev k z
    by (cases z) (simp add: tip_trigger_def permissive_trigger [OF J(3,2)])
  obtain h C where h: "setContent J V T opts [m] n ?d = dom_removeClass [m] C (?d\<lparr>html_of := h\<rparr>)"
    using setContent_page [OF J(1) V, of T opts "[m]" n ?d] by metis
  define e1 where "e1 = (if to_animation opts then dom_addClass [m] ''fade'' (dom_removeClass [m] C (?d\<lparr>html_of := h\<rparr>))
    else dom_removeClass [m] C (?d\<lparr>html_of := h\<rparr>))"
  define e2 where "e2 = (\<lambda>d. d\<lparr>css_of := upd_nodes [m] (\<lambda>f. f(''display'' := Css ''block'')) (css_of d)\<rparr>)
    ((\<lambda>d. d\<lparr>css_of := upd_nodes [m] (\<lambda>f. f(''left'' := Px 0)) (css_of d)\<rparr>)
     ((\<lambda>d. d\<lparr>css_of := upd_nodes [m] (\<lambda>f. f(''top'' := Px 0)) (css_of d)\<rparr>) (dom_detach [m] e1)))"
  have e1: "classes e1 k = classes ?d k" if "k \<noteq> m" for k using that by (simp add: e1_def)
  have e1': "parent_of e1 = parent_of ?d" "attrs e1 = attrs ?d" by (simp_all add: e1_def)
  have e2: "parent_of e2 n = Some p" using c(3,4) e1' by (simp add: e2_def dom_detach_def upd_nodes_def)
  define s2 where "s2 = tip_change (jq_insertAfter J [m] [n]) ((tip_change (\<lambda>_. e2) s)\<lparr>tp_offset := upd_nodes [m] (\<lambda>_. None) (tp_offset s)\<rparr>)"
  have s2: "tt_tip (tip_obj s2 i) = Some [m]" "tp_data s2 = tp_data s" "tp_dom s2 = dom_insertAfter [m] n p e2" "only_object i s s2"
    using w(4) c(4) e2 J(1) by (simp_all add: s2_def jq_updates only_object_def)
  define u where "u = applyPlacement J V i (tip_target (text_of (to_placement opts) e1 n) (tv_position V (tp_dom s2) n) (tip_size V [m] s2))
    (text_of (to_placement opts) e1 n) s2"
  have uo: "only_object i s u" using only_object_trans [OF s2(4) applyPlacement_page(3) [OF s2(1)]] by (simp add: u_def)
  have u: "tp_data u = tp_data s" "tp_dom u = dom_addClass [m] ''in'' (dom_addClass [m] (text_of (to_placement opts) e1 n) (dom_insertAfter [m] n p e2))"
    using applyPlacement_page [OF s2(1)] J(1) s2(2,3) by (simp_all add: u_def jq_updates)
  define z where "z = (if to_animation opts then tip_change (jq_addClass J [m] ''fade'') (tip_change (setContent J V T opts [m] n) s)
       else tip_change (setContent J V T opts [m] n) s)"
  have zd: "tp_dom z = e1" using J(1) by (simp add: z_def h jq_updates e1_def)
  have zo: "tp_offset z = tp_offset s" by (simp add: z_def)
  have zf: "jq_css J [m] ''display'' (Css ''block'') (jq_css J [m] ''left'' (Px 0) (jq_css J [m] ''top'' (Px 0) (jq_remove J [m] e1))) = e2"
    using J(1) by (simp add: jq_updates e2_def)
  have zc: "tip_change f z = s\<lparr>tp_dom := f e1\<rparr>" for f using zd by (simp add: z_def tip_change_def)
  have zs: "tip_change (\<lambda>d. jq_css J [m] ''display'' (Css ''block'') (jq_css J [m] ''left'' (Px 0) (jq_css J [m] ''top'' (Px 0) (jq_remove J [m] d)))) z =
      tip_change (\<lambda>_. e2) s"
    unfolding zc zf by (simp add: tip_change_def)
  have "tip_show J V T i s = (None, u)"
    using w c(1,2) unfolding tip_show_def
    by (simp only: option.case prod.case trig Let_def if_False if_True simp_thms tip_tip_known z_def [symmetric] zd zs tip_change_simps(5) zo s2_def [symmetric] u_def [symmetric] snd_conv)
  moreover have "classes (tp_dom u) k = classes ?d k" if "k \<noteq> m" for k
    using that e1 by (simp add: u dom_insertAfter_def e2_def dom_detach_def Let_def)
  moreover have "parent_of (tp_dom u) = (parent_of ?d)(m \<mapsto> p)" "attrs (tp_dom u) = attrs ?d" "''in'' \<in> classes (tp_dom u) m"
    using e1' by (auto simp: u dom_insertAfter_def e2_def dom_detach_def Let_def upd_nodes_def fun_eq_iff)
  moreover have "fresh_node (tp_dom u) = fresh_node ?d" by (simp add: u dom_insertAfter_def e2_def dom_detach_def Let_def e1_def)
  ultimately show ?thesis using u(1) uo by blast
qed

section \<open>Destroying\<close>

lemma tip_delayed_page:
  assumes "i < length (tp_objs s)"
  shows "tip_obj (tip_delayed i i hover s) i = (tip_obj s i)\<lparr>tt_hover := hover, tt_timeout := Some (tp_next s)\<rparr>"
    "tp_data (tip_delayed i i hover s) = tp_data s" "tp_handlers (tip_delayed i i hover s) = tp_handlers s"
    "tp_dom (tip_delayed i i hover s) = tp_dom s"
    "tp_timers s = [] \<Longrightarrow> tp_timers (tip_delayed i i hover s) = [(tp_next s, Timer_hover i hover)]"
    "tp_waiting (tip_delayed i i hover s) = tp_waiting s" "length (tp_objs (tip_delayed i i hover s)) = length (tp_objs s)"
    "j \<noteq> i \<Longrightarrow> tip_obj (tip_delayed i i hover s) j = tip_obj s j"
proof -
  have c: "tip_obj (clear_timer t s) i = tip_obj s i" "length (tp_objs (clear_timer t s)) = length (tp_objs s)" "tp_next (clear_timer t s) = tp_next s"
      "tp_data (clear_timer t s) = tp_data s" "tp_handlers (clear_timer t s) = tp_handlers s" "tp_dom (clear_timer t s) = tp_dom s"
      "tp_timers s = [] \<Longrightarrow> tp_timers (clear_timer t s) = []" "tp_waiting (clear_timer t s) = tp_waiting s"
      "tip_obj (clear_timer t s) j = tip_obj s j" for t j
    by (simp_all add: clear_timer_def split: option.split)
  show "tip_obj (tip_delayed i i hover s) i = (tip_obj s i)\<lparr>tt_hover := hover, tt_timeout := Some (tp_next s)\<rparr>"
    "tp_data (tip_delayed i i hover s) = tp_data s" "tp_handlers (tip_delayed i i hover s) = tp_handlers s"
    "tp_dom (tip_delayed i i hover s) = tp_dom s"
    "tp_timers s = [] \<Longrightarrow> tp_timers (tip_delayed i i hover s) = [(tp_next s, Timer_hover i hover)]"
    "tp_waiting (tip_delayed i i hover s) = tp_waiting s" "length (tp_objs (tip_delayed i i hover s)) = length (tp_objs s)"
    "j \<noteq> i \<Longrightarrow> tip_obj (tip_delayed i i hover s) j = tip_obj s j"
    using assms by (simp_all add: tip_delayed_def set_timer_def Let_def c)
qed

text \<open>Making the tip before the delay begins or after it makes no difference.\<close>

lemma tip_tip_obj:
  assumes "tip_tip J i s = (tip, z)" "i < length (tp_objs s)"
  shows "tip_obj z i = (tip_obj s i)\<lparr>tt_tip := Some tip\<rparr>" "tip_tip J i z = (tip, z)"
    "tp_data z = tp_data s" "tp_handlers z = tp_handlers s" "tp_timers z = tp_timers s" "tp_next z = tp_next s" "length (tp_objs z) = length (tp_objs s)"
proof -
  have c: "tip_obj z i = (tip_obj s i)\<lparr>tt_tip := Some tip\<rparr> \<and> tp_data z = tp_data s \<and> tp_handlers z = tp_handlers s \<and> tp_timers z = tp_timers s \<and>
      tp_next z = tp_next s \<and> length (tp_objs z) = length (tp_objs s)"
    using assms by (cases "tt_tip (tip_obj s i)") (auto simp: tip_tip_def split_beta Let_def)
  then show "tip_obj z i = (tip_obj s i)\<lparr>tt_tip := Some tip\<rparr>" "tp_data z = tp_data s" "tp_handlers z = tp_handlers s" "tp_timers z = tp_timers s"
      "tp_next z = tp_next s" "length (tp_objs z) = length (tp_objs s)" by simp_all
  then show "tip_tip J i z = (tip, z)" by simp
qed

lemma tip_tip_delayed:
  assumes "tip_tip J i s = (tip, z)" "i < length (tp_objs s)"
  shows "tip_tip J i (tip_delayed i i hover s) = (tip, tip_delayed i i hover z)"
proof (cases "tt_tip (tip_obj s i)")
  case None
  let ?f = "\<lambda>w. w\<lparr>tt_tip := Some tip\<rparr>"
  let ?c = "jq_create J (case tt_options (tip_obj s i) of None \<Rightarrow> [] | Some opts \<Rightarrow> to_template opts) (tp_dom s)"
  define d where "d = snd ?c"
  have "tip = fst ?c \<and> z = tip_update i (\<lambda>w. w\<lparr>tt_tip := Some (fst ?c)\<rparr>) (s\<lparr>tp_dom := snd ?c\<rparr>)"
    using assms(1) unfolding tip_tip_def None option.case Let_def split_beta by (simp only: prod.inject) metis
  then have z: "?c = (tip, d)" "z = tip_update i ?f (s\<lparr>tp_dom := d\<rparr>)" by (simp_all add: d_def)
  have "tip_delayed i i hover (tip_update i ?f (s\<lparr>tp_dom := d\<rparr>)) = tip_update i ?f ((tip_delayed i i hover s)\<lparr>tp_dom := d\<rparr>)"
  proof -
    have c: "clear_timer t (tip_update i ?f (x\<lparr>tp_dom := d\<rparr>)) = tip_update i ?f ((clear_timer t x)\<lparr>tp_dom := d\<rparr>)" for t x
      by (simp add: clear_timer_def tip_update_def tip_obj_def split: option.split)
    have u: "tip_update i g (tip_update i ?f (x\<lparr>tp_dom := d\<rparr>)) = tip_update i ?f ((tip_update i g x)\<lparr>tp_dom := d\<rparr>)"
      if "\<And>w. g (?f w) = ?f (g w)" "i < length (tp_objs x)" for g x
      using that by (simp add: tip_update_def tip_obj_def)
    have s: "set_timer x (tip_update i ?f (y\<lparr>tp_dom := d\<rparr>)) = (fst (set_timer x y), tip_update i ?f ((snd (set_timer x y))\<lparr>tp_dom := d\<rparr>))" for x y
      by (simp add: set_timer_def tip_update_def tip_obj_def)
    have l: "length (tp_objs (clear_timer t x)) = length (tp_objs x)" "length (tp_objs (snd (set_timer y x))) = length (tp_objs x)" for t x y
      by (simp_all add: clear_timer_def set_timer_def split: option.split)
    have o: "tt_timeout (tip_obj (tip_update i ?f (s\<lparr>tp_dom := d\<rparr>)) i) = tt_timeout (tip_obj s i)" using assms(2) by simp
    show ?thesis unfolding tip_delayed_def Let_def o c split_beta
      by (simp add: u [of "\<lambda>w. w\<lparr>tt_hover := hover\<rparr>"] u [of "\<lambda>w. w\<lparr>tt_timeout := k\<rparr>" for k] s l assms(2))
  qed
  moreover have "tt_tip (tip_obj (tip_delayed i i hover s) i) = None" "tt_options (tip_obj (tip_delayed i i hover s) i) = tt_options (tip_obj s i)"
      "tp_dom (tip_delayed i i hover s) = tp_dom s"
    using None tip_delayed_page(1,4) [OF assms(2), of hover] by simp_all
  ultimately show ?thesis using z by (simp add: tip_tip_def)
next
  case (Some t)
  then have "tip_tip J i (tip_delayed i i hover s) = (t, tip_delayed i i hover s)"
    using tip_delayed_page(1) [OF assms(2), of hover] by (simp add: tip_tip_def)
  then show ?thesis using assms(1) Some by simp
qed

lemma tip_destroy_eq:
  assumes J: "jquery_ok J" "quiet J" "permissive J" and f: "\<not> has_transition J \<or> ''fade'' \<notin> classes (tp_dom z) m"
    and t: "tip_tip J i s = ([m], z)" "tt_element (tip_obj z i) = Some n"
  shows "tip_destroy J i s = (None, z\<lparr>tp_dom := dom_detach [m] (dom_removeClass [m] ''in'' (tp_dom z)),
     tp_handlers := filter (\<lambda>(k, _). k \<noteq> n) (tp_handlers z), tp_data := (tp_data z)(n := None)\<rparr>)"
proof -
  have "tip_trigger J ev k z = (False, z)" for ev k z
    by (cases z) (simp add: tip_trigger_def permissive_trigger [OF J(3,2)])
  then have "tip_hide J i s = (True, None, z\<lparr>tp_dom := dom_detach [m] (dom_removeClass [m] ''in'' (tp_dom z))\<rparr>)"
    using J f t by (auto simp: tip_hide_def Let_def jq_updates tip_change_def)
  then show ?thesis using t(2) by (simp add: tip_destroy_def)
qed

section \<open>Out of reach\<close>

text \<open>What jQuery and the browser do with elements that are made, put into the page or appended: the others stay where and as they are.\<close>

definition moves_only :: "jquery \<Rightarrow> tip_view \<Rightarrow> bool" where
  "moves_only J V \<longleftrightarrow> (\<forall>d k. k < fresh_node d \<longrightarrow>
     (\<forall>markup. k < fresh_node (snd (jq_create J markup d)) \<and> k \<notin> set (fst (jq_create J markup d)) \<and>
        classes (snd (jq_create J markup d)) k = classes d k \<and> parent_of (snd (jq_create J markup d)) k = parent_of d k) \<and>
     (\<forall>S T. k \<notin> set S \<longrightarrow> k < fresh_node (jq_insertAfter J S T d) \<and>
        classes (jq_insertAfter J S T d) k = classes d k \<and> parent_of (jq_insertAfter J S T d) k = parent_of d k) \<and>
     (\<forall>c S. k \<notin> set S \<longrightarrow> k < fresh_node (tv_append V c S d) \<and>
        classes (tv_append V c S d) k = classes d k \<and> parent_of (tv_append V c S d) k = parent_of d k))"

text \<open>The object \<open>i\<close> with its tip \<open>m\<close>: nothing but the element \<open>n\<close> leads to it, neither its entry nor its handlers, and no other object, nor an animation
that has not ended, has its tip.\<close>

definition only_at :: "node option \<Rightarrow> nat \<Rightarrow> node \<Rightarrow> tip_page \<Rightarrow> bool" where
  "only_at n i m s \<longleftrightarrow> m < fresh_node (tp_dom s) \<and>
     (\<forall>j < length (tp_objs s). j \<noteq> i \<longrightarrow> (\<forall>t. tt_tip (tip_obj s j) = Some t \<longrightarrow> m \<notin> set t)) \<and>
     (\<forall>k j. tp_data s k = Some j \<longrightarrow> j < length (tp_objs s) \<and> (j = i \<longrightarrow> Some k = n)) \<and>
     (\<forall>(k, ev, act, j) \<in> set (tp_handlers s). j < length (tp_objs s) \<and> (j = i \<longrightarrow> Some k = n)) \<and>
     (\<forall>(t, k) \<in> set (tp_waiting s). m \<notin> set t)"

fun timer_spares :: "nat \<Rightarrow> node \<Rightarrow> nat \<Rightarrow> tip_timer \<Rightarrow> bool" where
  "timer_spares i m l (Timer_hover j h) \<longleftrightarrow> j \<noteq> i \<and> j < l"
| "timer_spares i m l (Timer_detach t) \<longleftrightarrow> m \<notin> set t"

definition timers_spare :: "nat \<Rightarrow> node \<Rightarrow> tip_page \<Rightarrow> bool" where
  "timers_spare i m s \<longleftrightarrow> (\<forall>(k, x) \<in> set (tp_timers s). timer_spares i m (length (tp_objs s)) x)"

definition shown_at :: "node \<Rightarrow> node \<Rightarrow> dom \<Rightarrow> bool" where
  "shown_at m p d \<longleftrightarrow> ''in'' \<in> classes d m \<and> parent_of d m = Some p"

text \<open>The tip stays: it is shown, and nothing leads to it; there are \<open>L\<close> objects or more. \<open>beside\<close>: and another object.\<close>

definition stays :: "nat \<Rightarrow> node \<Rightarrow> node \<Rightarrow> nat \<Rightarrow> tip_page \<Rightarrow> bool" where
  "stays i m p L s \<longleftrightarrow> i < length (tp_objs s) \<and> L \<le> length (tp_objs s) \<and> only_at None i m s \<and> timers_spare i m s \<and> shown_at m p (tp_dom s)"

definition beside :: "nat \<Rightarrow> node \<Rightarrow> node \<Rightarrow> nat \<Rightarrow> nat \<Rightarrow> tip_page \<Rightarrow> bool" where
  "beside i m p L j s \<longleftrightarrow> stays i m p L s \<and> j \<noteq> i \<and> j < length (tp_objs s)"

definition spares :: "node \<Rightarrow> (dom \<Rightarrow> dom) \<Rightarrow> bool" where
  "spares m f \<longleftrightarrow> (\<forall>d. m < fresh_node d \<longrightarrow> m < fresh_node (f d) \<and> classes (f d) m = classes d m \<and> parent_of (f d) m = parent_of d m)"

lemma spares_id: "spares m (\<lambda>d. d)"
  by (simp add: spares_def)

lemma spares_comp: "spares m f \<Longrightarrow> spares m g \<Longrightarrow> spares m (\<lambda>d. f (g d))"
  by (simp add: spares_def)

lemma spares_jquery:
  assumes "jquery_ok J" "m \<notin> set S"
  shows "spares m (jq_addClass J S c)" "spares m (jq_removeClass J S c)" "spares m (jq_remove J S)" "spares m (jq_css J S cp v)"
  using assms by (simp_all add: spares_def jq_updates dom_detach_def upd_nodes_def)

lemma spares_moves:
  assumes "moves_only J V" "m \<notin> set S"
  shows "spares m (jq_insertAfter J S T)" "spares m (tv_append V c S)"
  using assms by (simp_all add: spares_def moves_only_def)

lemma spares_fixTitle: "jquery_ok J \<Longrightarrow> spares m (fixTitle J n)"
  by (simp add: spares_def fixTitle_def Let_def jq_updates)

lemma spares_setContent:
  assumes "jquery_ok J" "text_ok V" "m \<notin> set tip"
  shows "spares m (setContent J V T opts tip n)"
  unfolding spares_def
proof (intro allI impI)
  fix d :: dom
  assume "m < fresh_node d"
  moreover obtain h C where "setContent J V T opts tip n d = dom_removeClass tip C (d\<lparr>html_of := h\<rparr>)"
    using setContent_page [OF assms(1,2), of T opts tip n d] by metis
  ultimately show "m < fresh_node (setContent J V T opts tip n d) \<and> classes (setContent J V T opts tip n d) m = classes d m \<and>
      parent_of (setContent J V T opts tip n d) m = parent_of d m"
    using assms(3) by simp
qed

lemmas beside_defs = beside_def stays_def only_at_def timers_spare_def shown_at_def

text \<open>The updates of the page and of other objects.\<close>

lemma beside_change: "spares m f \<Longrightarrow> beside i m p L j s \<Longrightarrow> beside i m p L j (tip_change f s)"
  by (simp add: beside_defs spares_def tip_change_def tip_obj_def)

lemma stays_change: "spares m f \<Longrightarrow> stays i m p L s \<Longrightarrow> stays i m p L (tip_change f s)"
  by (simp add: beside_defs spares_def tip_change_def tip_obj_def)

lemma beside_fields [simp]:
  "beside i m p L j (s\<lparr>tp_offset := g\<rparr>) = beside i m p L j s" "beside i m p L j (s\<lparr>tp_arrow_css := h\<rparr>) = beside i m p L j s"
  "beside i m p L j (set_offset tip q s) = beside i m p L j s"
  by (simp_all add: beside_defs tip_obj_def set_offset_def split: option.split)

lemma beside_update:
  assumes "beside i m p L j s" "k \<noteq> i" "\<And>t. tt_tip (f (tip_obj s k)) = Some t \<Longrightarrow> tt_tip (tip_obj s k) = Some t \<or> m \<notin> set t"
  shows "beside i m p L j (tip_update k f s)"
proof -
  have "m \<notin> set t" if "l < length (tp_objs s)" "l \<noteq> i" "tt_tip (tip_obj (tip_update k f s) l) = Some t" for l t
    using assms that by (cases "l = k") (auto simp: beside_defs)
  then show ?thesis using assms(1) by (simp add: beside_defs)
qed

lemma trigger_quiet: "quiet J \<Longrightarrow> tip_trigger J ev n s = (fst (jq_trigger J ev [n] (tp_dom s)), s)"
  by (simp add: tip_trigger_def split_beta)

lemma beside_clear: "beside i m p L j s \<Longrightarrow> beside i m p L j (clear_timer t s)"
  by (auto simp: beside_defs clear_timer_def tip_obj_def split: option.split)

lemma beside_set_timer:
  assumes "beside i m p L j s" "timer_spares i m (length (tp_objs s)) x"
  shows "beside i m p L j (snd (set_timer x s))"
  using assms by (simp add: beside_defs set_timer_def tip_obj_def)

lemma beside_tip:
  assumes "moves_only J V" "beside i m p L j s" "tip_tip J j s = (tip, z)"
  shows "beside i m p L j z \<and> m \<notin> set tip \<and> tt_tip (tip_obj z j) = Some tip"
proof (cases "tt_tip (tip_obj s j)")
  case None
  let ?c = "jq_create J (case tt_options (tip_obj s j) of None \<Rightarrow> [] | Some opts \<Rightarrow> to_template opts) (tp_dom s)"
  have z: "z = tip_update j (\<lambda>w. w\<lparr>tt_tip := Some (fst ?c)\<rparr>) (s\<lparr>tp_dom := snd ?c\<rparr>)" "tip = fst ?c"
    using assms(3) None by (auto simp: tip_tip_def split_beta Let_def)
  have "m < fresh_node (tp_dom s)" using assms(2) by (simp add: beside_defs)
  then have c: "m < fresh_node (snd ?c)" "m \<notin> set (fst ?c)" "classes (snd ?c) m = classes (tp_dom s) m" "parent_of (snd ?c) m = parent_of (tp_dom s) m"
    using assms(1) by (simp_all add: moves_only_def)
  then have "beside i m p L j (s\<lparr>tp_dom := snd ?c\<rparr>)" using assms(2) by (simp add: beside_defs tip_obj_def)
  then have "beside i m p L j (tip_update j (\<lambda>w. w\<lparr>tt_tip := Some (fst ?c)\<rparr>) (s\<lparr>tp_dom := snd ?c\<rparr>))"
    by (rule beside_update) (use c(2) assms(2) in \<open>simp_all add: beside_def\<close>)
  then show ?thesis unfolding z using c(2) assms(2) by (simp add: beside_def)
qed (use assms in \<open>auto simp: tip_tip_def beside_defs\<close>)

lemma beside_arrow:
  assumes "moves_only J V" "beside i m p L j s"
  shows "beside i m p L j (snd (tip_arrow J j s))"
proof (cases "tt_arrow (tip_obj s j)")
  case None
  obtain tip z where "tip_tip J j s = (tip, z)" by (cases "tip_tip J j s")
  with beside_tip [OF assms this] None show ?thesis
    by (auto simp: tip_arrow_def Let_def intro!: beside_update) (auto simp: beside_def)
qed (use assms in \<open>simp add: tip_arrow_def\<close>)

lemma beside_replaceArrow: "moves_only J V \<Longrightarrow> beside i m p L j s \<Longrightarrow> beside i m p L j (replaceArrow J j delta dm pos s)"
  using beside_arrow [of J V i m p L j s] by (simp add: replaceArrow_def split_beta Let_def)

lemma beside_applyPlacement:
  assumes J: "jquery_ok J" "moves_only J V" and b: "beside i m p L j s"
  shows "beside i m p L j (applyPlacement J V j offset placement s)"
proof -
  obtain tip z where t: "tip_tip J j s = (tip, z)" by (cases "tip_tip J j s")
  note z = beside_tip [OF J(2) b t]
  define x where "x = tip_change (\<lambda>d. jq_addClass J tip ''in'' (jq_addClass J tip placement d)) (set_offset tip offset z)"
  have "spares m (\<lambda>d. jq_addClass J tip ''in'' (jq_addClass J tip placement d))"
    using z by (intro spares_comp [OF spares_jquery(1) spares_jquery(1)] J(1)) simp_all
  then have x: "beside i m p L j x" unfolding x_def using z by (intro beside_change) simp_all
  obtain w h where sz: "tip_size V tip z = (w, h)" by (cases "tip_size V tip z")
  obtain aw ah where sx: "tip_size V tip x = (aw, ah)" by (cases "tip_size V tip x")
  show ?thesis unfolding applyPlacement_def t Let_def prod.case sz x_def [symmetric] sx
    using beside_replaceArrow [OF J(2)] x by (simp add: split_beta)
qed

lemma beside_show:
  assumes J: "jquery_ok J" "quiet J" "moves_only J V" "text_ok V" and b: "beside i m p L j s"
  shows "beside i m p L j (snd (tip_show J V T j s))"
proof -
  obtain tip z where t: "tip_tip J j s = (tip, z)" by (cases "tip_tip J j s")
  have z: "beside i m p L j z" "m \<notin> set tip" using beside_tip [OF J(3) b t] by simp_all
  note sp = spares_jquery [OF J(1) z(2)] spares_moves [OF J(3) z(2)] spares_setContent [OF J(1,4) z(2)]
  show ?thesis
  proof (cases "tt_element (tip_obj s j) = None \<or> tt_options (tip_obj s j) = None")
    case True
    then show ?thesis using b by (auto simp: tip_show_def split: option.split)
  next
    case False
    then obtain n opts where n: "tt_element (tip_obj s j) = Some n" "tt_options (tip_obj s j) = Some opts" by auto
    define y where "y = (if to_animation opts then tip_change (jq_addClass J tip ''fade'') (tip_change (setContent J V T opts tip n) z)
      else tip_change (setContent J V T opts tip n) z)"
    have y: "beside i m p L j y" using z by (simp add: y_def beside_change sp)
    define x where "x = tip_change (\<lambda>d. jq_css J tip ''display'' (Css ''block'') (jq_css J tip ''left'' (Px 0) (jq_css J tip ''top'' (Px 0) (jq_remove J tip d)))) y"
    have x: "beside i m p L j x" unfolding x_def by (rule beside_change [OF spares_comp [OF sp(4) spares_comp [OF sp(4) spares_comp [OF sp(4) sp(3)]]] y])
    define v where "v = tip_change (if to_container opts \<noteq> [] then tv_append V (to_container opts) tip else jq_insertAfter J tip [n])
      (x\<lparr>tp_offset := upd_nodes tip (\<lambda>_. None) (tp_offset x)\<rparr>)"
    have v: "beside i m p L j v" unfolding v_def using x by (intro beside_change) (simp_all add: sp)
    show ?thesis unfolding tip_show_def n option.case prod.case trigger_quiet [OF J(2)] t Let_def y_def [symmetric] x_def [symmetric] v_def [symmetric]
      using beside_applyPlacement [OF J(1,3) v] b by simp
  qed
qed

lemma beside_removeWithAnimation: "m \<notin> set tip \<Longrightarrow> beside i m p L j s \<Longrightarrow> beside i m p L j (removeWithAnimation tip s)"
  by (auto simp: removeWithAnimation_def set_timer_def beside_defs tip_obj_def)

lemma beside_hide:
  assumes J: "jquery_ok J" "quiet J" "moves_only J V" and b: "beside i m p L j s"
  shows "beside i m p L j (snd (snd (tip_hide J j s)))"
proof -
  obtain tip z where t: "tip_tip J j s = (tip, z)" by (cases "tip_tip J j s")
  have z: "beside i m p L j z" "m \<notin> set tip" using beside_tip [OF J(3) b t] by simp_all
  note sp = spares_jquery [OF J(1) z(2)]
  show ?thesis unfolding tip_hide_def t Let_def prod.case trigger_quiet [OF J(2)]
    by (simp add: beside_change sp z beside_removeWithAnimation split: option.split)
qed

lemma beside_toggle:
  assumes J: "jquery_ok J" "quiet J" "moves_only J V" "text_ok V" and b: "beside i m p L j s"
  shows "beside i m p L j (snd (tip_toggle J V T j s))"
proof -
  obtain tip z where t: "tip_tip J j s = (tip, z)" by (cases "tip_tip J j s")
  have "beside i m p L j z" using beside_tip [OF J(3) b t] by simp
  then show ?thesis using beside_show [OF J] beside_hide [OF J(1-3)] by (simp add: tip_toggle_def t)
qed

lemma js_then_snd: "P (snd r) \<Longrightarrow> (\<And>s. P s \<Longrightarrow> P (snd (f s))) \<Longrightarrow> P (snd (js_then r f))"
  by (cases r; cases "fst r") (auto simp: js_then_def)

lemma beside_validate:
  assumes J: "jquery_ok J" "quiet J" "moves_only J V" and b: "beside i m p L j s"
  shows "beside i m p L j (snd (tip_validate J j s))"
proof -
  have "beside i m p L j (snd (js_then (snd (tip_hide J j s)) (\<lambda>s. (None, tip_update j (\<lambda>w. w\<lparr>tt_element := None, tt_options := None\<rparr>) s))))"
    by (rule js_then_snd [where P = "beside i m p L j", OF beside_hide [OF J b]], unfold snd_conv, erule beside_update) (use b in \<open>simp_all add: beside_def\<close>)
  then show ?thesis using b by (simp add: tip_validate_def split: option.split)
qed

lemma beside_destroy:
  assumes J: "jquery_ok J" "quiet J" "moves_only J V" and b: "beside i m p L j s"
  shows "beside i m p L j (snd (tip_destroy J j s))"
proof -
  have "beside i m p L j (snd (snd (tip_hide J j s)))" using beside_hide [OF J b] .
  moreover have "beside i m p L j (z\<lparr>tp_handlers := filter (\<lambda>(m, _). m \<noteq> n) (tp_handlers z), tp_data := (tp_data z)(n := None)\<rparr>)"
    if "beside i m p L j z" for z n
    using that by (auto simp: beside_defs tip_obj_def)
  ultimately show ?thesis by (auto simp: tip_destroy_def split: prod.split option.split bool.split)
qed

lemma beside_stays: "beside i m p L j s \<Longrightarrow> stays i m p L s"
  by (simp add: beside_def)

lemma stays_beside: "stays i m p L s \<Longrightarrow> k \<noteq> i \<Longrightarrow> k < L \<Longrightarrow> beside i m p L k s"
  by (simp add: beside_def stays_def)

text \<open>Objects that are made: their elements and handlers lead to them.\<close>

lemma trigger_handlers_obj: "(k, ev, act, j) \<in> set (trigger_handlers n l t) \<Longrightarrow> j = l"
  by (auto simp: trigger_handlers_def split: if_splits)

lemma stays_init:
  assumes J: "jquery_ok J" and s: "stays i m p L s" and t: "tip_init J T data f n s = (j, z)"
  shows "beside i m p L j z \<and> j = length (tp_objs s)"
proof -
  let ?opts = "getOptions T data f n"
  let ?w = "\<lparr>tt_element = Some n, tt_options = Some ?opts, tt_enabled = True,
     tt_sub = (if to_selector ?opts \<noteq> [] then Some (?opts\<lparr>to_trigger := ''manual'', to_selector := []\<rparr>) else None),
     tt_tip = None, tt_arrow = None, tt_hover = [], tt_timeout = None\<rparr>"
  define x where "x = s\<lparr>tp_objs := tp_objs s @ [?w], tp_handlers := tp_handlers s @
     concat (map (trigger_handlers n (length (tp_objs s))) (rev (split_units (CHR '' '') (to_trigger ?opts))))\<rparr>"
  have j: "j = length (tp_objs s)" "z = (if to_selector ?opts \<noteq> [] then x else tip_change (fixTitle J n) x)"
    using t unfolding tip_init_def Let_def x_def by (simp_all split: if_splits)
  have timers: "timer_spares i m (Suc l) y" if "timer_spares i m l y" for l y using that by (cases y) simp_all
  have objs: "tt_tip (tip_obj x l) = Some u \<Longrightarrow> l < length (tp_objs s) \<and> tt_tip (tip_obj s l) = Some u" if "l < length (tp_objs x)" for l u
    using that by (auto simp: x_def tip_obj_def nth_append split: if_splits)
  have "only_at None i m x"
    unfolding only_at_def
  proof (intro conjI)
    show "\<forall>l < length (tp_objs x). l \<noteq> i \<longrightarrow> (\<forall>t. tt_tip (tip_obj x l) = Some t \<longrightarrow> m \<notin> set t)"
      using s objs by (auto simp: beside_defs)
    show "\<forall>(k, ev, act, l) \<in> set (tp_handlers x). l < length (tp_objs x) \<and> (l = i \<longrightarrow> Some k = None)"
      using s by (auto simp: beside_defs x_def dest!: trigger_handlers_obj)
    show "\<forall>k j. tp_data x k = Some j \<longrightarrow> j < length (tp_objs x) \<and> (j = i \<longrightarrow> Some k = None)"
      using s by (auto simp: beside_defs x_def intro: less_SucI)
  qed (use s in \<open>auto simp: beside_defs x_def\<close>)
  then have "beside i m p L (length (tp_objs s)) x"
    using s timers by (auto simp: beside_defs x_def)
  then show ?thesis unfolding j using beside_change [OF spares_fixTitle [OF J]] by simp
qed

lemma stays_make:
  assumes J: "jquery_ok J" and s: "stays i m p L s" and t: "tip_make J T data f n s = (j, z)"
  shows "beside i m p L j z"
proof (cases "tp_data s n")
  case None
  obtain k y where y: "tip_init J T data f n s = (k, y)" by (cases "tip_init J T data f n s")
  have z: "j = k" "z = y\<lparr>tp_data := (tp_data y)(n \<mapsto> k)\<rparr>" using t None y by (auto simp: tip_make_def)
  show ?thesis unfolding z using stays_init [OF J s y] by (auto simp: beside_defs tip_obj_def)
next
  case (Some k)
  then show ?thesis using s t by (auto simp: tip_make_def beside_defs)
qed

lemma beside_delayed:
  assumes "beside i m p L j s" "k \<noteq> i" "k < length (tp_objs s)"
  shows "beside i m p L j (tip_delayed k j hover s)"
proof -
  let ?u = "tip_update j (\<lambda>w. w\<lparr>tt_hover := hover\<rparr>) (clear_timer (tt_timeout (tip_obj s k)) s)"
  have "j \<noteq> i" "j < length (tp_objs s)" using assms(1) by (simp_all add: beside_def)
  moreover have "length (tp_objs (clear_timer t s)) = length (tp_objs s)" for t by (simp add: clear_timer_def split: option.split)
  ultimately have "beside i m p L j (snd (set_timer (Timer_hover j hover) ?u))"
    by (intro beside_set_timer beside_update beside_clear assms(1)) simp_all
  then show ?thesis unfolding tip_delayed_def Let_def split_beta by (rule beside_update) (use assms(2) in simp_all)
qed

text \<open>Handlers of other objects, methods, timers and ends of transitions.\<close>

lemma stays_handler:
  assumes J: "jquery_ok J" "quiet J" "moves_only J V" "text_ok V" and s: "stays i m p L s" and a: "a \<noteq> i" "a < L"
  shows "stays i m p L (snd (tip_handler J V T data target (act, a) s))"
proof -
  have len: "a < length (tp_objs z)" if "beside i m p L j z" for j z using that a(2) by (simp add: beside_def stays_def)
  have make: "beside i m p L j z" if "tip_make J T data f target s = (j, z)" for f j z using stays_make [OF J(1) s that] .
  show ?thesis
  proof (cases act)
    case Act_enter
    obtain j z where m: "tip_make J T data (case tt_sub (tip_obj s a) of None \<Rightarrow> id | Some sub \<Rightarrow> changed_options T sub) target s = (j, z)"
      by (metis prod.collapse)
    note b = make [OF m]
    show ?thesis using b beside_stays [OF beside_show [OF J b]] beside_stays [OF beside_delayed [OF b a(1) len [OF b]]] beside_stays [OF b]
      unfolding tip_handler_def Act_enter prod.case tip_action.case tip_enter_def Let_def m by (simp split: option.split)
  next
    case Act_leave
    obtain j z where m: "tip_make J T data (case tt_sub (tip_obj s a) of None \<Rightarrow> id | Some sub \<Rightarrow> \<lambda>_. sub) target s = (j, z)"
      by (metis prod.collapse)
    have b: "beside i m p L j (clear_timer (tt_timeout (tip_obj z a)) z)" using beside_clear [OF make [OF m]] .
    show ?thesis using b beside_stays [OF beside_hide [OF J(1-3) b]] beside_stays [OF beside_delayed [OF b a(1) len [OF b]]] beside_stays [OF b]
      unfolding tip_handler_def Act_leave prod.case tip_action.case tip_leave_def Let_def m by (simp split: option.split)
  next
    case Act_toggle
    obtain j z where m: "tip_make J T data (case tt_sub (tip_obj s a) of None \<Rightarrow> id | Some sub \<Rightarrow> \<lambda>_. sub) target s = (j, z)"
      by (metis prod.collapse)
    show ?thesis using beside_stays [OF beside_toggle [OF J make [OF m]]]
      unfolding tip_handler_def Act_toggle prod.case tip_action.case tip_click_def Let_def m by simp
  qed
qed

lemma beside_method:
  assumes J: "jquery_ok J" "quiet J" "moves_only J V" "text_ok V" and b: "beside i m p L j s"
  shows "beside i m p L j (snd (tip_method J V T name j s))"
proof -
  obtain tip z where t: "tip_tip J j s = (tip, z)" by (cases "tip_tip J j s")
  note z = beside_tip [OF J(3) b t]
  have j: "j \<noteq> i" "j < length (tp_objs s)" using b by (simp_all add: beside_def)
  have up: "beside i m p L j (tip_update j (\<lambda>w. w\<lparr>tt_enabled := f w\<rparr>) s)" for f
    by (rule beside_update [OF b j(1)]) simp
  have fixed: "beside i m p L j (tip_change (fixTitle J n) s)" for n by (rule beside_change [OF spares_fixTitle [OF J(1)] b])
  have content: "beside i m p L j (tip_change (setContent J V T opts tip n) z)" for opts n
    using z by (intro beside_change spares_setContent J) simp_all
  show ?thesis
    using b beside_show [OF J b] beside_hide [OF J(1-3) b] beside_toggle [OF J b] up fixed content beside_validate [OF J(1-3) b]
      beside_destroy [OF J(1-3) b] z beside_arrow [OF J(3) b]
    unfolding tip_method_def t by (simp split: option.split)
qed

lemma stays_step:
  assumes J: "jquery_ok J" "quiet J" "moves_only J V" "text_ok V" and s: "stays i m p L s" and L: "L = length (tp_objs s)"
  shows "stays i m p L (snd (tip_step J V T data e s))"
proof (cases e)
  case (Tip_call arg S)
  have "stays i m p L (snd (tip_plugin1 J V T data arg n z))" if "stays i m p L z" for n z
  proof -
    obtain j y where y: "tip_make J T data (case arg_object arg of None \<Rightarrow> id | Some f \<Rightarrow> f) n z = (j, y)" by (metis prod.collapse)
    note b = stays_make [OF J(1) that y]
    show ?thesis unfolding tip_plugin1_def y prod.case Let_def
      using beside_stays [OF b] beside_stays [OF beside_method [OF J b]] by (simp split: plugin_arg.split)
  qed
  then show ?thesis unfolding Tip_call tip_step.simps tip_plugin_def by (rule jq_each_invariant [where P = "stays i m p L", OF _ s])
next
  case (Tip_event ev n target)
  let ?hs = "map (\<lambda>(_, _, a, i). (a, i)) (filter (\<lambda>(m, e, _). m = n \<and> e = ev) (tp_handlers s))"
  have "\<forall>h \<in> set ?hs. snd h \<noteq> i \<and> snd h < L" using s by (auto simp: beside_defs L)
  then have "stays i m p L (snd (jq_each (tip_handler J V T data target) hs z))" if "stays i m p L z" "set hs \<subseteq> set ?hs" for hs z
    using that
  proof (induction hs arbitrary: z)
    case (Cons h hs)
    have "stays i m p L (snd (tip_handler J V T data target h z))"
      using stays_handler [OF J Cons.prems(2), of "snd h" T data target "fst h"] Cons.prems by auto
    then show ?case using Cons by (auto simp: js_then_def split: prod.split option.split)
  qed simp
  then show ?thesis using s unfolding Tip_event by simp
next
  case (Tip_timeout t)
  show ?thesis
  proof (cases "map_of (tp_timers s) t")
    case (Some x)
    then have x: "timer_spares i m (length (tp_objs s)) x" using s by (auto simp: beside_defs dest: map_of_SomeD)
    have c: "stays i m p L (clear_timer (Some t) s)" using s by (auto simp: beside_defs clear_timer_def tip_obj_def)
    show ?thesis
    proof (cases x)
      case (Timer_hover j h)
      then have b: "beside i m p L j (clear_timer (Some t) s)" using c x L by (simp add: stays_beside)
      show ?thesis using beside_stays [OF b] beside_stays [OF beside_show [OF J b]] beside_stays [OF beside_hide [OF J(1-3) b]]
        by (simp add: Tip_timeout tip_timeout_def Some Timer_hover Let_def)
    next
      case (Timer_detach tip)
      have "stays i m p L ((clear_timer (Some t) s)\<lparr>tp_waiting := filter f w\<rparr>)" if "w = tp_waiting s" for f w
        using c that by (auto simp: beside_defs tip_obj_def clear_timer_def)
      moreover have "tp_waiting (clear_timer (Some t) s) = tp_waiting s" by (simp add: clear_timer_def)
      ultimately show ?thesis using x Timer_detach
        by (simp add: Tip_timeout tip_timeout_def Some stays_change spares_jquery(3) [OF J(1)])
    qed
  qed (use s in \<open>simp add: Tip_timeout tip_timeout_def\<close>)
next
  case (Tip_transition_end tip)
  have w: "stays i m p L (s\<lparr>tp_waiting := filter f (tp_waiting s)\<rparr>)" for f using s by (auto simp: beside_defs tip_obj_def)
  have c: "stays i m p L (clear_timer t z)" if "stays i m p L z" for t z
    using that by (auto simp: beside_defs clear_timer_def tip_obj_def split: option.split)
  have "stays i m p L (fold (\<lambda>(u, t) s. tip_change (jq_remove J u) (clear_timer (Some t) s)) ws z)"
    if "stays i m p L z" "\<forall>(u, t) \<in> set ws. m \<notin> set u" for ws z
    using that
  proof (induction ws arbitrary: z)
    case (Cons x ws)
    then show ?case by (cases x) (auto intro!: Cons.IH stays_change c spares_jquery(3) [OF J(1)])
  qed simp
  moreover have "\<forall>(u, t) \<in> set (filter (\<lambda>(u, _). u = tip) (tp_waiting s)). m \<notin> set u"
    using s unfolding stays_def only_at_def by auto
  ultimately show ?thesis using w by (simp add: Tip_transition_end tip_transition_end_def)
qed

lemma stays_run:
  assumes J: "jquery_ok J" "quiet J" "moves_only J V" "text_ok V" and s: "stays i m p L s"
  shows "shown_at m p (tp_dom (tip_run J V T data es s))"
proof -
  have "\<exists>L. stays i m p L (tip_run J V T data es s)" using s
  proof (induction es rule: rev_induct)
    case (snoc e es)
    then obtain L where "stays i m p L (tip_run J V T data es s)" by blast
    then have "stays i m p (length (tp_objs (tip_run J V T data es s))) (tip_run J V T data es s)" by (simp add: stays_def)
    from stays_step [OF J this refl] show ?case by (auto simp: tip_run_def simp del: tip_step.simps)
  qed (auto simp: tip_run_def)
  then show ?thesis by (auto simp: stays_def)
qed

text \<open>C40. A tooltip comes back: the mouse enters an element whose tooltip shows with a delay, and the tooltip is destroyed before the delay is over. The
timer shows it all the same. The element has neither its object nor any handler by then, and whatever happens later, on this element or
on others (events, calls of the plugin, timers, ends of transitions, in any order), the tip stays in view behind its element, since nothing leads to its object any more.
The tooltip has a title, no option \<open>container\<close>, and no timer runs before.
The tip may have been made before, or is made when it is destroyed; where the browser has transitions, it does not fade then, as a tip that was not shown yet. Handlers of
the page do not change it themselves, and prevent nothing.\<close>

theorem tooltip_outlives_destroy:
  assumes J: "jquery_ok J" "quiet J" "permissive J" "moves_only J V" and V: "text_ok V"
    and w: "tt_element (tip_obj s i) = Some n" "tt_options (tip_obj s i) = Some opts" "tt_enabled (tip_obj s i)"
      "tt_sub (tip_obj s i) = None" "i < length (tp_objs s)"
    and opts: "delay_show (to_delay opts) \<noteq> 0" "to_title opts = Text (c # t)" "to_container opts = []"
    and s: "tp_data s n = Some i" "filter (\<lambda>(k, e, _). k = n \<and> e = ''mouseenter'') (tp_handlers s) = [(n, ''mouseenter'', Act_enter, i)]" "tp_timers s = []"
    and tip: "tip_tip J i s = ([m], s0)" "only_at (Some n) i m s0" "\<not> has_transition J \<or> ''fade'' \<notin> classes (tp_dom s0) m"
    and d: "parent_of (tp_dom s0) n = Some p" "n \<noteq> m"
  shows "let u = tip_run J V T data [Tip_event ''mouseenter'' n n, Tip_call (Arg_name ''destroy'') [n], Tip_timeout (tp_next s)] s;
       v = tip_run J V T data es u
     in tp_data u n = None \<and> filter (\<lambda>(k, _). k = n) (tp_handlers u) = [] \<and> ''in'' \<in> classes (tp_dom v) m \<and> parent_of (tp_dom v) m = Some p"
proof -
  note o = tip_tip_obj [OF tip(1) w(5)]
  define s1 where "s1 = tip_delayed i i ''in'' s"
  define z1 where "z1 = tip_delayed i i ''in'' s0"
  have i: "i < length (tp_objs s0)" using w(5) o(7) by simp
  note z1 = tip_delayed_page [OF i, where hover = "''in''", folded z1_def]
  have z1o: "tip_obj z1 i = (tip_obj s i)\<lparr>tt_tip := Some [m], tt_hover := ''in'', tt_timeout := Some (tp_next s)\<rparr>" using z1(1) o(1,6) by simp
  have step1: "snd (tip_step J V T data (Tip_event ''mouseenter'' n n) s) = s1"
    using w(2,4) s(1,2) opts(1) by (simp add: tip_handler_def tip_enter_def tip_make_def s1_def)
  define s2 where "s2 = z1\<lparr>tp_dom := dom_detach [m] (dom_removeClass [m] ''in'' (tp_dom z1)),
     tp_handlers := filter (\<lambda>(k, _). k \<noteq> n) (tp_handlers z1), tp_data := (tp_data z1)(n := None)\<rparr>"
  have "tip_destroy J i s1 = (None, s2)"
    unfolding s2_def by (rule tip_destroy_eq [OF J(1-3) _ tip_tip_delayed [OF tip(1) w(5), of "''in''", folded s1_def z1_def]])
      (use tip(3) z1(4) z1o w(1) in simp_all)
  moreover have "tp_data s1 n = Some i" using s(1) tip_delayed_page(2) [OF w(5)] by (simp add: s1_def)
  ultimately have step2: "snd (tip_step J V T data (Tip_call (Arg_name ''destroy'') [n]) s1) = s2"
    by (simp add: tip_plugin_def tip_plugin1_def tip_make_def tip_method_def)
  define s3 where "s3 = clear_timer (Some (tp_next s)) s2"
  have f3: "tip_obj s3 i = tip_obj z1 i" "tp_data s3 n = None" "parent_of (tp_dom s3) n = Some p" "tp_timers s2 = [(tp_next s, Timer_hover i ''in'')]"
      "tp_timers s3 = []" "length (tp_objs s3) = length (tp_objs s0)" "fresh_node (tp_dom s3) = fresh_node (tp_dom s0)"
      "tp_waiting s3 = tp_waiting s0" "tp_handlers s3 = filter (\<lambda>(k, _). k \<noteq> n) (tp_handlers s0)" "tp_data s3 = (tp_data s0)(n := None)"
      "j \<noteq> i \<Longrightarrow> tip_obj s3 j = tip_obj s0 j" for j
    using d z1(2-8) s(3) o(5,6) by (simp_all add: s3_def s2_def clear_timer_def dom_detach_def upd_nodes_def tip_obj_def z1_def)
  have "getTitle J opts e n \<noteq> []" for e using opts(2) by (simp add: getTitle_def split: option.split list.split)
  then have "hasContent J T opts e n" for e by (simp add: hasContent_def popover_hasContent_def split: tip_type.split)
  then obtain u where u: "tip_show J V T i s3 = (None, u)" "tp_data u = tp_data s3" "''in'' \<in> classes (tp_dom u) m"
      "parent_of (tp_dom u) = (parent_of (tp_dom s3))(m \<mapsto> p)" "fresh_node (tp_dom u) = fresh_node (tp_dom s3)" "only_object i s3 u"
    using tip_show_page [OF J(1-3) V, of s3 i n opts m T p] w z1o f3(1,3) opts(3) d(2) by auto
  have step3: "snd (tip_step J V T data (Tip_timeout (tp_next s)) s2) = u"
    using u(1) f3(1) z1o by (simp add: tip_timeout_def f3(4) s3_def [symmetric])
  have run: "tip_run J V T data [Tip_event ''mouseenter'' n n, Tip_call (Arg_name ''destroy'') [n], Tip_timeout (tp_next s)] s = u"
    by (simp add: tip_run_def step1 step2 step3 del: tip_step.simps)
  have "stays i m p 0 u"
    using u(2-6) f3 tip(2) i unfolding stays_def only_object_def only_at_def timers_spare_def shown_at_def by (auto split: if_splits)
  from stays_run [OF J(1,2,4) V this, of T data es] show ?thesis
    using u(2,6) f3(2,9) unfolding run Let_def by (auto simp: shown_at_def only_object_def filter_empty_conv)
qed

text \<open>In a browser with transitions, the tip of an element that is not made yet; later the mouse leaves the element and the plugin is called on it.\<close>

definition unmade_tip :: tip_page where
  "unmade_tip = example_tip\<lparr>tp_objs := map (\<lambda>w. w\<lparr>tt_tip := None\<rparr>) (tp_objs example_tip)\<rparr>"

lemma unmade_tip_simps:
  "tip_obj unmade_tip 0 = \<lparr>tt_element = Some 1, tt_options = Some (tooltip_defaults\<lparr>to_title := Text ''Hi'', to_delay := Delay_pair 500 100\<rparr>),
     tt_enabled = True, tt_sub = None, tt_tip = None, tt_arrow = Some [3], tt_hover = [], tt_timeout = None\<rparr>"
  "length (tp_objs unmade_tip) = 1" "tp_data unmade_tip = [1 \<mapsto> 0]" "tp_next unmade_tip = 0" "tp_timers unmade_tip = []" "tp_waiting unmade_tip = []"
  "tp_handlers unmade_tip = [(1, ''mouseenter'', Act_enter, 0), (1, ''mouseleave'', Act_leave, 0)]"
  "fresh_node (tp_dom unmade_tip) = 4" "parent_of (tp_dom unmade_tip) = [1 \<mapsto> 0, 3 \<mapsto> 2]"
  by (simp_all add: unmade_tip_def example_tip_def tip_obj_def)

theorem tooltip_outlives_destroy_witness:
  "let J = jquery_instance (Some ''transitionend'') (\<lambda>_ _ _. False);
       u = tip_run J example_layout Type_tooltip (\<lambda>_. id) [Tip_event ''mouseenter'' 1 1, Tip_call (Arg_name ''destroy'') [1], Tip_timeout 0] unmade_tip;
       v = tip_run J example_layout Type_tooltip (\<lambda>_. id) [Tip_event ''mouseleave'' 1 1, Tip_call (Arg_name ''hide'') [1], Tip_timeout 1] u
   in tp_data u 1 = None \<and> filter (\<lambda>(k, _). k = 1) (tp_handlers u) = [] \<and> ''in'' \<in> classes (tp_dom v) 4 \<and> parent_of (tp_dom v) 4 = Some 0"
proof -
  let ?J = "jquery_instance (Some ''transitionend'') (\<lambda>_ _ _. False)"
  have "d = d\<lparr>html_of := html_of d\<rparr>" for d :: dom by (cases d) simp
  then have "\<exists>h. d = d\<lparr>html_of := h\<rparr>" for d :: dom by blast
  then have V: "text_ok example_layout" by (simp add: text_ok_def example_layout_def)
  have M: "moves_only ?J example_layout"
    by (simp add: moves_only_def jquery_instance_def create_menu_def create_item_def Let_def example_layout_def dom_insertAfter_def dom_detach_def upd_nodes_def
      split: list.split option.split)
  define d where "d = snd (create_item (tp_dom unmade_tip))"
  define s0 where "s0 = tip_update 0 (\<lambda>w. w\<lparr>tt_tip := Some [4]\<rparr>) (unmade_tip\<lparr>tp_dom := d\<rparr>)"
  have "tooltip_template \<noteq> menu_markup" by (simp add: tooltip_template_def menu_markup_def)
  then have "jq_create ?J tooltip_template (tp_dom unmade_tip) = ([4], d)"
    by (simp add: jquery_instance_def d_def) (simp add: create_item_def Let_def unmade_tip_simps)
  then have tip: "tip_tip ?J 0 unmade_tip = ([4], s0)"
    by (simp add: tip_tip_def unmade_tip_simps tooltip_defaults_def s0_def)
  have d: "classes d 4 = {}" "parent_of d 1 = Some 0" "parent_of d (Suc 0) = Some 0" "fresh_node d = 6" by (simp_all add: d_def create_item_def Let_def unmade_tip_simps)
  have own: "only_at (Some 1) 0 4 s0" by (auto simp: only_at_def s0_def d unmade_tip_simps)
  show ?thesis
    using tooltip_outlives_destroy [OF jquery_instance_ok jquery_instance_quiet jquery_instance_permissive M V _ _ _ _ _ _ _ _ _ _ _ tip own, where
        opts = "tooltip_defaults\<lparr>to_title := Text ''Hi'', to_delay := Delay_pair 500 100\<rparr>" and p = 0 and T = Type_tooltip and data = "\<lambda>_. id" and
        c = "CHR ''H''" and t = "''i''" and es = "[Tip_event ''mouseleave'' 1 1, Tip_call (Arg_name ''hide'') [1], Tip_timeout 1]"]
    by (simp add: unmade_tip_simps delay_show_def tooltip_defaults_def s0_def d Let_def del: tip_step.simps)
qed


text \<open>Destroying an element's tooltip hides it first, and a call of \<open>hide\<close> that the page prevents returns nothing: the
method throws, and the element keeps its object and its handlers.\<close>

theorem tip_destroy_prevented:
  assumes "tt_element (tip_obj s i) = Some n" "tt_tip (tip_obj s i) = Some tip" "fst (jq_trigger J ''hide'' [n] (tp_dom s))"
  shows "\<exists>u. tip_destroy J i s = (Some TypeError, u) \<and> tp_data u = tp_data s \<and> tp_handlers u = tp_handlers s \<and> tp_objs u = tp_objs s"
proof -
  obtain e where "jq_trigger J ''hide'' [n] (tp_dom s) = (True, e)" using assms(3) by (metis prod.collapse)
  then show ?thesis using assms(1,2) by (simp add: tip_destroy_def tip_hide_def tip_trigger_def Let_def)
qed

theorem tip_destroy_prevented_witness:
  "fst (tip_destroy (jquery_instance None (\<lambda>e _ _. e = ''hide'')) 0 example_tip) = Some TypeError"
proof -
  let ?J = "jquery_instance None (\<lambda>e _ _. e = ''hide'')"
  have "fst (jq_trigger ?J ''hide'' [1] (tp_dom example_tip))" by (simp add: jquery_instance_def)
  from tip_destroy_prevented [OF _ _ this, where i = 0 and tip = "[2]"] show ?thesis
    by (auto simp: example_tip_def tip_obj_def)
qed

end
