(* ===== verification/Spec2Isabelle.thy ===== *)
theory Spec2Isabelle
  imports Script_Eval CheckQueue Coins Coins_View Inputs Merkle Standard Connect_Properties Affix Typeahead ScrollSpy Carousel_Behaviour Collapse Modal Dropdown Tab Tooltip_Behaviour
begin

text \<open>
  A model of two programs of the repository: the node's core, in C++ under \<open>src/src\<close>, and the widgets of the web
  interface of the mining pool, in the JavaScript file \<open>contrib/p2pool/web-static/js/bootstrap.js\<close>. Each theory
  models one component; every definition carries the name of the function, class or field it translates, with the
  prefix of its class where names clash. The file \<open>PROJECT.json\<close> beside the development names the lines.

  \<^bold>\<open>The node.\<close> Bytes are words of 8 bits, hashes and the integers of the protocol words of their width, \<open>int64_t\<close> amounts
  are integers with the wrap-around written out (\<open>wrap64\<close>), byte strings and vectors are lists. What throws or returns
  \<open>false\<close> is an option or a sum. OpenSSL (the hashes, the curve, the big numbers' multi-precision format) is the
  record \<open>openssl\<close>, a parameter; \<open>reference_ssl\<close> instantiates it in the witnesses.

  \<^item> \<open>Manna_Prelude\<close>: wrap-around, little-endian bytes, facts on lists that the others share.
  \<^item> \<open>Serialization\<close> (\<open>serialize.h\<close>): compact sizes, variable length integers, words, byte vectors. The locale \<open>codec\<close> is the
    contract of a serializer and its reader, \<open>codec_pair\<close> that of two in sequence and of vectors; every class that is
    serialized interprets it.
  \<^item> \<open>BigNum\<close>, \<open>Key\<close> (\<open>bignum.h\<close>, \<open>key.h\<close>, \<open>hash.h\<close>): the conversions of \<open>CBigNum\<close>, public keys, hashes.
  \<^item> \<open>Script_Syntax\<close>, \<open>Script_Check\<close>, \<open>Script_Eval\<close> (\<open>script.h\<close>, \<open>script.cpp\<close>): scripts as bytes, \<open>GetOp\<close>, signature operation
    counts, signature hashes, the signature cache, and the interpreter with all opcodes. Its loop recurs on the bytes that
    are left. The locale \<open>sig_checker\<close> is what the interpreter relies on of the signature check, interpreted on \<open>CheckSig\<close>
    with its cache.
  \<^item> \<open>CheckQueue\<close> (\<open>checkqueue.h\<close>): the worker threads that execute the script checks of a block, and their master, as an inductive step
    relation: a critical section or one check is a step.
  \<^item> \<open>Tx\<close> (\<open>main.h\<close>, \<open>main.cpp\<close>): transactions, their serialization, \<open>CheckTransaction\<close>, replacement.
  \<^item> \<open>Compressor\<close>, \<open>Coins\<close>: the compressed outputs, the entries of the coin database and the undo records.
  \<^item> \<open>Coins_View\<close> (\<open>main.cpp\<close>, \<open>txdb.cpp\<close>): database, caches over caches, the view with the memory pool. The locale
    \<open>coins_reader\<close> is what a cache relies on of the view below it, \<open>coins_store\<close> adds what may be stored, and \<open>coins_backend\<close> that batches can be
    written; the database meets it, and a cache over any view that meets it does.
  \<^item> \<open>Inputs\<close> (\<open>main.cpp\<close>): a transaction against a view: \<open>HaveInputs\<close>, \<open>CheckInputs\<close> with its script checks, \<open>UpdateCoins\<close>. The
    locale \<open>chain_backend\<close> extends \<open>coins_backend\<close> by what spending needs, for any stack of caches; the function \<open>utxo\<close>
    from outpoints to unspent outputs is the abstract view.
  \<^item> \<open>Standard\<close> (\<open>script.cpp\<close>, \<open>main.cpp\<close>): the standard forms of outputs and transactions: \<open>Solver\<close> with its templates, \<open>IsStandard\<close>,
    \<open>ExtractDestination\<close>.
  \<^item> \<open>Merkle\<close> (\<open>main.h\<close>, \<open>main.cpp\<close>): the merkle tree of a block, branches and their check, partial merkle trees.
  \<^item> \<open>Block\<close> (\<open>main.h\<close>, \<open>main.cpp\<close>): headers and blocks, proof of work, the signature of a block, \<open>CheckBlock\<close>.
  \<^item> \<open>Chain\<close> (\<open>main.h\<close>, \<open>manna.cpp\<close>): entries of the block index, trust, median times, rewards, the target of the next block.
  \<^item> \<open>Connect\<close>, \<open>Connect_Behaviour\<close>, \<open>Connect_Properties\<close> (\<open>main.cpp\<close>): \<open>ConnectBlock\<close> and \<open>DisconnectBlock\<close>, what they do to the unspent
    outputs over any view (the locale \<open>undo_backend\<close> extends \<open>chain_backend\<close> by what restoring a spent output needs), and their properties on the
    views of the program.

  \<^bold>\<open>The widgets.\<close> A widget is a record of the fields of its object, with its timers and the handlers that wait for an
  event; its operations take and return it together with the page. User events, timers and the ends of transitions are
  the events of a step function, and properties \<open>over any events\<close> are about any sequence of them. A thrown error is a
  value (\<open>js_result\<close>, or \<open>Throws\<close> where the value returned matters as well). The plugin functions
  (\<open>$.fn.carousel\<close> and so on) map the elements they are called on to objects, a partial function from elements.

  \<^item> \<open>Js_Strings\<close>: \<open>toLowerCase\<close>, \<open>indexOf\<close>, class names, the regular expressions of the file as matchers.
  \<^item> \<open>Jquery\<close>: the page (\<open>dom\<close>) and jQuery, which is not part of the repository, as the record \<open>jquery\<close>. Three hypotheses
    say what a property relies on: \<open>jquery_ok\<close>, the documented effect of the functions called; \<open>quiet\<close>, that handlers of
    other code leave the page as it is; \<open>permissive\<close>, that they prevent no default action. \<open>jquery_instance\<close> meets
    them and runs the witnesses.
  \<^item> \<open>Typeahead\<close>, \<open>Affix\<close>, \<open>ScrollSpy\<close>, \<open>Collapse\<close>, \<open>Modal\<close>, \<open>Dropdown\<close>: one widget each.
  \<^item> \<open>Carousel\<close>, \<open>Carousel_Behaviour\<close>: the carousel, with the proof that its events end, and its properties.
  \<^item> \<open>Tab\<close>: tabs, buttons, alerts, and the test of the browser for transitions.
  \<^item> \<open>Tooltip\<close>, \<open>Tooltip_Behaviour\<close>: tooltips and popovers, which share a prototype. Coordinates are rational
    numbers, because the code halves sizes.

  \<^bold>\<open>What is shown.\<close> For the node:
  \<^item> Scripts: the interpreter with the cache answers as it does without, keeps its limits, and refuses disabled opcodes also where they
    are not executed; what spends the two common forms of output; the loop of \<open>OP_CHECKMULTISIG\<close> finds a matching whenever there is one; the threads
    of the check queue agree on the right verdict whatever their order, and never deadlock; \<open>Solver\<close> recognizes exactly the four standard forms.
  \<^item> Transactions and coins: exactly which transactions \<open>CheckTransaction\<close> accepts, and which \<open>CheckInputs\<close> accepts against a view; \<open>UpdateCoins\<close>
    replaces the spent outputs by the new ones; \<open>Spend\<close> takes the one output it is given; what is written is read back; flushing the stack of views
    moves what it shows into the database.
  \<^item> Blocks: exactly which blocks \<open>CheckBlock\<close> accepts, and what it makes of a block with its last transaction repeated; branches and partial trees of
    the right size prove membership, up to collisions among the hashed pairs; \<open>ConnectBlock\<close> accepts only blocks whose transactions may be applied in turn, and applies them; the
    total of the unspent outputs grows by no more than the reward; \<open>DisconnectBlock\<close> undoes it; how the target follows the time between blocks.

  For the widgets: an invariant of the displayed state over any events (type-ahead box, affix, carousel, modal dialog, collapsing groups), what each
  operation does to the page (sorting and marking of suggestions, tabs with their menus and panes, drop-down menus), and the situations in which a widget of the
  file does not do what it is meant to: a carousel that no later event moves (\<open>held\<close> is the invariant), a dialog hidden while it holds itself shown, a tooltip that
  outlives its destruction and stays whatever happens later (\<open>stays\<close> is the invariant: nothing leads to its object any more).

  \<^bold>\<open>Bounds and fuel.\<close> Two recursions of the widgets pass through handlers of the page. Firing the carousel's event \<open>slid\<close>
  runs handlers that slide and fire it again: \<open>fire_slid\<close> takes fuel, the length of the list of waiting handlers is enough, and any
  more gives the same result (\<open>carousel_fire_ends\<close>). Showing a group of an accordion calls the plugin on the open groups, which calls
  \<open>hide\<close>: one level is enough (\<open>show_fuel_enough\<close>). All other recursions are structural or have a measure.

  \<^bold>\<open>Not modelled.\<close> Of \<open>bootstrap.js\<close>: the functions \<open>noConflict\<close> and the registration of plugins under a name, which change no
  state of a widget; handlers of other code, beyond that they may prevent a default action. Of the node: the choice of the best chain and the reception of
  blocks (\<open>SetBestChain\<close>, \<open>AcceptBlock\<close>, \<open>ProcessBlock\<close>, orphans, the block files), the memory pool and its rules of acceptance, and signing are left for later, in this
  order; the stake kernel, wallet, network, RPC, miner and user interface are input and output around other libraries. LevelDB is a map from
  keys to values with batches.
\<close>

end
